(* ===== verification/Prelude.thy ===== *)
theory Prelude
  imports Main "HOL-Library.Word" "HOL-Library.Monad_Syntax"
begin

text \<open>
  Shared vocabulary of the development: the machine integer types of the C code, checked
  array access, the C conventions for status codes, and the generic lemmas on words and
  lists that the component theories use.

  Conventions. A pointer into an array together with a length is a list (the slice it
  denotes); \<open>rd\<close> and \<open>wr\<close> are single reads and writes through such a pointer, and an access
  outside the slice is \<open>None\<close>. \<open>size_t\<close> and \<open>uint64_t\<close> are 64-bit words, \<open>uint32_t\<close> and
  \<open>unsigned int\<close> are 32-bit words, \<open>uint16_t\<close> is a 16-bit word and \<open>uint8_t\<close> is an 8-bit
  word. The type \<open>int\<close> of C is \<open>int\<close> wherever the code keeps it far from its
  bounds; the theories say so where they do this.
\<close>

type_synonym u8 = "8 word"
type_synonym u16 = "16 word"
type_synonym u32 = "32 word"
type_synonym u64 = "64 word"
type_synonym u128 = "128 word"

named_theorems word_nat_simps \<open>words read as natural numbers\<close>
named_theorems heap_simps \<open>dynamic buffer and memory facts\<close>

unbundle bit_operations_syntax

subsection \<open>Checked array access\<close>

definition rd :: "'a list \<Rightarrow> nat \<Rightarrow> 'a option" where
  "rd xs i = (if i < length xs then Some (xs ! i) else None)"

definition wr :: "'a list \<Rightarrow> nat \<Rightarrow> 'a \<Rightarrow> 'a list option" where
  "wr xs i x = (if i < length xs then Some (xs[i := x]) else None)"

text \<open>\<open>memcpy (dst + off, src, length src)\<close>: the whole destination range must exist.\<close>

definition copy_to :: "'a list \<Rightarrow> nat \<Rightarrow> 'a list \<Rightarrow> 'a list option" where
  "copy_to dst off src =
     (if off + length src \<le> length dst
      then Some (take off dst @ src @ drop (off + length src) dst) else None)"

lemma rd_Some [simp]: "i < length xs \<Longrightarrow> rd xs i = Some (xs ! i)"
  by (simp add: rd_def)

lemma rd_None [simp]: "length xs \<le> i \<Longrightarrow> rd xs i = None"
  by (simp add: rd_def)

lemma wr_Some [simp]: "i < length xs \<Longrightarrow> wr xs i x = Some (xs[i := x])"
  by (simp add: wr_def)

lemma wr_length: "wr xs i x = Some ys \<Longrightarrow> length ys = length xs"
  by (auto simp: wr_def split: if_splits)

lemma copy_to_length: "copy_to dst off src = Some d \<Longrightarrow> length d = length dst"
  by (auto simp: copy_to_def split: if_splits)

lemma copy_to_Some [simp]:
  "off + length src \<le> length dst
   \<Longrightarrow> copy_to dst off src = Some (take off dst @ src @ drop (off + length src) dst)"
  by (simp add: copy_to_def)

lemma copy_to_take:
  "copy_to dst off src = Some d \<Longrightarrow> take (off + length src) d = take off dst @ src"
  by (auto simp: copy_to_def split: if_splits)

subsection \<open>C strings\<close>

text \<open>
  A C string in memory is a byte array that holds a zero byte; its text is what comes
  before the first one. \<open>strlen\<close> runs off an array without a zero byte: \<open>None\<close>.
\<close>

fun strlen :: "u8 list \<Rightarrow> nat option" where
  "strlen [] = None"
| "strlen (c # cs) = (if c = 0 then Some 0 else map_option Suc (strlen cs))"

definition cstr :: "u8 list \<Rightarrow> u8 list" where
  "cstr s = takeWhile (\<lambda>c. c \<noteq> 0) s"

lemma strlen_takeWhile:
  "strlen s = (if 0 \<in> set s then Some (length (cstr s)) else None)"
  by (induction s) (auto simp: cstr_def)

lemma cstr_terminated [simp]: "0 \<notin> set t \<Longrightarrow> cstr (t @ 0 # r) = t"
  unfolding cstr_def by (induction t) auto

lemma strlen_terminated [simp]: "0 \<notin> set t \<Longrightarrow> strlen (t @ 0 # r) = Some (length t)"
  by (induction t) auto

subsection \<open>Words as numbers\<close>

lemma unat_lt_pow [word_nat_simps]: "unat (x :: 'a::len word) < 2 ^ LENGTH('a)"
  by (rule unsigned_less)

lemma word_add_no_wrap:
  fixes a b :: "'a::len word"
  assumes "\<not> a + b < b"
  shows "unat (a + b) = unat a + unat b"
proof (cases "unat a + unat b < 2 ^ LENGTH('a)")
  case True
  then show ?thesis by (simp add: unat_plus_if')
next
  case False
  then have "unat (a + b) = unat a + unat b - 2 ^ LENGTH('a)" by (simp add: unat_plus_if')
  with False unat_lt_pow[of a] have "unat (a + b) < unat b" by linarith
  with assms show ?thesis by (simp add: word_less_nat_alt)
qed

lemma word_add_wrap:
  fixes a b :: "'a::len word"
  assumes "a + b < b"
  shows "2 ^ LENGTH('a) \<le> unat a + unat b"
  using assms by (auto simp: word_less_nat_alt unat_plus_if' split: if_splits)

lemma unat_add_small:
  "unat a + unat b < 2 ^ LENGTH('a) \<Longrightarrow> unat (a + b :: 'a::len word) = unat a + unat b"
  by (simp add: unat_plus_if')

lemma unat_sub_le:
  fixes a b :: "'a::len word"
  shows "b \<le> a \<Longrightarrow> unat (a - b) = unat a - unat b"
  by (rule unat_sub)

lemma unat_or_disj:
  fixes a b :: "'a::len word"
  assumes "a AND b = 0"
  shows "unat (a OR b) = unat a + unat b"
proof -
  have "unat a AND unat b = 0"
    using arg_cong[OF assms, of unat] by (simp add: unsigned_and_eq)
  then show ?thesis by (simp add: unsigned_or_eq disjunctive_add_eq_or)
qed

lemma and_small_zero:
  fixes x m :: "'a::len word"
  assumes "unat x < 2 ^ k" "m AND mask k = 0"
  shows "x AND m = 0"
proof -
  have "take_bit k x = x"
    using assms(1) by (simp add: word_unat_eq_iff unsigned_take_bit_eq take_bit_nat_eq_self)
  then have "x AND m = x AND (m AND mask k)" by (metis and.assoc and.commute take_bit_eq_mask)
  with assms(2) show ?thesis by simp
qed

lemma unat_or_small:
  fixes x m :: "'a::len word"
  assumes "unat x < 2 ^ k" "m AND mask k = 0"
  shows "unat (x OR m) = unat x + unat m"
  using and_small_zero[OF assms] by (rule unat_or_disj)

lemma unat_and_mask: "unat ((x :: 'a::len word) AND mask k) = unat x mod 2 ^ k"
  by (simp add: take_bit_eq_mask[symmetric] unsigned_take_bit_eq take_bit_nat_def)

lemma unat_drop_bit: "unat (drop_bit k (x :: 'a::len word)) = unat x div 2 ^ k"
  by (simp add: unat_drop_bit_eq drop_bit_nat_def)

lemma unat_push_bit:
  "unat x * 2 ^ k < 2 ^ LENGTH('a) \<Longrightarrow> unat (push_bit k (x :: 'a::len word)) = unat x * 2 ^ k"
  by (simp add: unsigned_push_bit_eq push_bit_nat_def take_bit_nat_def)

lemma unat_ucast_mod: "unat (ucast (x :: 'a::len word) :: 'b::len word) = unat x mod 2 ^ LENGTH('b)"
  by (simp add: unsigned_ucast_eq take_bit_nat_def)

lemma length_take_le: "n \<le> length xs \<Longrightarrow> length (take n xs) = n"
  by simp

end
