(* ===== verification/Cutils.thy ===== *)
theory Cutils
  imports Prelude
begin

text \<open>
  The scalar helpers of \<open>zipline/native/quickjs/cutils.h\<close> and the C string functions of
  \<open>cutils.c\<close>: minimum and maximum, bit counting, unaligned little-endian access, byte
  swapping, UTF-16 surrogates, hexadecimal digits, half precision floats, and the bounded
  string copies. The builds of the repository are for little-endian targets only, so the
  packed struct accesses of \<open>cutils.h\<close> read and write the low byte first.
\<close>

subsection \<open>Minimum, maximum, bit counts\<close>

definition max_int :: "int \<Rightarrow> int \<Rightarrow> int" where
  "max_int a b = (if a > b then a else b)"

definition min_int :: "int \<Rightarrow> int \<Rightarrow> int" where
  "min_int a b = (if a < b then a else b)"

definition max_uint32 :: "u32 \<Rightarrow> u32 \<Rightarrow> u32" where
  "max_uint32 a b = (if a > b then a else b)"

definition min_uint32 :: "u32 \<Rightarrow> u32 \<Rightarrow> u32" where
  "min_uint32 a b = (if a < b then a else b)"

text \<open>
  The compiler builtins count zero bits; they are undefined at 0, which the model shows as
  the width (leading) and the width (trailing), values no caller relies on.
\<close>

fun bit_length :: "nat \<Rightarrow> nat" where
  "bit_length n = (if n = 0 then 0 else Suc (bit_length (n div 2)))"

declare bit_length.simps [simp del]

fun trailing_zeros :: "nat \<Rightarrow> nat \<Rightarrow> nat" where
  "trailing_zeros 0 n = 0"
| "trailing_zeros (Suc w) n = (if odd n then 0 else Suc (trailing_zeros w (n div 2)))"

definition clz32 :: "u32 \<Rightarrow> nat" where
  "clz32 a = 32 - bit_length (unat a)"

definition clz64 :: "u64 \<Rightarrow> nat" where
  "clz64 a = 64 - bit_length (unat a)"

definition ctz32 :: "u32 \<Rightarrow> nat" where
  "ctz32 a = trailing_zeros 32 (unat a)"

definition ctz64 :: "u64 \<Rightarrow> nat" where
  "ctz64 a = trailing_zeros 64 (unat a)"

lemma bit_length_0 [simp]: "bit_length 0 = 0"
  by (subst bit_length.simps) simp

lemma bit_length_pos: "0 < n \<Longrightarrow> bit_length n = Suc (bit_length (n div 2))"
  by (subst bit_length.simps) simp

lemma bit_length_bounds: "0 < n \<Longrightarrow> 2 ^ (bit_length n - 1) \<le> n \<and> n < 2 ^ bit_length n"
proof (induction n rule: bit_length.induct)
  case (1 n)
  show ?case
  proof (cases "n = 1")
    case True
    then show ?thesis by (simp add: bit_length_pos)
  next
    case False
    with "1.prems" have pos: "0 < n div 2" by simp
    then have ge: "bit_length (n div 2) = Suc (bit_length (n div 2 div 2))"
      by (rule bit_length_pos)
    from "1.IH" "1.prems" pos
    have "2 ^ (bit_length (n div 2) - 1) \<le> n div 2" "n div 2 < 2 ^ bit_length (n div 2)" by auto
    then show ?thesis using "1.prems" by (simp add: bit_length_pos ge) linarith
  qed
qed

lemma bit_length_le: "n < 2 ^ k \<Longrightarrow> bit_length n \<le> k"
proof (cases "n = 0")
  case False
  assume "n < 2 ^ k"
  with False bit_length_bounds[of n] have "(2::nat) ^ (bit_length n - 1) < 2 ^ k" by linarith
  then have "bit_length n - 1 < k" by simp
  then show ?thesis by simp
qed simp

lemma clz64_bounds:
  assumes "a \<noteq> 0"
  shows "2 ^ (63 - clz64 a) \<le> unat a" "unat a < 2 ^ (64 - clz64 a)" "clz64 a \<le> 63"
proof -
  have pos: "0 < unat a" using assms by (simp add: unat_gt_0)
  have le: "bit_length (unat a) \<le> 64"
    using unat_lt_pow[of a] by (intro bit_length_le) simp
  have ge: "1 \<le> bit_length (unat a)" using pos by (simp add: bit_length_pos)
  have e: "63 - clz64 a = bit_length (unat a) - 1" "64 - clz64 a = bit_length (unat a)"
    using le ge by (simp_all add: clz64_def)
  show "2 ^ (63 - clz64 a) \<le> unat a" "unat a < 2 ^ (64 - clz64 a)"
    unfolding e using bit_length_bounds[OF pos] by auto
  show "clz64 a \<le> 63" using ge le by (simp add: clz64_def)
qed

subsection \<open>Unaligned little-endian access\<close>

fun le_bytes :: "nat \<Rightarrow> nat \<Rightarrow> u8 list" where
  "le_bytes 0 v = []"
| "le_bytes (Suc n) v = word_of_nat v # le_bytes n (v div 256)"

fun le_value :: "u8 list \<Rightarrow> nat" where
  "le_value [] = 0"
| "le_value (b # bs) = unat b + 256 * le_value bs"

definition get_u64 :: "u8 list \<Rightarrow> u64 option" where
  "get_u64 tab = (if 8 \<le> length tab then Some (word_of_nat (le_value (take 8 tab))) else None)"

definition get_u32 :: "u8 list \<Rightarrow> u32 option" where
  "get_u32 tab = (if 4 \<le> length tab then Some (word_of_nat (le_value (take 4 tab))) else None)"

definition get_u16 :: "u8 list \<Rightarrow> u32 option" where
  "get_u16 tab = (if 2 \<le> length tab then Some (word_of_nat (le_value (take 2 tab))) else None)"

definition get_u8 :: "u8 list \<Rightarrow> u32 option" where
  "get_u8 tab = map_option ucast (rd tab 0)"

definition get_i8 :: "u8 list \<Rightarrow> u32 option" where
  "get_i8 tab = map_option scast (rd tab 0)"

definition get_i16 :: "u8 list \<Rightarrow> u32 option" where
  "get_i16 tab =
     (if 2 \<le> length tab then Some (scast (word_of_nat (le_value (take 2 tab)) :: u16)) else None)"

definition put_u64 :: "u8 list \<Rightarrow> u64 \<Rightarrow> u8 list option" where
  "put_u64 tab v = copy_to tab 0 (le_bytes 8 (unat v))"

definition put_u32 :: "u8 list \<Rightarrow> u32 \<Rightarrow> u8 list option" where
  "put_u32 tab v = copy_to tab 0 (le_bytes 4 (unat v))"

definition put_u16 :: "u8 list \<Rightarrow> u16 \<Rightarrow> u8 list option" where
  "put_u16 tab v = copy_to tab 0 (le_bytes 2 (unat v))"

definition put_u8 :: "u8 list \<Rightarrow> u8 \<Rightarrow> u8 list option" where
  "put_u8 tab v = wr tab 0 v"

lemma length_le_bytes [simp]: "length (le_bytes n v) = n"
  by (induction n arbitrary: v) auto

lemma le_value_le_bytes: "le_value (le_bytes n v) = v mod 256 ^ n"
proof (induction n arbitrary: v)
  case (Suc n)
  have "v mod (256 * 256 ^ n) = 256 * (v div 256 mod 256 ^ n) + v mod 256"
    by (rule mod_mult2_eq)
  with Suc show ?case by (simp add: unat_of_nat)
qed simp

lemma le_value_bound: "le_value bs < 256 ^ length bs"
proof (induction bs)
  case (Cons b bs)
  have "unat b < 256" using unat_lt_pow[of b] by simp
  with Cons show ?case by simp
qed simp

lemma le_bytes_le_value: "length bs = n \<Longrightarrow> le_bytes n (le_value bs) = bs"
proof (induction bs arbitrary: n)
  case (Cons b bs)
  have b: "unat b < 256" using unat_lt_pow[of b] by simp
  have "word_of_nat (unat b + 256 * le_value bs) = b"
    using b by (simp add: word_unat_eq_iff unat_of_nat del: of_nat_add of_nat_mult)
  moreover have "(unat b + 256 * le_value bs) div 256 = le_value bs" using b by simp
  ultimately show ?case using Cons by auto
qed simp

lemma put_get_u32: "put_u32 tab v = Some tab' \<Longrightarrow> get_u32 tab' = Some v"
  using unat_lt_pow[of v]
  by (auto simp: put_u32_def get_u32_def copy_to_def le_value_le_bytes split: if_splits)

lemma put_get_u64: "put_u64 tab v = Some tab' \<Longrightarrow> get_u64 tab' = Some v"
  using unat_lt_pow[of v]
  by (auto simp: put_u64_def get_u64_def copy_to_def le_value_le_bytes split: if_splits)

subsection \<open>Byte swapping\<close>

definition bswap16 :: "u16 \<Rightarrow> u16" where
  "bswap16 x = drop_bit 8 x OR push_bit 8 x"

definition bswap32 :: "u32 \<Rightarrow> u32" where
  "bswap32 v =
     drop_bit 24 (v AND 0xff000000) OR drop_bit 8 (v AND 0x00ff0000) OR
     push_bit 8 (v AND 0x0000ff00) OR push_bit 24 (v AND 0x000000ff)"

definition bswap64 :: "u64 \<Rightarrow> u64" where
  "bswap64 v =
     drop_bit (7 * 8) (v AND push_bit (7 * 8) 0xff) OR
     drop_bit (5 * 8) (v AND push_bit (6 * 8) 0xff) OR
     drop_bit (3 * 8) (v AND push_bit (5 * 8) 0xff) OR
     drop_bit (1 * 8) (v AND push_bit (4 * 8) 0xff) OR
     push_bit (1 * 8) (v AND push_bit (3 * 8) 0xff) OR
     push_bit (3 * 8) (v AND push_bit (2 * 8) 0xff) OR
     push_bit (5 * 8) (v AND push_bit (1 * 8) 0xff) OR
     push_bit (7 * 8) (v AND push_bit (0 * 8) 0xff)"

lemma all_less_numeral:
  "(\<forall>i<numeral k. P i) \<longleftrightarrow> P (pred_numeral k) \<and> (\<forall>i<pred_numeral k. P (i::nat))"
  by (simp add: numeral_eq_Suc All_less_Suc)

lemma bswap32_twice: "bswap32 (bswap32 v) = v"
proof (rule bit_word_eqI)
  fix n assume "n < LENGTH(32)"
  then have "n < 32" by simp
  moreover have "\<forall>n<32. bit (bswap32 (bswap32 v)) n = bit v n"
    by (simp add: all_less_numeral bswap32_def bit_simps)
  ultimately show "bit (bswap32 (bswap32 v)) n = bit v n" by blast
qed

subsection \<open>UTF-16 surrogates\<close>

definition is_surrogate :: "u32 \<Rightarrow> bool" where
  "is_surrogate c = (drop_bit 11 c = drop_bit 11 0xD800)"

definition is_hi_surrogate :: "u32 \<Rightarrow> bool" where
  "is_hi_surrogate c = (drop_bit 10 c = drop_bit 10 0xD800)"

definition is_lo_surrogate :: "u32 \<Rightarrow> bool" where
  "is_lo_surrogate c = (drop_bit 10 c = drop_bit 10 0xDC00)"

definition get_hi_surrogate :: "u32 \<Rightarrow> u32" where
  "get_hi_surrogate c = drop_bit 10 c - drop_bit 10 0x10000 + 0xD800"

definition get_lo_surrogate :: "u32 \<Rightarrow> u32" where
  "get_lo_surrogate c = (c AND 0x3FF) OR 0xDC00"

definition from_surrogate :: "u32 \<Rightarrow> u32 \<Rightarrow> u32" where
  "from_surrogate hi lo = 0x10000 + 0x400 * (hi - 0xD800) + (lo - 0xDC00)"

subsection \<open>Hexadecimal digits\<close>

text \<open>The argument is a C \<open>int\<close> holding a character code; the result is -1 for a non digit.\<close>

definition from_hex :: "int \<Rightarrow> int" where
  "from_hex c =
     (if 48 \<le> c \<and> c \<le> 57 then c - 48
      else if 65 \<le> c \<and> c \<le> 70 then c - 65 + 10
      else if 97 \<le> c \<and> c \<le> 102 then c - 97 + 10
      else -1)"

subsection \<open>Half precision floats, on their bit patterns\<close>

definition tofp16_bits :: "u64 \<Rightarrow> u16" where
  "tofp16_bits d =
     (let sgn = drop_bit 63 d; a = d AND 0x7fffffffffffffff;
          v = (if a > 0x7ff0000000000000 then 0x7c01
               else if a < 0x3f10000000000000 then
                 (if a \<le> 0x3e60000000000000 then 0x0000
                  else
                    let shift = unat (1051 - drop_bit 52 a);
                        a = push_bit 52 1 OR (a AND (push_bit 52 1 - 1));
                        addend = (drop_bit shift a AND 1) + (push_bit (shift - 1) 1 - 1)
                    in drop_bit shift (a + addend))
               else
                 let a = a - 0x3f00000000000000;
                     addend = (drop_bit (52 - 10) a AND 1) + (push_bit (52 - 11) 1 - 1);
                     v = drop_bit (52 - 10) (a + addend)
                 in if v > 0x7c00 then 0x7c00 else v) :: u64
      in ucast (v OR push_bit 15 sgn))"

definition isfp16nan :: "u16 \<Rightarrow> bool" where
  "isfp16nan v = ((v AND 0x7FFF) > 0x7C00)"

definition isfp16zero :: "u16 \<Rightarrow> bool" where
  "isfp16zero v = ((v AND 0x7FFF) = 0)"

subsection \<open>Bounded string copies\<close>

text \<open>
  The loop of \<open>pstrcpy\<close>: \<open>q\<close> is the write position, \<open>lim\<close> is \<open>buf_size - 1\<close>, and the
  string is what is left to read. Reading past the string array or writing past the buffer
  is \<open>None\<close>.
\<close>

fun pstrcpy_loop :: "u8 list \<Rightarrow> nat \<Rightarrow> nat \<Rightarrow> u8 list \<Rightarrow> u8 list option" where
  "pstrcpy_loop buf q lim [] = None"
| "pstrcpy_loop buf q lim (c # str) =
     (if c = 0 \<or> q \<ge> lim then wr buf q 0
      else do { buf \<leftarrow> wr buf q c; pstrcpy_loop buf (q + 1) lim str })"

definition pstrcpy :: "u8 list \<Rightarrow> int \<Rightarrow> u8 list \<Rightarrow> u8 list option" where
  "pstrcpy buf buf_size str =
     (if buf_size \<le> 0 then Some buf else pstrcpy_loop buf 0 (nat buf_size - 1) str)"

definition pstrcat :: "u8 list \<Rightarrow> int \<Rightarrow> u8 list \<Rightarrow> u8 list option" where
  "pstrcat buf buf_size s = do {
     len \<leftarrow> strlen buf;
     if int len < buf_size
     then do { t \<leftarrow> pstrcpy (drop len buf) (buf_size - int len) s; Some (take len buf @ t) }
     else Some buf }"

text \<open>\<open>strstart\<close> returns the rest of the string where the C code sets \<open>*ptr\<close>.\<close>

fun strstart :: "u8 list \<Rightarrow> u8 list \<Rightarrow> (u8 list option) option" where
  "strstart p [] = None"
| "strstart p (q # qs) =
     (if q = 0 then Some (Some p)
      else case p of [] \<Rightarrow> None
           | c # cs \<Rightarrow> if c \<noteq> q then Some None else strstart cs qs)"

definition has_suffix :: "u8 list \<Rightarrow> u8 list \<Rightarrow> bool option" where
  "has_suffix str suffix = do {
     len \<leftarrow> strlen str;
     slen \<leftarrow> strlen suffix;
     Some (len \<ge> slen \<and> take slen (drop (len - slen) str) = take slen suffix) }"

lemma pstrcpy_loop_spec:
  assumes "lim < length buf" "q \<le> lim" "0 \<in> set str"
  shows "pstrcpy_loop buf q lim str =
           (let t = take (lim - q) (cstr str)
            in Some (take q buf @ t @ [0] @ drop (q + length t + 1) buf))"
  using assms
proof (induction buf q lim str rule: pstrcpy_loop.induct)
  case (2 buf q lim c str)
  show ?case
  proof (cases "c = 0 \<or> q \<ge> lim")
    case True
    then show ?thesis using "2.prems"
      by (auto simp: cstr_def upd_conv_take_nth_drop)
  next
    case False
    with "2.prems" have "pstrcpy_loop (buf[q := c]) (q + 1) lim str =
        (let t = take (lim - (q + 1)) (cstr str)
         in Some (take (q + 1) (buf[q := c]) @ t @ [0] @ drop (q + 1 + length t + 1) (buf[q := c])))"
      by (intro "2.IH") auto
    moreover have "take (q + 1) (buf[q := c]) = take q buf @ [c]"
      using False "2.prems" by (simp add: take_Suc_conv_app_nth)
    moreover have "lim - q = Suc (lim - (q + 1))" using False by linarith
    ultimately show ?thesis using False "2.prems"
      by (simp add: cstr_def Let_def)
  qed
qed simp

lemma strstart_spec:
  assumes "0 \<notin> set t" "0 \<notin> set v"
  shows "strstart (t @ 0 # r) (v @ 0 # r') =
           Some (if take (length v) t = v then Some (drop (length v) t @ 0 # r) else None)"
  using assms
proof (induction v arbitrary: t)
  case (Cons x v)
  then show ?case by (cases t) auto
qed simp

subsection \<open>Properties\<close>

text \<open>
  \<open>pstrcpy\<close> into a buffer of the stated size writes inside the buffer only, always leaves a
  terminated string, and that string is the source cut to one byte less than the size.
\<close>

theorem pstrcpy_bounded:
  assumes "0 < buf_size" "nat buf_size \<le> length buf" "0 \<in> set str"
  shows "\<exists>buf'. pstrcpy buf buf_size str = Some buf' \<and> length buf' = length buf \<and>
           cstr buf' = take (nat buf_size - 1) (cstr str) \<and>
           drop (nat buf_size) buf' = drop (nat buf_size) buf"
proof -
  obtain L where L: "nat buf_size = Suc L" using assms(1) by (cases "nat buf_size") auto
  let ?t = "take L (cstr str)"
  have "0 \<notin> set (cstr str)" unfolding cstr_def by (blast dest: set_takeWhileD)
  then have t: "0 \<notin> set ?t" "length ?t \<le> L" by (auto dest: in_set_takeD)
  have lim: "L < length buf" using assms(2) L by simp
  have p: "pstrcpy buf buf_size str = Some (?t @ 0 # drop (Suc (length ?t)) buf)"
    using pstrcpy_loop_spec[OF lim _ assms(3), of 0] assms(1) L by (simp add: pstrcpy_def Let_def)
  have l: "length (?t @ 0 # drop (Suc (length ?t)) buf) = length buf" using t(2) lim by simp
  have "Suc L - length ?t = Suc (L - length ?t)" using t(2) by linarith
  then have d: "drop (Suc L) (?t @ 0 # drop (Suc (length ?t)) buf) = drop (Suc L) buf"
    using t(2) by simp
  show ?thesis unfolding L using p l d cstr_terminated[OF t(1)] by auto
qed

theorem pstrcpy_bounded_witness:
  "\<exists>buf'. pstrcpy [1, 2, 3, 4, 5] 4 [97, 98, 99, 100, 0] = Some buf' \<and> length buf' = length [1, 2, 3, 4, 5 :: u8] \<and>
     cstr buf' = take (nat 4 - 1) (cstr [97, 98, 99, 100, 0]) \<and> drop (nat 4) buf' = drop (nat 4) [1, 2, 3, 4, 5]"
  by (rule pstrcpy_bounded) simp_all

end
