(* ===== verification/Utf8.thy ===== *)
theory Utf8
  imports Cutils
begin

text \<open>
  UTF-8 encoding and decoding of one code point, \<open>unicode_to_utf8\<close> and \<open>unicode_from_utf8\<close> of
  \<open>zipline/native/quickjs/cutils.c\<close>. The encoder takes up to 31 bits and writes one to six
  bytes; the decoder refuses truncated, malformed and overlong sequences. The lemmas show that
  the decoder inverts the encoder and that nothing but the encoder's output decodes.
\<close>

definition utf8_cont_byte :: "nat \<Rightarrow> u32 \<Rightarrow> u8" where
  "utf8_cont_byte k c = ucast ((drop_bit k c AND 0x3f) OR 0x80)"

text \<open>The bytes written to \<open>buf\<close>; the C function returns their number, 0 above 31 bits.\<close>

definition unicode_to_utf8 :: "u32 \<Rightarrow> u8 list" where
  "unicode_to_utf8 c =
     (if c < 0x80 then [ucast c]
      else if c < 0x800 then
        [ucast (drop_bit 6 c OR 0xc0), utf8_cont_byte 0 c]
      else if c < 0x10000 then
        [ucast (drop_bit 12 c OR 0xe0), utf8_cont_byte 6 c, utf8_cont_byte 0 c]
      else if c < 0x00200000 then
        [ucast (drop_bit 18 c OR 0xf0), utf8_cont_byte 12 c, utf8_cont_byte 6 c,
         utf8_cont_byte 0 c]
      else if c < 0x04000000 then
        [ucast (drop_bit 24 c OR 0xf8), utf8_cont_byte 18 c, utf8_cont_byte 12 c,
         utf8_cont_byte 6 c, utf8_cont_byte 0 c]
      else if c < 0x80000000 then
        [ucast (drop_bit 30 c OR 0xfc), utf8_cont_byte 24 c, utf8_cont_byte 18 c,
         utf8_cont_byte 12 c, utf8_cont_byte 6 c, utf8_cont_byte 0 c]
      else [])"

definition utf8_min_code :: "u32 list" where
  "utf8_min_code = [0x80, 0x800, 0x10000, 0x00200000, 0x04000000]"

definition utf8_first_code_mask :: "u32 list" where
  "utf8_first_code_mask = [0x1f, 0xf, 0x7, 0x3, 0x1]"

text \<open>
  The decoder's result: \<open>None\<close> for a read past the array, \<open>Some None\<close> for the error status
  (-1, \<open>*pp\<close> untouched), \<open>Some (Some (c, rest))\<close> for a code point and the new \<open>*pp\<close>.
\<close>

fun utf8_cont_loop :: "nat \<Rightarrow> u32 \<Rightarrow> u8 list \<Rightarrow> (u32 \<times> u8 list) option option" where
  "utf8_cont_loop 0 c p = Some (Some (c, p))"
| "utf8_cont_loop (Suc l) c [] = None"
| "utf8_cont_loop (Suc l) c (b # p) =
     (if b < 0x80 \<or> b \<ge> 0xc0 then Some None
      else utf8_cont_loop l (push_bit 6 c OR (ucast b AND 0x3f)) p)"

definition utf8_trail_len :: "u8 \<Rightarrow> nat option" where
  "utf8_trail_len c =
     (if 0xc0 \<le> c \<and> c \<le> 0xdf then Some 1
      else if 0xe0 \<le> c \<and> c \<le> 0xef then Some 2
      else if 0xf0 \<le> c \<and> c \<le> 0xf7 then Some 3
      else if 0xf8 \<le> c \<and> c \<le> 0xfb then Some 4
      else if 0xfc \<le> c \<and> c \<le> 0xfd then Some 5
      else None)"

definition unicode_from_utf8 :: "u8 list \<Rightarrow> int \<Rightarrow> (u32 \<times> u8 list) option option" where
  "unicode_from_utf8 p max_len =
     (case p of
        [] \<Rightarrow> None
      | c # p \<Rightarrow>
          if c < 0x80 then Some (Some (ucast c, p))
          else
            case utf8_trail_len c of
              None \<Rightarrow> Some None
            | Some l \<Rightarrow>
                if int l > max_len - 1 then Some None
                else
                  case utf8_cont_loop l (ucast c AND utf8_first_code_mask ! (l - 1)) p of
                    None \<Rightarrow> None
                  | Some None \<Rightarrow> Some None
                  | Some (Some (c, p)) \<Rightarrow>
                      if c < utf8_min_code ! (l - 1) then Some None else Some (Some (c, p)))"

subsection \<open>Bytes as numbers\<close>

lemma unat_cont_byte [word_nat_simps]:
  "unat (utf8_cont_byte k c) = 128 + unat c div 2 ^ k mod 64"
proof -
  have m: "(0x3f :: u32) = mask 6" by (simp add: mask_eq_exp_minus_1)
  have "unat (drop_bit k c AND 0x3f) = unat c div 2 ^ k mod 64"
    unfolding m by (simp add: unat_and_mask unat_drop_bit)
  moreover from this have "unat (drop_bit k c AND 0x3f) < 2 ^ 6" by simp
  ultimately have "unat ((drop_bit k c AND 0x3f) OR 0x80) = unat c div 2 ^ k mod 64 + 128"
    by (subst unat_or_small[where k = 6]) (simp_all add: mask_eq_exp_minus_1)
  then show ?thesis by (simp add: utf8_cont_byte_def unat_ucast_mod)
qed

lemma unat_lead_byte:
  fixes c m :: u32
  assumes "unat c div 2 ^ k < 2 ^ j" "m AND mask j = 0" "unat m + 2 ^ j \<le> 256"
  shows "unat (ucast (drop_bit k c OR m) :: u8) = unat c div 2 ^ k + unat m"
proof -
  have "unat (drop_bit k c OR m) = unat c div 2 ^ k + unat m"
    using assms by (subst unat_or_small[where k = j]) (simp_all add: unat_drop_bit)
  with assms show ?thesis by (simp add: unat_ucast_mod)
qed

lemma unat_cont_step:
  fixes x :: u32 and b :: u8
  assumes "unat x < 2 ^ 26"
  shows "unat (push_bit 6 x OR (ucast b AND 0x3f)) = 64 * unat x + unat b mod 64"
proof -
  have m: "(0x3f :: u32) = mask 6" by (simp add: mask_eq_exp_minus_1)
  have b: "unat (ucast b AND 0x3f :: u32) = unat b mod 64"
    unfolding m using unat_lt_pow[of b] by (simp add: unat_and_mask unat_ucast_mod)
  have z: "push_bit 6 x AND (ucast b AND 0x3f) = 0"
    unfolding m by (rule bit_word_eqI) (auto simp: bit_simps)
  have "unat (push_bit 6 x) = 64 * unat x"
    using assms by (subst unat_push_bit) simp_all
  with b show ?thesis by (simp add: unat_or_disj[OF z])
qed

lemma unat_first_mask:
  fixes c :: u8
  shows "unat ((ucast c :: u32) AND mask k) = unat c mod 2 ^ k"
  using unat_lt_pow[of c] by (simp add: unat_and_mask unat_ucast_mod)

lemma first_masks: "utf8_first_code_mask = [mask 5, mask 4, mask 3, mask 2, mask 1]"
  by (simp add: utf8_first_code_mask_def mask_eq_exp_minus_1)

lemma u8_range: "unat (b :: u8) < 256"
  using unat_lt_pow[of b] by simp

subsection \<open>The continuation loop\<close>

fun cont_val :: "nat \<Rightarrow> u8 list \<Rightarrow> nat" where
  "cont_val x [] = x"
| "cont_val x (b # bs) = cont_val (64 * x + unat b mod 64) bs"

definition is_cont :: "u8 \<Rightarrow> bool" where
  "is_cont b \<longleftrightarrow> 128 \<le> unat b \<and> unat b < 192"

lemma is_cont_iff: "is_cont b \<longleftrightarrow> \<not> (b < 0x80 \<or> b \<ge> 0xc0)"
  by (auto simp: is_cont_def word_less_nat_alt word_le_nat_alt)

lemma is_cont_byte [simp]: "is_cont (utf8_cont_byte k c)"
  by (simp add: is_cont_def unat_cont_byte)

lemma utf8_cont_loop_ok:
  assumes "\<forall>b\<in>set bs. is_cont b" "unat c < 2 ^ (32 - 6 * length bs)" "length bs \<le> 5"
  shows "\<exists>c'. utf8_cont_loop (length bs) c (bs @ r) = Some (Some (c', r)) \<and>
              unat c' = cont_val (unat c) bs"
  using assms
proof (induction bs arbitrary: c)
  case (Cons b bs)
  have "(2::nat) ^ (32 - 6 * length (b # bs)) \<le> 2 ^ 26" by (rule power_increasing) auto
  with Cons.prems(2) have c26: "unat c < 2 ^ 26" by linarith
  let ?c = "push_bit 6 c OR (ucast b AND 0x3f)"
  have v: "unat ?c = 64 * unat c + unat b mod 64" by (rule unat_cont_step[OF c26])
  have "(2::nat) ^ (32 - 6 * length bs) = 64 * 2 ^ (32 - 6 * length (b # bs))"
  proof -
    have "32 - 6 * length bs = 6 + (32 - 6 * length (b # bs))" using Cons.prems(3) by simp
    then show ?thesis by (simp only: power_add) simp
  qed
  moreover have "unat b mod 64 < 64" by simp
  ultimately have "unat ?c < 2 ^ (32 - 6 * length bs)" unfolding v using Cons.prems(2) by linarith
  with Cons.IH[of ?c] Cons.prems v show ?case by (auto simp: is_cont_iff)
qed simp

lemma utf8_cont_loop_inv:
  assumes "utf8_cont_loop l c p = Some (Some (c', r))"
  shows "\<exists>bs. p = bs @ r \<and> length bs = l \<and> (\<forall>b\<in>set bs. is_cont b)"
  using assms
proof (induction l c p rule: utf8_cont_loop.induct)
  case (3 l c b p)
  then obtain bs where "p = bs @ r" "length bs = l" "\<forall>b\<in>set bs. is_cont b" "is_cont b"
    by (auto simp: is_cont_iff split: if_splits)
  then have "b # p = (b # bs) @ r" "length (b # bs) = Suc l" "\<forall>b\<in>set (b # bs). is_cont b" by auto
  then show ?case by blast
qed auto

lemma utf8_cont_loop_total: "l \<le> length p \<Longrightarrow> utf8_cont_loop l c p \<noteq> None"
  by (induction l c p rule: utf8_cont_loop.induct) auto

subsection \<open>Round trips\<close>

lemmas byte_cmp = word_less_nat_alt word_le_nat_alt utf8_trail_len_def first_masks
  utf8_min_code_def unat_first_mask

lemma decode_multi:
  assumes "\<not> b < 0x80" "utf8_trail_len b = Some (length bs)" "\<forall>x\<in>set bs. is_cont x"
    "length bs \<le> 5" "int (length bs) < max_len"
  shows "\<exists>c. unat c = cont_val (unat b mod 2 ^ (6 - length bs)) bs \<and>
           unicode_from_utf8 (b # bs @ r) max_len =
             Some (if c < utf8_min_code ! (length bs - 1) then None else Some (c, r))"
proof -
  have l: "0 < length bs" using assms(2) by (auto simp: utf8_trail_len_def split: if_splits)
  have m: "utf8_first_code_mask ! (length bs - 1) = mask (6 - length bs)"
    using l assms(4) by (auto simp: first_masks nth_Cons' numeral_eq_Suc le_Suc_eq)
  define c0 where "c0 = (ucast b :: u32) AND utf8_first_code_mask ! (length bs - 1)"
  have v: "unat c0 = unat b mod 2 ^ (6 - length bs)"
    by (simp only: c0_def m unat_first_mask)
  have "unat c0 < 2 ^ (6 - length bs)" by (simp add: v)
  also have "(2::nat) ^ (6 - length bs) \<le> 2 ^ (32 - 6 * length bs)"
    using assms(4) l by (intro power_increasing) auto
  finally have "unat c0 < 2 ^ (32 - 6 * length bs)" .
  from utf8_cont_loop_ok[OF assms(3) this assms(4), of r] obtain c where
    c: "utf8_cont_loop (length bs) c0 (bs @ r) = Some (Some (c, r))" "unat c = cont_val (unat c0) bs"
    by blast
  then show ?thesis using assms(1,2,5)
    by (intro exI[of _ c]) (simp add: unicode_from_utf8_def c0_def[unfolded One_nat_def, symmetric] v)
qed


text \<open>
  The multi-byte forms share one shape: with \<open>l\<close> continuation bytes the first byte is
  \<open>256 - 2 ^ (7 - l)\<close> plus the bits above the continuation bytes.
\<close>

definition lead_base :: "nat \<Rightarrow> nat" where
  "lead_base l = 256 - 2 ^ (7 - l)"

fun cbytes :: "nat \<Rightarrow> nat \<Rightarrow> u8 list" where
  "cbytes 0 n = []"
| "cbytes (Suc j) n = cbytes j (n div 64) @ [word_of_nat (128 + n mod 64)]"

lemma unat_cbyte [simp]: "unat (word_of_nat (128 + n mod 64) :: u8) = 128 + n mod 64"
proof -
  have "n mod 64 < 64" by simp
  then show ?thesis by (simp only: unat_of_nat) simp
qed

lemma length_cbytes [simp]: "length (cbytes j n) = j"
  by (induction j arbitrary: n) auto

lemma cbytes_cont: "\<forall>b\<in>set (cbytes j n). is_cont b"
proof (induction j arbitrary: n)
  case (Suc j)
  have "n mod 64 < 64" by simp
  with Suc show ?case by (simp add: is_cont_def del: of_nat_add)
qed simp

lemma cont_val_snoc: "cont_val x (bs @ [b]) = 64 * cont_val x bs + unat b mod 64"
  by (induction bs arbitrary: x) auto

lemma mod64_128: "(128 + n mod 64) mod 64 = n mod (64::nat)"
  using mod_mult_self4[of 64 2 "n mod 64"] by simp

lemma cont_val_cbytes: "cont_val (n div 64 ^ j) (cbytes j n) = n"
proof (induction j arbitrary: n)
  case (Suc j)
  have "n div 64 ^ Suc j = n div 64 div 64 ^ j" by (simp add: div_mult2_eq)
  then show ?case by (simp add: cont_val_snoc Suc mod64_128 del: power_Suc of_nat_add)
qed simp

lemma cbytes_cont_val:
  "\<forall>b\<in>set bs. is_cont b \<Longrightarrow>
     cbytes (length bs) (cont_val x bs) = bs \<and> cont_val x bs div 64 ^ length bs = x"
proof (induction bs arbitrary: x rule: rev_induct)
  case (snoc b bs)
  define y where "y = unat b - 128"
  from snoc have b: "unat b = 128 + y" "y < 64" by (auto simp: is_cont_def y_def)
  then have m: "unat b mod 64 = y" using mod_mult_self4[of 64 2 y] by simp
  then have "(64 * cont_val x bs + unat b mod 64) div 64 = cont_val x bs" using b by simp
  moreover have "word_of_nat (128 + (64 * cont_val x bs + unat b mod 64) mod 64) = b"
    using b m by (simp add: word_unat_eq_iff unat_of_nat del: of_nat_add)
  moreover have "(64 * cont_val x bs + unat b mod 64) div 64 ^ Suc (length bs)
      = (64 * cont_val x bs + unat b mod 64) div 64 div 64 ^ length bs"
    by (simp only: power_Suc div_mult2_eq)
  ultimately show ?case using snoc by (simp add: cont_val_snoc del: power_Suc of_nat_add)
qed simp

lemma cbytes_numeral:
  "cbytes (numeral k) n = cbytes (pred_numeral k) (n div 64) @ [word_of_nat (128 + n mod 64)]"
  by (subst numeral_eq_Suc) (rule cbytes.simps(2))

lemma cont_byte_nat: "utf8_cont_byte k c = word_of_nat (128 + unat c div 2 ^ k mod 64)"
  by (simp add: word_unat_eq_iff unat_cont_byte del: of_nat_add)

lemma cbytes_unroll:
  "cbytes 1 (unat c) = [utf8_cont_byte 0 c]"
  "cbytes 2 (unat c) = [utf8_cont_byte 6 c, utf8_cont_byte 0 c]"
  "cbytes 3 (unat c) = [utf8_cont_byte 12 c, utf8_cont_byte 6 c, utf8_cont_byte 0 c]"
  "cbytes 4 (unat c) = [utf8_cont_byte 18 c, utf8_cont_byte 12 c, utf8_cont_byte 6 c,
     utf8_cont_byte 0 c]"
  "cbytes 5 (unat c) = [utf8_cont_byte 24 c, utf8_cont_byte 18 c, utf8_cont_byte 12 c,
     utf8_cont_byte 6 c, utf8_cont_byte 0 c]"
  by (simp_all add: cbytes_numeral cont_byte_nat div_mult2_eq[symmetric] del: of_nat_add)

lemma encode_multi:
  assumes "1 \<le> l" "l \<le> 5" "unat (utf8_min_code ! (l - 1)) \<le> unat c"
    "unat c < 2 ^ (6 - l) * 64 ^ l"
  shows "unicode_to_utf8 c =
           word_of_nat (unat c div 64 ^ l + lead_base l) # cbytes l (unat c)"
proof -
  have lead: "ucast (drop_bit k c OR m) = (word_of_nat (unat c div 2 ^ k + unat m) :: u8)"
    if "unat c div 2 ^ k < 2 ^ j" "m AND mask j = 0" "unat m + 2 ^ j \<le> 256" for k j m
    using unat_lead_byte[OF that] that by (simp add: word_unat_eq_iff unat_of_nat del: of_nat_add)
  from assms consider "l = 1" | "l = 2" | "l = 3" | "l = 4" | "l = 5" by linarith
  then show ?thesis
  proof cases
    case 1 then show ?thesis using assms(3,4) lead[where k = 6 and j = 5 and m = "0xc0"]
      by (simp add: unicode_to_utf8_def byte_cmp cbytes_unroll[unfolded One_nat_def] cont_byte_nat lead_base_def
          mask_eq_exp_minus_1 del: of_nat_add)
  next
    case 2 then show ?thesis using assms(3,4) lead[where k = 12 and j = 4 and m = "0xe0"]
      by (simp add: unicode_to_utf8_def byte_cmp cbytes_unroll lead_base_def
          mask_eq_exp_minus_1 del: of_nat_add)
  next
    case 3 then show ?thesis using assms(3,4) lead[where k = 18 and j = 3 and m = "0xf0"]
      by (simp add: unicode_to_utf8_def byte_cmp cbytes_unroll lead_base_def
          mask_eq_exp_minus_1 del: of_nat_add)
  next
    case 4 then show ?thesis using assms(3,4) lead[where k = 24 and j = 2 and m = "0xf8"]
      by (simp add: unicode_to_utf8_def byte_cmp cbytes_unroll lead_base_def
          mask_eq_exp_minus_1 del: of_nat_add)
  next
    case 5 then show ?thesis using assms(3,4) lead[where k = 30 and j = 1 and m = "0xfc"]
      by (simp add: unicode_to_utf8_def byte_cmp cbytes_unroll lead_base_def
          mask_eq_exp_minus_1 del: of_nat_add)
  qed
qed


lemma code_class:
  assumes "0x80 \<le> n" "n < (0x80000000 :: nat)"
  obtains l where "1 \<le> l" "l \<le> 5" "unat (utf8_min_code ! (l - 1)) \<le> n"
    "n < 2 ^ (6 - l) * 64 ^ l"
proof -
  consider "n < 0x800" | "0x800 \<le> n" "n < 0x10000"
    | "0x10000 \<le> n" "n < 0x200000" | "0x200000 \<le> n" "n < 0x4000000" | "0x4000000 \<le> n"
    by linarith
  then show ?thesis
  proof cases
    case 1 with assms show ?thesis by (intro that[of 1]) (simp_all add: utf8_min_code_def)
  next
    case 2 with assms show ?thesis by (intro that[of 2]) (simp_all add: utf8_min_code_def)
  next
    case 3 with assms show ?thesis by (intro that[of 3]) (simp_all add: utf8_min_code_def)
  next
    case 4 with assms show ?thesis by (intro that[of 4]) (simp_all add: utf8_min_code_def)
  next
    case 5 with assms show ?thesis by (intro that[of 5]) (simp_all add: utf8_min_code_def)
  qed
qed

lemma trail_len_iff:
  "1 \<le> l \<Longrightarrow> l \<le> 5 \<Longrightarrow>
     utf8_trail_len b = Some l \<longleftrightarrow> lead_base l \<le> unat b \<and> unat b < lead_base l + 2 ^ (6 - l)"
proof -
  assume "1 \<le> l" "l \<le> 5"
  then consider "l = 1" | "l = 2" | "l = 3" | "l = 4" | "l = 5" by linarith
  then show ?thesis by cases (auto simp: byte_cmp lead_base_def)
qed

lemma lead_base_facts:
  assumes "1 \<le> l" "l \<le> 5" "m < 2 ^ (6 - l)"
  shows "192 \<le> lead_base l" "lead_base l + m < 256" "(m + lead_base l) mod 2 ^ (6 - l) = m"
proof -
  consider "l = 1" | "l = 2" | "l = 3" | "l = 4" | "l = 5" using assms by linarith
  then have "192 \<le> lead_base l \<and> lead_base l + 2 ^ (6 - l) \<le> 256 \<and> lead_base l mod 2 ^ (6 - l) = 0"
    by cases (simp_all add: lead_base_def)
  moreover from this have "(m + lead_base l) mod 2 ^ (6 - l) = m"
    using assms(3) by (metis add.right_neutral mod_add_right_eq mod_less)
  ultimately show "192 \<le> lead_base l" "lead_base l + m < 256" "(m + lead_base l) mod 2 ^ (6 - l) = m"
    using assms(3) by auto
qed

lemma decode_encode:
  assumes "c < 0x80000000" "int (length (unicode_to_utf8 c)) \<le> max_len"
  shows "unicode_from_utf8 (unicode_to_utf8 c @ r) max_len = Some (Some (c, r))"
proof (cases "c < 0x80")
  case True
  then have u: "unat (ucast c :: u8) = unat c" by (simp add: unat_ucast_mod word_less_nat_alt)
  then have "ucast (ucast c :: u8) = c" using True
    by (simp add: word_unat_eq_iff unat_ucast_mod word_less_nat_alt)
  then show ?thesis using True u
    by (simp add: unicode_to_utf8_def unicode_from_utf8_def word_less_nat_alt)
next
  case False
  let ?n = "unat c"
  obtain l where l: "1 \<le> l" "l \<le> 5" "unat (utf8_min_code ! (l - 1)) \<le> ?n" "?n < 2 ^ (6 - l) * 64 ^ l"
    by (rule code_class[of ?n]) (use False assms(1) in \<open>auto simp: word_less_nat_alt\<close>)
  note e = encode_multi[OF l]
  define b :: u8 where "b = word_of_nat (?n div 64 ^ l + lead_base l)"
  have m: "?n div 64 ^ l < 2 ^ (6 - l)" using l(4) by (simp add: less_mult_imp_div_less)
  note f = lead_base_facts[OF l(1,2) m]
  have ub: "unat b = ?n div 64 ^ l + lead_base l"
    unfolding b_def using f(2) by (simp add: unat_of_nat del: of_nat_add)
  have t: "utf8_trail_len b = Some (length (cbytes l ?n))"
    using f m by (simp add: trail_len_iff[OF l(1,2)] ub)
  have "\<not> b < 0x80" using f(1) by (simp add: word_less_nat_alt ub)
  from decode_multi[OF this t cbytes_cont, of max_len r] l(2) assms(2) e obtain c' where
    c': "unat c' = cont_val (unat b mod 2 ^ (6 - l)) (cbytes l ?n)"
      "unicode_from_utf8 (b # cbytes l ?n @ r) max_len =
         Some (if c' < utf8_min_code ! (l - 1) then None else Some (c', r))" by auto
  have "c' = c" using c'(1) ub f(3) by (simp add: cont_val_cbytes word_unat_eq_iff)
  with c'(2) l(3) e show ?thesis by (simp add: b_def word_less_nat_alt)
qed

lemma encode_decode:
  assumes "unicode_from_utf8 p max_len = Some (Some (c, r))"
  shows "p = unicode_to_utf8 c @ r \<and> c < 0x80000000"
proof -
  from assms obtain b p' where p: "p = b # p'" by (auto simp: unicode_from_utf8_def split: list.splits)
  show ?thesis
  proof (cases "b < 0x80")
    case True
    then have "c = ucast b" "r = p'" using assms p by (auto simp: unicode_from_utf8_def)
    moreover have "ucast (ucast b :: u32) = b" using u8_range[of b]
      by (simp add: word_unat_eq_iff unat_ucast_mod)
    moreover have "unat (ucast b :: u32) < 128"
      using True u8_range[of b] by (simp add: word_less_nat_alt unat_ucast_mod)
    ultimately show ?thesis using p by (simp add: unicode_to_utf8_def word_less_nat_alt)
  next
    case False
    with assms p obtain l c1 r1 where l: "utf8_trail_len b = Some l" "int l \<le> max_len - 1"
      "utf8_cont_loop l (ucast b AND utf8_first_code_mask ! (l - 1)) p' = Some (Some (c1, r1))"
      by (auto simp: unicode_from_utf8_def split: option.splits if_splits)
    from utf8_cont_loop_inv[OF l(3)] obtain bs where
      bs: "p' = bs @ r1" "length bs = l" "\<forall>x\<in>set bs. is_cont x" by blast
    have l5: "1 \<le> l" "l \<le> 5" using l(1) by (auto simp: utf8_trail_len_def split: if_splits)
    from decode_multi[of b bs max_len r1] False l bs l5 obtain c2 where
      c2: "unat c2 = cont_val (unat b mod 2 ^ (6 - l)) bs"
        "unicode_from_utf8 (b # bs @ r1) max_len =
           Some (if c2 < utf8_min_code ! (l - 1) then None else Some (c2, r1))" by auto
    with assms p bs have cr: "c2 = c" "r1 = r" "\<not> c < utf8_min_code ! (l - 1)"
      by (auto split: if_splits)
    define m where "m = unat b - lead_base l"
    have b: "unat b = m + lead_base l" "m < 2 ^ (6 - l)"
      using l(1) trail_len_iff[OF l5, of b] by (auto simp: m_def)
    note f = lead_base_facts[OF l5 b(2)]
    have v: "unat c = cont_val m bs" using c2(1) cr(1) b(1) f(3) by simp
    note cb = cbytes_cont_val[OF bs(3), of m, folded v, unfolded bs(2)]
    have hi: "unat c < 2 ^ (6 - l) * 64 ^ l"
      using cb b(2) by (metis div_less_iff_less_mult zero_less_numeral zero_less_power)
    have "unat (utf8_min_code ! (l - 1)) \<le> unat c" using cr(3) by (simp add: word_less_nat_alt)
    from encode_multi[OF l5 this hi] cb have e:
      "unicode_to_utf8 c = word_of_nat (m + lead_base l) # bs" by simp
    moreover have "word_of_nat (m + lead_base l) = b"
      using b(1) f(2) by (simp add: word_unat_eq_iff unat_of_nat del: of_nat_add)
    moreover have "unat c < 0x80000000"
    proof -
      consider "l = 1" | "l = 2" | "l = 3" | "l = 4" | "l = 5" using l5 by linarith
      then show ?thesis using hi by cases simp_all
    qed
    ultimately show ?thesis using p bs(1) cr(2) by (simp add: word_less_nat_alt)
  qed
qed

subsection \<open>Properties\<close>

text \<open>C30: decoding what \<open>unicode_to_utf8\<close> wrote, with at least that many bytes allowed, gives the
  code point back and stops exactly behind the sequence, for every 31-bit code point.\<close>

theorem utf8_roundtrip:
  assumes "c < 0x80000000" "int (length (unicode_to_utf8 c)) \<le> max_len"
  shows "unicode_from_utf8 (unicode_to_utf8 c @ r) max_len = Some (Some (c, r))"
  using assms by (rule decode_encode)

theorem utf8_roundtrip_witness:
  "unicode_from_utf8 (unicode_to_utf8 0x20AC @ [0x41]) 3 = Some (Some (0x20AC, [0x41]))"
  by (rule utf8_roundtrip) (simp_all add: unicode_to_utf8_def)

text \<open>\<open>unicode_from_utf8\<close> accepts only canonical sequences: whenever it returns a code point
  the bytes it consumed are exactly the shortest form that the encoder writes, so overlong and
  malformed sequences are refused.\<close>

theorem utf8_canonical:
  assumes "unicode_from_utf8 p max_len = Some (Some (c, r))"
  shows "p = unicode_to_utf8 c @ r \<and> c < 0x80000000"
  using assms by (rule encode_decode)

theorem utf8_canonical_witness:
  "[0xE2, 0x82, 0xAC, 0x41] = unicode_to_utf8 0x20AC @ [0x41] \<and> (0x20AC :: u32) < 0x80000000"
proof (rule utf8_canonical[where max_len = 4])
  show "unicode_from_utf8 [0xE2, 0x82, 0xAC, 0x41] 4 = Some (Some (0x20AC, [0x41]))"
    by code_simp
qed

end
