(* ===== verification/Dbuf.thy ===== *)
theory Dbuf
  imports Cutils
begin

text \<open>
  The dynamic buffers of \<open>cutils.c\<close> and \<open>cutils.h\<close>: claiming space, appending bytes,
  words, strings and formatted text, and the error flag. The block behind \<open>buf\<close> is a byte
  list (empty for \<open>NULL\<close>); \<open>size_t\<close> arithmetic is on 64-bit words, so the overflow checks
  of \<open>dbuf_claim\<close> are the code's. The reallocation function that the C code calls through
  \<open>realloc_func\<close> is an argument; the locale \<open>reallocator\<close> states what the code relies on, and
  the model of \<open>realloc\<close> of the C library provides it. Every operation returns the new buffer
  with the C status; an access outside the block would be \<open>None\<close>.
\<close>

type_synonym realloc_fun = "u8 list \<Rightarrow> nat \<Rightarrow> u8 list option"

record dynbuf =
  db_buf :: "u8 list"
  db_size :: u64
  db_alloc :: u64
  db_error :: bool

subsection \<open>The operations\<close>

text \<open>
  \<open>realloc\<close> of the C library: whether a block of a size can be had is up to the system
  (\<open>avail\<close>); the bytes a grown block gets are unspecified (\<open>fill\<close>).
\<close>

definition dbuf_default_realloc :: "(nat \<Rightarrow> bool) \<Rightarrow> (nat \<Rightarrow> u8) \<Rightarrow> realloc_fun" where
  "dbuf_default_realloc avail fill ptr n =
     (if avail n then Some (take n ptr @ map fill [length ptr..<n]) else None)"

definition dbuf_init2 :: "dynbuf" where
  "dbuf_init2 = \<lparr>db_buf = [], db_size = 0, db_alloc = 0, db_error = False\<rparr>"

definition dbuf_claim :: "realloc_fun \<Rightarrow> dynbuf \<Rightarrow> u64 \<Rightarrow> dynbuf \<times> int" where
  "dbuf_claim r s len =
     (let new_size = db_size s + len in
      if new_size < len then (s, -1)
      else if new_size > db_alloc s then
        (if db_error s then (s, -1)
         else
           let size = db_alloc s + (db_alloc s div 2) in
           if size < db_alloc s then (s, -1)
           else
             let new_size = (if size > new_size then size else new_size) in
             case r (db_buf s) (unat new_size) of
               None \<Rightarrow> (s\<lparr>db_error := True\<rparr>, -1)
             | Some new_buf \<Rightarrow> (s\<lparr>db_buf := new_buf, db_alloc := new_size\<rparr>, 0))
      else (s, 0))"

text \<open>The tail of \<open>dbuf_put\<close> and of the inline writers: copy and advance.\<close>

definition dbuf_store :: "dynbuf \<Rightarrow> u8 list \<Rightarrow> (dynbuf \<times> int) option" where
  "dbuf_store s data = do {
     b \<leftarrow> copy_to (db_buf s) (unat (db_size s)) data;
     Some (s\<lparr>db_buf := b, db_size := db_size s + word_of_nat (length data)\<rparr>, 0) }"

definition dbuf_put :: "realloc_fun \<Rightarrow> dynbuf \<Rightarrow> u8 list \<Rightarrow> (dynbuf \<times> int) option" where
  "dbuf_put r s data =
     (let len = word_of_nat (length data) in
      if db_alloc s - db_size s < len then
        (case dbuf_claim r s len of
           (s, e) \<Rightarrow> if e \<noteq> 0 then Some (s, -1) else dbuf_store s data)
      else dbuf_store s data)"

text \<open>
  \<open>dbuf_put_self\<close> copies a part of the buffer to its end with \<open>memcpy\<close>, whose ranges may not
  overlap.
\<close>

definition dbuf_store_self :: "dynbuf \<Rightarrow> nat \<Rightarrow> nat \<Rightarrow> (dynbuf \<times> int) option" where
  "dbuf_store_self s offset len =
     (if offset + len \<le> unat (db_size s) \<or> len = 0
      then dbuf_store s (take len (drop offset (db_buf s))) else None)"

definition dbuf_put_self :: "realloc_fun \<Rightarrow> dynbuf \<Rightarrow> nat \<Rightarrow> nat \<Rightarrow> (dynbuf \<times> int) option" where
  "dbuf_put_self r s offset len =
     (if db_alloc s - db_size s < word_of_nat len then
        (case dbuf_claim r s (word_of_nat len) of
           (s, e) \<Rightarrow> if e \<noteq> 0 then Some (s, -1) else dbuf_store_self s offset len)
      else dbuf_store_self s offset len)"

definition dbuf_putc :: "realloc_fun \<Rightarrow> dynbuf \<Rightarrow> u8 \<Rightarrow> (dynbuf \<times> int) option" where
  "dbuf_putc r s v =
     (if db_alloc s - db_size s < 1 then dbuf_put r s [v] else dbuf_store s [v])"

definition dbuf_put_u16 :: "realloc_fun \<Rightarrow> dynbuf \<Rightarrow> u16 \<Rightarrow> (dynbuf \<times> int) option" where
  "dbuf_put_u16 r s v =
     (if db_alloc s - db_size s < 2 then dbuf_put r s (le_bytes 2 (unat v))
      else dbuf_store s (le_bytes 2 (unat v)))"

definition dbuf_put_u32 :: "realloc_fun \<Rightarrow> dynbuf \<Rightarrow> u32 \<Rightarrow> (dynbuf \<times> int) option" where
  "dbuf_put_u32 r s v =
     (if db_alloc s - db_size s < 4 then dbuf_put r s (le_bytes 4 (unat v))
      else dbuf_store s (le_bytes 4 (unat v)))"

definition dbuf_put_u64 :: "realloc_fun \<Rightarrow> dynbuf \<Rightarrow> u64 \<Rightarrow> (dynbuf \<times> int) option" where
  "dbuf_put_u64 r s v =
     (if db_alloc s - db_size s < 8 then dbuf_put r s (le_bytes 8 (unat v))
      else dbuf_store s (le_bytes 8 (unat v)))"

definition dbuf_putstr :: "realloc_fun \<Rightarrow> dynbuf \<Rightarrow> u8 list \<Rightarrow> (dynbuf \<times> int) option" where
  "dbuf_putstr r s str = do { n \<leftarrow> strlen str; dbuf_put r s (take n str) }"

text \<open>
  \<open>dbuf_printf\<close>: \<open>out\<close> is the text that \<open>vsnprintf\<close> formats (\<open>None\<close> where it fails). The slow
  case prints straight into the claimed space, with the terminating zero after the text.
\<close>

definition dbuf_printf :: "realloc_fun \<Rightarrow> dynbuf \<Rightarrow> u8 list option \<Rightarrow> (dynbuf \<times> int) option" where
  "dbuf_printf r s out =
     (case out of
        None \<Rightarrow> Some (s, -1)
      | Some txt \<Rightarrow>
          if length txt < 128 then dbuf_put r s txt
          else
            case dbuf_claim r s (word_of_nat (length txt) + 1) of
              (s, e) \<Rightarrow>
                if e \<noteq> 0 then Some (s, -1)
                else do {
                  b \<leftarrow> copy_to (db_buf s) (unat (db_size s))
                         (take (unat (db_alloc s - db_size s) - 1) txt @ [0]);
                  Some (s\<lparr>db_buf := b, db_size := db_size s + word_of_nat (length txt)\<rparr>, 0) })"

definition dbuf_free :: "dynbuf \<Rightarrow> dynbuf" where
  "dbuf_free s = dbuf_init2"

definition dbuf_set_error :: "dynbuf \<Rightarrow> dynbuf" where
  "dbuf_set_error s = s\<lparr>db_error := True\<rparr>"

subsection \<open>What the buffer promises\<close>

definition dbuf_content :: "dynbuf \<Rightarrow> u8 list" where
  "dbuf_content s = take (unat (db_size s)) (db_buf s)"

definition dbuf_ok :: "dynbuf \<Rightarrow> bool" where
  "dbuf_ok s \<longleftrightarrow> length (db_buf s) = unat (db_alloc s) \<and> db_size s \<le> db_alloc s"

lemma dbuf_ok_init: "dbuf_ok dbuf_init2 \<and> dbuf_content dbuf_init2 = []"
  by (simp add: dbuf_ok_def dbuf_init2_def dbuf_content_def)

text \<open>
  A byte sink: an object that takes byte strings and keeps what it was given, or refuses and
  keeps what it had. A client that writes several strings and looks at every status knows what
  the sink holds.
\<close>

fun put_all :: "('s \<Rightarrow> u8 list \<Rightarrow> ('s \<times> int) option) \<Rightarrow> 's \<Rightarrow> u8 list list \<Rightarrow> ('s \<times> int) option" where
  "put_all put s [] = Some (s, 0)"
| "put_all put s (d # ds) =
     (case put s d of None \<Rightarrow> None
      | Some (s', e) \<Rightarrow> if e \<noteq> 0 then Some (s', e) else put_all put s' ds)"

locale byte_sink =
  fixes put :: "'s \<Rightarrow> u8 list \<Rightarrow> ('s \<times> int) option"
    and content :: "'s \<Rightarrow> u8 list"
    and ok :: "'s \<Rightarrow> bool"
  assumes put_cases:
    "ok s \<Longrightarrow> length d < 2 ^ 64 \<Longrightarrow>
       \<exists>s' e. put s d = Some (s', e) \<and> ok s' \<and>
              (e = 0 \<and> content s' = content s @ d \<or> e = -1 \<and> content s' = content s)"
begin

lemma put_all_cases:
  assumes "ok s" "\<forall>d\<in>set ds. length d < 2 ^ 64"
  shows "\<exists>s' e n. put_all put s ds = Some (s', e) \<and> ok s' \<and> n \<le> length ds \<and>
           content s' = content s @ concat (take n ds) \<and>
           (e = 0 \<and> n = length ds \<or> e = -1 \<and> n < length ds)"
  using assms
proof (induction ds arbitrary: s)
  case Nil
  then show ?case by auto
next
  case (Cons d ds)
  from Cons.prems put_cases[of s d] obtain s1 e1 where
    p: "put s d = Some (s1, e1)" "ok s1"
      "e1 = 0 \<and> content s1 = content s @ d \<or> e1 = -1 \<and> content s1 = content s" by auto
  show ?case
  proof (cases "e1 = 0")
    case False
    with p have "put_all put s (d # ds) = Some (s1, e1) \<and> ok s1 \<and> 0 \<le> length (d # ds) \<and>
        content s1 = content s @ concat (take 0 (d # ds)) \<and> e1 = -1 \<and> 0 < length (d # ds)"
      by simp
    then show ?thesis by blast
  next
    case True
    from Cons.IH[OF p(2)] Cons.prems obtain s' e n where
      i: "put_all put s1 ds = Some (s', e)" "ok s'" "n \<le> length ds"
        "content s' = content s1 @ concat (take n ds)"
        "e = 0 \<and> n = length ds \<or> e = -1 \<and> n < length ds" by auto
    with True p have "put_all put s (d # ds) = Some (s', e) \<and> ok s' \<and> Suc n \<le> length (d # ds) \<and>
        content s' = content s @ concat (take (Suc n) (d # ds)) \<and>
        (e = 0 \<and> Suc n = length (d # ds) \<or> e = -1 \<and> Suc n < length (d # ds))"
      by simp
    then show ?thesis by blast
  qed
qed

end

text \<open>What \<open>dbuf_claim\<close> relies on: the new block has the size asked for and the old bytes.\<close>

locale reallocator =
  fixes r :: realloc_fun
  assumes realloc_length: "r b n = Some b' \<Longrightarrow> length b' = n"
    and realloc_keeps: "r b n = Some b' \<Longrightarrow> take (min (length b) n) b' = take (min (length b) n) b"
begin

lemma claim_cases:
  assumes "dbuf_ok s"
  shows "\<exists>s' e. dbuf_claim r s len = (s', e) \<and> dbuf_ok s' \<and> db_size s' = db_size s \<and>
           dbuf_content s' = dbuf_content s \<and>
           (e = 0 \<and> unat (db_size s) + unat len \<le> length (db_buf s') \<or> e = -1)"
proof (cases "db_size s + len < len")
  case True
  then show ?thesis using assms by (simp add: dbuf_claim_def)
next
  case nowrap: False
  have sum: "unat (db_size s + len) = unat (db_size s) + unat len"
    using nowrap by (rule word_add_no_wrap)
  show ?thesis
  proof (cases "db_size s + len > db_alloc s")
    case False
    then have "unat (db_size s) + unat len \<le> unat (db_alloc s)"
      unfolding sum[symmetric] by (simp add: word_less_nat_alt)
    then show ?thesis using assms nowrap False by (simp add: dbuf_claim_def dbuf_ok_def)
  next
    case grow: True
    define size where "size = db_alloc s + db_alloc s div 2"
    define n where "n = (if size > db_size s + len then size else db_size s + len)"
    show ?thesis
    proof (cases "db_error s \<or> size < db_alloc s")
      case True
      then have "dbuf_claim r s len = (s, -1)"
        using nowrap grow by (auto simp: dbuf_claim_def size_def Let_def)
      then show ?thesis using assms by simp
    next
      case False
      have h: "dbuf_claim r s len =
          (case r (db_buf s) (unat n) of
             None \<Rightarrow> (s\<lparr>db_error := True\<rparr>, -1)
           | Some b \<Rightarrow> (s\<lparr>db_buf := b, db_alloc := n\<rparr>, 0))"
        using nowrap grow False unfolding dbuf_claim_def Let_def n_def size_def by simp
      show ?thesis
      proof (cases "r (db_buf s) (unat n)")
        case None
        then have "dbuf_claim r s len = (s\<lparr>db_error := True\<rparr>, -1)"
          by (simp add: h)
        then show ?thesis using assms by (simp add: dbuf_ok_def dbuf_content_def)
      next
        case (Some b)
        then have c: "dbuf_claim r s len = (s\<lparr>db_buf := b, db_alloc := n\<rparr>, 0)"
          by (simp add: h)
        have n1: "db_size s + len \<le> n" by (auto simp: n_def)
        have n2: "db_alloc s \<le> n" using n1 grow by (meson order.trans less_imp_le)
        have len: "length b = unat n" using Some by (rule realloc_length)
        have "take (min (length (db_buf s)) (unat n)) b = take (min (length (db_buf s)) (unat n)) (db_buf s)"
          using Some by (rule realloc_keeps)
        then have "take (length (db_buf s)) b = db_buf s"
          using assms n2 by (simp add: dbuf_ok_def word_le_nat_alt min_def)
        then have "take (unat (db_size s)) b = take (unat (db_size s)) (db_buf s)"
          using assms by (metis dbuf_ok_def min.absorb1 take_take word_le_nat_alt)
        moreover have "unat (db_size s) + unat len \<le> unat n"
          using n1 unfolding sum[symmetric] by (simp add: word_le_nat_alt)
        moreover have "db_size s \<le> n" using assms n2 by (auto simp: dbuf_ok_def)
        ultimately show ?thesis using len c by (simp add: dbuf_ok_def dbuf_content_def)
      qed
    qed
  qed
qed

lemma store_cases:
  assumes "dbuf_ok s" "unat (db_size s) + length d \<le> length (db_buf s)"
  shows "\<exists>s'. dbuf_store s d = Some (s', 0) \<and> dbuf_ok s' \<and>
           dbuf_content s' = dbuf_content s @ d"
proof -
  have len: "length (db_buf s) = unat (db_alloc s)" using assms(1) by (simp add: dbuf_ok_def)
  have "unat (db_alloc s) < 2 ^ 64" using unat_lt_pow[of "db_alloc s"] by simp
  then have u: "unat (db_size s + word_of_nat (length d)) = unat (db_size s) + length d"
    using assms(2) len by (simp add: unat_plus_if' unat_of_nat)
  show ?thesis
    using assms len
    by (simp add: dbuf_store_def dbuf_ok_def dbuf_content_def u word_le_nat_alt)
qed

lemma put_ok:
  assumes ok: "dbuf_ok s" and small: "length d < 2 ^ 64"
  shows "\<exists>s' e. dbuf_put r s d = Some (s', e) \<and> dbuf_ok s' \<and>
           (e = 0 \<and> dbuf_content s' = dbuf_content s @ d \<or>
            e = -1 \<and> dbuf_content s' = dbuf_content s)"
proof (cases "db_alloc s - db_size s < (word_of_nat (length d) :: u64)")
  case False
  then have "length d \<le> unat (db_alloc s - db_size s)"
    using small by (simp add: word_less_nat_alt unat_of_nat)
  then have fits: "unat (db_size s) + length d \<le> length (db_buf s)"
    using ok by (simp add: dbuf_ok_def unat_sub word_le_nat_alt le_diff_conv2 add.commute)
  from store_cases[OF ok fits] False show ?thesis by (auto simp: dbuf_put_def)
next
  case True
  obtain s1 e1 where c: "dbuf_claim r s (word_of_nat (length d)) = (s1, e1)"
    "dbuf_ok s1" "db_size s1 = db_size s" "dbuf_content s1 = dbuf_content s"
    "e1 = 0 \<and> unat (db_size s) + unat (word_of_nat (length d) :: u64) \<le> length (db_buf s1) \<or> e1 = -1"
    using claim_cases[OF ok, of "word_of_nat (length d)"] by blast
  show ?thesis
  proof (cases "e1 = 0")
    case False
    with True c show ?thesis by (simp add: dbuf_put_def)
  next
    case e0: True
    then have "unat (db_size s1) + length d \<le> length (db_buf s1)"
      using c small by (simp add: unat_of_nat)
    from store_cases[OF c(2) this] True c e0 show ?thesis by (auto simp: dbuf_put_def)
  qed
qed

end

text \<open>The C library's \<open>realloc\<close> keeps the contract, and with it \<open>dbuf_put\<close> is a byte sink.\<close>

interpretation libc: reallocator "dbuf_default_realloc avail fill" for avail fill
proof unfold_locales
  fix b n b'
  assume "dbuf_default_realloc avail fill b n = Some b'"
  then show "length b' = n" "take (min (length b) n) b' = take (min (length b) n) b"
    by (auto simp: dbuf_default_realloc_def min_def split: if_splits)
qed

interpretation libc_sink:
  byte_sink "dbuf_put (dbuf_default_realloc avail fill)" dbuf_content dbuf_ok for avail fill
  by unfold_locales (rule libc.put_ok)

subsection \<open>Properties\<close>

text \<open>
  C33: A sequence of \<open>dbuf_put\<close> calls on a fresh buffer never touches memory outside the buffer,
  whatever the allocator answers: it ends with the buffer holding exactly the first strings of
  the sequence, all of them when every call returned 0, and stops at the first error otherwise.
\<close>

theorem dbuf_put_sequence:
  assumes "\<forall>d\<in>set ds. length d < 2 ^ 64"
  shows "\<exists>s e n. put_all (dbuf_put (dbuf_default_realloc avail fill)) dbuf_init2 ds = Some (s, e) \<and>
           dbuf_ok s \<and> n \<le> length ds \<and> dbuf_content s = concat (take n ds) \<and>
           (e = 0 \<and> n = length ds \<or> e = -1 \<and> n < length ds)"
  using libc_sink.put_all_cases[of dbuf_init2 ds avail fill] assms dbuf_ok_init by auto

theorem dbuf_put_sequence_witness:
  "\<exists>s e n. put_all (dbuf_put (dbuf_default_realloc (\<lambda>n. n < 4) (\<lambda>_. 0))) dbuf_init2 [[1, 2], [3, 4]] = Some (s, e) \<and>
           dbuf_ok s \<and> n \<le> length [[1, 2], [3, 4 :: u8]] \<and> dbuf_content s = concat (take n [[1, 2], [3, 4]]) \<and>
           (e = 0 \<and> n = length [[1, 2], [3, 4 :: u8]] \<or> e = -1 \<and> n < length [[1, 2], [3, 4 :: u8]])"
  by (rule dbuf_put_sequence) simp

end
