(* ===== verification/Ilist.thy ===== *)
theory Ilist
  imports Prelude
begin

text \<open>
  The intrusive circular doubly linked lists of \<open>zipline/native/quickjs/list.h\<close>, on an explicit
  store: an address holds a \<open>list_head\<close> with its \<open>prev\<close> and \<open>next\<close> addresses (\<open>prevp\<close> and \<open>nextp\<close> here), \<open>NULL\<close> is 0, and
  touching an address that holds none is \<open>None\<close>. The lemmas show that the operations refine the
  operations on lists of addresses, which the garbage collector and the job queue use.
\<close>

record list_head =
  prevp :: nat
  nextp :: nat

type_synonym lstore = "nat \<Rightarrow> list_head option"

definition set_next :: "nat \<Rightarrow> nat \<Rightarrow> lstore \<Rightarrow> lstore option" where
  "set_next a v h = map_option (\<lambda>n. h(a \<mapsto> n\<lparr>nextp := v\<rparr>)) (h a)"

definition set_prev :: "nat \<Rightarrow> nat \<Rightarrow> lstore \<Rightarrow> lstore option" where
  "set_prev a v h = map_option (\<lambda>n. h(a \<mapsto> n\<lparr>prevp := v\<rparr>)) (h a)"

definition init_list_head :: "nat \<Rightarrow> lstore \<Rightarrow> lstore option" where
  "init_list_head head h = do { h \<leftarrow> set_prev head head h; set_next head head h }"

definition list_add_between :: "nat \<Rightarrow> nat \<Rightarrow> nat \<Rightarrow> lstore \<Rightarrow> lstore option" where
  "list_add_between el p n h = do {
     h \<leftarrow> set_next p el h;
     h \<leftarrow> set_prev el p h;
     h \<leftarrow> set_next el n h;
     set_prev n el h }"

definition list_add :: "nat \<Rightarrow> nat \<Rightarrow> lstore \<Rightarrow> lstore option" where
  "list_add el head h = do { n \<leftarrow> h head; list_add_between el head (nextp n) h }"

definition list_add_tail :: "nat \<Rightarrow> nat \<Rightarrow> lstore \<Rightarrow> lstore option" where
  "list_add_tail el head h = do { n \<leftarrow> h head; list_add_between el (prevp n) head h }"

definition list_del :: "nat \<Rightarrow> lstore \<Rightarrow> lstore option" where
  "list_del el h = do {
     e \<leftarrow> h el;
     let p = prevp e;
     let n = nextp e;
     h \<leftarrow> set_next p n h;
     h \<leftarrow> set_prev n p h;
     h \<leftarrow> set_prev el 0 h;
     set_next el 0 h }"

definition list_empty :: "nat \<Rightarrow> lstore \<Rightarrow> bool option" where
  "list_empty el h = do { n \<leftarrow> h el; Some (nextp n = el) }"

text \<open>\<open>list_for_each\<close>: the addresses in the order the loop visits them, from \<open>el\<close> on.\<close>

fun list_for_each :: "nat \<Rightarrow> nat \<Rightarrow> nat \<Rightarrow> lstore \<Rightarrow> nat list option" where
  "list_for_each 0 el head h = None"
| "list_for_each (Suc fuel) el head h =
     (if el = head then Some []
      else do { n \<leftarrow> h el; xs \<leftarrow> list_for_each fuel (nextp n) head h; Some (el # xs) })"

definition list_elems :: "nat \<Rightarrow> nat \<Rightarrow> lstore \<Rightarrow> nat list option" where
  "list_elems fuel head h = do { n \<leftarrow> h head; list_for_each fuel (nextp n) head h }"

subsection \<open>Rings\<close>

definition nx :: "lstore \<Rightarrow> nat \<Rightarrow> nat" where
  "nx h a = (case h a of Some n \<Rightarrow> nextp n | None \<Rightarrow> 0)"

definition pv :: "lstore \<Rightarrow> nat \<Rightarrow> nat" where
  "pv h a = (case h a of Some n \<Rightarrow> prevp n | None \<Rightarrow> 0)"

fun consec :: "lstore \<Rightarrow> nat list \<Rightarrow> bool" where
  "consec h (a # b # r) = (nx h a = b \<and> pv h b = a \<and> consec h (b # r))"
| "consec h _ = True"

definition ring :: "lstore \<Rightarrow> nat \<Rightarrow> nat list \<Rightarrow> bool" where
  "ring h head xs \<longleftrightarrow>
     distinct (head # xs) \<and> set (head # xs) \<subseteq> dom h \<and> consec h (head # xs @ [head])"

lemma consec_split:
  "consec h (l1 @ a # b # l2) \<longleftrightarrow>
     consec h (l1 @ [a]) \<and> nx h a = b \<and> pv h b = a \<and> consec h (b # l2)"
proof (induction l1)
  case (Cons x l1)
  then show ?case by (cases l1) auto
qed simp

lemma consec_cong:
  "(\<And>x. x \<in> set (butlast l) \<Longrightarrow> nx h' x = nx h x) \<Longrightarrow>
   (\<And>x. x \<in> set (tl l) \<Longrightarrow> pv h' x = pv h x) \<Longrightarrow> consec h' l = consec h l"
proof (induction h l rule: consec.induct)
  case (1 h a b r)
  then have "consec h' (b # r) = consec h (b # r)" by (cases r) auto
  with 1 show ?case by auto
qed auto

lemma ring_split:
  assumes "ring h head (xs @ ys)"
  obtains l1 a b l2 where "head # xs = l1 @ [a]" "ys @ [head] = b # l2"
    "consec h (l1 @ [a])" "nx h a = b" "pv h b = a" "consec h (b # l2)"
proof -
  obtain l1 a where 1: "head # xs = l1 @ [a]" by (metis append_butlast_last_id list.discI)
  obtain b l2 where 2: "ys @ [head] = b # l2" by (cases "ys @ [head]") auto
  have "head # (xs @ ys) @ [head] = l1 @ a # b # l2"
    using 1 2 by (metis append.assoc append_Cons append_Nil)
  with assms have "consec h (l1 @ a # b # l2)" by (simp add: ring_def)
  with 1 2 that show ?thesis by (simp add: consec_split)
qed

lemma set_next_Some: "a \<in> dom h \<Longrightarrow>
  \<exists>h'. set_next a v h = Some h' \<and> dom h' = dom h \<and> nx h' = (nx h)(a := v) \<and> pv h' = pv h"
proof -
  assume "a \<in> dom h"
  then obtain n where n: "h a = Some n" by auto
  have "dom (h(a \<mapsto> n\<lparr>nextp := v\<rparr>)) = dom h" using n by auto
  moreover have "nx (h(a \<mapsto> n\<lparr>nextp := v\<rparr>)) = (nx h)(a := v)" by (auto simp: nx_def fun_eq_iff)
  moreover have "pv (h(a \<mapsto> n\<lparr>nextp := v\<rparr>)) = pv h" using n by (auto simp: pv_def fun_eq_iff)
  ultimately show ?thesis using n by (simp add: set_next_def)
qed

lemma set_prev_Some: "a \<in> dom h \<Longrightarrow>
  \<exists>h'. set_prev a v h = Some h' \<and> dom h' = dom h \<and> pv h' = (pv h)(a := v) \<and> nx h' = nx h"
proof -
  assume "a \<in> dom h"
  then obtain n where n: "h a = Some n" by auto
  have "dom (h(a \<mapsto> n\<lparr>prevp := v\<rparr>)) = dom h" using n by auto
  moreover have "pv (h(a \<mapsto> n\<lparr>prevp := v\<rparr>)) = (pv h)(a := v)" by (auto simp: pv_def fun_eq_iff)
  moreover have "nx (h(a \<mapsto> n\<lparr>prevp := v\<rparr>)) = nx h" using n by (auto simp: nx_def fun_eq_iff)
  ultimately show ?thesis using n by (simp add: set_prev_def)
qed

lemma list_add_between_Some:
  assumes "{el, p, n} \<subseteq> dom h"
  shows "\<exists>h'. list_add_between el p n h = Some h' \<and> dom h' = dom h \<and>
           nx h' = (nx h)(p := el, el := n) \<and> pv h' = (pv h)(el := p, n := el)"
proof -
  obtain h1 where 1: "set_next p el h = Some h1" "dom h1 = dom h" "nx h1 = (nx h)(p := el)" "pv h1 = pv h"
    using set_next_Some[of p h el] assms by auto
  obtain h2 where 2: "set_prev el p h1 = Some h2" "dom h2 = dom h" "nx h2 = nx h1" "pv h2 = (pv h1)(el := p)"
    using set_prev_Some[of el h1 p] assms 1 by auto
  obtain h3 where 3: "set_next el n h2 = Some h3" "dom h3 = dom h" "nx h3 = (nx h2)(el := n)" "pv h3 = pv h2"
    using set_next_Some[of el h2 n] assms 2 by auto
  obtain h4 where "set_prev n el h3 = Some h4" "dom h4 = dom h" "nx h4 = nx h3" "pv h4 = (pv h3)(n := el)"
    using set_prev_Some[of n h3 el] assms 3 by auto
  with 1 2 3 show ?thesis by (simp add: list_add_between_def)
qed

text \<open>Inserting between two neighbours puts the new element between their positions.\<close>

lemma ring_insert:
  assumes r: "ring h head (xs @ ys)" and el: "el \<in> dom h" "el \<notin> set (head # xs @ ys)"
    and a: "a = last (head # xs)" and b: "b = hd (ys @ [head])"
  shows "\<exists>h'. list_add_between el a b h = Some h' \<and> dom h' = dom h \<and> ring h' head (xs @ el # ys)
           \<and> (\<forall>x. x \<notin> set (el # head # xs @ ys) \<longrightarrow> h' x = h x)"
proof -
  from ring_split[OF r] obtain l1 a' b' l2 where
    s: "head # xs = l1 @ [a']" "ys @ [head] = b' # l2" "consec h (l1 @ [a'])" "nx h a' = b'"
      "pv h b' = a'" "consec h (b' # l2)" by blast
  have a': "a' = a" using s(1) a by simp
  have b': "b' = b" using s(2) b by (metis list.sel(1))
  have dist: "distinct (head # xs @ ys)" using r by (simp add: ring_def)
  have ain: "a \<in> set (head # xs)" using a by (metis last_in_set list.discI)
  have bin: "b \<in> set (ys @ [head])" using b by (metis hd_in_set snoc_eq_iff_butlast)
  have dom: "{el, a, b} \<subseteq> dom h" using r el ain bin by (auto simp: ring_def)
  from list_add_between_Some[OF dom] obtain h' where
    h': "list_add_between el a b h = Some h'" "dom h' = dom h"
      "nx h' = (nx h)(a := el, el := b)" "pv h' = (pv h)(el := a, b := el)" by blast
  have bl: "a \<notin> set l1" "el \<notin> set l1"
  proof -
    have "distinct (l1 @ [a'])" using dist s(1) by (metis append_Cons distinct_append)
    then show "a \<notin> set l1" using a' by simp
    have "set l1 \<subseteq> set (head # xs)" unfolding s(1) by auto
    then show "el \<notin> set l1" using el(2) by auto
  qed
  have bx: "b \<notin> set xs" using bin dist by auto
  have tl: "tl (l1 @ [a']) = xs" using s(1) by (metis list.sel(3))
  have c1: "consec h' (l1 @ [a'])"
  proof (subst consec_cong[where h = h])
    show "nx h' x = nx h x" if "x \<in> set (butlast (l1 @ [a']))" for x
      using that bl by (auto simp: h')
    show "pv h' x = pv h x" if "x \<in> set (tl (l1 @ [a']))" for x
      using that bx el(2) unfolding tl by (auto simp: h')
  qed (rule s(3))
  have by_: "butlast (b' # l2) = ys" using s(2) by (metis butlast_snoc)
  have dist2: "distinct (b' # l2)" unfolding s(2)[symmetric] using dist by auto
  have l2: "set l2 \<subseteq> insert head (set ys)"
  proof -
    have "set (b' # l2) = insert head (set ys)" unfolding s(2)[symmetric] by auto
    then show ?thesis by auto
  qed
  have c2: "consec h' (b' # l2)"
  proof (subst consec_cong[where h = h])
    show "nx h' x = nx h x" if "x \<in> set (butlast (b' # l2))" for x
      using that ain dist el(2) unfolding by_ by (auto simp: h')
    show "pv h' x = pv h x" if "x \<in> set (tl (b' # l2))" for x
      using that dist2 b' l2 el(2) by (auto simp: h')
  qed (rule s(6))
  have nb: "nx h' a = el" "nx h' el = b" "pv h' el = a" "pv h' b = el"
    using el(2) ain bin by (auto simp: h')
  have "consec h' (el # b' # l2)" using nb c2 b' by simp
  moreover have "consec h' (l1 @ [a'])" by (rule c1)
  ultimately have "consec h' (l1 @ a' # el # b' # l2)"
    using nb a' by (simp only: consec_split) 
  moreover have "head # (xs @ el # ys) @ [head] = l1 @ a' # el # b' # l2"
    using s(1,2) by (metis append.assoc append_Cons append_Nil)
  ultimately have "ring h' head (xs @ el # ys)"
    using r el h'(2) by (auto simp: ring_def)
  moreover have "\<forall>x. x \<notin> set (el # head # xs @ ys) \<longrightarrow> h' x = h x"
    using h'(1) ain bin unfolding list_add_between_def set_next_def set_prev_def
    by (auto split: bind_splits)
  ultimately show ?thesis using h'(1,2) by blast
qed

text \<open>Deleting an element joins its neighbours and leaves its own links null.\<close>

lemma ring_delete:
  assumes r: "ring h head (xs @ el # ys)"
  shows "\<exists>h'. list_del el h = Some h' \<and> dom h' = dom h \<and> ring h' head (xs @ ys)
           \<and> nx h' el = 0 \<and> pv h' el = 0 \<and> (\<forall>x. x \<notin> set (el # head # xs @ ys) \<longrightarrow> h' x = h x)"
proof -
  define l1 a where "l1 = butlast (head # xs)" and "a = last (head # xs)"
  have s1: "head # xs = l1 @ [a]" by (simp add: l1_def a_def)
  obtain b l2 where s2: "ys @ [head] = b # l2" by (cases "ys @ [head]") auto
  have dist: "distinct (head # xs @ el # ys)" and dm: "set (head # xs @ el # ys) \<subseteq> dom h"
    using r by (auto simp: ring_def)
  have "head # (xs @ el # ys) @ [head] = (l1 @ [a]) @ el # b # l2"
    using s1 s2 by (metis append.assoc append_Cons)
  with r have c: "consec h ((l1 @ [a]) @ el # b # l2)" by (simp add: ring_def)
  from this[unfolded consec_split] have ca: "consec h ((l1 @ [a]) @ [el])" and
    eb: "nx h el = b" "pv h b = el" and c2: "consec h (b # l2)" by auto
  from ca consec_split[of h l1 a el "[]"] have c1: "consec h (l1 @ [a])" and
    ae: "nx h a = el" "pv h el = a" by auto
  have ain: "a \<in> set (head # xs)" unfolding a_def by (rule last_in_set) simp
  have bin: "b \<in> set (ys @ [head])" using s2 by simp
  have ab: "a \<noteq> el" "b \<noteq> el" using ain bin dist by auto
  have bd: "b \<in> dom h" using bin dm by auto
  obtain e where e: "h el = Some e" using dm by auto
  then have pe: "prevp e = a" "nextp e = b" using ae eb by (auto simp: nx_def pv_def)
  obtain h1 where 1: "set_next a b h = Some h1" "dom h1 = dom h" "nx h1 = (nx h)(a := b)" "pv h1 = pv h"
    using set_next_Some[of a h b] ain dm by auto
  obtain h2 where 2: "set_prev b a h1 = Some h2" "dom h2 = dom h" "pv h2 = (pv h1)(b := a)" "nx h2 = nx h1"
    using set_prev_Some[of b h1 a] bd 1 by auto
  obtain h3 where 3: "set_prev el 0 h2 = Some h3" "dom h3 = dom h" "pv h3 = (pv h2)(el := 0)" "nx h3 = nx h2"
    using set_prev_Some[of el h2 0] dm 2 by auto
  obtain h' where 4: "set_next el 0 h3 = Some h'" "dom h' = dom h" "nx h' = (nx h3)(el := 0)" "pv h' = pv h3"
    using set_next_Some[of el h3 0] dm 3 by auto
  have del: "list_del el h = Some h'"
    using e pe 1(1) 2(1) 3(1) 4(1) by (simp add: list_del_def)
  have nxh: "nx h' = (nx h)(a := b, el := 0)" and pvh: "pv h' = (pv h)(b := a, el := 0)"
    using 1 2 3 4 by auto
  have tl: "tl (l1 @ [a]) = xs" using s1 by (metis list.sel(3))
  have l1: "a \<notin> set l1" "el \<notin> set l1"
  proof -
    have "distinct (l1 @ [a])" unfolding s1[symmetric] using dist by auto
    then show "a \<notin> set l1" by simp
    have "set l1 \<subseteq> set (head # xs)" unfolding s1 by auto
    then show "el \<notin> set l1" using dist by auto
  qed
  have c1': "consec h' (l1 @ [a])"
  proof (subst consec_cong[where h = h])
    show "nx h' x = nx h x" if "x \<in> set (butlast (l1 @ [a]))" for x
      using that l1 by (auto simp: nxh)
    show "pv h' x = pv h x" if "x \<in> set (tl (l1 @ [a]))" for x
      using that bin dist unfolding tl by (auto simp: pvh)
  qed (rule c1)
  have by_: "butlast (b # l2) = ys" using s2 by (metis butlast_snoc)
  have d2: "distinct (b # l2)" unfolding s2[symmetric] using dist by auto
  have l2: "el \<notin> set l2"
  proof -
    have "set (b # l2) = insert head (set ys)" unfolding s2[symmetric] by auto
    then show ?thesis using dist by auto
  qed
  have c2': "consec h' (b # l2)"
  proof (subst consec_cong[where h = h])
    show "nx h' x = nx h x" if "x \<in> set (butlast (b # l2))" for x
      using that ain dist unfolding by_ by (auto simp: nxh)
    show "pv h' x = pv h x" if "x \<in> set (tl (b # l2))" for x
      using that d2 l2 by (auto simp: pvh)
  qed (rule c2)
  have "consec h' (l1 @ a # b # l2)"
    unfolding consec_split using c1' c2' ab by (simp add: nxh pvh)
  moreover have "head # (xs @ ys) @ [head] = l1 @ a # b # l2"
    using s1 s2 by (metis append.assoc append_Cons append_Nil)
  ultimately have "ring h' head (xs @ ys)"
    using dist dm 4(2) by (auto simp: ring_def)
  moreover have "\<forall>x. x \<notin> set (el # head # xs @ ys) \<longrightarrow> h' x = h x"
    using del e pe ain bin unfolding list_del_def set_next_def set_prev_def Let_def
    by (auto split: bind_splits)
  ultimately show ?thesis using del 4(2) ab by (simp add: nxh pvh)
qed

lemma ring_first_last:
  assumes "ring h head xs" "h head = Some n"
  shows "nextp n = hd (xs @ [head])" "prevp n = last (head # xs)"
proof -
  have nxp: "nx h head = nextp n" "pv h head = prevp n" using assms(2) by (simp_all add: nx_def pv_def)
  have "ring h head ([] @ xs)" using assms(1) by simp
  then obtain l1 a b l2 where s: "[head] = l1 @ [a]" "xs @ [head] = b # l2" "nx h a = b"
    by (rule ring_split)
  have "a = head" using s(1) by (cases l1) auto
  then show "nextp n = hd (xs @ [head])" using s(2,3) nxp by simp
  have "ring h head (xs @ [])" using assms(1) by simp
  then obtain l1 a b l2 where s: "head # xs = l1 @ [a]" "[] @ [head] = b # l2" "pv h b = a"
    by (rule ring_split)
  have "b = head" using s(2) by simp
  moreover have "last (head # xs) = a" unfolding s(1) by simp
  ultimately show "prevp n = last (head # xs)" using s(3) nxp by simp
qed

lemma list_for_each_ring:
  assumes "set ys \<subseteq> dom h" "consec h (ys @ [head])" "head \<notin> set ys" "length ys < fuel"
  shows "list_for_each fuel (hd (ys @ [head])) head h = Some ys"
  using assms
proof (induction ys arbitrary: fuel)
  case Nil
  then show ?case by (cases fuel) auto
next
  case (Cons y ys)
  then obtain f where f: "fuel = Suc f" by (cases fuel) auto
  obtain n where n: "h y = Some n" using Cons.prems(1) by auto
  obtain b l2 where s: "ys @ [head] = b # l2" by (cases "ys @ [head]") auto
  with Cons.prems(2) have "nx h y = b" "consec h (ys @ [head])" by auto
  then have "nextp n = hd (ys @ [head])" "consec h (ys @ [head])" using n s by (auto simp: nx_def)
  with Cons f n show ?case by auto
qed

subsection \<open>The interface\<close>

text \<open>
  What a client of intrusive lists uses: a new head is an empty list, an element can be put at
  either end and taken out wherever it is, and a traversal visits the elements in order. The
  second argument of \<open>isl\<close> is the list of addresses that a head stands for.
\<close>

locale intrusive_list =
  fixes isl :: "'s \<Rightarrow> 'a \<Rightarrow> 'a list \<Rightarrow> bool"
    and valid :: "'s \<Rightarrow> 'a \<Rightarrow> bool"
    and init :: "'a \<Rightarrow> 's \<Rightarrow> 's option"
    and add :: "'a \<Rightarrow> 'a \<Rightarrow> 's \<Rightarrow> 's option"
    and add_tail :: "'a \<Rightarrow> 'a \<Rightarrow> 's \<Rightarrow> 's option"
    and del :: "'a \<Rightarrow> 's \<Rightarrow> 's option"
  assumes init_isl: "valid s hp \<Longrightarrow> \<exists>s'. init hp s = Some s' \<and> isl s' hp []"
    and add_isl: "isl s hp xs \<Longrightarrow> valid s x \<Longrightarrow> x \<notin> set (hp # xs) \<Longrightarrow>
          \<exists>s'. add x hp s = Some s' \<and> isl s' hp (x # xs) \<and> valid s' = valid s"
    and add_tail_isl: "isl s hp xs \<Longrightarrow> valid s x \<Longrightarrow> x \<notin> set (hp # xs) \<Longrightarrow>
          \<exists>s'. add_tail x hp s = Some s' \<and> isl s' hp (xs @ [x]) \<and> valid s' = valid s"
    and del_isl: "isl s hp (xs @ x # ys) \<Longrightarrow>
          \<exists>s'. del x s = Some s' \<and> isl s' hp (xs @ ys) \<and> valid s' = valid s"
    and isl_distinct: "isl s hp xs \<Longrightarrow> distinct (hp # xs)"
begin

lemma del_remove1:
  assumes "isl s hp xs" "x \<in> set xs"
  shows "\<exists>s'. del x s = Some s' \<and> isl s' hp (remove1 x xs) \<and> valid s' = valid s"
proof -
  obtain ys zs where xs: "xs = ys @ x # zs" using assms(2) by (meson split_list)
  with isl_distinct[OF assms(1)] have "x \<notin> set ys" by auto
  then have "remove1 x xs = ys @ zs" by (simp add: xs remove1_append)
  with del_isl assms(1) xs show ?thesis by metis
qed

text \<open>Moving an element to the tail, the pattern of the collector's work lists.\<close>

lemma del_add_tail:
  assumes "isl s hp xs" "x \<in> set xs" "valid s x"
  shows "\<exists>s1 s2. del x s = Some s1 \<and> add_tail x hp s1 = Some s2 \<and> isl s2 hp (remove1 x xs @ [x])"
proof -
  from del_remove1[OF assms(1,2)] obtain s1 where
    s1: "del x s = Some s1" "isl s1 hp (remove1 x xs)" "valid s1 = valid s" by blast
  have d: "distinct (hp # xs)" using assms(1) by (rule isl_distinct)
  then have "x \<notin> set (hp # remove1 x xs)" using assms(2) by (auto simp: set_remove1_eq)
  with add_tail_isl[OF s1(2), of x] s1 assms(3) show ?thesis by auto
qed

end

lemma list_add_ring:
  assumes r: "ring h head xs" and el: "el \<in> dom h" "el \<notin> set (head # xs)"
  shows "\<exists>h'. list_add el head h = Some h' \<and> dom h' = dom h \<and> ring h' head (el # xs)"
proof -
  obtain n where n: "h head = Some n" using r by (auto simp: ring_def)
  have "nextp n = hd (xs @ [head])" using ring_first_last[OF r n] by simp
  with ring_insert[of h head "[]" xs el head "nextp n"] r el n
  show ?thesis by (auto simp: list_add_def)
qed

lemma list_add_tail_ring:
  assumes r: "ring h head xs" and el: "el \<in> dom h" "el \<notin> set (head # xs)"
  shows "\<exists>h'. list_add_tail el head h = Some h' \<and> dom h' = dom h \<and> ring h' head (xs @ [el])"
proof -
  obtain n where n: "h head = Some n" using r by (auto simp: ring_def)
  have "prevp n = last (head # xs)" using ring_first_last[OF r n] by simp
  with ring_insert[of h head xs "[]" el "prevp n" head] r el n
  show ?thesis by (auto simp: list_add_tail_def)
qed

lemma init_ring: "head \<in> dom h \<Longrightarrow> \<exists>h'. init_list_head head h = Some h' \<and> ring h' head []"
  by (auto simp: init_list_head_def set_prev_def set_next_def ring_def nx_def pv_def)

interpretation ring_list: intrusive_list ring "\<lambda>h a. a \<in> dom h" init_list_head list_add list_add_tail list_del
proof unfold_locales
  show "\<exists>s'. init_list_head hp s = Some s' \<and> ring s' hp []" if "hp \<in> dom s" for s hp
    using that by (rule init_ring)
  show "\<exists>s'. list_add x hp s = Some s' \<and> ring s' hp (x # xs) \<and> (\<lambda>a. a \<in> dom s') = (\<lambda>a. a \<in> dom s)"
    if "ring s hp xs" "x \<in> dom s" "x \<notin> set (hp # xs)" for s hp xs x
    using list_add_ring[OF that] by metis
  show "\<exists>s'. list_add_tail x hp s = Some s' \<and> ring s' hp (xs @ [x]) \<and> (\<lambda>a. a \<in> dom s') = (\<lambda>a. a \<in> dom s)"
    if "ring s hp xs" "x \<in> dom s" "x \<notin> set (hp # xs)" for s hp xs x
    using list_add_tail_ring[OF that] by metis
  show "\<exists>s'. list_del x s = Some s' \<and> ring s' hp (xs @ ys) \<and> (\<lambda>a. a \<in> dom s') = (\<lambda>a. a \<in> dom s)"
    if "ring s hp (xs @ x # ys)" for s hp xs x ys
    using ring_delete[OF that] by metis
  show "distinct (hp # xs)" if "ring s hp xs" for s hp xs
    using that by (simp add: ring_def)
qed

subsection \<open>Properties\<close>

lemma list_elems_ring:
  assumes "ring h head xs" "length xs < fuel"
  shows "list_elems fuel head h = Some xs"
proof -
  obtain n where n: "h head = Some n" using assms(1) by (auto simp: ring_def)
  then have "nextp n = hd (xs @ [head])" using ring_first_last[OF assms(1) n] by simp
  moreover have "consec h (xs @ [head])"
    using assms(1) by (cases "xs @ [head]") (auto simp: ring_def)
  ultimately show ?thesis
    using list_for_each_ring[of xs h head fuel] assms n by (simp add: list_elems_def ring_def)
qed

text \<open>
  On a well-formed list, \<open>list_add_tail\<close> of a new element followed by a traversal visits the
  old elements and then the new one, and \<open>list_del\<close> of it brings the old traversal back; no step
  follows a dangling pointer and the traversal ends.
\<close>

theorem list_add_del_traverse:
  assumes "ring h hp xs" "el \<in> dom h" "el \<notin> set (hp # xs)" "Suc (length xs) < fuel"
  shows "\<exists>h1 h2. list_add_tail el hp h = Some h1 \<and> list_elems fuel hp h1 = Some (xs @ [el]) \<and>
           list_del el h1 = Some h2 \<and> list_elems fuel hp h2 = Some xs"
proof -
  obtain h1 where h1: "list_add_tail el hp h = Some h1" "ring h1 hp (xs @ [el])"
    using ring_list.add_tail_isl[OF assms(1,2,3)] by blast
  obtain h2 where h2: "list_del el h1 = Some h2" "ring h2 hp (xs @ [])"
    using ring_list.del_isl[of h1 hp xs el "[]"] h1 by auto
  show ?thesis using h1 h2 assms(4) list_elems_ring[of h1 hp "xs @ [el]" fuel] list_elems_ring[of h2 hp xs fuel]
    by auto
qed

theorem list_add_del_traverse_witness:
  "\<exists>h1 h2. list_add_tail 20 10 [10 \<mapsto> \<lparr>prevp = 10, nextp = 10\<rparr>, 20 \<mapsto> \<lparr>prevp = 0, nextp = 0\<rparr>] = Some h1 \<and>
     list_elems 3 10 h1 = Some ([] @ [20]) \<and> list_del 20 h1 = Some h2 \<and> list_elems 3 10 h2 = Some []"
  by (rule list_add_del_traverse) (auto simp: ring_def nx_def pv_def)

end
