(* ===== verification/Gc.thy ===== *)
theory Gc
  imports Ilist "HOL-Library.Multiset"
begin

text \<open>
  The cycle collector of \<open>zipline/native/quickjs/quickjs.c\<close>: every garbage collected object has
  a reference count and sits on one of three intrusive lists (\<open>gc_obj_list\<close>, \<open>tmp_obj_list\<close>,
  \<open>gc_zero_ref_count_list\<close>). \<open>gc_decref\<close> subtracts the references that objects hold to one
  another, \<open>gc_scan\<close> puts back those that start at objects still referenced from outside. The
  lists are lists of object identities here; theory \<open>Ilist\<close> shows that \<open>list.h\<close> implements
  the operations used on them. A failed \<open>assert\<close> is \<open>None\<close>.

  What an object refers to is modelled per kind of object, as \<open>mark_children\<close> enumerates it.
  The marking functions of the individual classes, of contexts and of modules are data of the
  object here: the list of objects they pass to \<open>mark_func\<close>.
\<close>

subsection \<open>Objects and what they refer to\<close>

type_synonym gid = nat

text \<open>A JS value, as far as the collector looks at it: strings, numbers and symbols are \<open>VOther\<close>.\<close>

datatype gcval = VObject gid | VFunctionBytecode gid | VModule gid | VOther

datatype gcprop =
    PValue gcval
  | PGetSet "gid option" "gid option"
  | PVarRef gid
  | PAutoInit "gid list"
  | PDeleted

datatype gcobj =
    JSObject gid "gcprop list" "gid list option"
  | FunctionBytecode "gcval list" "gid option"
  | VarRefDetached gcval
  | VarRefAttached "gid option"
  | AsyncFunction bool gcval gcval "gcval list option" gcval gcval
  | Shape "gid option"
  | JSContextObj "gid list"
  | ModuleObj "gid list"

definition JS_MarkValue :: "gcval \<Rightarrow> gid list" where
  "JS_MarkValue v =
     (case v of VObject p \<Rightarrow> [p] | VFunctionBytecode p \<Rightarrow> [p] | VModule p \<Rightarrow> [p] | VOther \<Rightarrow> [])"

definition mark_opt :: "gid option \<Rightarrow> gid list" where
  "mark_opt m = (case m of None \<Rightarrow> [] | Some p \<Rightarrow> [p])"

definition mark_prop :: "gcprop \<Rightarrow> gid list" where
  "mark_prop pr =
     (case pr of
        PValue v \<Rightarrow> JS_MarkValue v
      | PGetSet getter setter \<Rightarrow> mark_opt getter @ mark_opt setter
      | PVarRef r \<Rightarrow> [r]
      | PAutoInit ps \<Rightarrow> ps
      | PDeleted \<Rightarrow> [])"

text \<open>The objects passed to \<open>mark_func\<close>, in order.\<close>

fun mark_children :: "gcobj \<Rightarrow> gid list" where
  "mark_children (JSObject shape props gc_mark) =
     shape # concat (map mark_prop props) @ (case gc_mark of None \<Rightarrow> [] | Some ps \<Rightarrow> ps)"
| "mark_children (FunctionBytecode cpool realm) = concat (map JS_MarkValue cpool) @ mark_opt realm"
| "mark_children (VarRefDetached v) = JS_MarkValue v"
| "mark_children (VarRefAttached async_func) = mark_opt async_func"
| "mark_children (AsyncFunction is_completed cur_func this_val stack r0 r1) =
     (if \<not> is_completed
      then JS_MarkValue cur_func @ JS_MarkValue this_val @
           (case stack of None \<Rightarrow> [] | Some vs \<Rightarrow> concat (map JS_MarkValue vs))
      else []) @ JS_MarkValue r0 @ JS_MarkValue r1"
| "mark_children (Shape proto) = mark_opt proto"
| "mark_children (JSContextObj ps) = ps"
| "mark_children (ModuleObj ps) = ps"

subsection \<open>The collector's state\<close>

record gcstate =
  obj :: "gid \<Rightarrow> gcobj"
  ref_count :: "gid \<Rightarrow> int"
  mark :: "gid \<Rightarrow> nat"
  gc_obj_list :: "gid list"
  tmp_obj_list :: "gid list"
  gc_zero_ref_count_list :: "gid list"

text \<open>\<open>list_del\<close> takes the object off the list it is on.\<close>

definition gc_list_del :: "gid \<Rightarrow> gcstate \<Rightarrow> gcstate" where
  "gc_list_del p s =
     s\<lparr>gc_obj_list := remove1 p (gc_obj_list s), tmp_obj_list := remove1 p (tmp_obj_list s),
       gc_zero_ref_count_list := remove1 p (gc_zero_ref_count_list s)\<rparr>"

definition add_gc_object :: "gid \<Rightarrow> gcobj \<Rightarrow> gcstate \<Rightarrow> gcstate" where
  "add_gc_object p b s =
     s\<lparr>mark := (mark s)(p := 0), obj := (obj s)(p := b), gc_obj_list := gc_obj_list s @ [p]\<rparr>"

definition remove_gc_object :: "gid \<Rightarrow> gcstate \<Rightarrow> gcstate" where
  "remove_gc_object p s = gc_list_del p s"

text \<open>The successor of an element on a list; \<open>None\<close> is the list head.\<close>

definition next_in :: "gid list \<Rightarrow> gid \<Rightarrow> gid option" where
  "next_in xs p = (case dropWhile (\<lambda>x. x \<noteq> p) xs of _ # y # _ \<Rightarrow> Some y | _ \<Rightarrow> None)"

definition first_in :: "gid list \<Rightarrow> gid option" where
  "first_in xs = (case xs of [] \<Rightarrow> None | x # _ \<Rightarrow> Some x)"

fun mark_each :: "(gid \<Rightarrow> gcstate \<Rightarrow> gcstate option) \<Rightarrow> gid list \<Rightarrow> gcstate \<Rightarrow> gcstate option" where
  "mark_each mark_func [] s = Some s"
| "mark_each mark_func (p # ps) s = do { s \<leftarrow> mark_func p s; mark_each mark_func ps s }"

subsection \<open>Subtracting the internal references\<close>

definition gc_decref_child :: "gid \<Rightarrow> gcstate \<Rightarrow> gcstate option" where
  "gc_decref_child p s =
     (if ref_count s p > 0 then
        let s = s\<lparr>ref_count := (ref_count s)(p := ref_count s p - 1)\<rparr> in
        Some (if ref_count s p = 0 \<and> mark s p = 1
              then (let s = gc_list_del p s in s\<lparr>tmp_obj_list := tmp_obj_list s @ [p]\<rparr>)
              else s)
      else None)"

text \<open>
  The loop of \<open>gc_decref\<close>: \<open>list_for_each_safe\<close> reads the successor of an element before it
  runs the body. \<open>fuel\<close> bounds the number of iterations.
\<close>

fun gc_decref_loop :: "nat \<Rightarrow> gid option \<Rightarrow> gcstate \<Rightarrow> gcstate option" where
  "gc_decref_loop 0 el s = None"
| "gc_decref_loop (Suc fuel) None s = Some s"
| "gc_decref_loop (Suc fuel) (Some p) s =
     (let el1 = next_in (gc_obj_list s) p in
      if mark s p \<noteq> 0 then None
      else do {
        s \<leftarrow> mark_each gc_decref_child (mark_children (obj s p)) s;
        let s = s\<lparr>mark := (mark s)(p := 1)\<rparr>;
        let s = (if ref_count s p = 0
                 then (let s = gc_list_del p s in s\<lparr>tmp_obj_list := tmp_obj_list s @ [p]\<rparr>)
                 else s);
        gc_decref_loop fuel el1 s })"

definition gc_decref :: "nat \<Rightarrow> gcstate \<Rightarrow> gcstate option" where
  "gc_decref fuel s =
     (let s = s\<lparr>tmp_obj_list := []\<rparr> in gc_decref_loop fuel (first_in (gc_obj_list s)) s)"

subsection \<open>Putting back what is reachable from outside\<close>

definition gc_scan_incref_child :: "gid \<Rightarrow> gcstate \<Rightarrow> gcstate option" where
  "gc_scan_incref_child p s =
     (let s = s\<lparr>ref_count := (ref_count s)(p := ref_count s p + 1)\<rparr> in
      Some (if ref_count s p = 1
            then (let s = gc_list_del p s
                  in s\<lparr>gc_obj_list := gc_obj_list s @ [p], mark := (mark s)(p := 0)\<rparr>)
            else s))"

definition gc_scan_incref_child2 :: "gid \<Rightarrow> gcstate \<Rightarrow> gcstate option" where
  "gc_scan_incref_child2 p s = Some (s\<lparr>ref_count := (ref_count s)(p := ref_count s p + 1)\<rparr>)"

text \<open>\<open>list_for_each\<close> reads the successor after the body, so it meets the appended elements.\<close>

fun gc_scan_loop :: "nat \<Rightarrow> gid option \<Rightarrow> gcstate \<Rightarrow> gcstate option" where
  "gc_scan_loop 0 el s = None"
| "gc_scan_loop (Suc fuel) None s = Some s"
| "gc_scan_loop (Suc fuel) (Some p) s =
     (if ref_count s p > 0 then do {
        let s = s\<lparr>mark := (mark s)(p := 0)\<rparr>;
        s \<leftarrow> mark_each gc_scan_incref_child (mark_children (obj s p)) s;
        gc_scan_loop fuel (next_in (gc_obj_list s) p) s }
      else None)"

fun gc_restore_loop :: "nat \<Rightarrow> gid option \<Rightarrow> gcstate \<Rightarrow> gcstate option" where
  "gc_restore_loop 0 el s = None"
| "gc_restore_loop (Suc fuel) None s = Some s"
| "gc_restore_loop (Suc fuel) (Some p) s = do {
     s \<leftarrow> mark_each gc_scan_incref_child2 (mark_children (obj s p)) s;
     gc_restore_loop fuel (next_in (tmp_obj_list s) p) s }"

definition gc_scan :: "nat \<Rightarrow> gcstate \<Rightarrow> gcstate option" where
  "gc_scan fuel s = do {
     s \<leftarrow> gc_scan_loop fuel (first_in (gc_obj_list s)) s;
     gc_restore_loop fuel (first_in (tmp_obj_list s)) s }"

subsection \<open>What the marking computes\<close>

definition gchildren :: "gcstate \<Rightarrow> gid \<Rightarrow> gid list" where
  "gchildren s p = mark_children (obj s p)"

text \<open>The references that the objects of a list hold to an object.\<close>

definition refs_from :: "(gid \<Rightarrow> gid list) \<Rightarrow> gid list \<Rightarrow> gid \<Rightarrow> int" where
  "refs_from ch ps x = (\<Sum>p\<leftarrow>ps. int (count_list (ch p) x))"

text \<open>
  The state in which a collection starts: every object is on \<open>gc_obj_list\<close> with mark 0, objects
  refer to objects on it, and a reference count is at least the number of internal references.
\<close>

definition gc_wf :: "gcstate \<Rightarrow> bool" where
  "gc_wf s \<longleftrightarrow>
     distinct (gc_obj_list s) \<and>
     (\<forall>p\<in>set (gc_obj_list s). mark s p = 0 \<and> set (gchildren s p) \<subseteq> set (gc_obj_list s) \<and>
        refs_from (gchildren s) (gc_obj_list s) p \<le> ref_count s p) \<and>
     gc_zero_ref_count_list s = []"

definition external_refs :: "gcstate \<Rightarrow> gid \<Rightarrow> int" where
  "external_refs s p = ref_count s p - refs_from (gchildren s) (gc_obj_list s) p"

text \<open>The live objects: those reachable from one that is referenced from outside.\<close>

inductive_set live :: "gcstate \<Rightarrow> gid set" for s where
  live_root: "p \<in> set (gc_obj_list s) \<Longrightarrow> 0 < external_refs s p \<Longrightarrow> p \<in> live s"
| live_child: "p \<in> live s \<Longrightarrow> c \<in> set (gchildren s p) \<Longrightarrow> c \<in> live s"

subsection \<open>Lists and sums\<close>

lemma next_in_append: "p \<notin> set xs \<Longrightarrow> next_in (xs @ p # ys) p = first_in ys"
  unfolding next_in_def first_in_def
  by (induction xs) (auto split: list.splits)

lemma refs_from_append: "refs_from ch (ps @ qs) x = refs_from ch ps x + refs_from ch qs x"
  by (simp add: refs_from_def)

lemma refs_from_Nil [simp]: "refs_from ch [] x = 0"
  by (simp add: refs_from_def)

lemma refs_from_Cons [simp]:
  "refs_from ch (p # ps) x = int (count_list (ch p) x) + refs_from ch ps x"
  by (simp add: refs_from_def)

lemma refs_from_nonneg: "0 \<le> refs_from ch ps x"
  by (induction ps) auto

lemma refs_from_pos: "p \<in> set ps \<Longrightarrow> x \<in> set (ch p) \<Longrightarrow> 0 < refs_from ch ps x"
proof (induction ps)
  case (Cons q ps)
  show ?case
  proof (cases "q = p")
    case True
    then have "count_list (ch q) x \<noteq> 0" using Cons.prems by (simp add: count_list_0_iff)
    then show ?thesis using refs_from_nonneg[of ch ps x] by simp
  next
    case False
    with Cons show ?thesis by simp
  qed
qed simp

lemma refs_from_mset: "mset ps = mset qs \<Longrightarrow> refs_from ch ps x = refs_from ch qs x"
proof -
  assume "mset ps = mset qs"
  moreover have "refs_from ch ps x = sum_mset (image_mset (\<lambda>p. int (count_list (ch p) x)) (mset ps))" for ps
    by (induction ps) auto
  ultimately show ?thesis by metis
qed

lemma filter_remove: "distinct xs \<Longrightarrow> remove1 x xs = filter (\<lambda>y. y \<noteq> x) xs"
  by (simp add: distinct_remove1_removeAll removeAll_filter_not_eq) (rule filter_cong, auto)

subsection \<open>The first pass\<close>

definition dec_inv ::
  "gid list \<Rightarrow> (gid \<Rightarrow> gid list) \<Rightarrow> (gid \<Rightarrow> int) \<Rightarrow> (gid \<Rightarrow> int) \<Rightarrow> gid set \<Rightarrow> gcstate \<Rightarrow> bool" where
  "dec_inv L ch rc0 f P s \<longleftrightarrow>
     gchildren s = ch \<and> (\<forall>x. ref_count s x = rc0 x - f x) \<and>
     (\<forall>x\<in>set L. mark s x = (if x \<in> P then 1 else 0)) \<and>
     gc_obj_list s = filter (\<lambda>x. \<not> (x \<in> P \<and> rc0 x = f x)) L \<and>
     distinct (tmp_obj_list s) \<and> set (tmp_obj_list s) = {x \<in> P. rc0 x = f x} \<and>
     gc_zero_ref_count_list s = []"

lemma dec_inv_child:
  assumes i: "dec_inv L ch rc0 f P s" and L: "distinct L" "P \<subseteq> set L"
    and c: "c \<in> set L" "f c < rc0 c"
  shows "\<exists>s'. gc_decref_child c s = Some s' \<and> dec_inv L ch rc0 (f(c := f c + 1)) P s'"
proof -
  let ?f = "f(c := f c + 1)"
  define s1 where "s1 = s\<lparr>ref_count := (ref_count s)(c := ref_count s c - 1)\<rparr>"
  have pos: "0 < ref_count s c" using i c by (simp add: dec_inv_def)
  have rc: "ref_count s1 c = rc0 c - f c - 1" using i by (simp add: s1_def dec_inv_def)
  show ?thesis
  proof (cases "rc0 c = f c + 1 \<and> c \<in> P")
    case True
    then have "gc_decref_child c s =
        Some (let s = gc_list_del c s1 in s\<lparr>tmp_obj_list := tmp_obj_list s @ [c]\<rparr>)"
      using pos rc i c by (simp add: gc_decref_child_def s1_def Let_def dec_inv_def)
    moreover have "c \<notin> set (tmp_obj_list s)" using i c by (auto simp: dec_inv_def)
    moreover have "remove1 c (filter (\<lambda>x. \<not> (x \<in> P \<and> rc0 x = f x)) L)
        = filter (\<lambda>x. \<not> (x \<in> P \<and> rc0 x = ?f x)) L"
      using L c True by (subst filter_remove) (auto intro!: filter_cong)
    moreover have "{x \<in> P. rc0 x = ?f x} = insert c {x \<in> P. rc0 x = f x}"
      using True by auto
    ultimately show ?thesis using i
      by (auto simp: dec_inv_def s1_def gc_list_del_def gchildren_def fun_eq_iff remove1_idem Let_def)
  next
    case False
    then have "gc_decref_child c s = Some s1"
      using pos rc i c by (auto simp: gc_decref_child_def s1_def Let_def dec_inv_def)
    moreover have "filter (\<lambda>x. \<not> (x \<in> P \<and> rc0 x = f x)) L = filter (\<lambda>x. \<not> (x \<in> P \<and> rc0 x = ?f x)) L"
      using False c by (intro filter_cong) auto
    moreover have "{x \<in> P. rc0 x = ?f x} = {x \<in> P. rc0 x = f x}" using False c by auto
    ultimately show ?thesis using i
      by (auto simp: dec_inv_def s1_def gchildren_def)
  qed
qed

lemma dec_inv_children:
  assumes "dec_inv L ch rc0 f P s" "distinct L" "P \<subseteq> set L" "set cs \<subseteq> set L"
    "\<forall>x\<in>set L. f x + int (count_list cs x) \<le> rc0 x"
  shows "\<exists>s'. mark_each gc_decref_child cs s = Some s' \<and>
           dec_inv L ch rc0 (\<lambda>x. f x + int (count_list cs x)) P s'"
  using assms
proof (induction cs arbitrary: f s)
  case (Cons c cs)
  have c: "c \<in> set L" "f c < rc0 c"
    using Cons.prems(4,5) by (auto dest!: bspec[where x = c])
  from dec_inv_child[OF Cons.prems(1,2,3) c] obtain s1 where
    s1: "gc_decref_child c s = Some s1" "dec_inv L ch rc0 (f(c := f c + 1)) P s1" by blast
  let ?f = "f(c := f c + 1)"
  have e: "(\<lambda>x. ?f x + int (count_list cs x)) = (\<lambda>x. f x + int (count_list (c # cs) x))"
    by (auto simp: fun_eq_iff)
  have "\<forall>x\<in>set L. ?f x + int (count_list cs x) \<le> rc0 x"
    using Cons.prems(5) e by (metis (no_types, lifting))
  from Cons.IH[OF s1(2) Cons.prems(2,3) _ this] Cons.prems(4) s1(1) show ?case
    unfolding e by auto
qed simp

lemma dec_inv_mark:
  assumes i: "dec_inv L ch rc0 f (set ps) s" and L: "L = ps @ p # qs" "distinct L"
  shows "dec_inv L ch rc0 f (insert p (set ps))
     (let s = s\<lparr>mark := (mark s)(p := 1)\<rparr> in
      if ref_count s p = 0
      then (let s = gc_list_del p s in s\<lparr>tmp_obj_list := tmp_obj_list s @ [p]\<rparr>) else s)"
proof -
  let ?P = "insert p (set ps)"
  have p: "p \<notin> set ps" "p \<notin> set qs" using L by auto
  have t: "p \<notin> set (tmp_obj_list s)" using i p by (auto simp: dec_inv_def)
  show ?thesis
  proof (cases "rc0 p = f p")
    case True
    have "remove1 p (filter (\<lambda>x. \<not> (x \<in> set ps \<and> rc0 x = f x)) L)
        = filter (\<lambda>x. \<not> (x \<in> ?P \<and> rc0 x = f x)) L"
      using L(2) True by (subst filter_remove) (auto intro!: filter_cong)
    moreover have "{x \<in> ?P. rc0 x = f x} = insert p {x \<in> set ps. rc0 x = f x}" using True by auto
    ultimately show ?thesis using i t True
      by (auto simp: dec_inv_def gc_list_del_def gchildren_def fun_eq_iff remove1_idem Let_def)
  next
    case False
    have "filter (\<lambda>x. \<not> (x \<in> set ps \<and> rc0 x = f x)) L = filter (\<lambda>x. \<not> (x \<in> ?P \<and> rc0 x = f x)) L"
      using False by (intro filter_cong) auto
    moreover have "{x \<in> ?P. rc0 x = f x} = {x \<in> set ps. rc0 x = f x}" using False by auto
    ultimately show ?thesis using i False by (auto simp: dec_inv_def gchildren_def Let_def)
  qed
qed

lemma gc_decref_loop_ok:
  assumes "dec_inv L ch rc0 (refs_from ch ps) (set ps) s" "L = ps @ qs" "distinct L"
    "\<forall>x\<in>set L. set (ch x) \<subseteq> set L" "\<forall>x\<in>set L. refs_from ch L x \<le> rc0 x" "length qs < fuel"
  shows "\<exists>s'. gc_decref_loop fuel (first_in qs) s = Some s' \<and>
           dec_inv L ch rc0 (refs_from ch L) (set L) s'"
  using assms
proof (induction qs arbitrary: ps s fuel)
  case Nil
  then show ?case by (cases fuel) (auto simp: first_in_def)
next
  case (Cons p qs)
  obtain n where n: "fuel = Suc n" using Cons.prems(6) by (cases fuel) auto
  note i = Cons.prems(1)
  have p: "p \<in> set L" "p \<notin> set ps" "p \<notin> set qs" using Cons.prems by auto
  have chp: "mark_children (obj s p) = ch p" using i by (auto simp: dec_inv_def gchildren_def)
  have m: "mark s p = 0" using i p by (simp add: dec_inv_def)
  let ?Q = "\<lambda>x. \<not> (x \<in> set ps \<and> rc0 x = refs_from ch ps x)"
  have "gc_obj_list s = filter ?Q ps @ p # filter ?Q qs"
    using i p Cons.prems(2) by (simp add: dec_inv_def)
  moreover have "filter ?Q qs = qs"
    using Cons.prems(2,3) by (auto simp: filter_id_conv)
  ultimately have nxt: "next_in (gc_obj_list s) p = first_in qs"
    using p(2) by (simp add: next_in_append)
  have le: "\<forall>x\<in>set L. refs_from ch ps x + int (count_list (ch p) x) \<le> rc0 x"
  proof
    fix x assume "x \<in> set L"
    then have "refs_from ch L x \<le> rc0 x" using Cons.prems(5) by blast
    then show "refs_from ch ps x + int (count_list (ch p) x) \<le> rc0 x"
      using refs_from_nonneg[of ch qs x] Cons.prems(2) by (simp add: refs_from_append)
  qed
  have sub: "set ps \<subseteq> set L" using Cons.prems(2) by auto
  have cl: "set (ch p) \<subseteq> set L" using Cons.prems(4) p(1) by blast
  obtain s1 where s1: "mark_each gc_decref_child (ch p) s = Some s1"
    "dec_inv L ch rc0 (\<lambda>x. refs_from ch ps x + int (count_list (ch p) x)) (set ps) s1"
    using dec_inv_children[OF i Cons.prems(3) sub cl le] by blast
  have f: "(\<lambda>x. refs_from ch ps x + int (count_list (ch p) x)) = refs_from ch (ps @ [p])"
    by (auto simp: fun_eq_iff refs_from_append)
  define s2 where "s2 = (let s = s1\<lparr>mark := (mark s1)(p := 1)\<rparr> in
      if ref_count s p = 0
      then (let s = gc_list_del p s in s\<lparr>tmp_obj_list := tmp_obj_list s @ [p]\<rparr>) else s)"
  have "dec_inv L ch rc0 (refs_from ch (ps @ [p])) (set (ps @ [p])) s2"
    using dec_inv_mark[OF s1(2)[unfolded f] Cons.prems(2,3)] by (simp add: s2_def)
  from Cons.IH[OF this _ Cons.prems(3-5), of n] Cons.prems(2,6) n obtain s' where
    s': "gc_decref_loop n (first_in qs) s2 = Some s'" "dec_inv L ch rc0 (refs_from ch L) (set L) s'"
    by auto
  have "gc_decref_loop fuel (first_in (p # qs)) s = gc_decref_loop n (first_in qs) s2"
    using s1(1) m nxt chp n by (simp add: first_in_def s2_def Let_def)
  with s' show ?case by simp
qed

subsection \<open>The second pass\<close>

definition scan_inv ::
  "gid list \<Rightarrow> (gid \<Rightarrow> gid list) \<Rightarrow> (gid \<Rightarrow> int) \<Rightarrow> (gid \<Rightarrow> int) \<Rightarrow> gid set \<Rightarrow> gcstate \<Rightarrow> bool" where
  "scan_inv L ch e f P s \<longleftrightarrow>
     gchildren s = ch \<and> (\<forall>x\<in>set L. ref_count s x = e x + f x \<and> 0 \<le> f x) \<and>
     distinct (gc_obj_list s) \<and> set (gc_obj_list s) = {x \<in> set L. 0 < e x + f x} \<and>
     distinct (tmp_obj_list s) \<and> set (tmp_obj_list s) = {x \<in> set L. e x + f x = 0} \<and>
     gc_zero_ref_count_list s = [] \<and>
     (\<forall>x\<in>set (gc_obj_list s). x \<in> P \<or> e x = 0 \<longrightarrow> mark s x = 0)"

lemma scan_inv_child:
  assumes i: "scan_inv L ch e f P s" and e: "\<forall>x\<in>set L. 0 \<le> e x" and c: "c \<in> set L"
  shows "\<exists>s' new. gc_scan_incref_child c s = Some s' \<and> scan_inv L ch e (f(c := f c + 1)) P s' \<and>
           gc_obj_list s' = gc_obj_list s @ new \<and> set new \<subseteq> {c}"
proof -
  let ?f = "f(c := f c + 1)"
  define s1 where "s1 = s\<lparr>ref_count := (ref_count s)(c := ref_count s c + 1)\<rparr>"
  have rc: "ref_count s c = e c + f c" "0 \<le> f c" "0 \<le> e c" using i e c by (auto simp: scan_inv_def)
  show ?thesis
  proof (cases "e c + f c = 0")
    case True
    define s2 where "s2 = (let s = gc_list_del c s1
                  in s\<lparr>gc_obj_list := gc_obj_list s @ [c], mark := (mark s)(c := 0)\<rparr>)"
    have st: "gc_scan_incref_child c s = Some s2"
      using True rc by (simp add: gc_scan_incref_child_def s1_def s2_def Let_def)
    have cn: "c \<notin> set (gc_obj_list s)" using i True by (auto simp: scan_inv_def)
    then have g: "gc_obj_list s2 = gc_obj_list s @ [c]"
      by (simp add: s2_def s1_def gc_list_del_def Let_def remove1_idem)
    have tm: "tmp_obj_list s2 = remove1 c (tmp_obj_list s)"
      by (simp add: s2_def s1_def gc_list_del_def Let_def)
    have tms: "set (remove1 c (tmp_obj_list s)) = {x \<in> set L. e x + ?f x = 0}"
      using i rc True by (auto simp: scan_inv_def set_remove1_eq)
    have gs: "set (gc_obj_list s @ [c]) = {x \<in> set L. 0 < e x + ?f x}"
      using i c rc True by (auto simp: scan_inv_def)
    have "scan_inv L ch e ?f P s2"
      unfolding scan_inv_def g tm tms gs
      using i c cn rc tms gs
      by (auto simp: scan_inv_def s2_def s1_def gc_list_del_def Let_def gchildren_def)
    with st g show ?thesis by auto
  next
    case False
    then have st: "gc_scan_incref_child c s = Some s1"
      using rc by (simp add: gc_scan_incref_child_def s1_def Let_def)
    have "{x \<in> set L. e x + ?f x = 0} = {x \<in> set L. e x + f x = 0}"
      "{x \<in> set L. 0 < e x + ?f x} = {x \<in> set L. 0 < e x + f x}"
      using False rc by auto
    then have "scan_inv L ch e ?f P s1"
      using i c rc by (auto simp: scan_inv_def s1_def gchildren_def)
    with st show ?thesis by (auto simp: s1_def)
  qed
qed

lemma scan_inv_children:
  assumes "scan_inv L ch e f P s" "\<forall>x\<in>set L. 0 \<le> e x" "set cs \<subseteq> set L"
  shows "\<exists>s' new. mark_each gc_scan_incref_child cs s = Some s' \<and>
           scan_inv L ch e (\<lambda>x. f x + int (count_list cs x)) P s' \<and>
           gc_obj_list s' = gc_obj_list s @ new \<and> set new \<subseteq> set cs"
  using assms
proof (induction cs arbitrary: f s)
  case Nil
  then show ?case by simp
next
  case (Cons c cs)
  from scan_inv_child[OF Cons.prems(1,2), of c] Cons.prems(3) obtain s1 n1 where
    s1: "gc_scan_incref_child c s = Some s1" "scan_inv L ch e (f(c := f c + 1)) P s1"
      "gc_obj_list s1 = gc_obj_list s @ n1" "set n1 \<subseteq> {c}" by auto
  have f: "(\<lambda>x. (f(c := f c + 1)) x + int (count_list cs x)) = (\<lambda>x. f x + int (count_list (c # cs) x))"
    by (auto simp: fun_eq_iff)
  from Cons.IH[OF s1(2) Cons.prems(2)] Cons.prems(3) obtain s' n2 where
    s': "mark_each gc_scan_incref_child cs s1 = Some s'"
      "scan_inv L ch e (\<lambda>x. f x + int (count_list (c # cs) x)) P s'"
      "gc_obj_list s' = gc_obj_list s1 @ n2" "set n2 \<subseteq> set cs"
    unfolding f by auto
  with s1 have "mark_each gc_scan_incref_child (c # cs) s = Some s' \<and>
      gc_obj_list s' = gc_obj_list s @ (n1 @ n2) \<and> set (n1 @ n2) \<subseteq> set (c # cs)" by auto
  with s'(2) show ?case by blast
qed

lemma gc_scan_loop_ok:
  assumes "scan_inv L ch e (refs_from ch ps) (set ps) s" "gc_obj_list s = ps @ qs"
    "\<forall>x\<in>set L. 0 \<le> e x" "\<forall>x\<in>set L. set (ch x) \<subseteq> set L" "distinct L"
    "set (ps @ qs) \<subseteq> V" "\<forall>x\<in>V. set (ch x) \<subseteq> V" "length L < fuel + length ps"
  shows "\<exists>s' ps'. gc_scan_loop fuel (first_in qs) s = Some s' \<and> gc_obj_list s' = ps' \<and>
           scan_inv L ch e (refs_from ch ps') (set ps') s' \<and> set ps' \<subseteq> V"
  using assms
proof (induction fuel arbitrary: ps qs s)
  case 0
  have "length ps \<le> length (gc_obj_list s)" using 0 by simp
  also have "\<dots> \<le> length L"
  proof -
    have "set (gc_obj_list s) \<subseteq> set L" "distinct (gc_obj_list s)" using 0 by (auto simp: scan_inv_def)
    then show ?thesis by (metis card_mono distinct_card finite_set 0(5))
  qed
  finally show ?case using 0 by simp
next
  case (Suc fuel)
  note i = Suc.prems(1)
  show ?case
  proof (cases qs)
    case Nil
    with Suc.prems show ?thesis by (auto simp: first_in_def)
  next
    case (Cons p rest)
    have pin: "p \<in> set (gc_obj_list s)" using Suc.prems(2) Cons by simp
    then have pL: "p \<in> set L" and pos: "0 < ref_count s p" using i by (auto simp: scan_inv_def)
    have chp: "mark_children (obj s p) = ch p" using i by (auto simp: scan_inv_def gchildren_def)
    define s0 where "s0 = s\<lparr>mark := (mark s)(p := 0)\<rparr>"
    have i0: "scan_inv L ch e (refs_from ch ps) (set (ps @ [p])) s0"
      using i by (auto simp: scan_inv_def s0_def gchildren_def)
    have sub: "set (ch p) \<subseteq> set L" using Suc.prems(4) pL by blast
    obtain s1 new where
      s1: "mark_each gc_scan_incref_child (ch p) s0 = Some s1"
        "scan_inv L ch e (\<lambda>x. refs_from ch ps x + int (count_list (ch p) x)) (set (ps @ [p])) s1"
        "gc_obj_list s1 = gc_obj_list s0 @ new" "set new \<subseteq> set (ch p)"
      using scan_inv_children[OF i0 Suc.prems(3) sub] by blast
    have f: "(\<lambda>x. refs_from ch ps x + int (count_list (ch p) x)) = refs_from ch (ps @ [p])"
      by (auto simp: fun_eq_iff refs_from_append)
    have g1: "gc_obj_list s1 = ps @ p # (rest @ new)"
      using s1(3) Suc.prems(2) Cons by (simp add: s0_def)
    have "distinct (gc_obj_list s1)" using s1(2) by (simp add: scan_inv_def)
    then have "p \<notin> set ps" using g1 by auto
    then have nxt: "next_in (gc_obj_list s1) p = first_in (rest @ new)"
      using g1 by (simp add: next_in_append)
    have pV: "p \<in> V" using Suc.prems(6) Cons by auto
    have V: "set ((ps @ [p]) @ rest @ new) \<subseteq> V"
      using Suc.prems(6,7) s1(4) Cons pV by auto
    have "length L < fuel + length (ps @ [p])" using Suc.prems(8) by simp
    from Suc.IH[OF s1(2)[unfolded f] _ Suc.prems(3,4,5) V Suc.prems(7) this] g1
    obtain s' ps' where s': "gc_scan_loop fuel (first_in (rest @ new)) s1 = Some s'"
      "gc_obj_list s' = ps'" "scan_inv L ch e (refs_from ch ps') (set ps') s'" "set ps' \<subseteq> V" by auto
    have "gc_scan_loop (Suc fuel) (first_in qs) s = gc_scan_loop fuel (first_in (rest @ new)) s1"
      using Cons pos chp s1(1) nxt by (simp add: first_in_def s0_def)
    with s' show ?thesis by auto
  qed
qed

lemma mark_each_incref2:
  "mark_each gc_scan_incref_child2 cs s =
     Some (s\<lparr>ref_count := \<lambda>x. ref_count s x + int (count_list cs x)\<rparr>)"
proof (induction cs arbitrary: s)
  case (Cons c cs)
  have f: "(\<lambda>x. ((ref_count s)(c := ref_count s c + 1)) x + int (count_list cs x)) =
      (\<lambda>x. ref_count s x + int (count_list (c # cs) x))" by auto
  show ?case
    unfolding f[symmetric] by (simp add: gc_scan_incref_child2_def[of c s] Cons)
qed simp

lemma gc_restore_loop_ok:
  assumes "tmp_obj_list s = ps @ qs" "distinct (ps @ qs)" "length qs < fuel" "gchildren s = ch"
  shows "gc_restore_loop fuel (first_in qs) s =
           Some (s\<lparr>ref_count := \<lambda>x. ref_count s x + refs_from ch qs x\<rparr>)"
  using assms
proof (induction qs arbitrary: ps s fuel)
  case Nil
  then show ?case by (cases fuel) (auto simp: first_in_def)
next
  case (Cons p qs)
  obtain n where n: "fuel = Suc n" using Cons.prems(3) by (cases fuel) auto
  let ?s = "s\<lparr>ref_count := \<lambda>x. ref_count s x + int (count_list (ch p) x)\<rparr>"
  have chp: "mark_children (obj s p) = ch p" using Cons.prems(4) by (auto simp: gchildren_def)
  have "next_in (tmp_obj_list ?s) p = first_in qs" using Cons.prems(1,2) by (simp add: next_in_append)
  moreover have "gchildren ?s = ch" using Cons.prems(4) by (simp add: gchildren_def fun_eq_iff)
  moreover have "gc_restore_loop n (first_in qs) ?s =
      Some (?s\<lparr>ref_count := \<lambda>x. ref_count ?s x + refs_from ch qs x\<rparr>)"
    using Cons.IH[of ?s "ps @ [p]" n] Cons.prems n calculation(2) by simp
  ultimately show ?case using n chp
    by (simp add: first_in_def mark_each_incref2 add.assoc)
qed

subsection \<open>The marking is exact\<close>

lemma live_sub: "gc_wf s \<Longrightarrow> p \<in> live s \<Longrightarrow> p \<in> set (gc_obj_list s)"
  by (rotate_tac, induction rule: live.induct) (auto simp: gc_wf_def)

lemma gc_decref_ok:
  assumes wf: "gc_wf s" and fuel: "length (gc_obj_list s) < fuel"
  shows "\<exists>s1. gc_decref fuel s = Some s1 \<and>
           dec_inv (gc_obj_list s) (gchildren s) (ref_count s)
             (refs_from (gchildren s) (gc_obj_list s)) (set (gc_obj_list s)) s1"
proof -
  let ?L = "gc_obj_list s" and ?s = "s\<lparr>tmp_obj_list := []\<rparr>"
  have i: "dec_inv ?L (gchildren s) (ref_count s) (refs_from (gchildren s) []) (set []) ?s"
    using wf by (auto simp: dec_inv_def gc_wf_def gchildren_def fun_eq_iff filter_id_conv)
  have "\<exists>s'. gc_decref_loop fuel (first_in ?L) ?s = Some s' \<and>
      dec_inv ?L (gchildren s) (ref_count s) (refs_from (gchildren s) ?L) (set ?L) s'"
    by (rule gc_decref_loop_ok[OF i]) (use wf fuel in \<open>auto simp: gc_wf_def\<close>)
  then show ?thesis by (simp add: gc_decref_def)
qed

lemma gc_mark_exact:
  assumes wf: "gc_wf s" and fuel: "length (gc_obj_list s) < fuel"
  shows "\<exists>s1 s2. gc_decref fuel s = Some s1 \<and> gc_scan fuel s1 = Some s2 \<and>
           set (gc_obj_list s2) = live s \<and>
           set (tmp_obj_list s2) = set (gc_obj_list s) - live s \<and>
           distinct (gc_obj_list s2) \<and> distinct (tmp_obj_list s2) \<and>
           (\<forall>p\<in>set (gc_obj_list s). ref_count s2 p = ref_count s p) \<and>
           (\<forall>p\<in>live s. mark s2 p = 0)"
proof -
  let ?L = "gc_obj_list s" and ?ch = "gchildren s" and ?e = "external_refs s"
  obtain s1 where s1: "gc_decref fuel s = Some s1"
    "dec_inv ?L ?ch (ref_count s) (refs_from ?ch ?L) (set ?L) s1"
    using gc_decref_ok[OF assms] by blast
  have L: "distinct ?L" and cl: "\<forall>x\<in>set ?L. set (?ch x) \<subseteq> set ?L" and
    e0: "\<forall>x\<in>set ?L. 0 \<le> ?e x"
    using wf by (auto simp: gc_wf_def external_refs_def)
  have rc1: "\<forall>x. ref_count s1 x = ?e x" using s1(2) by (simp add: dec_inv_def external_refs_def)
  have g1: "gc_obj_list s1 = filter (\<lambda>x. ?e x \<noteq> 0) ?L"
    using s1(2) by (auto simp: dec_inv_def external_refs_def intro!: filter_cong)
  have t1: "distinct (tmp_obj_list s1)" "set (tmp_obj_list s1) = {x \<in> set ?L. ?e x = 0}"
    using s1(2) by (auto simp: dec_inv_def external_refs_def)
  have i: "scan_inv ?L ?ch ?e (refs_from ?ch []) (set []) s1"
    using s1(2) rc1 g1 t1 e0 L by (auto simp: scan_inv_def dec_inv_def)
  have roots: "set ([] @ gc_obj_list s1) \<subseteq> live s"
    using g1 e0 by (auto intro!: live_root simp: less_le)
  have cV: "\<forall>x\<in>live s. set (?ch x) \<subseteq> live s" by (auto intro: live_child)
  have lf: "length ?L < fuel + length ([] :: gid list)" using fuel by simp
  from gc_scan_loop_ok[OF i _ e0 cl L roots cV lf] obtain s2 where
    s2: "gc_scan_loop fuel (first_in (gc_obj_list s1)) s1 = Some s2"
      "scan_inv ?L ?ch ?e (refs_from ?ch (gc_obj_list s2)) (set (gc_obj_list s2)) s2"
      "set (gc_obj_list s2) \<subseteq> live s" by auto
  let ?K = "gc_obj_list s2"
  have K: "set ?K = {x \<in> set ?L. 0 < ?e x + refs_from ?ch ?K x}"
    using s2(2) by (simp add: scan_inv_def)
  have "p \<in> set ?K" if "p \<in> live s" for p
    using that
  proof (induction rule: live.induct)
    case (live_root p)
    then show ?case using K refs_from_nonneg[of ?ch ?K p] by auto
  next
    case (live_child p c)
    then have "0 < refs_from ?ch ?K c" by (intro refs_from_pos)
    moreover have "c \<in> set ?L" using live_child K cl by blast
    ultimately show ?case using K e0 by (metis (mono_tags, lifting) add_nonneg_pos mem_Collect_eq)
  qed
  then have KL: "set ?K = live s" using s2(3) by blast
  have T: "set (tmp_obj_list s2) = set ?L - live s"
  proof -
    have "set (tmp_obj_list s2) = {x \<in> set ?L. ?e x + refs_from ?ch ?K x = 0}"
      using s2(2) by (simp add: scan_inv_def)
    moreover have "0 \<le> ?e x + refs_from ?ch ?K x" if "x \<in> set ?L" for x
      using e0 refs_from_nonneg[of ?ch ?K x] that by (simp add: add_nonneg_nonneg)
    ultimately show ?thesis unfolding KL[symmetric] K by fastforce
  qed
  have dT: "distinct (tmp_obj_list s2)" and dK: "distinct ?K" using s2(2) by (auto simp: scan_inv_def)
  have "length (tmp_obj_list s2) \<le> length ?L"
    using T dT L by (metis card_mono distinct_card finite_set Diff_subset)
  then have fu: "length (tmp_obj_list s2) < fuel" using fuel by simp
  have gs2: "gchildren s2 = ?ch" using s2(2) by (simp add: scan_inv_def)
  let ?s3 = "s2\<lparr>ref_count := \<lambda>x. ref_count s2 x + refs_from ?ch (tmp_obj_list s2) x\<rparr>"
  have r: "gc_restore_loop fuel (first_in (tmp_obj_list s2)) s2 = Some ?s3"
    using gc_restore_loop_ok[of s2 "[]" "tmp_obj_list s2" fuel ?ch] dT fu gs2 by simp
  have scan: "gc_scan fuel s1 = Some ?s3" using s2(1) r by (simp add: gc_scan_def)
  have perm: "mset (?K @ tmp_obj_list s2) = mset ?L"
  proof -
    have "set (?K @ tmp_obj_list s2) = set ?L" using KL T live_sub[OF wf] by auto
    moreover have "distinct (?K @ tmp_obj_list s2)" using dK dT KL T by auto
    ultimately show ?thesis using L set_eq_iff_mset_eq_distinct by blast
  qed
  have rc: "ref_count ?s3 p = ref_count s p" if "p \<in> set ?L" for p
  proof -
    have "ref_count s2 p = ?e p + refs_from ?ch ?K p" using s2(2) that by (simp add: scan_inv_def)
    then have "ref_count ?s3 p = ?e p + refs_from ?ch (?K @ tmp_obj_list s2) p"
      by (simp add: refs_from_append)
    then show ?thesis by (simp add: refs_from_mset[OF perm] external_refs_def)
  qed
  have mk: "\<forall>p\<in>live s. mark ?s3 p = 0" using s2(2) KL by (auto simp: scan_inv_def)
  show ?thesis
    using s1(1) scan KL T dK dT rc mk by (intro exI[of _ s1] exI[of _ ?s3]) auto
qed

subsection \<open>Properties\<close>

text \<open>
  C5: On a consistent object graph, \<open>gc_decref\<close> followed by \<open>gc_scan\<close> succeeds (no assertion fails,
  the loops over the changing lists end) and separates the objects exactly: those reachable
  from an object with an outside reference are back on \<open>gc_obj_list\<close> with mark 0, all others are
  on \<open>tmp_obj_list\<close>, and every reference count has its old value again.
\<close>

theorem gc_separates_garbage:
  assumes "gc_wf s" "length (gc_obj_list s) < fuel"
  shows "\<exists>s1 s2. gc_decref fuel s = Some s1 \<and> gc_scan fuel s1 = Some s2 \<and>
           set (gc_obj_list s2) = live s \<and> set (tmp_obj_list s2) = set (gc_obj_list s) - live s \<and>
           (\<forall>p\<in>set (gc_obj_list s). ref_count s2 p = ref_count s p) \<and>
           (\<forall>p\<in>live s. mark s2 p = 0)"
  using gc_mark_exact[OF assms] by blast

definition gc_example :: gcstate where
  "gc_example =
     \<lparr>obj = (\<lambda>p. if p = 1 then VarRefAttached (Some 2) else if p = 2 then VarRefAttached (Some 1)
               else if p = 3 then VarRefAttached (Some 4) else VarRefAttached None),
      ref_count = (\<lambda>_. 1), mark = (\<lambda>_. 0),
      gc_obj_list = [1, 2, 3, 4], tmp_obj_list = [], gc_zero_ref_count_list = []\<rparr>"

theorem gc_separates_garbage_witness:
  "\<exists>s1 s2. gc_decref 5 gc_example = Some s1 \<and> gc_scan 5 s1 = Some s2 \<and>
           set (gc_obj_list s2) = live gc_example \<and>
           set (tmp_obj_list s2) = set (gc_obj_list gc_example) - live gc_example \<and>
           (\<forall>p\<in>set (gc_obj_list gc_example). ref_count s2 p = ref_count gc_example p) \<and>
           (\<forall>p\<in>live gc_example. mark s2 p = 0)"
  by (rule gc_separates_garbage)
    (simp_all add: gc_example_def gc_wf_def gchildren_def refs_from_def mark_opt_def)

end
