(* ===== verification/Limbs.thy ===== *)
theory Limbs
  imports Cutils
begin

text \<open>
  The limb arithmetic of the big integers of \<open>zipline/native/quickjs/quickjs.c\<close>: \<open>mp_add\<close> to
  \<open>mp_shr\<close>, in the 64-bit configuration (\<open>JS_LIMB_BITS\<close> = 64, double limbs of 128 bits). A limb
  array with its length is a list, least significant limb first. The C functions
  read a limb before they write the one at the same index, so that a result array that is also
  an operand makes no difference. Each lemma relates the words a function computes to the number
  that a limb list stands for, \<open>lval\<close>.
\<close>

type_synonym limb = u64
type_synonym dlimb = u128

abbreviation LB :: nat where
  "LB \<equiv> 18446744073709551616"

subsection \<open>The functions\<close>

definition ADDC :: "limb \<Rightarrow> limb \<Rightarrow> limb \<Rightarrow> limb \<times> limb" where
  "ADDC op1 op2 carry_in =
     (let v = op1; a = v + op2;
          k1 = (if a < v then 1 else 0);
          k = carry_in;
          a = a + k
      in (a, (if a < k then 1 else 0) OR k1))"

fun mp_add :: "limb list \<Rightarrow> limb list \<Rightarrow> limb \<Rightarrow> limb list \<times> limb" where
  "mp_add (x # xs) (y # ys) carry =
     (case ADDC x y carry of (r, carry) \<Rightarrow>
      case mp_add xs ys carry of (rs, carry) \<Rightarrow> (r # rs, carry))"
| "mp_add _ _ carry = ([], carry)"

fun mp_sub :: "limb list \<Rightarrow> limb list \<Rightarrow> limb \<Rightarrow> limb list \<times> limb" where
  "mp_sub (x # xs) (y # ys) k =
     (let v = x; a = v - y;
          k1 = (if a > v then 1 else 0);
          v = a - k;
          k = (if v > a then 1 else 0) OR k1
      in case mp_sub xs ys k of (rs, k) \<Rightarrow> (v # rs, k))"
| "mp_sub _ _ k = ([], k)"

fun mp_neg_loop :: "limb list \<Rightarrow> limb \<Rightarrow> limb list \<times> limb" where
  "mp_neg_loop [] carry = ([], carry)"
| "mp_neg_loop (x # xs) carry =
     (let v = NOT x + carry;
          carry = (if v < carry then 1 else 0)
      in case mp_neg_loop xs carry of (rs, carry) \<Rightarrow> (v # rs, carry))"

definition mp_neg :: "limb list \<Rightarrow> limb list \<times> limb" where
  "mp_neg op2 = mp_neg_loop op2 1"

definition lo64 :: "dlimb \<Rightarrow> limb" where
  "lo64 t = ucast t"

definition hi64 :: "dlimb \<Rightarrow> limb" where
  "hi64 t = ucast (drop_bit 64 t)"

definition dl :: "limb \<Rightarrow> dlimb" where
  "dl x = ucast x"

fun mp_mul1 :: "limb list \<Rightarrow> limb \<Rightarrow> limb \<Rightarrow> limb list \<times> limb" where
  "mp_mul1 [] b l = ([], l)"
| "mp_mul1 (x # xs) b l =
     (let t = dl x * dl b + dl l in
      case mp_mul1 xs b (hi64 t) of (rs, l) \<Rightarrow> (lo64 t # rs, l))"

text \<open>Division goes from the high limb down: the recursion returns the remainder of the rest.\<close>

fun mp_div1 :: "limb list \<Rightarrow> limb \<Rightarrow> limb \<Rightarrow> limb list \<times> limb" where
  "mp_div1 [] b r = ([], r)"
| "mp_div1 (x # xs) b r =
     (case mp_div1 xs b r of (qs, r) \<Rightarrow>
      let a1 = push_bit 64 (dl r) OR dl x
      in (lo64 (a1 div dl b) # qs, lo64 (a1 mod dl b)))"

fun mp_add_mul1_loop :: "limb list \<Rightarrow> limb list \<Rightarrow> limb \<Rightarrow> limb \<Rightarrow> limb list \<times> limb" where
  "mp_add_mul1_loop (z # zs) (x # xs) b l =
     (let t = dl x * dl b + dl l + dl z in
      case mp_add_mul1_loop zs xs b (hi64 t) of (rs, l) \<Rightarrow> (lo64 t # rs, l))"
| "mp_add_mul1_loop _ _ b l = ([], l)"

definition mp_add_mul1 :: "limb list \<Rightarrow> limb list \<Rightarrow> limb \<Rightarrow> limb list \<times> limb" where
  "mp_add_mul1 tabr taba b = mp_add_mul1_loop tabr taba b 0"

text \<open>A slice of an array replaced: the effect of a call on \<open>result + i\<close>.\<close>

definition splice :: "'a list \<Rightarrow> nat \<Rightarrow> 'a list \<Rightarrow> 'a list" where
  "splice xs i ys = take i xs @ ys @ drop (i + length ys) xs"

fun mp_mul_loop :: "limb list \<Rightarrow> limb list \<Rightarrow> nat \<Rightarrow> limb list \<Rightarrow> limb list" where
  "mp_mul_loop result op1 i [] = result"
| "mp_mul_loop result op1 i (y # ys) =
     (case mp_add_mul1 (take (length op1) (drop i result)) op1 y of
        (seg, r) \<Rightarrow>
          let result = splice result i seg;
              result = result[i + length op1 := r]
          in mp_mul_loop result op1 (i + 1) ys)"

definition mp_mul_basecase :: "limb list \<Rightarrow> limb list \<Rightarrow> limb list \<Rightarrow> limb list" where
  "mp_mul_basecase result op1 op2 =
     (case mp_mul1 op1 (hd op2) 0 of
        (seg, h) \<Rightarrow>
          let result = splice result 0 seg;
              result = result[length op1 := h]
          in mp_mul_loop result op1 1 (tl op2))"

fun mp_sub_mul1_loop :: "limb list \<Rightarrow> limb list \<Rightarrow> limb \<Rightarrow> limb \<Rightarrow> limb list \<times> limb" where
  "mp_sub_mul1_loop (z # zs) (x # xs) b l =
     (let t = dl z - dl x * dl b - dl l in
      case mp_sub_mul1_loop zs xs b (- hi64 t) of (rs, l) \<Rightarrow> (lo64 t # rs, l))"
| "mp_sub_mul1_loop _ _ b l = ([], l)"

definition mp_sub_mul1 :: "limb list \<Rightarrow> limb list \<Rightarrow> limb \<Rightarrow> limb list \<times> limb" where
  "mp_sub_mul1 tabr taba b = mp_sub_mul1_loop tabr taba b 0"

definition udiv1norm_init :: "limb \<Rightarrow> limb" where
  "udiv1norm_init d =
     (let a1 = - d - 1; a0 = - 1
      in lo64 ((push_bit 64 (dl a1) OR dl a0) div dl d))"

text \<open>\<open>(js_slimb_t)a0 >> (JS_LIMB_BITS - 1)\<close> is an arithmetic shift: all ones or zero.\<close>

definition udiv1norm :: "limb \<Rightarrow> limb \<Rightarrow> limb \<Rightarrow> limb \<Rightarrow> limb \<times> limb" where
  "udiv1norm a1 a0 d d_inv =
     (let n1m = signed_drop_bit 63 a0;
          n_adj = a0 + (n1m AND d);
          a = dl d_inv * dl (a1 - n1m) + dl n_adj;
          q = hi64 a + a1;
          a = push_bit 64 (dl a1) OR dl a0;
          a = a - dl q * dl d - dl d;
          ah = hi64 a;
          q = q + (1 + ah);
          r = lo64 a + (ah AND d)
      in (q, r))"

fun mp_div1norm_loop :: "limb list \<Rightarrow> limb \<Rightarrow> limb \<Rightarrow> limb \<Rightarrow> limb list \<times> limb" where
  "mp_div1norm_loop [] b b_inv r = ([], r)"
| "mp_div1norm_loop (x # xs) b b_inv r =
     (case mp_div1norm_loop xs b b_inv r of (qs, r) \<Rightarrow>
      case udiv1norm r x b b_inv of (q, r) \<Rightarrow> (q # qs, r))"

definition mp_div1norm :: "limb list \<Rightarrow> limb \<Rightarrow> limb \<Rightarrow> limb list \<times> limb" where
  "mp_div1norm taba b r =
     (if length taba \<ge> 3 then mp_div1norm_loop taba b (udiv1norm_init b) r
      else mp_div1 taba b r)"

fun mp_shl_loop :: "limb list \<Rightarrow> nat \<Rightarrow> limb \<Rightarrow> limb list \<times> limb" where
  "mp_shl_loop [] shift l = ([], l)"
| "mp_shl_loop (v # vs) shift l =
     (case mp_shl_loop vs shift (drop_bit (64 - shift) v) of
        (rs, l') \<Rightarrow> ((push_bit shift v OR l) # rs, l'))"

definition mp_shl :: "limb list \<Rightarrow> nat \<Rightarrow> limb list \<times> limb" where
  "mp_shl taba shift = mp_shl_loop taba shift 0"

text \<open>\<open>mp_shr\<close> keeps the last limb read in \<open>l\<close>, which starts as \<open>high\<close>.\<close>

fun mp_shr_loop :: "limb list \<Rightarrow> nat \<Rightarrow> limb \<Rightarrow> limb list \<times> limb" where
  "mp_shr_loop [] shift l = ([], l)"
| "mp_shr_loop (a # as) shift l =
     (case mp_shr_loop as shift l of
        (rs, l) \<Rightarrow> ((drop_bit shift a OR push_bit (64 - shift) l) # rs, a))"

definition mp_shr :: "limb list \<Rightarrow> nat \<Rightarrow> limb \<Rightarrow> limb list \<times> limb" where
  "mp_shr tab shift high =
     (case mp_shr_loop tab shift high of (rs, l) \<Rightarrow> (rs, l AND (push_bit shift 1 - 1)))"

text \<open>
  The base case division of \<open>mp_divnorm\<close>. \<open>divnorm_first_q\<close> is the comparison of the high limbs
  with the divisor (both given from the high limb down). \<open>divnorm_digit\<close> is the body of the
  main loop on the window \<open>taba + i\<close> of \<open>nb + 1\<close> limbs: an estimate from the two high limbs,
  \<open>mp_sub_mul1\<close>, then the loop that adds the divisor back. That loop has no bound in the
  code; here it has fuel 3, and \<open>divnorm_digit_spec\<close> shows that two rounds always do.
\<close>

fun divnorm_first_q :: "limb list \<Rightarrow> limb list \<Rightarrow> limb" where
  "divnorm_first_q (a # as) (b # bs) =
     (if a \<noteq> b then (if a < b then 0 else 1) else divnorm_first_q as bs)"
| "divnorm_first_q _ _ = 1"

fun divnorm_add_back :: "nat \<Rightarrow> limb list \<Rightarrow> limb list \<Rightarrow> limb \<Rightarrow> (limb list \<times> limb) option" where
  "divnorm_add_back 0 w tabb q = None"
| "divnorm_add_back (Suc fuel) w tabb q =
     (let q = q - 1 in
      case mp_add (take (length tabb) w) tabb 0 of (seg, c) \<Rightarrow>
        let t = w ! length tabb in
        if c \<noteq> 0 then
          (let t = t + 1 in
           if t = 0 then Some (seg @ [t], q) else divnorm_add_back fuel (seg @ [t]) tabb q)
        else divnorm_add_back fuel (seg @ [t]) tabb q)"

definition divnorm_estimate :: "limb list \<Rightarrow> nat \<Rightarrow> limb \<Rightarrow> limb \<Rightarrow> limb" where
  "divnorm_estimate w nb b1 b1_inv =
     (if w ! nb \<ge> b1 then - 1
      else if b1_inv \<noteq> 0 then fst (udiv1norm (w ! nb) (w ! (nb - 1)) b1 b1_inv)
      else lo64 ((push_bit 64 (dl (w ! nb)) OR dl (w ! (nb - 1))) div dl b1))"

definition divnorm_digit :: "limb list \<Rightarrow> limb list \<Rightarrow> limb \<Rightarrow> limb \<Rightarrow> (limb list \<times> limb) option" where
  "divnorm_digit w tabb b1 b1_inv =
     (let nb = length tabb;
          q = divnorm_estimate w nb b1 b1_inv
      in case mp_sub_mul1 (take nb w) tabb q of (seg, r) \<Rightarrow>
           let v = w ! nb; a = v - r in
           if a > v then divnorm_add_back 3 (seg @ [a]) tabb q else Some (seg @ [a], q))"

fun mp_divnorm_loop ::
  "nat \<Rightarrow> limb list \<Rightarrow> limb list \<Rightarrow> limb list \<Rightarrow> limb \<Rightarrow> limb \<Rightarrow> (limb list \<times> limb list) option" where
  "mp_divnorm_loop 0 tabq taba tabb b1 b1_inv = Some (tabq, taba)"
| "mp_divnorm_loop (Suc i) tabq taba tabb b1 b1_inv =
     do { (w, q) \<leftarrow> divnorm_digit (take (length tabb + 1) (drop i taba)) tabb b1 b1_inv;
          mp_divnorm_loop i (tabq[i := q]) (splice taba i w) tabb b1 b1_inv }"

definition mp_divnorm :: "limb list \<Rightarrow> limb list \<Rightarrow> limb list \<Rightarrow> (limb list \<times> limb list) option" where
  "mp_divnorm tabq taba tabb =
     (let na = length taba; nb = length tabb; b1 = tabb ! (nb - 1) in
      if nb = 1 then (case mp_div1norm taba b1 0 of (qs, r) \<Rightarrow> Some (splice tabq 0 qs, taba[0 := r]))
      else
        let n = na - nb;
            b1_inv = (if n \<ge> 3 then udiv1norm_init b1 else 0);
            q = divnorm_first_q (rev (drop n taba)) (rev tabb);
            tabq = tabq[n := q];
            taba = (if q \<noteq> 0 then splice taba n (fst (mp_sub (drop n taba) tabb 0)) else taba)
        in mp_divnorm_loop n tabq taba tabb b1 b1_inv)"

subsection \<open>Numbers\<close>

fun lval :: "limb list \<Rightarrow> nat" where
  "lval [] = 0"
| "lval (x # xs) = unat x + LB * lval xs"

lemma limb_lt: "unat (x :: limb) < LB"
  using unat_lt_pow[of x] by simp

lemma limb_le: "unat (x :: limb) \<le> 18446744073709551615"
  using limb_lt[of x] by simp

lemma dlimb_lt: "unat (x :: dlimb) < LB * LB"
  using unat_lt_pow[of x] by simp

lemma lval_append: "lval (xs @ ys) = lval xs + LB ^ length xs * lval ys"
  by (induction xs) (auto simp: algebra_simps)

lemma lval_bound: "lval xs < LB ^ length xs"
proof (induction xs)
  case (Cons x xs)
  have "LB * lval xs + LB \<le> LB * LB ^ length xs" using Cons by (metis Suc_leI mult_Suc_right mult_le_mono2 add.commute)
  then show ?case using limb_lt[of x] by simp
qed simp

lemma lval_replicate_0 [simp]: "lval (replicate n 0) = 0"
  by (induction n) auto

lemma lval_inj: "length xs = length ys \<Longrightarrow> lval xs = lval ys \<Longrightarrow> xs = ys"
proof (induction xs ys rule: list_induct2)
  case (Cons x xs y ys)
  have "unat x = lval (x # xs) mod LB" "unat y = lval (y # ys) mod LB"
    using limb_lt[of x] limb_lt[of y] by simp_all
  with Cons.prems have "unat x = unat y" by metis
  with Cons show ?case by (simp add: word_unat_eq_iff)
qed simp

lemma lval_0_iff: "lval xs = 0 \<longleftrightarrow> (\<forall>x\<in>set xs. x = 0)"
  by (induction xs) (auto simp: unat_eq_0)

subsection \<open>Double limbs\<close>

lemma unat_dl [simp]: "unat (dl x) = unat x"
  using limb_lt[of x] by (simp add: dl_def unat_ucast_mod)

lemma unat_lo64: "unat (lo64 t) = unat t mod LB"
  by (simp add: lo64_def unat_ucast_mod)

lemma unat_hi64: "unat (hi64 t) = unat t div LB"
proof -
  have "unat t div LB < LB" using dlimb_lt[of t] by (simp add: less_mult_imp_div_less)
  then show ?thesis by (simp add: hi64_def unat_ucast_mod unat_drop_bit)
qed

lemma lo_hi: "unat (lo64 t) + LB * unat (hi64 t) = unat t"
  by (simp add: unat_lo64 unat_hi64)

lemma limb_mult_bound: "unat (x :: limb) * unat (y :: limb) \<le> 18446744073709551615 * 18446744073709551615"
  using limb_le[of x] limb_le[of y] by (rule mult_le_mono)

lemma unat_mul_dl: "unat (dl x * dl y) = unat x * unat y"
proof -
  have "unat (dl x) * unat (dl y) < 2 ^ LENGTH(128)" using limb_mult_bound[of x y] by simp
  then show ?thesis by (subst unat_mult_lem[THEN iffD1]) simp_all
qed

lemma unat_dl_add: "unat a + unat b < LB * LB \<Longrightarrow> unat ((a :: dlimb) + b) = unat a + unat b"
  by (subst unat_add_lem[THEN iffD1]) simp_all

lemma unat_join: "unat (push_bit 64 (dl a1) OR dl a0) = LB * unat a1 + unat a0"
proof -
  have d: "push_bit 64 (dl a1) AND dl a0 = 0"
    by (rule bit_word_eqI) (auto simp: bit_simps dl_def dest: bit_imp_le_length)
  have "unat (push_bit 64 (dl a1)) = LB * unat a1"
    using limb_lt[of a1] by (subst unat_push_bit) simp_all
  then show ?thesis by (simp add: unat_or_disj[OF d])
qed

lemma unat_dl_div: "unat ((a :: dlimb) div b) = unat a div unat b"
  by (rule unat_div_distrib)

lemma unat_dl_mod: "unat ((a :: dlimb) mod b) = unat a mod unat b"
  by (rule unat_mod_distrib)

subsection \<open>Addition, subtraction, negation\<close>

lemma limb_add: "unat (a + b :: limb) = (if unat a + unat b < LB then unat a + unat b else unat a + unat b - LB)"
  by (simp add: unat_plus_if')

lemma limb_sub: "unat (a - b :: limb) = (if unat b \<le> unat a then unat a - unat b else LB + unat a - unat b)"
  using unat_sub_if'[of a b] by (simp split: if_splits)

lemma carry_cases: "unat (c :: limb) \<le> 1 \<Longrightarrow> c = 0 \<or> c = 1"
proof -
  assume "unat c \<le> 1"
  then have "unat c = 0 \<or> unat c = 1" by linarith
  then show ?thesis by (auto simp: word_unat_eq_iff)
qed

lemma ADDC_spec:
  assumes "unat k \<le> 1" "ADDC x y k = (r, c)"
  shows "unat r + LB * unat c = unat x + unat y + unat k" "unat c \<le> 1"
proof -
  let ?s = "unat x + unat y"
  define a where "a = x + y"
  have a: "unat a = (if ?s < LB then ?s else ?s - LB)" by (simp add: a_def limb_add)
  have r: "r = a + k" and c: "c = (if r < k then 1 else 0) OR (if a < x then 1 else 0)"
    using assms(2) by (auto simp: ADDC_def a_def Let_def)
  have ru: "unat r = (if unat a + unat k < LB then unat a + unat k else unat a + unat k - LB)"
    by (simp add: r limb_add)
  have k1: "(a < x) = (LB \<le> ?s)" using a limb_lt[of x] limb_lt[of y] by (auto simp: word_less_nat_alt)
  have k2: "(r < k) = (LB \<le> unat a + unat k)"
    using ru limb_lt[of a] limb_lt[of k] by (auto simp: word_less_nat_alt)
  have le: "?s \<le> 2 * LB - 2" using limb_le[of x] limb_le[of y] by linarith
  show "unat r + LB * unat c = unat x + unat y + unat k" "unat c \<le> 1"
    using a ru k1 k2 assms(1) le by (auto simp: c split: if_splits)
qed

lemma mp_add_spec:
  assumes "length xs = length ys" "unat k \<le> 1" "mp_add xs ys k = (rs, c)"
  shows "lval rs + LB ^ length xs * unat c = lval xs + lval ys + unat k \<and> unat c \<le> 1 \<and>
           length rs = length xs"
  using assms
proof (induction xs ys arbitrary: k rs c rule: list_induct2)
  case (Cons x xs y ys)
  obtain r k' where 1: "ADDC x y k = (r, k')" by fastforce
  obtain rs' where 2: "mp_add xs ys k' = (rs', c)" "rs = r # rs'"
    using Cons.prems(2) 1 by (auto split: prod.splits)
  note a = ADDC_spec[OF Cons.prems(1) 1]
  have i: "lval rs' + LB ^ length xs * unat c = lval xs + lval ys + unat k'" "unat c \<le> 1"
    "length rs' = length xs" using Cons.IH[OF a(2) 2(1)] by auto
  have "lval rs + LB ^ length (x # xs) * unat c
      = unat r + LB * (lval rs' + LB ^ length xs * unat c)" by (simp add: 2 algebra_simps)
  also have "\<dots> = lval (x # xs) + lval (y # ys) + unat k"
    unfolding i using a(1) by (simp add: algebra_simps)
  finally show ?case using i 2 by simp
qed simp

lemma sub_step:
  assumes "unat k \<le> 1" "a = x - y" "v = a - (k :: limb)"
    "k' = (if v > a then 1 else 0) OR (if a > x then 1 else (0 :: limb))"
  shows "unat v + unat y + unat k = unat x + LB * unat k'" "unat k' \<le> 1"
proof -
  have a: "unat a = (if unat y \<le> unat x then unat x - unat y else LB + unat x - unat y)"
    by (simp add: assms(2) limb_sub)
  have v: "unat v = (if unat k \<le> unat a then unat a - unat k else LB + unat a - unat k)"
    by (simp add: assms(3) limb_sub)
  have k1: "(a > x) = (unat x < unat y)"
    using a limb_lt[of y] limb_lt[of x] by (auto simp: word_less_nat_alt split: if_splits)
  have k2: "(v > a) = (unat a < unat k)"
    using v limb_lt[of k] limb_lt[of a] by (auto simp: word_less_nat_alt split: if_splits)
  show "unat v + unat y + unat k = unat x + LB * unat k'" "unat k' \<le> 1"
    using a v assms(1) limb_lt[of x] limb_lt[of y] unfolding assms(4) k1 k2
    by (auto split: if_splits)
qed

lemma mp_sub_spec:
  assumes "length xs = length ys" "unat k \<le> 1" "mp_sub xs ys k = (rs, c)"
  shows "lval rs + lval ys + unat k = lval xs + LB ^ length xs * unat c \<and> unat c \<le> 1 \<and>
           length rs = length xs"
  using assms
proof (induction xs ys arbitrary: k rs c rule: list_induct2)
  case (Cons x xs y ys)
  define a where "a = x - y"
  define v where "v = a - k"
  define k' where "k' = (if v > a then 1 else 0) OR (if a > x then 1 else (0 :: limb))"
  note s = sub_step[OF Cons.prems(1) a_def v_def k'_def]
  obtain rs' where 2: "mp_sub xs ys k' = (rs', c)" "rs = v # rs'"
    using Cons.prems(2) by (auto simp: a_def v_def k'_def Let_def split: prod.splits)
  have i: "lval rs' + lval ys + unat k' = lval xs + LB ^ length xs * unat c" "unat c \<le> 1"
    "length rs' = length xs" using Cons.IH[OF s(2) 2(1)] by auto
  have "lval rs + lval (y # ys) + unat k + LB * unat k'
      = unat v + unat y + unat k + LB * (lval rs' + lval ys + unat k')" by (simp add: 2 algebra_simps)
  also have "\<dots> = lval (x # xs) + LB ^ length (x # xs) * unat c + LB * unat k'"
    unfolding i s(1) by (simp add: algebra_simps)
  finally show ?case using i 2 by simp
qed simp

lemma limb_not: "unat (NOT x :: limb) + unat x + 1 = LB"
proof -
  have "NOT x = - x - 1" by (rule not_eq_complement)
  then have e: "NOT x = (- 1) - x" by simp
  have m: "unat (- 1 :: limb) = LB - 1" by (simp add: unsigned_minus_1_eq_mask mask_eq_exp_minus_1)
  show ?thesis unfolding e using limb_le[of x] by (simp add: limb_sub m)
qed

lemma mp_neg_loop_spec:
  assumes "unat k \<le> 1" "mp_neg_loop xs k = (rs, c)"
  shows "lval rs + lval xs + 1 + LB ^ length xs * unat c = LB ^ length xs + unat k \<and> unat c \<le> 1 \<and>
           length rs = length xs"
  using assms
proof (induction xs arbitrary: k rs c)
  case (Cons x xs)
  define v where "v = NOT x + k"
  define k' where "k' = (if v < k then 1 else (0 :: limb))"
  obtain rs' where 2: "mp_neg_loop xs k' = (rs', c)" "rs = v # rs'"
    using Cons.prems(2) by (auto simp: v_def k'_def Let_def split: prod.splits)
  have v: "unat v = (if unat (NOT x) + unat k < LB then unat (NOT x) + unat k else unat (NOT x) + unat k - LB)"
    by (simp add: v_def limb_add)
  have c: "(v < k) = (LB \<le> unat (NOT x) + unat k)"
    using v limb_lt[of "NOT x"] limb_lt[of k] by (auto simp: word_less_nat_alt)
  have s: "unat v + LB * unat k' = unat (NOT x) + unat k" and k': "unat k' \<le> 1"
    using v c by (auto simp: k'_def split: if_splits)
  have i: "lval rs' + lval xs + 1 + LB ^ length xs * unat c = LB ^ length xs + unat k'" "unat c \<le> 1"
    "length rs' = length xs" using Cons.IH[OF k' 2(1)] by auto
  have "lval rs + lval (x # xs) + 1 + LB ^ length (x # xs) * unat c + LB + LB * unat k'
     = unat v + LB * unat k' + unat x + 1 + LB * (lval rs' + lval xs + 1 + LB ^ length xs * unat c)"
    by (simp add: 2 algebra_simps)
  also have "\<dots> = LB ^ length (x # xs) + unat k + LB + LB * unat k'"
    unfolding i s using limb_not[of x] by (simp add: algebra_simps)
  finally have "lval rs + lval (x # xs) + 1 + LB ^ length (x # xs) * unat c = LB ^ length (x # xs) + unat k"
    by linarith
  then show ?case using i(2,3) 2(2) by simp
qed (simp)

lemma mp_neg_spec:
  assumes "mp_neg xs = (rs, c)"
  shows "lval rs + lval xs + LB ^ length xs * unat c = LB ^ length xs" "unat c \<le> 1"
    "length rs = length xs"
  using mp_neg_loop_spec[of 1 xs rs c] assms by (auto simp: mp_neg_def)

subsection \<open>Multiplication\<close>

lemma mul_step:
  "unat (lo64 (dl x * dl b + dl l)) + LB * unat (hi64 (dl x * dl b + dl l))
     = unat x * unat b + unat l"
proof -
  have "unat x * unat b + unat l < LB * LB" using limb_mult_bound[of x b] limb_le[of l] by linarith
  then have "unat (dl x * dl b + dl l) = unat x * unat b + unat l"
    by (subst unat_dl_add) (simp_all add: unat_mul_dl)
  then show ?thesis unfolding lo_hi .
qed

lemma mul_add_step:
  "unat (lo64 (dl x * dl b + dl l + dl z)) + LB * unat (hi64 (dl x * dl b + dl l + dl z))
     = unat x * unat b + unat l + unat z"
proof -
  have b: "unat x * unat b + unat l + unat z < LB * LB"
    using limb_mult_bound[of x b] limb_le[of l] limb_le[of z] by linarith
  have 1: "unat (dl x * dl b + dl l) = unat x * unat b + unat l"
    using b by (subst unat_dl_add) (simp_all add: unat_mul_dl)
  have "unat (dl x * dl b + dl l + dl z) = unat x * unat b + unat l + unat z"
    using b by (subst unat_dl_add) (simp_all add: 1)
  then show ?thesis unfolding lo_hi .
qed

lemma mp_mul1_spec:
  "mp_mul1 xs b l = (rs, h) \<Longrightarrow>
   lval rs + LB ^ length xs * unat h = lval xs * unat b + unat l \<and> length rs = length xs"
proof (induction xs b l arbitrary: rs h rule: mp_mul1.induct)
  case (2 x xs b l)
  let ?t = "dl x * dl b + dl l"
  obtain rs' where 1: "mp_mul1 xs b (hi64 ?t) = (rs', h)" "rs = lo64 ?t # rs'"
    using 2(2) by (auto simp: Let_def split: prod.splits)
  have i: "lval rs' + LB ^ length xs * unat h = lval xs * unat b + unat (hi64 ?t)" "length rs' = length xs"
    using 2(1)[OF refl 1(1)] by auto
  have "lval rs + LB ^ length (x # xs) * unat h
     = unat (lo64 ?t) + LB * (lval rs' + LB ^ length xs * unat h)" by (simp add: 1 algebra_simps)
  also have "\<dots> = unat (lo64 ?t) + LB * unat (hi64 ?t) + LB * (lval xs * unat b)"
    unfolding i by (simp add: algebra_simps)
  also have "\<dots> = lval (x # xs) * unat b + unat l" unfolding mul_step by (simp add: algebra_simps)
  finally show ?case using i 1 by simp
qed simp

lemma mp_add_mul1_loop_spec:
  assumes "length zs = length xs" "mp_add_mul1_loop zs xs b l = (rs, h)"
  shows "lval rs + LB ^ length xs * unat h = lval zs + lval xs * unat b + unat l \<and>
           length rs = length xs"
  using assms
proof (induction zs xs arbitrary: l rs h rule: list_induct2)
  case (Cons z zs x xs)
  let ?t = "dl x * dl b + dl l + dl z"
  obtain rs' where 1: "mp_add_mul1_loop zs xs b (hi64 ?t) = (rs', h)" "rs = lo64 ?t # rs'"
    using Cons.prems by (auto simp: Let_def split: prod.splits)
  have i: "lval rs' + LB ^ length xs * unat h = lval zs + lval xs * unat b + unat (hi64 ?t)"
    "length rs' = length xs" using Cons.IH[OF 1(1)] by auto
  have "lval rs + LB ^ length (x # xs) * unat h
     = unat (lo64 ?t) + LB * (lval rs' + LB ^ length xs * unat h)" by (simp add: 1 algebra_simps)
  also have "\<dots> = unat (lo64 ?t) + LB * unat (hi64 ?t) + LB * (lval zs + lval xs * unat b)"
    unfolding i by (simp add: algebra_simps)
  also have "\<dots> = lval (z # zs) + lval (x # xs) * unat b + unat l"
    unfolding mul_add_step by (simp add: algebra_simps)
  finally show ?case using i 1 by simp
qed simp

lemma mp_add_mul1_spec:
  assumes "length zs = length xs" "mp_add_mul1 zs xs b = (rs, h)"
  shows "lval rs + LB ^ length xs * unat h = lval zs + lval xs * unat b" "length rs = length xs"
  using mp_add_mul1_loop_spec[of zs xs b 0 rs h] assms by (auto simp: mp_add_mul1_def)

lemma splice_seg:
  assumes "i + length ys < length xs"
  shows "take (Suc (i + length ys)) ((splice xs i ys)[i + length ys := h]) = take i xs @ ys @ [h]"
    "length ((splice xs i ys)[i + length ys := h]) = length xs"
proof -
  have d: "drop (i + length ys) xs = xs ! (i + length ys) # drop (Suc (i + length ys)) xs"
    using assms by (simp add: Cons_nth_drop_Suc)
  show "take (Suc (i + length ys)) ((splice xs i ys)[i + length ys := h]) = take i xs @ ys @ [h]"
    using assms by (simp add: splice_def d list_update_append min_def)
  show "length ((splice xs i ys)[i + length ys := h]) = length xs"
    using assms by (simp add: splice_def)
qed

lemma mp_mul_loop_spec:
  assumes "i + length op1 + length ys \<le> length res"
  shows "lval (take (i + length op1 + length ys) (mp_mul_loop res op1 i ys))
           = lval (take (i + length op1) res) + LB ^ i * (lval op1 * lval ys)"
    and "length (mp_mul_loop res op1 i ys) = length res"
proof -
  have "lval (take (i + length op1 + length ys) (mp_mul_loop res op1 i ys))
           = lval (take (i + length op1) res) + LB ^ i * (lval op1 * lval ys) \<and>
        length (mp_mul_loop res op1 i ys) = length res"
    using assms
  proof (induction ys arbitrary: i res)
    case (Cons y ys)
    let ?n = "length op1"
    let ?z = "take ?n (drop i res)"
    obtain seg h where 1: "mp_add_mul1 ?z op1 y = (seg, h)" by fastforce
    have lz: "length ?z = ?n" using Cons.prems by simp
    note a = mp_add_mul1_spec[OF lz 1]
    define res' where "res' = (splice res i seg)[i + ?n := h]"
    have lt: "i + length seg < length res" using Cons.prems a by simp
    have t: "take (Suc (i + ?n)) res' = take i res @ seg @ [h]" and len: "length res' = length res"
      using splice_seg[OF lt, of h] a by (simp_all add: res'_def)
    have IH: "lval (take (Suc i + ?n + length ys) (mp_mul_loop res' op1 (Suc i) ys))
           = lval (take (Suc i + ?n) res') + LB ^ Suc i * (lval op1 * lval ys)"
      "length (mp_mul_loop res' op1 (Suc i) ys) = length res'"
      using Cons.IH[of "Suc i" res'] Cons.prems len by auto
    have li: "length (take i res) = i" using Cons.prems by simp
    have "lval (take (Suc i + ?n) res') = lval (take i res) + LB ^ i * (lval seg + LB ^ ?n * unat h)"
      using t a li by (simp add: lval_append)
    also have "\<dots> = lval (take i res) + LB ^ i * lval ?z + LB ^ i * (lval op1 * unat y)"
      unfolding a(1) by (simp add: algebra_simps)
    also have "lval (take i res) + LB ^ i * lval ?z = lval (take (i + ?n) res)"
      using li by (simp add: take_add lval_append)
    finally have "lval (take (Suc i + ?n) res') = lval (take (i + ?n) res) + LB ^ i * (lval op1 * unat y)" .
    then show ?case using IH len 1 by (simp add: res'_def algebra_simps)
  qed simp
  then show "lval (take (i + length op1 + length ys) (mp_mul_loop res op1 i ys))
           = lval (take (i + length op1) res) + LB ^ i * (lval op1 * lval ys)"
    and "length (mp_mul_loop res op1 i ys) = length res" by auto
qed

lemma mp_mul_basecase_spec:
  assumes "op2 \<noteq> []" "length res = length op1 + length op2"
  shows "lval (mp_mul_basecase res op1 op2) = lval op1 * lval op2"
    "length (mp_mul_basecase res op1 op2) = length res"
proof -
  obtain y ys where op2: "op2 = y # ys" using assms by (cases op2) auto
  obtain seg h where 1: "mp_mul1 op1 y 0 = (seg, h)" by fastforce
  note a = mp_mul1_spec[OF 1]
  define res' where "res' = (splice res 0 seg)[length op1 := h]"
  have lt: "0 + length seg < length res" using assms a op2 by simp
  have t: "take (Suc (length op1)) res' = seg @ [h]" and len: "length res' = length res"
    using splice_seg[OF lt, of h] a by (simp_all add: res'_def)
  have "lval (take (Suc (length op1)) res') = lval op1 * unat y"
    unfolding t using a by (simp add: lval_append)
  moreover have "1 + length op1 + length ys = length res" "mp_mul_basecase res op1 op2 = mp_mul_loop res' op1 1 ys"
    using assms op2 1 by (simp_all add: mp_mul_basecase_def res'_def)
  ultimately show "lval (mp_mul_basecase res op1 op2) = lval op1 * lval op2"
      "length (mp_mul_basecase res op1 op2) = length res"
    using mp_mul_loop_spec[of 1 op1 ys res'] len op2 by (simp_all add: algebra_simps)
qed

subsection \<open>Subtraction of a multiple\<close>

lemma limb_neg: "unat (- x :: limb) = (if x = 0 then 0 else LB - unat x)"
  using limb_sub[of 0 x] by (auto simp: unat_eq_0)

lemma dlimb_sub:
  "unat (a - b :: dlimb) = (if unat b \<le> unat a then unat a - unat b else LB * LB + unat a - unat b)"
  using unat_sub_if'[of a b] by (simp split: if_splits)

lemma unat_sub_mul:
  defines "P x b l \<equiv> unat (x :: limb) * unat (b :: limb) + unat (l :: limb)"
  shows "unat (dl z - dl x * dl b - dl l)
    = (if P x b l \<le> unat z then unat z - P x b l else LB * LB + unat z - P x b l)"
proof -
  have "P x b l < LB * LB" using limb_mult_bound[of x b] limb_le[of l] by (simp add: P_def)
  then have "unat (dl x * dl b + dl l) = P x b l"
    unfolding P_def by (subst unat_dl_add) (simp_all add: unat_mul_dl)
  moreover have "dl z - dl x * dl b - dl l = dl z - (dl x * dl b + dl l)" by (rule diff_diff_add)
  ultimately show ?thesis by (simp only: dlimb_sub unat_dl)
qed

lemma sub_mul_step:
  "unat (lo64 (dl z - dl x * dl b - dl l)) + unat x * unat b + unat l
     = unat z + LB * unat (- hi64 (dl z - dl x * dl b - dl l))"
proof -
  let ?t = "dl z - dl x * dl b - dl l"
  let ?P = "unat x * unat b + unat l"
  have P: "?P \<le> 18446744073709551615 * LB" using limb_mult_bound[of x b] limb_le[of l] by simp
  note lh = lo_hi[of ?t]
  show ?thesis
  proof (cases "?P \<le> unat z")
    case True
    then have t: "unat ?t = unat z - ?P" by (simp add: unat_sub_mul)
    have h: "unat (hi64 ?t) = 0" unfolding unat_hi64 t using limb_lt[of z] by simp
    have "hi64 ?t = 0" using h by (simp only: unat_eq_0)
    with t h lh True show ?thesis by simp
  next
    case False
    then have t: "unat ?t = LB * LB + unat z - ?P" by (simp only: unat_sub_mul if_False)
    have ge: "LB \<le> unat ?t" using P t by simp
    then have "unat (hi64 ?t) \<noteq> 0" unfolding unat_hi64 by simp
    then have n: "hi64 ?t \<noteq> 0" by auto
    then have "unat (- hi64 ?t) = LB - unat (hi64 ?t)" by (simp only: limb_neg if_False)
    with limb_lt[of "hi64 ?t"] lh t P show ?thesis by linarith
  qed
qed

lemma mp_sub_mul1_loop_spec:
  assumes "length zs = length xs" "mp_sub_mul1_loop zs xs b l = (rs, h)"
  shows "lval rs + lval xs * unat b + unat l = lval zs + LB ^ length xs * unat h \<and>
           length rs = length xs"
  using assms
proof (induction zs xs arbitrary: l rs h rule: list_induct2)
  case (Cons z zs x xs)
  let ?t = "dl z - dl x * dl b - dl l"
  obtain rs' where 1: "mp_sub_mul1_loop zs xs b (- hi64 ?t) = (rs', h)" "rs = lo64 ?t # rs'"
    using Cons.prems by (auto simp: Let_def split: prod.splits)
  have i: "lval rs' + lval xs * unat b + unat (- hi64 ?t) = lval zs + LB ^ length xs * unat h"
    "length rs' = length xs" using Cons.IH[OF 1(1)] by auto
  have "lval rs + lval (x # xs) * unat b + unat l + LB * unat (- hi64 ?t)
    = (unat (lo64 ?t) + unat x * unat b + unat l) + LB * (lval rs' + lval xs * unat b + unat (- hi64 ?t))"
    unfolding 1(2) lval.simps by (simp only: algebra_simps)
  also have "\<dots> = lval (z # zs) + LB ^ length (x # xs) * unat h + LB * unat (- hi64 ?t)"
    unfolding i sub_mul_step lval.simps by (simp add: algebra_simps)
  finally show ?case using i 1 by simp
qed simp

lemma mp_sub_mul1_spec:
  assumes "length zs = length xs" "mp_sub_mul1 zs xs b = (rs, h)"
  shows "lval rs + lval xs * unat b = lval zs + LB ^ length xs * unat h" "length rs = length xs"
  using mp_sub_mul1_loop_spec[of zs xs b 0 rs h] assms by (auto simp: mp_sub_mul1_def)

subsection \<open>Division by a limb\<close>

lemma unat_lo64_small: "unat t < LB \<Longrightarrow> unat (lo64 t) = unat t"
  by (simp add: unat_lo64)

lemma div_step:
  fixes r b x :: limb
  assumes "unat r < unat b"
  defines "a \<equiv> push_bit 64 (dl r) OR dl x"
  shows "LB * unat r + unat x = unat (lo64 (a div dl b)) * unat b + unat (lo64 (a mod dl b))"
    "unat (lo64 (a mod dl b)) < unat b"
proof -
  have a: "unat a = LB * unat r + unat x" unfolding a_def by (rule unat_join)
  have "unat a < unat b * LB"
  proof -
    have "LB * unat r + LB \<le> LB * unat b" using assms(1) by linarith
    then show ?thesis using a limb_lt[of x] by linarith
  qed
  then have "unat a div unat b < LB" by (simp add: less_mult_imp_div_less mult.commute)
  then have q: "unat (lo64 (a div dl b)) = unat a div unat b"
    by (subst unat_lo64_small) (simp_all add: unat_dl_div)
  have m: "unat a mod unat b < unat b" using assms(1) by simp
  then have r: "unat (lo64 (a mod dl b)) = unat a mod unat b"
    using limb_lt[of b] by (subst unat_lo64_small) (simp_all add: unat_dl_mod)
  show "LB * unat r + unat x = unat (lo64 (a div dl b)) * unat b + unat (lo64 (a mod dl b))"
    unfolding q r a[symmetric] by (rule div_mult_mod_eq[symmetric])
  show "unat (lo64 (a mod dl b)) < unat b" using m r by simp
qed

lemma mp_div1_spec:
  assumes "unat r < unat b" "mp_div1 xs b r = (qs, r')"
  shows "lval xs + LB ^ length xs * unat r = lval qs * unat b + unat r' \<and> unat r' < unat b \<and>
    length qs = length xs"
  using assms(2)
proof (induction xs arbitrary: qs r')
  case (Cons x xs)
  obtain qs1 r1 where 1: "mp_div1 xs b r = (qs1, r1)" by fastforce
  let ?a = "push_bit 64 (dl r1) OR dl x"
  have 2: "qs = lo64 (?a div dl b) # qs1" "r' = lo64 (?a mod dl b)"
    using Cons.prems 1 by (auto simp: Let_def)
  have i: "lval xs + LB ^ length xs * unat r = lval qs1 * unat b + unat r1" "unat r1 < unat b"
    "length qs1 = length xs" using Cons.IH[OF 1] by auto
  note d = div_step[OF i(2), of x]
  have "lval (x # xs) + LB ^ length (x # xs) * unat r
     = unat x + LB * (lval xs + LB ^ length xs * unat r)" by (simp add: algebra_simps)
  also have "\<dots> = LB * unat r1 + unat x + LB * (lval qs1 * unat b)" unfolding i by (simp add: algebra_simps)
  also have "\<dots> = lval qs * unat b + unat r'" unfolding d(1) 2 lval.simps by (simp add: algebra_simps)
  finally show ?case using d(2) i(3) 2 by simp
qed (use assms(1) in simp)

subsection \<open>Division by a normalised limb with a precomputed inverse\<close>

text \<open>
  The numbers behind \<open>udiv1norm\<close>: with \<open>(v + B) * d + k = B\<^sup>2\<close> and \<open>1 \<le> k \<le> d\<close>, the quotient
  estimate \<open>q1\<close> leaves a remainder between 0 and \<open>2 * d\<close>.
\<close>

lemma inverse_estimate:
  fixes B d v k a1 a0 s l q1 :: int
  assumes "(v + B) * d + k = B * B" "v * (a1 + s) + (a0 - s * (B - d)) + B * a1 = B * q1 + l"
  shows "B * (a1 * B + a0 - q1 * d) = (B - d) * (a0 - s * (B - d)) + k * (a1 + s) + d * l"
proof -
  have vd: "v * d = B * B - k - B * d" using assms(1) by (simp add: algebra_simps)
  have "B * (a1 * B + a0 - q1 * d) = B * (a1 * B + a0) - (B * q1 + l) * d + d * l"
    by (simp add: algebra_simps)
  also have "\<dots> = B * (a1 * B + a0) - (v * d) * (a1 + s) - (a0 - s * (B - d)) * d - B * a1 * d + d * l"
    unfolding assms(2)[symmetric] by (simp add: algebra_simps)
  also have "\<dots> = (B - d) * (a0 - s * (B - d)) + k * (a1 + s) + d * l"
    unfolding vd by (simp add: algebra_simps)
  finally show ?thesis .
qed

lemma inverse_estimate_bounds:
  fixes B d v k a1 a0 s l q1 :: int
  assumes eq: "(v + B) * d + k = B * B" "v * (a1 + s) + (a0 - s * (B - d)) + B * a1 = B * q1 + l"
    and k: "0 < k" "k \<le> d" and d: "B \<le> 2 * d" "d < B" and a1: "0 \<le> a1" "a1 < d"
    and a0: "0 \<le> a0" "a0 < B" and s: "s = (if B \<le> 2 * a0 then 1 else 0)"
    and l: "0 \<le> l" "l < B"
  shows "0 \<le> a1 * B + a0 - q1 * d" "a1 * B + a0 - q1 * d < 2 * d"
proof -
  let ?r = "a1 * B + a0 - q1 * d"
  note e = inverse_estimate[OF eq]
  have lo: "0 \<le> a0 - s * (B - d)" using s d a0 by auto
  have s01: "0 \<le> s" "s \<le> 1" using s by auto
  have "0 \<le> (B - d) * (a0 - s * (B - d)) + k * (a1 + s) + d * l"
    using lo d k a1 s01 l by (intro add_nonneg_nonneg mult_nonneg_nonneg) auto
  then have "0 \<le> B * ?r" using e by simp
  then show "0 \<le> ?r" using d k by (simp add: zero_le_mult_iff)
  have up: "a0 - s * (B - d) < d" using s d a0 by auto
  have 1: "(B - d) * (a0 - s * (B - d)) \<le> (B - d) * (d - 1)"
    using up d by (intro mult_left_mono) auto
  have 2: "k * (a1 + s) \<le> d * d" using k a1 s01 by (intro mult_mono) auto
  have 3: "d * l \<le> d * (B - 1)" using l k by (intro mult_left_mono) auto
  have "B * ?r \<le> (B - d) * (d - 1) + d * d + d * (B - 1)" using e 1 2 3 by linarith
  also have "\<dots> = B * (2 * d) - B" by (simp add: algebra_simps)
  also have "\<dots> < B * (2 * d)" using d k by simp
  finally show "?r < 2 * d" using d k by (simp add: mult_less_cancel_left)
qed

lemma inverse_estimate_nat:
  fixes B d v k a1 a0 s l q1 :: nat
  assumes eq: "(v + B) * d + k = B * B" "v * (a1 + s) + (a0 - s * (B - d)) + B * a1 = B * q1 + l"
    and k: "1 \<le> k" "k \<le> d" and d: "B \<le> 2 * d" "d < B" and a1: "a1 < d" and a0: "a0 < B"
    and s: "s = (if B \<le> 2 * a0 then 1 else 0)" and l: "l < B"
  shows "q1 * d \<le> B * a1 + a0" "B * a1 + a0 < q1 * d + 2 * d"
proof -
  have le: "s * (B - d) \<le> a0" using s d by auto
  have e1: "(int v + int B) * int d + int k = int B * int B"
    using arg_cong[OF eq(1), of int] by simp
  have "int (v * (a1 + s) + (a0 - s * (B - d)) + B * a1) = int (B * q1 + l)" using eq(2) by simp
  then have e2: "int v * (int a1 + int s) + (int a0 - int s * (int B - int d)) + int B * int a1
      = int B * int q1 + int l" using le d by (simp add: of_nat_diff)
  have "0 \<le> int a1 * int B + int a0 - int q1 * int d" "int a1 * int B + int a0 - int q1 * int d < 2 * int d"
    by (rule inverse_estimate_bounds[OF e1 e2]; use k d a1 a0 s l in \<open>auto\<close>)+
  then have "int (q1 * d) \<le> int (B * a1 + a0)" "int (B * a1 + a0) < int (q1 * d + 2 * d)"
    by (simp_all add: algebra_simps)
  then show "q1 * d \<le> B * a1 + a0" "B * a1 + a0 < q1 * d + 2 * d" by (simp_all only: of_nat_le_iff of_nat_less_iff)
qed

lemma bit_63: "bit (a :: limb) 63 \<longleftrightarrow> 9223372036854775808 \<le> unat a"
proof -
  have "unat a div 9223372036854775808 < 2" using limb_lt[of a] by (simp add: less_mult_imp_div_less)
  then have "odd (unat a div 9223372036854775808) \<longleftrightarrow> unat a div 9223372036854775808 = 1"
    by (auto simp: less_2_cases_iff)
  moreover have "\<dots> \<longleftrightarrow> 9223372036854775808 \<le> unat a" using limb_lt[of a] by (auto simp: div_if)
  moreover have "bit a 63 \<longleftrightarrow> odd (unat a div 9223372036854775808)"
  proof -
    have "bit a 63 = bit (unat a) 63" by (simp add: bit_unsigned_iff)
    also have "\<dots> = odd (unat a div 2 ^ 63)" by (rule bit_iff_odd)
    finally show ?thesis by simp
  qed
  ultimately show ?thesis by simp
qed

lemma sign_mask: "signed_drop_bit 63 (a :: limb) = (if 9223372036854775808 \<le> unat a then - 1 else 0)"
proof -
  have "signed_drop_bit 63 a = (if bit a 63 then - 1 else 0)"
    by (rule bit_word_eqI) (auto simp: bit_signed_drop_bit_iff Suc_le_eq dest: bit_imp_le_length)
  then show ?thesis by (simp only: bit_63)
qed

lemma udiv1norm_init_spec:
  assumes "9223372036854775808 \<le> unat d"
  shows "\<exists>k. 1 \<le> k \<and> k \<le> unat d \<and> (unat (udiv1norm_init d) + LB) * unat d + k = LB * LB"
proof -
  let ?d = "unat d"
  have d: "0 < ?d" "?d < LB" using assms limb_lt[of d] by auto
  have a1: "unat (- d - 1) = LB - 1 - ?d"
  proof -
    have "unat (- d) = LB - ?d" using d by (simp add: limb_neg unat_eq_0[symmetric])
    then show ?thesis using d by (simp add: limb_sub)
  qed
  let ?t = "push_bit 64 (dl (- d - 1)) OR dl (- 1)"
  have m1: "unat (- 1 :: limb) = LB - 1" by (simp add: unsigned_minus_1_eq_mask mask_eq_exp_minus_1)
  have t: "unat ?t = LB * (LB - ?d) - 1"
    unfolding unat_join a1 m1 using d by (simp add: diff_mult_distrib2)
  have "LB * (LB - ?d) \<le> LB * ?d" using assms by (intro mult_le_mono2) simp
  then have "unat ?t < ?d * LB" using t d by simp
  then have "unat ?t div ?d < LB" by (simp only: less_mult_imp_div_less mult.commute[of ?d])
  then have v: "unat (udiv1norm_init d) = unat ?t div ?d"
    unfolding udiv1norm_init_def Let_def by (subst unat_lo64_small) (simp_all only: unat_dl_div unat_dl)
  define e where "e = unat ?t mod ?d"
  have e: "e < ?d" using d by (simp add: e_def)
  have "unat (udiv1norm_init d) * ?d + e = unat ?t" unfolding v e_def by (rule div_mult_mod_eq)
  then have "(unat (udiv1norm_init d) + LB) * ?d + (e + 1) = LB * LB"
    unfolding t using d by (simp add: add_mult_distrib diff_mult_distrib2)
  then show ?thesis using e by (intro exI[of _ "e + 1"]) simp
qed

lemma limb_and_mask1: "(if c then - 1 else 0 :: limb) AND d = (if c then d else 0)"
  by simp

lemma udiv1norm_spec:
  assumes d: "9223372036854775808 \<le> unat d" and a1: "unat a1 < unat d"
    and qr: "udiv1norm a1 a0 d (udiv1norm_init d) = (q, r)"
  shows "LB * unat a1 + unat a0 = unat q * unat d + unat r" "unat r < unat d"
proof -
  define v where "v = udiv1norm_init d"
  define big where "big = (9223372036854775808 \<le> unat a0)"
  obtain k where k: "1 \<le> k" "k \<le> unat d" "(unat v + LB) * unat d + k = LB * LB"
    using udiv1norm_init_spec[OF d] unfolding v_def by auto
  have dlt: "unat d < LB" by (rule limb_lt)
  define s :: nat where "s = (if big then 1 else 0)"
  define n1m where "n1m = signed_drop_bit 63 a0"
  have n1m: "n1m = (if big then - 1 else 0)" unfolding n1m_def sign_mask big_def ..
  define n_adj where "n_adj = a0 + (n1m AND d)"
  have n_adj: "unat n_adj = unat a0 - s * (LB - unat d)" "s * (LB - unat d) \<le> unat a0"
    unfolding n_adj_def n1m limb_and_mask1 using d dlt limb_lt[of a0]
    by (auto simp: s_def limb_add big_def)
  have a1s: "unat (a1 - n1m) = unat a1 + s"
    using a1 dlt by (auto simp: n1m s_def limb_add)
  define a where "a = dl v * dl (a1 - n1m) + dl n_adj"
  have "unat v * unat (a1 - n1m) + unat n_adj < LB * LB"
    using limb_mult_bound[of v "a1 - n1m"] limb_le[of n_adj] by linarith
  then have a: "unat a = unat v * (unat a1 + s) + (unat a0 - s * (LB - unat d))"
    unfolding a_def by (subst unat_dl_add) (simp_all only: unat_mul_dl unat_dl a1s n_adj)
  define q1 where "q1 = unat (hi64 a) + unat a1"
  define l where "l = unat (lo64 a)"
  have al: "unat a + LB * unat a1 = LB * q1 + l" using lo_hi[of a] by (simp add: q1_def l_def)
  define n where "n = LB * unat a1 + unat a0"
  have sb: "s = (if LB \<le> 2 * unat a0 then 1 else 0)" by (simp add: s_def big_def)
  have l: "l < LB" unfolding l_def by (rule limb_lt)
  have d2: "LB \<le> 2 * unat d" using d by linarith
  have q1n: "q1 * unat d \<le> n" and n2: "n < q1 * unat d + 2 * unat d"
    using inverse_estimate_nat[OF k(3) _ k(1,2) d2 dlt a1 limb_lt[of a0] sb l, of q1] al n_adj(2)
    unfolding a n_def by auto
  have nlt: "n < LB * unat d"
  proof -
    have "LB * unat a1 + LB \<le> LB * unat d" using a1 by linarith
    then show ?thesis unfolding n_def using limb_lt[of a0] by linarith
  qed
  have q1: "q1 < LB"
  proof (rule ccontr)
    assume "\<not> q1 < LB"
    then have "LB * unat d \<le> q1 * unat d" by simp
    with q1n nlt show False by linarith
  qed
  define qw where "qw = hi64 a + a1"
  have qw: "unat qw = q1" using q1 by (simp add: qw_def q1_def limb_add)
  define t where "t = (push_bit 64 (dl a1) OR dl a0) - dl qw * dl d - dl d"
  have t: "unat t = (if q1 * unat d + unat d \<le> n then n - (q1 * unat d + unat d)
      else LB * LB + n - (q1 * unat d + unat d))"
  proof -
    have e: "t = (push_bit 64 (dl a1) OR dl a0) - (dl qw * dl d + dl d)"
      unfolding t_def by (rule diff_diff_add)
    have "q1 * unat d + unat d < LB * LB"
      using limb_mult_bound[of qw d] limb_le[of d] qw by simp
    then have "unat (dl qw * dl d + dl d) = q1 * unat d + unat d"
      by (subst unat_dl_add) (simp_all only: unat_mul_dl unat_dl qw)
    then show ?thesis unfolding e dlimb_sub unat_join n_def[symmetric] by simp
  qed
  have q: "q = qw + (1 + hi64 t)" and r: "r = lo64 t + (hi64 t AND d)"
    using qr by (simp_all add: udiv1norm_def Let_def n1m_def n_adj_def a_def v_def qw_def t_def)
  have "n = unat q * unat d + unat r \<and> unat r < unat d"
  proof (cases "q1 * unat d + unat d \<le> n")
    case True
    then have ut: "unat t = n - (q1 * unat d + unat d)" using t by simp
    with n2 dlt True have lt: "unat t < LB" "unat t < unat d" by linarith+
    then have "unat (hi64 t) = 0" unfolding unat_hi64 by simp
    then have h: "hi64 t = 0" by (simp only: unat_eq_0)
    have "q1 + 1 < LB"
    proof (rule ccontr)
      assume "\<not> q1 + 1 < LB"
      then have "LB * unat d \<le> (q1 + 1) * unat d" by (intro mult_le_mono1) simp
      moreover have "(q1 + 1) * unat d = q1 * unat d + unat d" by simp
      ultimately show False using True nlt by linarith
    qed
    then have "unat q = q1 + 1" unfolding q h by (simp add: limb_add qw)
    moreover have "unat r = unat t" unfolding r h using lt by (simp add: unat_lo64_small)
    ultimately show ?thesis using ut True lt by (simp add: algebra_simps)
  next
    case False
    then have ut: "unat t = LB * LB + n - (q1 * unat d + unat d)" using t by simp
    define m where "m = q1 * unat d + unat d - n"
    have "q1 * unat d + unat d < LB * LB"
      using limb_mult_bound[of qw d] limb_le[of d] qw by simp
    then have m: "0 < m" "m \<le> unat d" "unat t + m = LB * LB"
      using False q1n unfolding ut m_def by linarith+
    have h: "unat (hi64 t) = LB - 1" and lo: "unat (lo64 t) = LB - m"
    proof -
      have "unat t = (LB - 1) * LB + (LB - m)" using m dlt by simp
      moreover have "LB - m < LB" using m by simp
      ultimately show "unat (hi64 t) = LB - 1" "unat (lo64 t) = LB - m"
        unfolding unat_hi64 unat_lo64 by (simp_all only: div_mult_self3 mod_mult_self3) simp_all
    qed
    have h1: "hi64 t = - 1"
      using h by (simp add: word_unat_eq_iff unsigned_minus_1_eq_mask mask_eq_exp_minus_1)
    have "unat q = q1" unfolding q h1 by (simp add: qw)
    moreover have "unat r = unat d - m" unfolding r h1 using lo m dlt by (simp add: limb_add)
    ultimately show ?thesis using m False q1n by (auto simp: m_def)
  qed
  then show "LB * unat a1 + unat a0 = unat q * unat d + unat r" "unat r < unat d"
    by (simp_all add: n_def)
qed

lemma mp_div1norm_loop_spec:
  assumes d: "9223372036854775808 \<le> unat b" and r: "unat r < unat b"
    and "mp_div1norm_loop xs b (udiv1norm_init b) r = (qs, r')"
  shows "lval xs + LB ^ length xs * unat r = lval qs * unat b + unat r' \<and> unat r' < unat b \<and>
    length qs = length xs"
  using assms(3)
proof (induction xs arbitrary: qs r')
  case (Cons x xs)
  obtain qs1 r1 where 1: "mp_div1norm_loop xs b (udiv1norm_init b) r = (qs1, r1)" by fastforce
  obtain q where 2: "udiv1norm r1 x b (udiv1norm_init b) = (q, r')" "qs = q # qs1"
    using Cons.prems 1 by (auto split: prod.splits)
  have i: "lval xs + LB ^ length xs * unat r = lval qs1 * unat b + unat r1" "unat r1 < unat b"
    "length qs1 = length xs" using Cons.IH[OF 1] by auto
  note u = udiv1norm_spec[OF d i(2) 2(1)]
  have "lval (x # xs) + LB ^ length (x # xs) * unat r
     = unat x + LB * (lval xs + LB ^ length xs * unat r)" by (simp add: algebra_simps)
  also have "\<dots> = LB * unat r1 + unat x + LB * (lval qs1 * unat b)" unfolding i by (simp add: algebra_simps)
  also have "\<dots> = lval qs * unat b + unat r'" unfolding u(1) 2 lval.simps by (simp add: algebra_simps)
  finally show ?case using u(2) i(3) 2 by simp
qed (use r in simp)

lemma mp_div1norm_spec:
  assumes "9223372036854775808 \<le> unat b" "unat r < unat b" "mp_div1norm xs b r = (qs, r')"
  shows "lval xs + LB ^ length xs * unat r = lval qs * unat b + unat r'" "unat r' < unat b"
    "length qs = length xs"
  using assms(3) mp_div1norm_loop_spec[OF assms(1,2), of xs qs r'] mp_div1_spec[OF assms(2), of xs qs r']
  by (auto simp: mp_div1norm_def split: if_splits)

subsection \<open>Shifts\<close>

lemma limb_split: "unat (v :: limb) = unat (drop_bit s v) * 2 ^ s + unat v mod 2 ^ s"
  unfolding unat_drop_bit by (rule div_mult_mod_eq[symmetric])

lemma unat_push_limb:
  assumes "s \<le> 64"
  shows "unat (push_bit s v :: limb) = unat v mod 2 ^ (64 - s) * 2 ^ s"
proof -
  have B: "LB = 2 ^ (64 - s) * 2 ^ s" using assms by (simp flip: power_add)
  have "unat (push_bit s v) = unat v * 2 ^ s mod (2 ^ (64 - s) * 2 ^ s)"
    using B by (simp add: unsigned_push_bit_eq push_bit_nat_def take_bit_nat_def)
  then show ?thesis by (simp only: mult_mod_left)
qed

lemma limb_or_disj:
  assumes "unat l < 2 ^ s" "\<And>n. bit h n \<Longrightarrow> s \<le> n"
  shows "unat (h OR l :: limb) = unat h + unat l"
proof (rule unat_or_disj)
  have "take_bit s l = l"
    using assms(1) by (simp add: word_unat_eq_iff unsigned_take_bit_eq take_bit_nat_eq_self)
  then have "n < s" if "bit l n" for n using that by (metis bit_take_bit_iff)
  then show "h AND l = 0" using assms(2) by (intro bit_word_eqI) (fastforce simp: bit_simps)
qed

lemma shl_step:
  assumes s: "0 < s" "s < 64" and l: "unat l < 2 ^ s"
  shows "unat (push_bit s v OR l) + LB * unat (drop_bit (64 - s) v) = unat (v :: limb) * 2 ^ s + unat l"
    "unat (drop_bit (64 - s) v) < 2 ^ s"
proof -
  have B: "LB = 2 ^ (64 - s) * 2 ^ s" using s by (simp flip: power_add)
  define lo where "lo = unat v mod 2 ^ (64 - s)"
  have v: "unat v = unat (drop_bit (64 - s) v) * 2 ^ (64 - s) + lo"
    unfolding lo_def by (rule limb_split)
  have vs: "unat v * 2 ^ s = unat (drop_bit (64 - s) v) * LB + lo * 2 ^ s"
    using arg_cong[OF v, of "\<lambda>x. x * 2 ^ s"] unfolding B by (simp only: algebra_simps)
  have "unat (push_bit s v) = lo * 2 ^ s" using s by (simp add: unat_push_limb lo_def)
  moreover have "unat (push_bit s v OR l) = unat (push_bit s v) + unat l"
    using l by (rule limb_or_disj) (simp add: bit_simps)
  ultimately show "unat (push_bit s v OR l) + LB * unat (drop_bit (64 - s) v) = unat v * 2 ^ s + unat l"
    using vs by linarith
  have "unat v < 2 ^ s * 2 ^ (64 - s)" using limb_lt[of v] B by (simp add: mult.commute)
  then show "unat (drop_bit (64 - s) v) < 2 ^ s" unfolding unat_drop_bit by (rule less_mult_imp_div_less)
qed

lemma shr_step:
  assumes s: "0 < s" "s < 64"
  shows "unat (drop_bit s a OR push_bit (64 - s) l) * 2 ^ s + unat (a :: limb) mod 2 ^ s
    = unat a + LB * (unat l mod 2 ^ s)"
proof -
  have B: "LB = 2 ^ (64 - s) * 2 ^ s" using s by (simp flip: power_add)
  have lt: "unat (drop_bit s a) < 2 ^ (64 - s)"
    using limb_lt[of a] B unfolding unat_drop_bit by (intro less_mult_imp_div_less) simp
  have "unat (push_bit (64 - s) l OR drop_bit s a) = unat (push_bit (64 - s) l) + unat (drop_bit s a)"
    using lt by (rule limb_or_disj) (simp add: bit_simps)
  also have "\<dots> = unat l mod 2 ^ s * 2 ^ (64 - s) + unat (drop_bit s a)"
    using s by (simp add: unat_push_limb)
  finally have o: "unat (drop_bit s a OR push_bit (64 - s) l)
     = unat l mod 2 ^ s * 2 ^ (64 - s) + unat (drop_bit s a)" by (simp add: or.commute)
  have "unat (drop_bit s a OR push_bit (64 - s) l) * 2 ^ s
      = LB * (unat l mod 2 ^ s) + unat (drop_bit s a) * 2 ^ s"
    unfolding o B by (simp only: algebra_simps)
  then show ?thesis using limb_split[of a s] by linarith
qed

lemma mp_shl_loop_spec:
  assumes "0 < s" "s < 64"
  shows "unat l < 2 ^ s \<Longrightarrow> mp_shl_loop xs s l = (rs, h) \<Longrightarrow>
    lval rs + LB ^ length xs * unat h = lval xs * 2 ^ s + unat l \<and> length rs = length xs \<and> unat h < 2 ^ s"
proof (induction xs arbitrary: l rs h)
  case (Cons x xs)
  let ?l = "drop_bit (64 - s) x"
  obtain rs' where 1: "mp_shl_loop xs s ?l = (rs', h)" "rs = (push_bit s x OR l) # rs'"
    using Cons.prems by (auto split: prod.splits)
  note st = shl_step[OF assms Cons.prems(1), of x]
  have i: "lval rs' + LB ^ length xs * unat h = lval xs * 2 ^ s + unat ?l" "length rs' = length xs"
    "unat h < 2 ^ s" using Cons.IH[OF st(2) 1(1)] by auto
  have "lval rs + LB ^ length (x # xs) * unat h
     = unat (push_bit s x OR l) + LB * (lval rs' + LB ^ length xs * unat h)"
    unfolding 1 by (simp add: algebra_simps)
  also have "\<dots> = unat (push_bit s x OR l) + LB * unat ?l + LB * (lval xs * 2 ^ s)"
    unfolding i by (simp only: algebra_simps)
  also have "\<dots> = lval (x # xs) * 2 ^ s + unat l" unfolding st(1) by (simp add: algebra_simps)
  finally show ?case using i 1 by simp
qed simp

lemma mp_shl_spec:
  assumes "0 < s" "s < 64" "mp_shl xs s = (rs, h)"
  shows "lval rs + LB ^ length xs * unat h = lval xs * 2 ^ s" "length rs = length xs" "unat h < 2 ^ s"
  using mp_shl_loop_spec[OF assms(1,2), of 0 xs rs h] assms(3) by (auto simp: mp_shl_def)

lemma mp_shr_loop_spec:
  assumes "0 < s" "s < 64"
  shows "mp_shr_loop xs s high = (rs, l) \<Longrightarrow>
    lval rs * 2 ^ s + unat l mod 2 ^ s = lval xs + LB ^ length xs * (unat high mod 2 ^ s) \<and>
    length rs = length xs \<and> unat l mod 2 ^ s = (if xs = [] then unat high else lval xs) mod 2 ^ s"
proof (induction xs arbitrary: rs l)
  case (Cons x xs)
  obtain rs' l' where 1: "mp_shr_loop xs s high = (rs', l')" by fastforce
  define w where "w = drop_bit s x OR push_bit (64 - s) l'"
  have 2: "rs = w # rs'" "l = x" using Cons.prems 1 by (auto simp: w_def)
  note st = shr_step[OF assms, of x l', folded w_def]
  have i: "lval rs' * 2 ^ s + unat l' mod 2 ^ s = lval xs + LB ^ length xs * (unat high mod 2 ^ s)"
    "length rs' = length xs" using Cons.IH[OF 1] by auto
  have "lval rs * 2 ^ s + unat l mod 2 ^ s
     = (unat w * 2 ^ s + unat x mod 2 ^ s) + LB * (lval rs' * 2 ^ s)"
    unfolding 2 by (simp add: algebra_simps)
  also have "\<dots> = unat x + LB * (lval rs' * 2 ^ s + unat l' mod 2 ^ s)"
    unfolding st by (simp only: algebra_simps)
  also have "\<dots> = lval (x # xs) + LB ^ length (x # xs) * (unat high mod 2 ^ s)"
    unfolding i by (simp add: algebra_simps)
  finally have "lval rs * 2 ^ s + unat l mod 2 ^ s
      = lval (x # xs) + LB ^ length (x # xs) * (unat high mod 2 ^ s)" .
  moreover have "lval (x # xs) mod 2 ^ s = unat x mod 2 ^ s"
  proof -
    have "LB = 2 ^ s * 2 ^ (64 - s)" using assms by (simp flip: power_add)
    then have "lval (x # xs) = unat x + 2 ^ s * (2 ^ (64 - s) * lval xs)" by simp
    then show ?thesis by (simp only: mod_mult_self2)
  qed
  ultimately show ?case using i 2 by simp
qed simp

lemma mp_shr_spec:
  assumes "0 < s" "s < 64" "mp_shr xs s high = (rs, r)" "unat high < 2 ^ s"
  shows "lval rs * 2 ^ s + unat r = lval xs + LB ^ length xs * unat high" "length rs = length xs"
    "unat r < 2 ^ s"
proof -
  obtain l where 1: "mp_shr_loop xs s high = (rs, l)" "r = l AND (push_bit s 1 - 1)"
    using assms(3) by (auto simp: mp_shr_def split: prod.splits)
  have "(push_bit s 1 - 1 :: limb) = mask s" by (simp add: mask_eq_exp_minus_1 push_bit_of_1)
  then have r: "unat r = unat l mod 2 ^ s" unfolding 1(2) by (simp only: unat_and_mask)
  show "lval rs * 2 ^ s + unat r = lval xs + LB ^ length xs * unat high" "length rs = length xs"
    "unat r < 2 ^ s"
    using mp_shr_loop_spec[OF assms(1,2) 1(1)] assms(4) unfolding r by auto
qed

subsection \<open>The division step\<close>

text \<open>The estimate from the high limbs is at most two too large and never too small.\<close>

lemma estimate_bounds:
  fixes B D N b1 h q P rD rN :: nat
  assumes D: "D = b1 * P + rD" "rD < P" and N: "N = h * P + rN" "rN < P"
    and norm: "B \<le> 2 * b1" and q: "q * b1 \<le> h" "q < B" "h < (q + 1) * b1 \<or> q + 1 = B \<and> N < B * D"
  shows "N < (q + 1) * D" "q * D < N + 2 * D"
proof -
  show "N < (q + 1) * D"
  proof (cases "h < (q + 1) * b1")
    case True
    then have "h * P + P \<le> (q + 1) * b1 * P" by (metis Suc_leI mult_Suc mult_le_mono1 add.commute)
    also have "\<dots> \<le> (q + 1) * D" unfolding D(1) by (simp add: algebra_simps)
    finally show ?thesis using N by linarith
  qed (use q(3) in auto)
  have "q * D + q \<le> q * (b1 * P + P)" using D by (metis Suc_leI add_Suc_right mult_Suc_right add.commute mult_le_mono2 nat_add_left_cancel_le)
  also have "\<dots> = (q * b1) * P + q * P" by (simp add: algebra_simps)
  also have "\<dots> \<le> h * P + q * P" using q(1) by simp
  finally have 1: "q * D + q \<le> N + q * P" using N by linarith
  have "(q + 1) * P \<le> B * P" using q(2) by (intro mult_le_mono1) simp
  also have "\<dots> \<le> 2 * b1 * P" using norm by (intro mult_le_mono1) simp
  also have "\<dots> \<le> 2 * D" using D(1) by simp
  finally have "q * P + P \<le> 2 * D" by simp
  with 1 D(2) show "q * D < N + 2 * D" by linarith
qed

lemma lval_snoc: "lval (xs @ [x]) = lval xs + LB ^ length xs * unat x"
  by (simp add: lval_append)

lemma split_top: "length w = Suc n \<Longrightarrow> w = take n w @ [w ! n]"
  by (metis lessI order_refl take_Suc_conv_app_nth take_all)

lemma limb_inc: "unat (t + 1 :: limb) = (if t = - 1 then 0 else unat t + 1)" "t + 1 = 0 \<longleftrightarrow> t = (- 1 :: limb)"
proof -
  show 0: "t + 1 = 0 \<longleftrightarrow> t = - 1" by (simp add: eq_neg_iff_add_eq_0)
  show "unat (t + 1) = (if t = - 1 then 0 else unat t + 1)"
    by (metis 0 Suc_eq_plus1 unatSuc add.commute unat_0)
qed

lemma divnorm_add_back_spec:
  assumes "length w = Suc (length tabb)" "0 < m" "lval w + m = LB ^ Suc (length tabb)"
    "m \<le> fuel * lval tabb" "m \<le> unat q * lval tabb"
  shows "\<exists>w' q'. divnorm_add_back fuel w tabb q = Some (w', q') \<and> length w' = Suc (length tabb) \<and>
     lval w' < lval tabb \<and> lval w' + m + unat q' * lval tabb = unat q * lval tabb"
  using assms
proof (induction fuel arbitrary: w m q)
  case (Suc f)
  let ?n = "length tabb" and ?D = "lval tabb"
  define t where "t = w ! ?n"
  have w: "lval w = lval (take ?n w) + LB ^ ?n * unat t"
    using split_top[OF Suc.prems(1)] Suc.prems(1) lval_snoc[of "take ?n w" "w ! ?n"] by (simp add: t_def)
  obtain seg c where 1: "mp_add (take ?n w) tabb 0 = (seg, c)" by fastforce
  have ln: "length (take ?n w) = ?n" using Suc.prems(1) by simp
  have a: "lval seg + LB ^ ?n * unat c = lval (take ?n w) + ?D" "unat c \<le> 1" "length seg = ?n"
    using mp_add_spec[OF ln _ 1] ln by auto
  have q0: "q \<noteq> 0" using Suc.prems(2,5) by (auto intro: ccontr)
  then have q1: "unat (q - 1) + 1 = unat q" by (simp add: unat_gt_0 unat_minus_one Suc_leI)
  then have qD: "unat q * ?D = unat (q - 1) * ?D + ?D" by (metis add_mult_distrib mult_1)
  have tot: "lval w + ?D = lval seg + LB ^ ?n * unat t + LB ^ ?n * unat c"
    using w a(1) by linarith
  have c01: "c = 0 \<or> c = 1" using a(2) by (rule carry_cases)
  let ?t = "if c \<noteq> 0 then t + 1 else t"
  show ?case
  proof (cases "c \<noteq> 0 \<and> t + 1 = 0")
    case True
    then have t: "unat t + 1 = LB" and c: "c = 1"
      using c01 limb_inc(2)[of t] by (auto simp: unsigned_minus_1_eq_mask mask_eq_exp_minus_1)
    have "LB ^ ?n * unat t + LB ^ ?n = LB ^ Suc ?n" using t by (metis add_mult_distrib2 mult.right_neutral power_Suc2)
    then have s: "lval w + ?D = lval seg + LB ^ Suc ?n" using tot c by simp
    have "divnorm_add_back (Suc f) w tabb q = Some (seg @ [0], q - 1)"
      using 1 True by (simp add: t_def)
    moreover have "lval (seg @ [0]) = lval seg" by (simp add: lval_snoc)
    moreover have "lval seg < ?D" using s Suc.prems(2,3) by linarith
    moreover have "lval seg + m + unat (q - 1) * ?D = unat q * ?D" using s Suc.prems(3) qD by linarith
    ultimately show ?thesis using a(3) by auto
  next
    case False
    then have t: "unat ?t = unat t + unat c" using c01 limb_inc[of t] by auto
    let ?w = "seg @ [?t]"
    have lw: "lval ?w = lval w + ?D" unfolding lval_snoc t a(3) using tot by (simp only: algebra_simps)
    have "lval ?w < LB ^ Suc ?n" using lval_bound[of ?w] a(3) by simp
    then have mD: "?D < m" using lw Suc.prems(3) by linarith
    have "\<exists>w' q'. divnorm_add_back f ?w tabb (q - 1) = Some (w', q') \<and> length w' = Suc ?n \<and>
      lval w' < ?D \<and> lval w' + (m - ?D) + unat q' * ?D = unat (q - 1) * ?D"
      using Suc.IH[of ?w "m - ?D" "q - 1"] a(3) mD lw Suc.prems qD by simp
    moreover have "divnorm_add_back (Suc f) w tabb q = divnorm_add_back f ?w tabb (q - 1)"
      using 1 False by (auto simp: t_def Let_def)
    ultimately show ?thesis using mD qD by auto
  qed
qed simp

lemma estimate_spec:
  assumes "length w = Suc (length tabb)" "2 \<le> length tabb" "b1 = tabb ! (length tabb - 1)"
    "9223372036854775808 \<le> unat b1" "b1_inv = 0 \<or> b1_inv = udiv1norm_init b1"
    "lval w < LB * lval tabb"
  defines "q \<equiv> unat (divnorm_estimate w (length tabb) b1 b1_inv)"
  shows "lval w < (q + 1) * lval tabb" "q * lval tabb < lval w + 2 * lval tabb"
proof -
  let ?n = "length tabb"
  let ?P = "LB ^ (?n - 1)"
  have n: "Suc (?n - 1) = ?n" using assms(2) by simp
  have D: "lval tabb = unat b1 * ?P + lval (take (?n - 1) tabb)" "lval (take (?n - 1) tabb) < ?P"
    using split_top[of tabb "?n - 1"] n lval_snoc[of "take (?n - 1) tabb" b1] lval_bound[of "take (?n - 1) tabb"]
    by (simp_all add: assms(3) mult.commute)
  define v v' where "v = w ! ?n" and "v' = w ! (?n - 1)"
  have es: "q = unat (if v \<ge> b1 then - 1 else if b1_inv \<noteq> 0 then fst (udiv1norm v v' b1 b1_inv)
      else lo64 ((push_bit 64 (dl v) OR dl v') div dl b1))"
    by (simp only: q_def divnorm_estimate_def v_def v'_def)
  have "w = take (?n - 1) w @ [v', v]"
    using split_top[OF assms(1)] split_top[of "take ?n w" "?n - 1"] assms(1) n by (simp add: v_def v'_def)
  then have "lval w = lval (take (?n - 1) w @ [v', v])" by metis
  then have N: "lval w = (LB * unat v + unat v') * ?P + lval (take (?n - 1) w)"
    using assms(1) by (simp add: lval_append algebra_simps)
  have N': "lval (take (?n - 1) w) < ?P" using lval_bound[of "take (?n - 1) w"] assms(1) by simp
  have norm: "LB \<le> 2 * unat b1" using assms(4) by simp
  let ?h = "LB * unat v + unat v'"
  have q: "q * unat b1 \<le> ?h \<and> q < LB \<and> (?h < (q + 1) * unat b1 \<or> q + 1 = LB \<and> lval w < LB * lval tabb)"
  proof (cases "unat b1 \<le> unat v")
    case True
    then have "q = 18446744073709551615"
      by (simp add: es word_le_nat_alt unsigned_minus_1_eq_mask mask_eq_exp_minus_1)
    then show ?thesis using True assms(6) by simp
  next
    case False
    then have lt: "unat v < unat b1" by simp
    define rest where "rest = (if b1_inv \<noteq> 0 then snd (udiv1norm v v' b1 b1_inv)
       else lo64 ((push_bit 64 (dl v) OR dl v') mod dl b1))"
    have "?h = q * unat b1 + unat rest \<and> unat rest < unat b1"
    proof (cases "b1_inv = 0")
      case True
      then show ?thesis using div_step[OF lt, of v'] lt
        by (simp add: es rest_def word_le_nat_alt)
    next
      case False
      then have i: "b1_inv = udiv1norm_init b1" using assms(5) by simp
      obtain q2 r2 where u: "udiv1norm v v' b1 (udiv1norm_init b1) = (q2, r2)" by fastforce
      then show ?thesis using udiv1norm_spec[OF assms(4) lt u] lt False i
        by (simp add: es rest_def word_le_nat_alt)
    qed
    moreover have "q < LB" unfolding q_def by (rule limb_lt)
    ultimately show ?thesis by simp
  qed
  show "lval w < (q + 1) * lval tabb" "q * lval tabb < lval w + 2 * lval tabb"
    using estimate_bounds[OF D N N' norm] q by auto
qed

lemma divnorm_digit_spec:
  assumes "length w = Suc (length tabb)" "2 \<le> length tabb" "b1 = tabb ! (length tabb - 1)"
    "9223372036854775808 \<le> unat b1" "b1_inv = 0 \<or> b1_inv = udiv1norm_init b1"
    "lval w < LB * lval tabb"
  shows "\<exists>w' q. divnorm_digit w tabb b1 b1_inv = Some (w', q) \<and> length w' = length w \<and>
     lval w = unat q * lval tabb + lval w' \<and> lval w' < lval tabb"
proof -
  let ?n = "length tabb"
  define q where "q = divnorm_estimate w ?n b1 b1_inv"
  note est = estimate_spec[OF assms, folded q_def]
  obtain seg r where 1: "mp_sub_mul1 (take ?n w) tabb q = (seg, r)" by fastforce
  have ln: "length (take ?n w) = ?n" using assms(1) by simp
  have s: "lval seg + lval tabb * unat q = lval (take ?n w) + LB ^ ?n * unat r" "length seg = ?n"
    using mp_sub_mul1_spec[OF ln 1] by auto
  define v where "v = w ! ?n"
  define a where "a = v - r"
  have w: "lval w = lval (take ?n w) + LB ^ ?n * unat v"
    using split_top[OF assms(1)] ln lval_snoc[of "take ?n w" v] by (simp add: v_def)
  have a: "unat a = (if unat r \<le> unat v then unat v - unat r else LB + unat v - unat r)"
    by (simp add: a_def limb_sub)
  have c: "a > v \<longleftrightarrow> unat v < unat r"
    using a limb_lt[of v] limb_lt[of r] by (auto simp: word_less_nat_alt split: if_splits)
  have u: "divnorm_digit w tabb b1 b1_inv
      = (if a > v then divnorm_add_back 3 (seg @ [a]) tabb q else Some (seg @ [a], q))"
    by (simp add: divnorm_digit_def Let_def q_def[symmetric] 1 v_def[symmetric] a_def[symmetric])
  have la: "lval (seg @ [a]) = lval seg + LB ^ ?n * unat a" using s(2) by (simp add: lval_snoc)
  show ?thesis
  proof (cases "unat r \<le> unat v")
    case True
    then have "LB ^ ?n * unat a + LB ^ ?n * unat r = LB ^ ?n * unat v"
      using a by (simp flip: add_mult_distrib2)
    then have e: "lval w = unat q * lval tabb + lval (seg @ [a])"
      using s w la mult.commute[of "lval tabb" "unat q"] by linarith
    moreover have "(unat q + 1) * lval tabb = unat q * lval tabb + lval tabb" by simp
    ultimately have "lval (seg @ [a]) < lval tabb" using est(1) by linarith
    then show ?thesis using u c True e s(2) assms(1) by auto
  next
    case False
    then have lt: "unat v < unat r" by simp
    have "LB ^ ?n * unat a + LB ^ ?n * unat r = LB ^ ?n * LB + LB ^ ?n * unat v"
      using a lt limb_lt[of r] by (simp flip: add_mult_distrib2)
    then have e: "lval (seg @ [a]) + unat q * lval tabb = lval w + LB ^ Suc ?n"
      using s w la mult.commute[of "lval tabb" "unat q"] mult.commute[of LB "LB ^ ?n"] by simp
    define m where "m = unat q * lval tabb - lval w"
    have "lval (seg @ [a]) < LB ^ Suc ?n" using lval_bound[of "seg @ [a]"] s(2) by simp
    with e have m: "0 < m" "lval (seg @ [a]) + m = LB ^ Suc ?n" "m \<le> unat q * lval tabb"
      "lval w + m = unat q * lval tabb"
      by (auto simp: m_def)
    have "m \<le> 3 * lval tabb" using est(2) m(4) by linarith
    then obtain w' q' where "divnorm_add_back 3 (seg @ [a]) tabb q = Some (w', q')" "length w' = Suc ?n"
       "lval w' < lval tabb" "lval w' + m + unat q' * lval tabb = unat q * lval tabb"
      using divnorm_add_back_spec[OF _ m(1,2) _ m(3)] s(2) by fastforce
    then show ?thesis using u c lt m(4) assms(1) by auto
  qed
qed

lemma first_q_spec:
  "length as = length bs \<Longrightarrow>
   divnorm_first_q as bs = (if lval (rev bs) \<le> lval (rev as) then 1 else 0)"
proof (induction as bs rule: list_induct2)
  case (Cons a as b bs)
  have l: "lval (rev as) < LB ^ length bs" "lval (rev bs) < LB ^ length bs"
    using lval_bound[of "rev as"] lval_bound[of "rev bs"] Cons by simp_all
  have lt: "x * LB ^ n + LB ^ n \<le> y * LB ^ n" if "x < y" for x y n :: nat
    using that by (metis Suc_leI mult_Suc mult_le_mono1 add.commute)
  consider "a = b" | "unat a < unat b" | "unat b < unat a" by (metis linorder_neqE_nat word_unat_eq_iff)
  then show ?case
  proof cases
    case 1
    then show ?thesis using Cons by (simp add: lval_append)
  next
    case 2
    then have "a \<noteq> b" "a < b" by (auto simp: word_less_nat_alt)
    then show ?thesis using lt[OF 2, of "length bs"] l Cons.hyps by (simp add: lval_append mult.commute)
  next
    case 3
    then have "a \<noteq> b" "\<not> a < b" by (auto simp: word_less_nat_alt)
    then show ?thesis using lt[OF 3, of "length bs"] l Cons.hyps by (simp add: lval_append mult.commute)
  qed
qed simp

lemma splice_length: "i + length ys \<le> length xs \<Longrightarrow> length (splice xs i ys) = length xs"
  by (simp add: splice_def)

lemma lval_splice:
  assumes "i + length ys \<le> length xs"
  shows "lval (splice xs i ys) + LB ^ i * lval (take (length ys) (drop i xs)) = lval xs + LB ^ i * lval ys"
proof -
  have xs: "xs = take i xs @ take (length ys) (drop i xs) @ drop (i + length ys) xs"
    by (metis append_take_drop_id drop_drop add.commute)
  have "lval xs = lval (take i xs @ take (length ys) (drop i xs) @ drop (i + length ys) xs)"
    using xs by metis
  then show ?thesis using assms by (simp add: splice_def lval_append algebra_simps min_def)
qed

lemma lval_drop: "lval xs = lval (take i xs) + LB ^ min i (length xs) * lval (drop i xs)"
  using lval_append[of "take i xs" "drop i xs"] by (simp add: min.commute)

lemma mp_divnorm_loop_spec:
  assumes "2 \<le> length tabb" "b1 = tabb ! (length tabb - 1)"
    "9223372036854775808 \<le> unat b1" "b1_inv = 0 \<or> b1_inv = udiv1norm_init b1"
  shows "i + length tabb \<le> length taba \<Longrightarrow> i < length tabq \<Longrightarrow> lval (drop i taba) < lval tabb \<Longrightarrow>
    \<exists>tabq' taba'. mp_divnorm_loop i tabq taba tabb b1 b1_inv = Some (tabq', taba') \<and>
      lval taba = lval (take i tabq') * lval tabb + lval taba' \<and> lval taba' < lval tabb \<and>
      drop i tabq' = drop i tabq \<and> length tabq' = length tabq \<and> length taba' = length taba"
proof (induction i arbitrary: tabq taba)
  case (Suc i)
  let ?n = "length tabb" and ?D = "lval tabb"
  define w where "w = take (?n + 1) (drop i taba)"
  have lw: "length w = Suc ?n" using Suc.prems(1) by (simp add: w_def)
  have di: "drop i taba = taba ! i # drop (Suc i) taba" using Suc.prems(1) by (simp add: Cons_nth_drop_Suc)
  have lt: "lval (drop i taba) < LB * ?D"
  proof -
    have "LB * lval (drop (Suc i) taba) + LB \<le> LB * ?D" using Suc.prems(3) by linarith
    then show ?thesis using di limb_lt[of "taba ! i"] by simp
  qed
  have ldw: "lval (drop i taba) = lval w"
  proof -
    have e: "lval (drop i taba) = lval w + LB ^ Suc ?n * lval (drop (?n + 1) (drop i taba))"
      using lval_drop[of "drop i taba" "?n + 1"] lw Suc.prems(1) by (simp add: w_def min_def)
    have "LB * ?D < LB * LB ^ ?n" using lval_bound[of tabb] by simp
    then have "lval (drop i taba) < LB ^ Suc ?n" using lt by simp
    with e have "lval (drop (?n + 1) (drop i taba)) = 0" by (cases "lval (drop (?n + 1) (drop i taba))") auto
    then show ?thesis using e by simp
  qed
  obtain w' q where 1: "divnorm_digit w tabb b1 b1_inv = Some (w', q)" "length w' = length w"
      "lval w = unat q * ?D + lval w'" "lval w' < ?D"
    using divnorm_digit_spec[OF lw assms] lt ldw by auto
  define t where "t = splice taba i w'"
  have ib: "i + length w' \<le> length taba" using Suc.prems(1) 1(2) lw by simp
  have lt': "length t = length taba" using ib by (simp add: t_def splice_length)
  have ts: "lval t + LB ^ i * (unat q * ?D) = lval taba"
    using lval_splice[OF ib] 1 lw unfolding t_def w_def by (simp add: algebra_simps)
  have dt: "lval (drop i t) < ?D"
  proof -
    have "lval t = lval (take i t) + LB ^ i * lval (drop i t)"
      using lval_drop[of t i] ib lt' by (simp add: min_def)
    moreover have "lval taba = lval (take i taba) + LB ^ i * lval w"
      using lval_drop[of taba i] ib ldw by (simp add: min_def)
    moreover have "take i t = take i taba" using ib by (simp add: t_def splice_def)
    ultimately have "LB ^ i * lval (drop i t) + LB ^ i * (unat q * ?D) = LB ^ i * (unat q * ?D + lval w')"
      using ts 1(3) by simp
    then have "lval (drop i t) = lval w'" by (simp add: algebra_simps)
    then show ?thesis using 1(4) by simp
  qed
  obtain tabq' taba' where 2: "mp_divnorm_loop i (tabq[i := q]) t tabb b1 b1_inv = Some (tabq', taba')"
      "lval t = lval (take i tabq') * ?D + lval taba'" "lval taba' < ?D"
      "drop i tabq' = drop i (tabq[i := q])" "length tabq' = length tabq" "length taba' = length t"
    using Suc.IH[of t "tabq[i := q]"] Suc.prems dt lt' by auto
  have qi: "tabq' ! i = q" "drop (Suc i) tabq' = drop (Suc i) tabq"
    using 2(4,5) Suc.prems(2)
    by (metis Suc_lessD Cons_nth_drop_Suc length_list_update list.inject nth_list_update_eq)
       (metis 2(4) drop_Suc drop_update_cancel lessI tl_drop)
  have "lval (take (Suc i) tabq') = lval (take i tabq') + LB ^ i * unat q"
    using Suc.prems(2) 2(5) qi by (simp add: take_Suc_conv_app_nth lval_append)
  then have "lval taba = lval (take (Suc i) tabq') * ?D + lval taba'"
    using ts 2(2) by (simp add: algebra_simps)
  moreover have "mp_divnorm_loop (Suc i) tabq taba tabb b1 b1_inv = Some (tabq', taba')"
    using 1(1) 2(1) by (simp add: w_def t_def)
  ultimately show ?case using 2 qi lt' by simp
qed simp

text \<open>The first iteration: with a normalised divisor the top quotient limb is 0 or 1.\<close>

lemma norm_half:
  assumes "tabb \<noteq> []" "9223372036854775808 \<le> unat (tabb ! (length tabb - 1))"
  shows "LB ^ length tabb \<le> 2 * lval tabb"
proof -
  let ?n = "length tabb - 1" and ?b = "tabb ! (length tabb - 1)"
  have n: "length tabb = Suc ?n" using assms(1) by (cases tabb) auto
  have "lval tabb = lval (take ?n tabb) + LB ^ ?n * unat ?b"
    using split_top[OF n] n lval_snoc[of "take ?n tabb" ?b] by simp
  moreover have "LB ^ length tabb = LB ^ ?n * LB" by (subst n) simp
  moreover have "LB ^ ?n * LB \<le> LB ^ ?n * (2 * unat ?b)" using assms(2) by (intro mult_le_mono2) simp
  ultimately show ?thesis by linarith
qed

lemma divnorm_first:
  assumes nb: "tabb \<noteq> []" and n: "n + length tabb = length taba"
    and norm: "9223372036854775808 \<le> unat (tabb ! (length tabb - 1))"
  defines "q \<equiv> divnorm_first_q (rev (drop n taba)) (rev tabb)"
  defines "taba1 \<equiv> if q \<noteq> 0 then splice taba n (fst (mp_sub (drop n taba) tabb 0)) else taba"
  shows "length taba1 = length taba \<and> lval taba = LB ^ n * (unat q * lval tabb) + lval taba1 \<and>
    lval (drop n taba1) < lval tabb"
proof -
  let ?D = "lval tabb"
  have ld: "length (drop n taba) = length tabb" using n by simp
  have q: "q = (if ?D \<le> lval (drop n taba) then 1 else 0)"
    using first_q_spec[of "rev (drop n taba)" "rev tabb"] ld by (simp add: q_def)
  show ?thesis
  proof (cases "q = 0")
    case True
    then show ?thesis using q by (simp add: taba1_def split: if_splits)
  next
    case F: False
    obtain s c where s: "mp_sub (drop n taba) tabb 0 = (s, c)" by fastforce
    have sp: "lval s + ?D = lval (drop n taba) + LB ^ length tabb * unat c" "length s = length tabb"
      using mp_sub_spec[OF ld _ s] ld by auto
    have le: "?D \<le> lval (drop n taba)" and q1: "q = 1" using F q by (auto split: if_splits)
    have t1: "taba1 = splice taba n s" using F by (simp add: taba1_def s)
    have ib: "n + length s \<le> length taba" using sp n by simp
    have d1: "drop n taba1 = s" using ib sp n by (simp add: t1 splice_def)
    have "lval s < LB ^ length tabb" using lval_bound[of s] sp by simp
    then have c: "unat c = 0" using sp(1) le by (cases "unat c") auto
    then have sD: "lval s + ?D = lval (drop n taba)" using sp(1) by simp
    have "lval taba1 + LB ^ n * lval (drop n taba) = lval taba + LB ^ n * lval s"
      using lval_splice[OF ib] sp ld by (simp add: t1)
    then have "lval taba = LB ^ n * ?D + lval taba1" unfolding sD[symmetric] by (simp add: algebra_simps)
    moreover have "lval s < ?D"
      using sD lval_bound[of "drop n taba"] ld norm_half[OF nb norm] by simp
    ultimately show ?thesis using d1 q1 ib by (simp add: t1 splice_length)
  qed
qed

lemma mp_divnorm_one:
  assumes "length taba \<noteq> 0" "length tabq = length taba" "9223372036854775808 \<le> unat b"
  shows "\<exists>tabq' taba'. mp_divnorm tabq taba [b] = Some (tabq', taba') \<and>
    lval taba = lval tabq' * lval [b] + lval (take 1 taba') \<and>
    lval (take 1 taba') < lval [b] \<and> length tabq' = length tabq \<and> length taba' = length taba"
proof -
  obtain qs r where 1: "mp_div1norm taba b 0 = (qs, r)" by fastforce
  have "unat (0 :: limb) < unat b" using assms(3) by simp
  then have d: "lval taba = lval qs * unat b + unat r" "unat r < unat b" "length qs = length taba"
    using mp_div1norm_spec[OF assms(3) _ 1] by auto
  obtain a0 as where a: "taba = a0 # as" using assms(1) by (cases taba) auto
  have "mp_divnorm tabq taba [b] = Some (qs, r # as)"
    using 1 a assms(2) d by (simp add: mp_divnorm_def splice_def)
  then show ?thesis using d a assms(2) by simp
qed

lemma lval_small_take:
  assumes "lval xs < LB ^ n" "n \<le> length xs"
  shows "lval (take n xs) = lval xs"
proof -
  have e: "lval xs = lval (take n xs) + LB ^ n * lval (drop n xs)"
    using lval_drop[of xs n] assms(2) by (simp add: min_def)
  with assms(1) have "lval (drop n xs) = 0" by (cases "lval (drop n xs)") auto
  with e show ?thesis by simp
qed

lemma nth_of_drop: "drop n a = drop n b \<Longrightarrow> n < length a \<Longrightarrow> length a = length b \<Longrightarrow> a ! n = b ! n"
  by (metis hd_drop_conv_nth)

lemma mp_divnorm_spec:
  assumes nb: "tabb \<noteq> []" and na: "length tabb \<le> length taba"
    and lq: "length tabq = length taba - length tabb + 1"
    and norm: "9223372036854775808 \<le> unat (tabb ! (length tabb - 1))"
  shows "\<exists>tabq' taba'. mp_divnorm tabq taba tabb = Some (tabq', taba') \<and>
    lval taba = lval tabq' * lval tabb + lval (take (length tabb) taba') \<and>
    lval (take (length tabb) taba') < lval tabb \<and> length tabq' = length tabq \<and> length taba' = length taba"
proof (cases "length tabb = 1")
  case True
  then obtain b where b: "tabb = [b]" by (cases tabb) auto
  with na lq have "length taba \<noteq> 0" "length tabq = length taba" by auto
  then show ?thesis using mp_divnorm_one[of taba tabq b] norm b by simp
next
  case False
  define n b1 where "n = length taba - length tabb" and "b1 = tabb ! (length tabb - 1)"
  have nb2: "2 \<le> length tabb" using False nb by (cases tabb) (auto simp: neq_Nil_conv Suc_le_eq)
  define q where "q = divnorm_first_q (rev (drop n taba)) (rev tabb)"
  define inv where "inv = (if n \<ge> 3 then udiv1norm_init b1 else 0)"
  define taba1 where "taba1 = (if q \<noteq> 0 then splice taba n (fst (mp_sub (drop n taba) tabb 0)) else taba)"
  have A: "length taba1 = length taba" "lval taba = LB ^ n * (unat q * lval tabb) + lval taba1"
    "lval (drop n taba1) < lval tabb"
    using divnorm_first[OF nb, of n taba] norm na unfolding taba1_def q_def n_def by auto
  have iv: "inv = 0 \<or> inv = udiv1norm_init b1" by (simp add: inv_def)
  have lqn: "length tabq = Suc n" using lq by (simp add: n_def)
  have h1: "n + length tabb \<le> length taba1" using A(1) na by (simp add: n_def)
  have h2: "n < length (tabq[n := q])" using lqn by simp
  obtain tabq' taba' where 2: "mp_divnorm_loop n (tabq[n := q]) taba1 tabb b1 inv = Some (tabq', taba')"
      "lval taba1 = lval (take n tabq') * lval tabb + lval taba'" "lval taba' < lval tabb"
      "drop n tabq' = drop n (tabq[n := q])" "length tabq' = length tabq" "length taba' = length taba"
    using mp_divnorm_loop_spec[OF nb2 b1_def norm[folded b1_def] iv h1 h2 A(3)]
    unfolding A(1) length_list_update by blast
  have "tabq' ! n = q"
    using lqn 2(4,5) nth_of_drop[of n tabq' "tabq[n := q]"] by simp
  then have "tabq' = take n tabq' @ [q]" using split_top[of tabq' n] 2(5) lqn by simp
  then have "lval tabq' = lval (take n tabq') + LB ^ n * unat q"
    using 2(5) lqn lval_snoc[of "take n tabq'" q] by simp
  then have "lval taba = lval tabq' * lval tabb + lval taba'" using A(2) 2(2) by (simp add: algebra_simps)
  moreover have "lval (take (length tabb) taba') = lval taba'"
    using 2(3) lval_bound[of tabb] 2(6) na by (intro lval_small_take) auto
  moreover have "mp_divnorm tabq taba tabb = Some (tabq', taba')"
    using False 2(1) unfolding mp_divnorm_def Let_def n_def b1_def q_def taba1_def inv_def by simp
  ultimately show ?thesis using 2 by auto
qed

subsection \<open>Properties\<close>

text \<open>
  C17: With a normalised divisor and its precomputed inverse, \<open>udiv1norm\<close> returns the exact
  quotient and remainder of a two limb number, with no division instruction; every intermediate
  word wraps as the code intends.
\<close>

theorem udiv1norm_exact:
  assumes "9223372036854775808 \<le> unat d" "unat a1 < unat d"
  shows "(case udiv1norm a1 a0 d (udiv1norm_init d) of (q, r) \<Rightarrow>
            unat q = (LB * unat a1 + unat a0) div unat d \<and> unat r = (LB * unat a1 + unat a0) mod unat d)"
proof -
  obtain q r where 1: "udiv1norm a1 a0 d (udiv1norm_init d) = (q, r)" by fastforce
  have e: "LB * unat a1 + unat a0 = unat q * unat d + unat r" "unat r < unat d"
    using udiv1norm_spec[OF assms 1] by auto
  then show ?thesis using 1 by simp
qed

theorem udiv1norm_exact_witness:
  "(case udiv1norm 5 7 0xC000000000000001 (udiv1norm_init 0xC000000000000001) of (q, r) \<Rightarrow>
      unat q = (LB * unat (5 :: limb) + unat (7 :: limb)) div unat (0xC000000000000001 :: limb) \<and>
      unat r = (LB * unat (5 :: limb) + unat (7 :: limb)) mod unat (0xC000000000000001 :: limb))"
  by (rule udiv1norm_exact) simp_all

text \<open>
  C13: The long division \<open>mp_divnorm\<close> by a normalised divisor ends, its correction loop after at
  most three rounds per digit, and leaves the quotient and, in the low limbs of the dividend,
  the remainder.
\<close>

theorem mp_divnorm_divides:
  assumes "tabb \<noteq> []" "length tabb \<le> length taba" "length tabq = length taba - length tabb + 1"
    "9223372036854775808 \<le> unat (tabb ! (length tabb - 1))"
  shows "\<exists>tabq' taba'. mp_divnorm tabq taba tabb = Some (tabq', taba') \<and>
     lval tabq' = lval taba div lval tabb \<and> lval (take (length tabb) taba') = lval taba mod lval tabb"
proof -
  obtain tabq' taba' where 1: "mp_divnorm tabq taba tabb = Some (tabq', taba')"
    "lval taba = lval tabq' * lval tabb + lval (take (length tabb) taba')"
    "lval (take (length tabb) taba') < lval tabb"
    using mp_divnorm_spec[OF assms] by blast
  then show ?thesis by simp
qed

theorem mp_divnorm_divides_witness:
  "\<exists>tabq' taba'. mp_divnorm [9, 9] [1, 2, 3] [4, 0x8000000000000000] = Some (tabq', taba') \<and>
     lval tabq' = lval [1, 2, 3] div lval [4, 0x8000000000000000] \<and>
     lval (take (length [4, 0x8000000000000000 :: limb]) taba') = lval [1, 2, 3] mod lval [4, 0x8000000000000000]"
  by (rule mp_divnorm_divides) simp_all

end
