(* ===== verification/Memory.thy ===== *)
theory Memory
  imports Prelude
begin

text \<open>
  The engine's allocator as its callers see it: whether each call succeeds, what fresh memory
  holds, and how many blocks are live, so that error paths and what they free can be stated.
  The arithmetic of \<open>BigInt\<close> and the string buffers of \<open>JsString\<close> allocate through it.
\<close>

text \<open>
  \<open>outcomes\<close> scripts the coming calls of the allocator (an empty script succeeds);
  \<open>junk\<close> is what fresh memory holds; \<open>live\<close> counts the blocks that are allocated.
\<close>

record memstate =
  outcomes :: "bool list"
  junk :: u64
  live :: int

definition js_malloc :: "memstate \<Rightarrow> bool \<times> memstate" where
  "js_malloc m =
     (case outcomes m of
        [] \<Rightarrow> (True, m\<lparr>live := live m + 1\<rparr>)
      | ok # rest \<Rightarrow> (ok, m\<lparr>outcomes := rest, live := live m + (if ok then 1 else 0)\<rparr>))"

definition js_realloc :: "memstate \<Rightarrow> bool \<times> memstate" where
  "js_realloc m =
     (case outcomes m of
        [] \<Rightarrow> (True, m)
      | ok # rest \<Rightarrow> (ok, m\<lparr>outcomes := rest\<rparr>))"

definition js_free :: "memstate \<Rightarrow> memstate" where
  "js_free m = m\<lparr>live := live m - 1\<rparr>"

subsection \<open>Allocation without failures\<close>

text \<open>No allocation of the script fails.\<close>

definition mem_ok :: "memstate \<Rightarrow> bool" where
  "mem_ok m \<longleftrightarrow> (\<forall>ok\<in>set (outcomes m). ok)"

lemma js_malloc_spec:
  assumes "js_malloc m = (ok, m')"
  shows "live m' = live m + (if ok then 1 else 0)" "mem_ok m \<Longrightarrow> ok \<and> mem_ok m'" "junk m' = junk m"
  using assms by (auto simp: js_malloc_def mem_ok_def split: list.splits)

lemma js_realloc_spec:
  assumes "js_realloc m = (ok, m')"
  shows "live m' = live m" "mem_ok m \<Longrightarrow> ok \<and> mem_ok m'"
  using assms by (auto simp: js_realloc_def mem_ok_def split: list.splits)

lemma mem_ok_free [simp]: "mem_ok (js_free m) = mem_ok m" "live (js_free m) = live m - 1"
  by (simp_all add: js_free_def mem_ok_def)

end
