(* ===== verification/BigInt.thy ===== *)
theory BigInt
  imports Limbs Memory
begin

text \<open>
  The BigInt operations of \<open>zipline/native/quickjs/quickjs.c\<close>, \<open>js_bigint_new\<close> to
  \<open>js_bigint_cmp\<close>. A \<open>JSBigInt\<close> is its limb array \<open>tab\<close>, of length \<open>len\<close>, in two's complement
  with the sign in the top bit of the last limb. Memory is what the code can observe of it:
  whether each allocation succeeds, the bytes a fresh block holds, and how many blocks are
  live, so that the error paths and what they free are part of the model.
\<close>

type_synonym bigint = "limb list"

datatype bigint_error = RangeErrorTooLarge | RangeErrorDivZero | RangeErrorNegExp
  | RangeErrorPow | OutOfMemory

type_synonym 'a mresult = "(bigint_error + 'a) \<times> memstate"

definition JS_BIGINT_MAX_SIZE :: nat where
  "JS_BIGINT_MAX_SIZE = (1024 * 1024) div 64"

definition js_limb_clz :: "limb \<Rightarrow> nat" where
  "js_limb_clz a = clz64 a"

definition js_limb_safe_clz :: "limb \<Rightarrow> nat" where
  "js_limb_safe_clz a = (if a = 0 then 64 else js_limb_clz a)"

definition js_bigint_new :: "nat \<Rightarrow> memstate \<Rightarrow> bigint mresult" where
  "js_bigint_new len m =
     (if len > JS_BIGINT_MAX_SIZE then (Inl RangeErrorTooLarge, m)
      else case js_malloc m of
             (True, m) \<Rightarrow> (Inr (replicate len (junk m)), m)
           | (False, m) \<Rightarrow> (Inl OutOfMemory, m))"

text \<open>The \<open>JSBigIntBuf\<close> versions write to a buffer on the stack.\<close>

definition js_bigint_set_si :: "limb \<Rightarrow> bigint" where
  "js_bigint_set_si a = [a]"

definition js_bigint_set_si64 :: "u64 \<Rightarrow> bigint" where
  "js_bigint_set_si64 a = js_bigint_set_si a"

definition js_bigint_set_short :: "limb \<Rightarrow> bigint" where
  "js_bigint_set_short val = js_bigint_set_si val"

definition js_bigint_new_si :: "limb \<Rightarrow> memstate \<Rightarrow> bigint mresult" where
  "js_bigint_new_si a m =
     (case js_bigint_new 1 m of
        (Inl e, m) \<Rightarrow> (Inl e, m)
      | (Inr r, m) \<Rightarrow> (Inr (r[0 := a]), m))"

definition js_bigint_new_si64 :: "u64 \<Rightarrow> memstate \<Rightarrow> bigint mresult" where
  "js_bigint_new_si64 a m = js_bigint_new_si a m"

definition js_bigint_new_ui64 :: "u64 \<Rightarrow> memstate \<Rightarrow> bigint mresult" where
  "js_bigint_new_ui64 a m =
     (if a \<le> 0x7fffffffffffffff then js_bigint_new_si64 a m
      else case js_bigint_new ((65 + 64 - 1) div 64) m of
             (Inl e, m) \<Rightarrow> (Inl e, m)
           | (Inr r, m) \<Rightarrow> (Inr (r[0 := a, 1 := 0]), m))"

text \<open>\<open>js_bigint_new_di\<close>: \<open>js_sdlimb_t\<close> is a signed 128-bit integer.\<close>

definition js_bigint_new_di :: "u128 \<Rightarrow> memstate \<Rightarrow> bigint mresult" where
  "js_bigint_new_di a m =
     (if a = scast (lo64 a) then
        (case js_bigint_new 1 m of
           (Inl e, m) \<Rightarrow> (Inl e, m)
         | (Inr r, m) \<Rightarrow> (Inr (r[0 := lo64 a]), m))
      else
        (case js_bigint_new 2 m of
           (Inl e, m) \<Rightarrow> (Inl e, m)
         | (Inr r, m) \<Rightarrow> (Inr (r[0 := lo64 a, 1 := hi64 a]), m)))"

subsection \<open>Normalisation and sign extension\<close>

fun normalize_len :: "bigint \<Rightarrow> nat \<Rightarrow> nat" where
  "normalize_len tab 0 = 0"
| "normalize_len tab (Suc 0) = Suc 0"
| "normalize_len tab (Suc (Suc k)) =
     (let v = tab ! Suc k in
      if (v \<noteq> 0 \<and> v \<noteq> - 1) \<or> (v AND 1) \<noteq> drop_bit 63 (tab ! k) then Suc (Suc k)
      else normalize_len tab (Suc k))"

definition js_bigint_normalize1 :: "bigint \<Rightarrow> nat \<Rightarrow> memstate \<Rightarrow> bigint \<times> memstate" where
  "js_bigint_normalize1 a l m =
     (let l = normalize_len a l in
      if l \<noteq> length a then (take l a, snd (js_realloc m)) else (a, m))"

definition js_bigint_normalize :: "bigint \<Rightarrow> memstate \<Rightarrow> bigint \<times> memstate" where
  "js_bigint_normalize a m = js_bigint_normalize1 a (length a) m"

definition js_bigint_sign :: "bigint \<Rightarrow> limb" where
  "js_bigint_sign a = drop_bit 63 (a ! (length a - 1))"

definition js_bigint_get_si_sat :: "bigint \<Rightarrow> limb" where
  "js_bigint_get_si_sat a =
     (if length a = 1 then a ! 0
      else if js_bigint_sign a \<noteq> 0 then 0x8000000000000000 else 0x7fffffffffffffff)"

definition js_bigint_extend :: "bigint \<Rightarrow> limb \<Rightarrow> memstate \<Rightarrow> bigint mresult" where
  "js_bigint_extend r op1 m =
     (let n2 = length r in
      if (op1 \<noteq> 0 \<and> op1 \<noteq> - 1) \<or> (op1 AND 1) \<noteq> drop_bit 63 (r ! (n2 - 1)) then
        (case js_realloc m of
           (False, m) \<Rightarrow> (Inl OutOfMemory, js_free m)
         | (True, m) \<Rightarrow> (Inr (r @ [op1]), m))
      else (case js_bigint_normalize r m of (r, m) \<Rightarrow> (Inr r, m)))"

subsection \<open>Addition, negation, multiplication\<close>

text \<open>The three loops of \<open>js_bigint_add\<close>; \<open>bm\<close> is \<open>-b_neg\<close>.\<close>

fun add_common :: "limb list \<Rightarrow> limb list \<Rightarrow> limb \<Rightarrow> limb \<Rightarrow> limb list \<times> limb" where
  "add_common (x # xs) (y # ys) bm carry =
     (case ADDC x (y XOR bm) carry of (r, carry) \<Rightarrow>
      case add_common xs ys bm carry of (rs, carry) \<Rightarrow> (r # rs, carry))"
| "add_common _ _ bm carry = ([], carry)"

fun add_ext_a :: "limb list \<Rightarrow> limb \<Rightarrow> limb \<Rightarrow> limb list \<times> limb" where
  "add_ext_a [] b_sign carry = ([], carry)"
| "add_ext_a (x # xs) b_sign carry =
     (case ADDC x b_sign carry of (r, carry) \<Rightarrow>
      case add_ext_a xs b_sign carry of (rs, carry) \<Rightarrow> (r # rs, carry))"

fun add_ext_b :: "limb \<Rightarrow> limb list \<Rightarrow> limb \<Rightarrow> limb \<Rightarrow> limb list \<times> limb" where
  "add_ext_b a_sign [] bm carry = ([], carry)"
| "add_ext_b a_sign (y # ys) bm carry =
     (case ADDC a_sign (y XOR bm) carry of (r, carry) \<Rightarrow>
      case add_ext_b a_sign ys bm carry of (rs, carry) \<Rightarrow> (r # rs, carry))"

definition js_bigint_add :: "bigint \<Rightarrow> bigint \<Rightarrow> bool \<Rightarrow> memstate \<Rightarrow> bigint mresult" where
  "js_bigint_add a b b_neg m =
     (let n2 = max (length a) (length b);
          n1 = min (length a) (length b)
      in case js_bigint_new n2 m of
           (Inl e, m) \<Rightarrow> (Inl e, m)
         | (Inr _, m) \<Rightarrow>
             let bm = (if b_neg then - 1 else 0);
                 carry = (if b_neg then 1 else 0);
                 (r1, carry) = add_common (take n1 a) (take n1 b) bm carry;
                 a_sign = - js_bigint_sign a;
                 b_sign = (- js_bigint_sign b) XOR bm;
                 (r2, carry) =
                   (if length a > length b then add_ext_a (drop n1 a) b_sign carry
                    else if length a < length b then add_ext_b a_sign (drop n1 b) bm carry
                    else ([], carry))
             in js_bigint_extend (r1 @ r2) (a_sign + b_sign + carry) m)"

definition js_bigint_neg :: "bigint \<Rightarrow> memstate \<Rightarrow> bigint mresult" where
  "js_bigint_neg a m = js_bigint_add (js_bigint_set_si 0) a True m"

definition js_bigint_mul :: "bigint \<Rightarrow> bigint \<Rightarrow> memstate \<Rightarrow> bigint mresult" where
  "js_bigint_mul a b m =
     (case js_bigint_new (length a + length b) m of
        (Inl e, m) \<Rightarrow> (Inl e, m)
      | (Inr r, m) \<Rightarrow>
          let r = mp_mul_basecase r a b;
              r = (if js_bigint_sign a \<noteq> 0
                   then splice r (length a) (fst (mp_sub (drop (length a) r) b 0)) else r);
              r = (if js_bigint_sign b \<noteq> 0
                   then splice r (length b) (fst (mp_sub (drop (length b) r) a 0)) else r)
          in case js_bigint_normalize r m of (r, m) \<Rightarrow> (Inr r, m))"

subsection \<open>Division\<close>

fun strip_zeros :: "limb list \<Rightarrow> nat \<Rightarrow> nat" where
  "strip_zeros tab 0 = 0"
| "strip_zeros tab (Suc 0) = Suc 0"
| "strip_zeros tab (Suc (Suc k)) = (if tab ! Suc k = 0 then strip_zeros tab (Suc k) else Suc (Suc k))"

text \<open>
  \<open>js_bigint_divrem\<close>. \<open>divrem_normalize\<close> is the shift of both operands that sets the top bit
  of the divisor: \<open>r\<close> is the whole array \<open>r->tab\<close> and \<open>na\<close> the number of its limbs in use, which
  may grow by one. \<open>divrem_finish\<close> is the end of the function, from the call of \<open>mp_divnorm\<close>
  on. The result \<open>None\<close> stands for a division loop that exceeds the fuel of the model; it
  never occurs.
\<close>

definition divrem_normalize ::
  "limb list \<Rightarrow> nat \<Rightarrow> limb list \<Rightarrow> limb list \<times> nat \<times> limb list \<times> nat" where
  "divrem_normalize r na tabb =
     (let shift = js_limb_clz (tabb ! (length tabb - 1)) in
      if shift \<noteq> 0 then
        (let (tabb, _) = mp_shl tabb shift;
             (seg, h) = mp_shl (take na r) shift;
             r = splice r 0 seg
         in if h \<noteq> 0 then (r[na := h], na + 1, tabb, shift) else (r, na, tabb, shift))
      else (r, na, tabb, shift))"

definition divrem_finish ::
  "limb list \<Rightarrow> limb list \<Rightarrow> nat \<Rightarrow> limb list \<Rightarrow> nat \<Rightarrow> bool \<Rightarrow> bool \<Rightarrow> bool \<Rightarrow> memstate \<Rightarrow> bigint mresult option" where
  "divrem_finish q r na tabb shift a_neg b_neg is_rem m =
     (let nb = length tabb in
      case mp_divnorm (take (na - nb + 1) q) (take na r) tabb of
        None \<Rightarrow> None
      | Some (qs, rem) \<Rightarrow>
          let m = js_free m in
          if is_rem then
            (let m = js_free m;
                 r = splice r 0 rem;
                 r = (if shift \<noteq> 0 then splice r 0 (fst (mp_shr (take nb r) shift 0)) else r);
                 r = r[nb := 0];
                 r = (if a_neg then splice r 0 (fst (mp_neg (take (nb + 1) r))) else r);
                 (r, m) = js_bigint_normalize1 r (nb + 1) m
             in Some (Inr r, m))
          else
            (let m = js_free m;
                 q = splice q 0 qs;
                 q = q[na - nb + 1 := 0];
                 q = (if a_neg \<noteq> b_neg then fst (mp_neg q) else q);
                 (q, m) = js_bigint_normalize q m
             in Some (Inr q, m)))"

definition js_bigint_divrem :: "bigint \<Rightarrow> bigint \<Rightarrow> bool \<Rightarrow> memstate \<Rightarrow> bigint mresult option" where
  "js_bigint_divrem a b is_rem m =
     (if length b = 1 \<and> b ! 0 = 0 then Some (Inl RangeErrorDivZero, m)
      else
        let a_neg = (js_bigint_sign a \<noteq> 0);
            b_neg = (js_bigint_sign b \<noteq> 0)
        in case js_bigint_new (length a + 2) m of
             (Inl e, m) \<Rightarrow> Some (Inl e, m)
           | (Inr r, m) \<Rightarrow>
               let r = splice r 0 (if a_neg then fst (mp_neg a) else a);
                   na = strip_zeros r (length a)
               in case js_malloc m of
                    (False, m) \<Rightarrow> Some (Inl OutOfMemory, js_free m)
                  | (True, m) \<Rightarrow>
                      let tabb = (if b_neg then fst (mp_neg b) else b);
                          tabb = take (strip_zeros tabb (length b)) tabb
                      in if na < length tabb then
                           (let m = js_free (js_free m) in
                            if is_rem then
                              (case js_bigint_new (length a) m of
                                 (Inl e, m) \<Rightarrow> Some (Inl e, m)
                               | (Inr _, m) \<Rightarrow> Some (Inr a, m))
                            else Some (js_bigint_new_si 0 m))
                         else
                           (case divrem_normalize r na tabb of (r, na, tabb, shift) \<Rightarrow>
                              case js_bigint_new (na - length tabb + 2) m of
                                (Inl e, m) \<Rightarrow> Some (Inl e, js_free (js_free m))
                              | (Inr q, m) \<Rightarrow> divrem_finish q r na tabb shift a_neg b_neg is_rem m))"

subsection \<open>Bitwise operations and shifts\<close>

datatype logic_op = OP_or | OP_and | OP_xor

fun logic_limb :: "logic_op \<Rightarrow> limb \<Rightarrow> limb \<Rightarrow> limb" where
  "logic_limb OP_or x y = x OR y"
| "logic_limb OP_and x y = x AND y"
| "logic_limb OP_xor x y = x XOR y"

definition js_bigint_logic :: "bigint \<Rightarrow> bigint \<Rightarrow> logic_op \<Rightarrow> memstate \<Rightarrow> bigint mresult" where
  "js_bigint_logic a b op m =
     (let (a, b) = (if length a < length b then (b, a) else (a, b));
          b_len = length b;
          b_sign = - js_bigint_sign b
      in case js_bigint_new (length a) m of
           (Inl e, m) \<Rightarrow> (Inl e, m)
         | (Inr _, m) \<Rightarrow>
             let r = map2 (logic_limb op) (take b_len a) b @ map (\<lambda>x. logic_limb op x b_sign) (drop b_len a)
             in case js_bigint_normalize r m of (r, m) \<Rightarrow> (Inr r, m))"

definition js_bigint_not :: "bigint \<Rightarrow> memstate \<Rightarrow> bigint mresult" where
  "js_bigint_not a m =
     (case js_bigint_new (length a) m of
        (Inl e, m) \<Rightarrow> (Inl e, m)
      | (Inr _, m) \<Rightarrow> (Inr (map (\<lambda>x. NOT x) a), m))"

definition js_bigint_shl :: "bigint \<Rightarrow> u32 \<Rightarrow> memstate \<Rightarrow> bigint mresult" where
  "js_bigint_shl a shift1 m =
     (if length a = 1 \<and> a ! 0 = 0 then js_bigint_new_si 0 m
      else
        let d = unat shift1 div 64;
            shift = unat shift1 mod 64
        in case js_bigint_new (length a + d) m of
             (Inl e, m) \<Rightarrow> (Inl e, m)
           | (Inr _, m) \<Rightarrow>
               if shift = 0 then (Inr (replicate d 0 @ a), m)
               else
                 (case mp_shl a shift of (rs, l) \<Rightarrow>
                    let l = (if js_bigint_sign a \<noteq> 0 then l OR push_bit shift (- 1) else l)
                    in js_bigint_extend (replicate d 0 @ rs) l m))"

definition js_bigint_shr :: "bigint \<Rightarrow> u32 \<Rightarrow> memstate \<Rightarrow> bigint mresult" where
  "js_bigint_shr a shift1 m =
     (let d = unat shift1 div 64;
          shift = unat shift1 mod 64;
          a_sign = js_bigint_sign a
      in if d \<ge> length a then js_bigint_new_si (- a_sign) m
         else
           let n1 = length a - d
           in case js_bigint_new n1 m of
                (Inl e, m) \<Rightarrow> (Inl e, m)
              | (Inr _, m) \<Rightarrow>
                  if shift = 0 then (Inr (drop d a), m)
                  else
                    (case js_bigint_normalize (fst (mp_shr (drop d a) shift (- a_sign))) m of
                       (r, m) \<Rightarrow> (Inr r, m)))"

subsection \<open>Powers\<close>

text \<open>
  The square and multiply loop; \<open>i\<close> counts the bits of \<open>e\<close> that are left. When a product
  fails the code returns without freeing \<open>r\<close>, and so does the model.
\<close>

fun pow_loop :: "bigint \<Rightarrow> u32 \<Rightarrow> nat \<Rightarrow> bigint \<Rightarrow> memstate \<Rightarrow> bigint mresult" where
  "pow_loop a e 0 r m = (Inr r, m)"
| "pow_loop a e (Suc i) r m =
     (case js_bigint_mul r r m of
        (Inl err, m) \<Rightarrow> (Inl err, m)
      | (Inr r1, m) \<Rightarrow>
          let m = js_free m; r = r1 in
          if drop_bit i e AND 1 \<noteq> 0 then
            (case js_bigint_mul r a m of
               (Inl err, m) \<Rightarrow> (Inl err, m)
             | (Inr r1, m) \<Rightarrow> pow_loop a e i r1 (js_free m))
          else pow_loop a e i r m)"

definition js_bigint_pow2 :: "limb \<Rightarrow> bool \<Rightarrow> bigint \<Rightarrow> memstate \<Rightarrow> bigint mresult" where
  "js_bigint_pow2 v is_neg b m =
     (let n = 63 - js_limb_clz v in
      if length b > 1 then (Inl RangeErrorPow, m)
      else if b ! 0 > 0x7fffffff then (Inl RangeErrorPow, m)
      else
        let e = ucast (b ! 0) :: u32;
            e1 = ucast e * of_nat n :: u64
        in if e1 > of_nat (JS_BIGINT_MAX_SIZE * 64) then (Inl RangeErrorPow, m)
           else
             let e = ucast e1 :: u32;
                 is_neg = (is_neg \<and> b ! 0 AND 1 \<noteq> 0)
             in case js_bigint_new ((unat e + 64 + 1 - (if is_neg then 1 else 0)) div 64) m of
                  (Inl err, m) \<Rightarrow> (Inl err, m)
                | (Inr r, m) \<Rightarrow>
                    (Inr ((replicate (length r) 0)[unat e div 64 :=
                       push_bit (unat e mod 64) (if is_neg then - 1 else 1)]), m))"

definition js_bigint_pow :: "bigint \<Rightarrow> bigint \<Rightarrow> memstate \<Rightarrow> bigint mresult" where
  "js_bigint_pow a b m =
     (let v = a ! 0;
          is_neg = bit v 63;
          v' = (if is_neg then - v else v)
      in if js_bigint_sign b \<noteq> 0 then (Inl RangeErrorNegExp, m)
         else if length b = 1 \<and> b ! 0 = 0 then js_bigint_new_si 1 m
         else if length a = 1 \<and> v \<le> 1 then js_bigint_new_si v m
         else if length a = 1 \<and> v = - 1 then js_bigint_new_si (1 - 2 * (b ! 0 AND 1)) m
         else if length a = 1 \<and> v' AND (v' - 1) = 0 then js_bigint_pow2 v' is_neg b m
         else if length b > 1 then (Inl RangeErrorPow, m)
         else if b ! 0 > 0x7fffffff then (Inl RangeErrorPow, m)
         else
           let e = ucast (b ! 0) :: u32;
               n_bits = 32 - clz32 e
           in case js_bigint_new (length a) m of
                (Inl err, m) \<Rightarrow> (Inl err, m)
              | (Inr _, m) \<Rightarrow> pow_loop a e (n_bits - 1) a m)"

subsection \<open>Conversion to and from doubles\<close>

text \<open>A double is its 64-bit pattern, the form in which the code works on it.\<close>

definition abs_limb :: "limb \<Rightarrow> limb \<Rightarrow> limb \<Rightarrow> limb \<times> limb" where
  "abs_limb x bm carry = (let v = (x XOR bm) + carry in (v, if v < carry then 1 else 0))"

fun mant_low :: "limb list \<Rightarrow> limb \<Rightarrow> limb \<Rightarrow> limb \<Rightarrow> limb \<times> limb" where
  "mant_low [] bm carry low_bits = (low_bits, carry)"
| "mant_low (x # xs) bm carry low_bits =
     (case abs_limb x bm carry of (v, carry) \<Rightarrow> mant_low xs bm carry (low_bits OR v))"

definition js_bigint_get_mant_exp :: "bigint \<Rightarrow> u64 \<times> int" where
  "js_bigint_get_mant_exp a =
     (let sgn = js_bigint_sign a;
          (low_bits, carry) = mant_low (take (length a - 2) a) (- sgn) sgn 0;
          (t0, carry) = (if length a = 1 then (0, carry)
                         else abs_limb (a ! (length a - 2)) (- sgn) carry);
          (t1, carry) = abs_limb (a ! (length a - 1)) (- sgn) carry;
          a1 = t1;
          a0 = t0 OR (if low_bits \<noteq> 0 then 1 else 0);
          (shift, a1, a0) =
            (if a1 = 0 then (64, a0, 0)
             else let shift = clz64 a1 in
                  if shift \<noteq> 0 then (shift, push_bit shift a1 OR drop_bit (64 - shift) a0, push_bit shift a0)
                  else (shift, a1, a0))
      in (a1 OR (if a0 \<noteq> 0 then 1 else 0), int (length a * 64) - int shift - 1))"

definition shr_rndn :: "u64 \<Rightarrow> nat \<Rightarrow> u64" where
  "shr_rndn a n = (let addend = (drop_bit n a AND 1) + (push_bit (n - 1) 1 - 1) in drop_bit n (a + addend))"

text \<open>
  The C conversion \<open>(double)x\<close> of an integer, as IEEE 754 defines it: rounding to nearest, ties to
  even, infinity beyond the range.
\<close>

definition round_even :: "nat \<Rightarrow> nat \<Rightarrow> nat" where
  "round_even m k =
     (let q = m div 2 ^ k; r = m mod 2 ^ k in
      if 2 * r > 2 ^ k \<or> (2 * r = 2 ^ k \<and> odd q) then q + 1 else q)"

definition float64_of_nat :: "nat \<Rightarrow> nat" where
  "float64_of_nat m =
     (if m = 0 then 0
      else
        let len = bit_length m;
            mant = (if len \<le> 53 then m * 2 ^ (53 - len) else round_even m (len - 53))
        in min ((len + 1022) * 2 ^ 52 + (mant - 2 ^ 52)) (2047 * 2 ^ 52))"

definition float64_of_int :: "int \<Rightarrow> u64" where
  "float64_of_int x = of_nat (float64_of_nat (nat \<bar>x\<bar>)) OR (if x < 0 then push_bit 63 1 else 0)"

definition js_bigint_to_float64 :: "bigint \<Rightarrow> u64" where
  "js_bigint_to_float64 a =
     (if length a = 1 then float64_of_int (sint (a ! 0))
      else
        let sgn = js_bigint_sign a;
            (mant, e) = js_bigint_get_mant_exp a;
            (mant, e) =
              (if e > 1023 then (0, 1024)
               else
                 let mant = drop_bit 1 mant OR (mant AND 1);
                     mant = shr_rndn mant 10;
                     (mant, e) = (if mant \<ge> push_bit 53 1 then (drop_bit 1 mant, e + 1) else (mant, e))
                 in (mant AND (push_bit 52 1 - 1), e))
        in push_bit 63 sgn OR push_bit 52 (of_int (e + 1023)) OR mant)"

datatype from_float_result = NotAnInteger | NotFinite | FromFloat "bigint_error + bigint"

definition js_bigint_from_float64 :: "u64 \<Rightarrow> memstate \<Rightarrow> from_float_result \<times> memstate" where
  "js_bigint_from_float64 a m =
     (let sgn = drop_bit 63 a;
          e = int (unat (drop_bit 52 a AND (push_bit 11 1 - 1)));
          mant = a AND (push_bit 52 1 - 1)
      in if e = 2047 then (NotFinite, m)
         else if e = 0 \<and> mant = 0 then
           (case js_bigint_new_si 0 m of (r, m) \<Rightarrow> (FromFloat r, m))
         else
           let e = e - 1023 in
           if e < 0 then (NotAnInteger, m)
           else
             let mant = mant OR push_bit 52 1 in
             if e < 52 \<and> mant AND (push_bit (nat (52 - e)) 1 - 1) \<noteq> 0 then (NotAnInteger, m)
             else
               let (mant, e) = (if e < 52 then (drop_bit (nat (52 - e)) mant, 0) else (mant, e - 52));
                   mant = (if sgn \<noteq> 0 then - mant else mant);
                   r = js_bigint_set_si64 mant
               in case js_bigint_shl r (of_int e) m of (r, m) \<Rightarrow> (FromFloat r, m))"

subsection \<open>Comparison\<close>

definition js_bigint_float64_cmp :: "bigint \<Rightarrow> u64 \<Rightarrow> int" where
  "js_bigint_float64_cmp a b1 =
     (let b_sign = (if drop_bit 63 b1 \<noteq> 0 then 1 else 0) :: int;
          e = int (unat (drop_bit 52 b1 AND (push_bit 11 1 - 1)));
          mant = b1 AND (push_bit 52 1 - 1);
          a_sign = (if js_bigint_sign a \<noteq> 0 then 1 else 0) :: int
      in if e = 2047 then (if mant \<noteq> 0 then 2 else 2 * b_sign - 1)
         else if e = 0 \<and> mant = 0 then (if length a = 1 \<and> a ! 0 = 0 then 0 else 1 - 2 * a_sign)
         else if length a = 1 \<and> a ! 0 = 0 then 2 * b_sign - 1
         else if a_sign \<noteq> b_sign then 1 - 2 * a_sign
         else
           let e = e - 1023;
               (a_mant, f) = js_bigint_get_mant_exp a
           in if f \<noteq> e then (if f < e then - 1 else 1)
              else
                let mant = push_bit 11 (mant OR push_bit 52 1)
                in if a_mant < mant then 2 * a_sign - 1
                   else if a_mant > mant then 1 - 2 * a_sign
                   else 0)"

fun cmp_limbs :: "limb list \<Rightarrow> limb list \<Rightarrow> int" where
  "cmp_limbs (x # xs) (y # ys) = (if x \<noteq> y then (if x < y then - 1 else 1) else cmp_limbs xs ys)"
| "cmp_limbs _ _ = 0"

definition js_bigint_cmp :: "bigint \<Rightarrow> bigint \<Rightarrow> int" where
  "js_bigint_cmp a b =
     (let a_sign = (if js_bigint_sign a \<noteq> 0 then 1 else 0) :: int;
          b_sign = (if js_bigint_sign b \<noteq> 0 then 1 else 0) :: int
      in if a_sign \<noteq> b_sign then 1 - 2 * a_sign
         else if length a \<noteq> length b then
           (if length a < length b then 2 * a_sign - 1 else 1 - 2 * a_sign)
         else cmp_limbs (rev a) (rev b))"

end
