(* ===== verification/BigIntValue.thy ===== *)
theory BigIntValue
  imports BigInt
begin

text \<open>
  What a \<open>JSBigInt\<close> stands for. \<open>bval\<close> is the integer of a limb array in two's complement, and
  \<open>bigint_ok\<close> is the representation invariant: no limb that only repeats the sign. The lemmas
  show that the invariant makes the representation unique, and how normalisation and
  \<open>js_bigint_extend\<close> act on values; the theories after this one rest on them.
\<close>

definition sign_ext :: "limb \<Rightarrow> bigint \<Rightarrow> bool" where
  "sign_ext v r \<longleftrightarrow> v = (if bit (last r) 63 then - 1 else 0)"

definition bval :: "bigint \<Rightarrow> int" where
  "bval a = int (lval a) - (if a \<noteq> [] \<and> bit (last a) 63 then int LB ^ length a else 0)"

definition bigint_ok :: "bigint \<Rightarrow> bool" where
  "bigint_ok a \<longleftrightarrow> a \<noteq> [] \<and> (length a > 1 \<longrightarrow> \<not> sign_ext (last a) (butlast a))"

subsection \<open>Signs\<close>

lemma drop_bit_63: "drop_bit 63 (x :: limb) = (if bit x 63 then 1 else 0)"
proof -
  have "unat (drop_bit 63 x) = unat x div 9223372036854775808" by (simp add: unat_drop_bit)
  moreover have "unat x div 9223372036854775808 = (if 9223372036854775808 \<le> unat x then 1 else 0)"
    using limb_lt[of x] by (auto simp: div_if)
  ultimately show ?thesis by (auto simp: bit_63 word_unat_eq_iff)
qed

lemma sign_drop_bit [simp]: "js_bigint_sign a = (if bit (a ! (length a - 1)) 63 then 1 else 0)"
  by (simp add: js_bigint_sign_def drop_bit_63)

lemma limb_and_1: "(op1 = 0 \<or> op1 = - 1) \<Longrightarrow>
  ((op1 AND 1) = drop_bit 63 (x :: limb)) = (op1 = (if bit x 63 then - 1 else (0 :: limb)))"
  by (auto simp: drop_bit_63)

lemma redundant_iff:
  assumes "r \<noteq> []"
  shows "(op1 \<noteq> 0 \<and> op1 \<noteq> - 1) \<or> (op1 AND 1) \<noteq> drop_bit 63 (r ! (length r - 1)) \<longleftrightarrow> \<not> sign_ext op1 r"
  using assms limb_and_1[of op1 "last r"]
  by (cases "op1 = 0 \<or> op1 = - 1") (auto simp: sign_ext_def last_conv_nth)

definition slimb :: "limb \<Rightarrow> int" where
  "slimb x = int (unat x) - (if bit x 63 then int LB else 0)"

lemma slimb_0 [simp]: "slimb 0 = 0"
  by (simp add: slimb_def)

lemma slimb_m1 [simp]: "slimb (- 1) = - 1"
  by (simp add: slimb_def unsigned_minus_1_eq_mask mask_eq_exp_minus_1)

lemma slimb_sint: "slimb x = sint x"
proof -
  have "sint x = signed_take_bit 63 (uint x)" by (simp add: sint_uint)
  also have "\<dots> = take_bit (Suc 63) (uint x) - 2 ^ Suc 63 * of_bool (bit (uint x) 63)"
    by (rule signed_take_bit_eq_take_bit_minus)
  also have "take_bit (Suc 63) (uint x) = uint x"
    using unsigned_less[of x] by (intro take_bit_int_eq_self) simp_all
  finally show ?thesis by (simp add: slimb_def bit_uint_iff)
qed

lemma bval_snoc: "bval (xs @ [x]) = int (lval xs) + int LB ^ length xs * slimb x"
  by (simp add: bval_def lval_snoc slimb_def algebra_simps)

lemma bval_single: "bval [x] = slimb x"
  using bval_snoc[of "[]" x] by simp

lemma slimb_bounds: "- 9223372036854775808 \<le> slimb x" "slimb x < 9223372036854775808"
  using limb_lt[of x] bit_63[of x] unfolding slimb_def by (cases "bit x 63"; simp del: of_nat_unat; linarith)+

lemma slimb_inj: "slimb x = slimb y \<Longrightarrow> x = y"
  using slimb_sint by (simp add: signed_word_eqI)

lemma bval_bounds:
  assumes "a \<noteq> []"
  shows "- (int LB ^ length a) \<le> 2 * bval a" "2 * bval a < int LB ^ length a"
proof -
  obtain xs x where a: "a = xs @ [x]" using assms by (cases a rule: rev_cases) auto
  let ?P = "int LB ^ length xs"
  have l: "0 \<le> int (lval xs)" "int (lval xs) < ?P"
    using lval_bound[of xs] by (simp_all flip: of_nat_power)
  have "?P * (- 9223372036854775808) \<le> ?P * slimb x" using slimb_bounds(1) by (intro mult_left_mono) auto
  moreover have e: "2 * bval a = 2 * int (lval xs) + 2 * (?P * slimb x)" "int LB ^ length a = 18446744073709551616 * ?P"
    by (simp_all add: a bval_snoc)
  ultimately show "- (int LB ^ length a) \<le> 2 * bval a" using l by linarith
  have "?P * slimb x \<le> ?P * 9223372036854775807"
    using slimb_bounds(2)[of x] by (intro mult_left_mono) auto
  with e l show "2 * bval a < int LB ^ length a" by linarith
qed

lemma bval_mod: "bval a mod int LB ^ length a = int (lval a)"
proof -
  have "int (lval a) < int LB ^ length a" using lval_bound[of a] by (simp flip: of_nat_power)
  then have "int (lval a) mod int LB ^ length a = int (lval a)" by simp
  moreover have "bval a mod int LB ^ length a = int (lval a) mod int LB ^ length a"
    unfolding bval_def by (auto simp: minus_mod_self2)
  ultimately show ?thesis by simp
qed

text \<open>A limb array is determined by its value modulo the range.\<close>

lemma bval_unique:
  assumes "a \<noteq> []" "int LB ^ length a dvd (int (lval a) - P)"
    "- (int LB ^ length a) \<le> 2 * P" "2 * P < int LB ^ length a"
  shows "bval a = P"
proof -
  let ?M = "int LB ^ length a"
  have "?M dvd (bval a - P)"
    using assms(2) by (auto simp: bval_def algebra_simps dest: dvd_diff[OF _ dvd_refl])
  moreover have "\<bar>bval a - P\<bar> < ?M" using bval_bounds[OF assms(1)] assms(3,4) by linarith
  ultimately have "bval a - P = 0" using dvd_imp_le_int by (metis abs_of_nonneg linorder_not_le zero_le_power of_nat_0_le_iff)
  then show ?thesis by simp
qed

subsection \<open>Sign extension\<close>

lemma bval_sign_ext:
  assumes "xs \<noteq> []" "sign_ext x xs"
  shows "bval (xs @ [x]) = bval xs"
proof -
  have "slimb x = (if bit (last xs) 63 then - 1 else 0)" using assms(2) by (simp add: sign_ext_def)
  then show ?thesis using assms(1) unfolding bval_snoc by (simp add: bval_def)
qed

lemma sign_ext_bit: "sign_ext x xs \<Longrightarrow> bit x 63 = bit (last xs) 63"
  by (auto simp: sign_ext_def)

lemma normalize_len_spec:
  "0 < l \<Longrightarrow> l \<le> length a \<Longrightarrow> 0 < normalize_len a l \<and> normalize_len a l \<le> l \<and>
     bval (take (normalize_len a l) a) = bval (take l a) \<and> bigint_ok (take (normalize_len a l) a)"
proof (induction a l rule: normalize_len.induct)
  case (2 tab)
  then show ?case by (cases tab) (auto simp: bigint_ok_def)
next
  case (3 tab k)
  let ?r = "take (Suc k) tab" and ?v = "tab ! Suc k"
  have r: "?r \<noteq> []" "length ?r = Suc k" using 3(3) by auto
  have t: "take (Suc (Suc k)) tab = ?r @ [?v]" using 3(3) by (simp add: take_Suc_conv_app_nth)
  have nth: "?r ! (length ?r - 1) = tab ! k" using r by simp
  have c: "((?v \<noteq> 0 \<and> ?v \<noteq> - 1) \<or> (?v AND 1) \<noteq> drop_bit 63 (tab ! k)) = (\<not> sign_ext ?v ?r)"
    using redundant_iff[OF r(1), of ?v] by (simp only: nth)
  show ?case
  proof (cases "sign_ext ?v ?r")
    case True
    then have n: "normalize_len tab (Suc (Suc k)) = normalize_len tab (Suc k)"
      by (simp only: normalize_len.simps Let_def c not_True_eq_False if_False)
    have "bval (take (Suc (Suc k)) tab) = bval ?r" unfolding t using r(1) True by (rule bval_sign_ext)
    moreover have "\<not> ((?v \<noteq> 0 \<and> ?v \<noteq> - 1) \<or> (?v AND 1) \<noteq> drop_bit 63 (tab ! k))"
      using True unfolding c by simp
    ultimately show ?thesis using 3(1)[OF refl] 3(3) unfolding n by auto
  next
    case False
    then have n: "normalize_len tab (Suc (Suc k)) = Suc (Suc k)"
      by (simp only: normalize_len.simps Let_def c not_False_eq_True if_True)
    show ?thesis unfolding n t using False r by (simp add: bigint_ok_def)
  qed
qed simp

lemma normalize1_spec:
  assumes "0 < l" "l \<le> length a" "js_bigint_normalize1 a l m = (r, m')"
  shows "bval r = bval (take l a) \<and> bigint_ok r \<and> live m' = live m"
proof -
  have "take (length a) a = a" by simp
  then have "r = take (normalize_len a l) a"
    using assms(3) by (auto simp: js_bigint_normalize1_def Let_def split: if_splits)
  moreover have "live m' = live m"
    using assms(3) by (auto simp: js_bigint_normalize1_def Let_def js_realloc_def split: if_splits list.splits)
  ultimately show ?thesis using normalize_len_spec[OF assms(1,2)] by simp
qed

lemma normalize_spec:
  assumes "a \<noteq> []" "js_bigint_normalize a m = (r, m')"
  shows "bval r = bval a" "bigint_ok r" "live m' = live m"
  using normalize1_spec[of "length a" a m r m'] assms by (auto simp: js_bigint_normalize_def)

text \<open>What a call does to the allocator: the result is one new block, an error leaves none.\<close>

definition alloc_ok :: "memstate \<Rightarrow> (bigint_error + 'a) \<Rightarrow> memstate \<Rightarrow> bool" where
  "alloc_ok m res m' \<longleftrightarrow> live m' = live m + (case res of Inl _ \<Rightarrow> 0 | Inr _ \<Rightarrow> 1)"

lemma js_bigint_new_spec:
  assumes "js_bigint_new len m = (res, m')"
  shows "alloc_ok m res m'" "res = Inr r \<Longrightarrow> length r = len \<and> len \<le> JS_BIGINT_MAX_SIZE"
    "mem_ok m \<Longrightarrow> len \<le> JS_BIGINT_MAX_SIZE \<Longrightarrow> (\<exists>r. res = Inr r) \<and> mem_ok m'"
    "mem_ok m \<Longrightarrow> mem_ok m'"
proof -
  obtain ok m1 where 1: "js_malloc m = (ok, m1)" by fastforce
  note ms = js_malloc_spec[OF 1]
  show "alloc_ok m res m'" "res = Inr r \<Longrightarrow> length r = len \<and> len \<le> JS_BIGINT_MAX_SIZE"
    "mem_ok m \<Longrightarrow> len \<le> JS_BIGINT_MAX_SIZE \<Longrightarrow> (\<exists>r. res = Inr r) \<and> mem_ok m'"
    "mem_ok m \<Longrightarrow> mem_ok m'"
    using assms ms by (auto simp: js_bigint_new_def alloc_ok_def 1 split: if_splits bool.splits)
qed

lemma normalize_mem_ok: "js_bigint_normalize1 a l m = (r, m') \<Longrightarrow> mem_ok m \<Longrightarrow> mem_ok m'"
  by (auto simp: js_bigint_normalize1_def Let_def mem_ok_def js_realloc_def split: if_splits list.splits)

lemma js_bigint_extend_spec:
  assumes "r \<noteq> []" "js_bigint_extend r op1 m = (res, m')" "res = Inr x"
  shows "bval x = int (lval r) + int LB ^ length r * slimb op1" "bigint_ok x"
proof -
  note ri = redundant_iff[OF assms(1), of op1]
  have "bval x = bval (r @ [op1]) \<and> bigint_ok x"
  proof (cases "sign_ext op1 r")
    case True
    obtain x' m1 where n: "js_bigint_normalize r m = (x', m1)" by fastforce
    then have "x = x'" using assms(2,3) ri True by (auto simp: js_bigint_extend_def)
    then show ?thesis using normalize_spec[OF assms(1) n] bval_sign_ext[OF assms(1) True] by simp
  next
    case False
    then have "x = r @ [op1]"
      using assms(2,3) ri by (auto simp: js_bigint_extend_def Let_def split: prod.splits bool.splits)
    then show ?thesis using False assms(1) by (auto simp: bigint_ok_def)
  qed
  then show "bval x = int (lval r) + int LB ^ length r * slimb op1" "bigint_ok x"
    by (simp_all add: bval_snoc)
qed

lemma js_bigint_extend_mem:
  assumes "js_bigint_extend r op1 m = (res, m')"
  shows "live m' = live m - (case res of Inl _ \<Rightarrow> 1 | Inr _ \<Rightarrow> 0)"
    "mem_ok m \<Longrightarrow> (\<exists>x. res = Inr x) \<and> mem_ok m'"
proof -
  obtain ok m1 where 1: "js_realloc m = (ok, m1)" by fastforce
  obtain x m2 where 2: "js_bigint_normalize r m = (x, m2)" by fastforce
  then have 3: "live m2 = live m" "mem_ok m \<Longrightarrow> mem_ok m2"
    by (auto simp: js_bigint_normalize_def js_bigint_normalize1_def js_realloc_def mem_ok_def Let_def
        split: if_splits list.splits)
  define c where "c \<longleftrightarrow> (op1 \<noteq> 0 \<and> op1 \<noteq> - 1) \<or> (op1 AND 1) \<noteq> drop_bit 63 (r ! (length r - 1))"
  have "(res, m') = (if c then (if ok then (Inr (r @ [op1]), m1) else (Inl OutOfMemory, js_free m1)) else (Inr x, m2))"
    unfolding assms[symmetric] js_bigint_extend_def Let_def c_def[symmetric] 1 2 by simp
  then show "live m' = live m - (case res of Inl _ \<Rightarrow> 1 | Inr _ \<Rightarrow> 0)"
    "mem_ok m \<Longrightarrow> (\<exists>x. res = Inr x) \<and> mem_ok m'"
    using js_realloc_spec[OF 1] 3 by (auto split: if_splits)
qed

subsection \<open>Unique representation\<close>

lemma bigint_ok_range:
  assumes "bigint_ok a" "1 < length a"
  shows "2 * bval a < - (int LB ^ (length a - 1)) \<or> int LB ^ (length a - 1) \<le> 2 * bval a"
proof (rule ccontr)
  assume c: "\<not> ?thesis"
  obtain xs x where a: "a = xs @ [x]" using assms by (cases a rule: rev_cases) (auto simp: bigint_ok_def)
  have xs: "xs \<noteq> []" using assms(2) a by auto
  have "int LB ^ length xs dvd (int (lval xs) - bval a)" by (simp add: a bval_snoc)
  moreover have "- (int LB ^ length xs) \<le> 2 * bval a" "2 * bval a < int LB ^ length xs"
    using c by (simp_all add: a)
  ultimately have "bval xs = bval a" by (rule bval_unique[OF xs])
  then have e: "int LB ^ length xs * slimb x = - (if bit (last xs) 63 then int LB ^ length xs else 0)"
    using xs unfolding a bval_snoc by (simp add: bval_def)
  have "slimb x = (if bit (last xs) 63 then - 1 else 0)"
  proof (cases "bit (last xs) 63")
    case True
    then have "int LB ^ length xs * (slimb x + 1) = 0" using e by (simp add: algebra_simps)
    then show ?thesis using True by simp
  qed (use e in simp)
  then have "slimb x = slimb (if bit (last xs) 63 then - 1 else 0)" by simp
  then have "x = (if bit (last xs) 63 then - 1 else 0)" by (rule slimb_inj)
  then show False using assms xs by (auto simp: a bigint_ok_def sign_ext_def)
qed

lemma bigint_ok_shorter:
  assumes "bigint_ok a" "bigint_ok b" "length a < length b"
  shows "\<not> bit (last b) 63 \<Longrightarrow> bval a < bval b" "bit (last b) 63 \<Longrightarrow> bval b < bval a"
proof -
  have ne: "a \<noteq> []" "b \<noteq> []" using assms by (auto simp: bigint_ok_def)
  have lb: "1 < length b" using assms(3) ne by (cases a) auto
  have m: "int LB ^ length a \<le> int LB ^ (length b - 1)" using assms(3) by (intro power_increasing) auto
  have lt: "int (lval b) < int LB ^ length b" using lval_bound[of b] by (simp flip: of_nat_power)
  have p: "0 \<le> int LB ^ (length b - 1)" by simp
  note r = bigint_ok_range[OF assms(2) lb] and a = bval_bounds[OF ne(1)]
  show "bval a < bval b" if "\<not> bit (last b) 63"
  proof -
    have "0 \<le> bval b" using that by (simp add: bval_def)
    then have "int LB ^ (length b - 1) \<le> 2 * bval b" using r p by linarith
    with a m show ?thesis by linarith
  qed
  show "bval b < bval a" if "bit (last b) 63"
  proof -
    have "bval b < 0" using that ne lt by (simp add: bval_def)
    then have "2 * bval b < - (int LB ^ (length b - 1))" using r p by linarith
    with a m show ?thesis by linarith
  qed
qed

theorem bigint_canonical:
  assumes "bigint_ok a" "bigint_ok b" "bval a = bval b"
  shows "a = b"
proof -
  have "\<not> length a < length b" "\<not> length b < length a"
    using bigint_ok_shorter[of a b] bigint_ok_shorter[of b a] assms by auto
  then have l: "length a = length b" by simp
  then have "lval a = lval b" using bval_mod[of a] bval_mod[of b] assms(3) by simp
  with l show ?thesis by (rule lval_inj)
qed

end
