(* ===== verification/BigIntArith.thy ===== *)
theory BigIntArith
  imports BigIntValue
begin

text \<open>
  The BigInt operations compute the integer operations: addition, subtraction, negation,
  multiplication, complement, shifts and comparison, each result in normal form. For every
  operation a lemma on memory shows that it fails only when an allocation fails or the
  result is too large, and that it leaves exactly its result allocated.
\<close>

subsection \<open>Sign extension to a length\<close>

definition sgn_limb :: "bigint \<Rightarrow> limb" where
  "sgn_limb a = (if bit (last a) 63 then - 1 else 0)"

definition ext :: "nat \<Rightarrow> bigint \<Rightarrow> bigint" where
  "ext n a = a @ replicate (n - length a) (sgn_limb a)"

lemma ext_length [simp]: "length a \<le> n \<Longrightarrow> length (ext n a) = n"
  by (simp add: ext_def)

lemma bval_ext_replicate:
  "a \<noteq> [] \<Longrightarrow> bval (a @ replicate k (sgn_limb a)) = bval a \<and>
     sgn_limb (a @ replicate k (sgn_limb a)) = sgn_limb a"
proof (induction k)
  case (Suc k)
  let ?e = "a @ replicate k (sgn_limb a)"
  have s: "a @ replicate (Suc k) (sgn_limb a) = ?e @ [sgn_limb a]"
    by (simp add: replicate_append_same)
  have i: "bval ?e = bval a" "sgn_limb ?e = sgn_limb a" using Suc by auto
  have "sign_ext (sgn_limb a) ?e" using i(2) by (simp add: sign_ext_def sgn_limb_def)
  then have "bval (?e @ [sgn_limb a]) = bval ?e" using Suc.prems by (intro bval_sign_ext) auto
  moreover have "sgn_limb (?e @ [sgn_limb a]) = sgn_limb a" by (simp add: sgn_limb_def)
  ultimately show ?case unfolding s using i by simp
qed simp

lemma lval_ext:
  assumes "a \<noteq> []" "length a \<le> n"
  shows "int (lval (ext n a)) = bval a + (if bit (last a) 63 then int LB ^ n else 0)"
proof -
  have e: "bval (ext n a) = bval a" "sgn_limb (ext n a) = sgn_limb a"
    using bval_ext_replicate[OF assms(1), of "n - length a"] by (simp_all add: ext_def)
  have "bit (last (ext n a)) 63 = bit (last a) 63" "ext n a \<noteq> []"
    using e(2) assms by (auto simp: sgn_limb_def ext_def split: if_splits)
  then show ?thesis using e(1) assms by (auto simp: bval_def)
qed

lemma sgn_limb_sign: "a \<noteq> [] \<Longrightarrow> - js_bigint_sign a = sgn_limb a"
  by (simp add: sgn_limb_def last_conv_nth)

subsection \<open>Complement\<close>

lemma lval_not: "lval (map (\<lambda>x. NOT x) a) + lval a + 1 = LB ^ length a"
proof (induction a)
  case (Cons x a)
  have "lval (map (\<lambda>x. NOT x) (x # a)) + lval (x # a) + 1
    = (unat (NOT x) + unat x + 1) + LB * (lval (map (\<lambda>x. NOT x) a) + lval a)" by (simp add: algebra_simps)
  also have "\<dots> = LB * (lval (map (\<lambda>x. NOT x) a) + lval a + 1)" unfolding limb_not by simp
  finally show ?case unfolding Cons by simp
qed simp

lemma bit_not_63: "bit (NOT x :: limb) 63 = (\<not> bit x 63)"
  by (simp add: bit_not_iff)

lemma bval_not: "a \<noteq> [] \<Longrightarrow> bval (map (\<lambda>x. NOT x) a) = - bval a - 1"
  using arg_cong[OF lval_not[of a], of int]
  by (auto simp: bval_def last_map bit_not_63 algebra_simps)

lemma sgn_limb_not: "a \<noteq> [] \<Longrightarrow> sgn_limb (map (\<lambda>x. NOT x) a) = NOT (sgn_limb a)"
  by (simp add: sgn_limb_def last_map bit_not_63)

lemma ok_not:
  assumes "bigint_ok a"
  shows "bigint_ok (map (\<lambda>x. NOT x) a)"
proof (cases "length a = 1")
  case False
  then obtain xs x where a: "a = xs @ [x]" "xs \<noteq> []"
    using assms by (cases a rule: rev_cases) (auto simp: bigint_ok_def)
  have "x \<noteq> (if bit (last xs) 63 then - 1 else 0)" using assms a by (simp add: bigint_ok_def sign_ext_def)
  then have "NOT x \<noteq> (if bit (NOT (last xs)) 63 then - 1 else 0)"
    unfolding bit_not_63 by (metis bit.compl_zero bit.double_compl)
  then show ?thesis using a by (simp add: bigint_ok_def sign_ext_def last_map)
qed (use assms in \<open>auto simp: bigint_ok_def\<close>)

subsection \<open>Addition\<close>

lemma add_common_mp: "add_common xs ys bm c = mp_add xs (map (\<lambda>y. y XOR bm) ys) c"
  by (induction xs ys bm c rule: add_common.induct) (auto split: prod.splits)

lemma add_ext_a_mp: "add_ext_a xs s c = mp_add xs (replicate (length xs) s) c"
  by (induction xs s c rule: add_ext_a.induct) (auto split: prod.splits)

lemma add_ext_b_mp: "add_ext_b s ys bm c = mp_add (replicate (length ys) s) (map (\<lambda>y. y XOR bm) ys) c"
  by (induction s ys bm c rule: add_ext_b.induct) (auto split: prod.splits)

lemma mp_add_append:
  assumes "length xs = length ys" "mp_add xs ys c = (r1, c1)" "mp_add xs' ys' c1 = (r2, c2)"
  shows "mp_add (xs @ xs') (ys @ ys') c = (r1 @ r2, c2)"
  using assms by (induction xs ys arbitrary: c r1 rule: list_induct2) (auto split: prod.splits)

lemma mp_add_nil [simp]: "mp_add [] ys c = ([], c)" "mp_add xs [] c = ([], c)"
  by (cases xs; simp)+

text \<open>The three loops together add the operands extended to a common length.\<close>

lemma add_loops:
  fixes a b bm
  defines "n2 \<equiv> max (length a) (length b)" and "n1 \<equiv> min (length a) (length b)"
    and "b' \<equiv> map (\<lambda>y. y XOR bm) b"
  assumes ne: "a \<noteq> []" "b \<noteq> []" and bs: "bs = sgn_limb b'"
    and 1: "add_common (take n1 a) (take n1 b) bm k = (r1, c1)"
    and 2: "(if length a > length b then add_ext_a (drop n1 a) bs c1
             else if length a < length b then add_ext_b (sgn_limb a) (drop n1 b) bm c1
             else ([], c1)) = (r2, c2)"
  shows "mp_add (ext n2 a) (ext n2 b') k = (r1 @ r2, c2)"
proof -
  have t: "map (\<lambda>y. y XOR bm) (take n1 b) = take n1 b'" "map (\<lambda>y. y XOR bm) (drop n1 b) = drop n1 b'"
    by (simp_all add: b'_def take_map drop_map)
  have lb: "length b' = length b" by (simp add: b'_def)
  have m1: "mp_add (take n1 a) (take n1 b') k = (r1, c1)"
    using 1 unfolding add_common_mp t .
  have m2: "mp_add (drop n1 (ext n2 a)) (drop n1 (ext n2 b')) c1 = (r2, c2)"
    using 2 unfolding add_ext_a_mp add_ext_b_mp t
    by (auto simp: ext_def n1_def n2_def lb bs min_def max_def split: if_splits)
  have "take n1 (ext n2 a) = take n1 a" "take n1 (ext n2 b') = take n1 b'"
    by (simp_all add: ext_def n1_def lb)
  then have "mp_add (take n1 (ext n2 a) @ drop n1 (ext n2 a)) (take n1 (ext n2 b') @ drop n1 (ext n2 b')) k = (r1 @ r2, c2)"
    using m1 m2 by (intro mp_add_append) (simp_all add: n1_def lb)
  then show ?thesis by simp
qed

lemma add_value:
  assumes ne: "a \<noteq> []" "b \<noteq> []" and n: "length a \<le> n" "length b \<le> n" and k: "unat k \<le> 1"
    and m: "mp_add (ext n a) (ext n b) k = (r, c)"
  shows "int (lval r) + int LB ^ n * slimb (sgn_limb a + sgn_limb b + c) = bval a + bval b + int (unat k)"
    "length r = n"
proof -
  let ?na = "bit (last a) 63" and ?nb = "bit (last b) 63"
  have s: "lval r + LB ^ n * unat c = lval (ext n a) + lval (ext n b) + unat k" "unat c \<le> 1" "length r = n"
    using mp_add_spec[OF _ k m] n by auto
  have "int (lval r) + int LB ^ n * int (unat c) = int (lval (ext n a)) + int (lval (ext n b)) + int (unat k)"
    using arg_cong[OF s(1), of int] by (simp del: of_nat_unat)
  then have e: "int (lval r) + int LB ^ n * int (unat c)
     = bval a + (if ?na then int LB ^ n else 0) + (bval b + (if ?nb then int LB ^ n else 0)) + int (unat k)"
    unfolding lval_ext[OF ne(1) n(1)] lval_ext[OF ne(2) n(2)] .
  have v: "slimb (sgn_limb a + sgn_limb b + c)
      = int (unat c) - (if ?na then 1 else 0) - (if ?nb then 1 else 0)"
  proof -
    have b: "slimb 1 = 1" "slimb (- 2) = - 2" "(- 1) + (- 1) = (- 2 :: limb)" by (simp_all add: slimb_sint)
    show ?thesis using carry_cases[OF s(2)] b by (auto simp: sgn_limb_def)
  qed
  show "int (lval r) + int LB ^ n * slimb (sgn_limb a + sgn_limb b + c) = bval a + bval b + int (unat k)"
    unfolding v using e by (simp add: algebra_simps del: of_nat_unat split: if_splits)
  show "length r = n" using s(3) .
qed

lemma add_operand:
  assumes "b \<noteq> []"
  shows "sgn_limb (map (\<lambda>y. y XOR (if b_neg then - 1 else 0)) b) = (- js_bigint_sign b) XOR (if b_neg then - 1 else 0)"
    "bval (map (\<lambda>y. y XOR (if b_neg then - 1 else 0)) b) + (if b_neg then 1 else 0) = (if b_neg then - bval b else bval b)"
proof -
  have m: "map (\<lambda>y. y XOR (if b_neg then - 1 else 0)) b = (if b_neg then map (\<lambda>x. NOT x) b else b)"
    by simp
  show "sgn_limb (map (\<lambda>y. y XOR (if b_neg then - 1 else 0)) b) = (- js_bigint_sign b) XOR (if b_neg then - 1 else 0)"
    unfolding m sgn_limb_sign[OF assms] using sgn_limb_not[OF assms] by simp
  show "bval (map (\<lambda>y. y XOR (if b_neg then - 1 else 0)) b) + (if b_neg then 1 else 0) = (if b_neg then - bval b else bval b)"
    unfolding m using bval_not[OF assms] by simp
qed

lemma js_bigint_add_spec:
  assumes ne: "a \<noteq> []" "b \<noteq> []" and add: "js_bigint_add a b b_neg m = (res, m')"
  shows "res = Inr x \<Longrightarrow> bval x = (if b_neg then bval a - bval b else bval a + bval b) \<and> bigint_ok x"
    "alloc_ok m res m'"
    "mem_ok m \<Longrightarrow> max (length a) (length b) \<le> JS_BIGINT_MAX_SIZE \<Longrightarrow> \<exists>x. res = Inr x"
    "mem_ok m \<Longrightarrow> mem_ok m'"
proof -
  let ?n2 = "max (length a) (length b)" and ?n1 = "min (length a) (length b)"
  let ?bm = "if b_neg then - 1 else 0 :: limb" and ?k = "if b_neg then 1 else 0 :: limb"
  let ?b' = "map (\<lambda>y. y XOR ?bm) b"
  define bs where "bs = (- js_bigint_sign b) XOR ?bm"
  obtain rn m1 where new: "js_bigint_new ?n2 m = (rn, m1)" by fastforce
  note ns = js_bigint_new_spec[OF new]
  obtain r1 c1 where 1: "add_common (take ?n1 a) (take ?n1 b) ?bm ?k = (r1, c1)" by fastforce
  obtain r2 c2 where 2: "(if length a > length b then add_ext_a (drop ?n1 a) bs c1
             else if length a < length b then add_ext_b (sgn_limb a) (drop ?n1 b) ?bm c1
             else ([], c1)) = (r2, c2)" by fastforce
  have bs: "bs = sgn_limb ?b'" unfolding bs_def by (rule add_operand(1)[OF ne(2), symmetric])
  have mp: "mp_add (ext ?n2 a) (ext ?n2 ?b') ?k = (r1 @ r2, c2)"
    by (rule add_loops[OF ne bs 1 2])
  have k: "unat ?k \<le> 1" by simp
  have b': "?b' \<noteq> []" "length ?b' \<le> ?n2" using ne(2) by auto
  note v = add_value[OF ne(1) b'(1) _ b'(2) k mp]
  have rne: "r1 @ r2 \<noteq> []" using v(2) ne by auto
  have u: "js_bigint_add a b b_neg m = (case rn of Inl e \<Rightarrow> (Inl e, m1)
     | Inr _ \<Rightarrow> js_bigint_extend (r1 @ r2) (sgn_limb a + bs + c2) m1)"
    unfolding js_bigint_add_def Let_def new bs_def[symmetric] sgn_limb_sign[OF ne(1)] 1 prod.case 2
    by (cases rn) simp_all
  obtain re me where ext: "js_bigint_extend (r1 @ r2) (sgn_limb a + bs + c2) m1 = (re, me)" by fastforce
  have val: "int (lval (r1 @ r2)) + int LB ^ length (r1 @ r2) * slimb (sgn_limb a + bs + c2)
      = (if b_neg then bval a - bval b else bval a + bval b)"
    using v add_operand(2)[OF ne(2), of b_neg] unfolding bs by (cases b_neg) simp_all
  show "res = Inr x \<Longrightarrow> bval x = (if b_neg then bval a - bval b else bval a + bval b) \<and> bigint_ok x"
    using js_bigint_extend_spec[OF rne ext, of x] add u ext val by (cases rn) auto
  show "alloc_ok m res m'"
    using js_bigint_extend_mem(1)[OF ext] add u ext ns(1) by (cases rn; cases re) (auto simp: alloc_ok_def)
  show "mem_ok m \<Longrightarrow> ?n2 \<le> JS_BIGINT_MAX_SIZE \<Longrightarrow> \<exists>x. res = Inr x"
    using js_bigint_extend_mem(2)[OF ext] add u ext ns(3) by (cases rn) auto
  show "mem_ok m \<Longrightarrow> mem_ok m'"
    using js_bigint_extend_mem(2)[OF ext] add u ext ns(4) by (cases rn) auto
qed

lemma js_bigint_neg_spec:
  assumes "a \<noteq> []" "js_bigint_neg a m = (Inr x, m')"
  shows "bval x = - bval a" "bigint_ok x"
  using js_bigint_add_spec(1)[OF _ assms(1), of "[0]" True m "Inr x" m' x] assms(2)
  by (auto simp: js_bigint_neg_def js_bigint_set_si_def bval_single)

subsection \<open>Multiplication\<close>

lemma sub_at:
  assumes "length r = n + length b"
  defines "r' \<equiv> splice r n (fst (mp_sub (drop n r) b 0))"
  shows "length r' = length r"
    "int LB ^ length r dvd int (lval r') - (int (lval r) - int LB ^ n * int (lval b))"
proof -
  obtain s c where s: "mp_sub (drop n r) b 0 = (s, c)" by fastforce
  have l: "length (drop n r) = length b" using assms(1) by simp
  have sp: "lval s + lval b = lval (drop n r) + LB ^ length b * unat c" "length s = length b"
    using mp_sub_spec[OF l _ s] l by auto
  have ib: "n + length s \<le> length r" using assms(1) sp by simp
  have r': "r' = splice r n s" by (simp add: r'_def s)
  show "length r' = length r" using ib by (simp add: r' splice_length)
  have "lval r' + LB ^ n * lval (drop n r) = lval r + LB ^ n * lval s"
    using lval_splice[OF ib] l sp(2) by (simp add: r')
  moreover have "LB ^ n * lval s + LB ^ n * lval b = LB ^ n * lval (drop n r) + LB ^ length r * unat c"
    using arg_cong[OF sp(1), of "\<lambda>x. LB ^ n * x"] assms(1) by (simp add: algebra_simps power_add)
  ultimately have "lval r' + LB ^ n * lval b = lval r + LB ^ length r * unat c" by linarith
  then have "int (lval r' + LB ^ n * lval b) = int (lval r + LB ^ length r * unat c)" by (rule arg_cong)
  then have "int (lval r') + int LB ^ n * int (lval b) = int (lval r) + int LB ^ length r * int (unat c)"
    by (simp only: of_nat_add of_nat_mult of_nat_power)
  then have "int (lval r') - (int (lval r) - int LB ^ n * int (lval b)) = int LB ^ length r * int (unat c)"
    by linarith
  then show "int LB ^ length r dvd int (lval r') - (int (lval r) - int LB ^ n * int (lval b))"
    by (metis dvd_triv_left)
qed

lemma bval_abs: "a \<noteq> [] \<Longrightarrow> \<bar>2 * bval a\<bar> \<le> int LB ^ length a"
  using bval_bounds[of a] by linarith

lemma bval_mult_bounds:
  assumes "a \<noteq> []" "b \<noteq> []"
  shows "- (int LB ^ (length a + length b)) \<le> 2 * (bval a * bval b)"
    "2 * (bval a * bval b) < int LB ^ (length a + length b)"
proof -
  let ?A = "int LB ^ length a" and ?B = "int LB ^ length b"
  have pos: "0 < ?A" "0 < ?B" by simp_all
  have "\<bar>2 * bval a\<bar> * \<bar>2 * bval b\<bar> \<le> ?A * ?B"
    using pos bval_abs[OF assms(1)] bval_abs[OF assms(2)] by (intro mult_mono) linarith+
  moreover have "\<bar>2 * bval a\<bar> * \<bar>2 * bval b\<bar> = 4 * \<bar>bval a * bval b\<bar>" by (simp add: abs_mult)
  moreover have "?A * ?B = int LB ^ (length a + length b)" by (rule power_add[symmetric])
  ultimately have "4 * \<bar>bval a * bval b\<bar> \<le> int LB ^ (length a + length b)" by linarith
  moreover have "0 < int LB ^ (length a + length b)" by simp
  ultimately show "- (int LB ^ (length a + length b)) \<le> 2 * (bval a * bval b)"
    "2 * (bval a * bval b) < int LB ^ (length a + length b)" by linarith+
qed

definition mul_limbs :: "limb list \<Rightarrow> bigint \<Rightarrow> bigint \<Rightarrow> bigint" where
  "mul_limbs r a b =
     (let r = mp_mul_basecase r a b;
          r = (if js_bigint_sign a \<noteq> 0
               then splice r (length a) (fst (mp_sub (drop (length a) r) b 0)) else r)
      in if js_bigint_sign b \<noteq> 0
         then splice r (length b) (fst (mp_sub (drop (length b) r) a 0)) else r)"

lemma mul_limbs_spec:
  assumes ne: "a \<noteq> []" "b \<noteq> []" and lr: "length r = length a + length b"
  shows "bval (mul_limbs r a b) = bval a * bval b" "length (mul_limbs r a b) = length a + length b"
proof -
  let ?N = "length a + length b"
  let ?M = "int LB ^ ?N"
  let ?sa = "bit (last a) 63" and ?sb = "bit (last b) 63"
  define r0 where "r0 = mp_mul_basecase r a b"
  have r0: "lval r0 = lval a * lval b" "length r0 = ?N"
    using mp_mul_basecase_spec[OF ne(2) lr] lr by (simp_all add: r0_def)
  define r1 where "r1 = (if ?sa then splice r0 (length a) (fst (mp_sub (drop (length a) r0) b 0)) else r0)"
  have d1: "length r1 = ?N" "?M dvd int (lval r1) - (int (lval r0) - (if ?sa then int LB ^ length a * int (lval b) else 0))"
    using sub_at[of r0 "length a" b] r0(2) by (auto simp: r1_def)
  define r2 where "r2 = (if ?sb then splice r1 (length b) (fst (mp_sub (drop (length b) r1) a 0)) else r1)"
  have d2: "length r2 = ?N" "?M dvd int (lval r2) - (int (lval r1) - (if ?sb then int LB ^ length b * int (lval a) else 0))"
    using sub_at[of r1 "length b" a] d1(1) by (auto simp: r2_def add.commute)
  have "?M dvd (int (lval r2) - (int (lval r1) - (if ?sb then int LB ^ length b * int (lval a) else 0)))
     + (int (lval r1) - (int (lval r0) - (if ?sa then int LB ^ length a * int (lval b) else 0)))
     - (if ?sa \<and> ?sb then ?M else 0)" 
    by (rule dvd_diff[OF dvd_add[OF d2(2) d1(2)]]) simp
  also have "(int (lval r2) - (int (lval r1) - (if ?sb then int LB ^ length b * int (lval a) else 0)))
     + (int (lval r1) - (int (lval r0) - (if ?sa then int LB ^ length a * int (lval b) else 0)))
     - (if ?sa \<and> ?sb then ?M else 0) = int (lval r2) - bval a * bval b"
    using ne unfolding bval_def r0(1) by (simp add: algebra_simps power_add)
  finally have "bval r2 = bval a * bval b"
    using bval_mult_bounds[OF ne] d2(1) ne by (intro bval_unique) auto
  moreover have "mul_limbs r a b = r2"
    using ne by (simp add: mul_limbs_def Let_def r2_def r1_def r0_def last_conv_nth)
  ultimately show "bval (mul_limbs r a b) = bval a * bval b" "length (mul_limbs r a b) = ?N"
    using d2(1) by auto
qed

lemma js_bigint_mul_spec:
  assumes ne: "a \<noteq> []" "b \<noteq> []" and mul: "js_bigint_mul a b m = (res, m')"
  shows "res = Inr x \<Longrightarrow> bval x = bval a * bval b \<and> bigint_ok x"
    "alloc_ok m res m'"
    "mem_ok m \<Longrightarrow> length a + length b \<le> JS_BIGINT_MAX_SIZE \<Longrightarrow> \<exists>x. res = Inr x"
    "mem_ok m \<Longrightarrow> mem_ok m'"
proof -
  obtain rn m1 where new: "js_bigint_new (length a + length b) m = (rn, m1)" by fastforce
  note ns = js_bigint_new_spec[OF new]
  have "(res = Inr x \<longrightarrow> bval x = bval a * bval b \<and> bigint_ok x) \<and> alloc_ok m res m' \<and>
      (mem_ok m \<longrightarrow> length a + length b \<le> JS_BIGINT_MAX_SIZE \<longrightarrow> (\<exists>x. res = Inr x)) \<and>
      (mem_ok m \<longrightarrow> mem_ok m')"
  proof (cases rn)
    case (Inl e)
    then have "res = Inl e" "m' = m1" using mul new by (simp_all add: js_bigint_mul_def)
    then show ?thesis using ns(1,3,4) Inl by auto
  next
    case (Inr r)
    obtain y m2 where n: "js_bigint_normalize (mul_limbs r a b) m1 = (y, m2)" by fastforce
    have e: "res = Inr y" "m' = m2"
      using mul new Inr n unfolding js_bigint_mul_def mul_limbs_def Let_def by auto
    have lr: "length r = length a + length b" using ns(2)[OF Inr] by simp
    note ml = mul_limbs_spec[OF ne lr]
    have "mul_limbs r a b \<noteq> []" using ml(2) ne by auto
    note nz = normalize_spec[OF this n]
    have "mem_ok m1 \<Longrightarrow> mem_ok m2" using normalize_mem_ok n unfolding js_bigint_normalize_def by blast
    then show ?thesis using nz ml(1) ns(1,4) Inr e by (auto simp: alloc_ok_def)
  qed
  then show "res = Inr x \<Longrightarrow> bval x = bval a * bval b \<and> bigint_ok x" and "alloc_ok m res m'"
    and "mem_ok m \<Longrightarrow> length a + length b \<le> JS_BIGINT_MAX_SIZE \<Longrightarrow> \<exists>x. res = Inr x"
    and "mem_ok m \<Longrightarrow> mem_ok m'" by blast+
qed

end
