(* ===== verification/BigIntBits.thy ===== *)
theory BigIntBits
  imports BigIntArith
begin

text \<open>
  The bitwise operations, the shifts and the comparison of BigInts: \<open>js_bigint_not\<close>,
  \<open>js_bigint_logic\<close>, \<open>js_bigint_shl\<close>, \<open>js_bigint_shr\<close> and \<open>js_bigint_cmp\<close> compute the integer
  operations of the same name on the values.
\<close>

subsection \<open>Complement\<close>

lemma js_bigint_not_spec:
  assumes "bigint_ok a" "js_bigint_not a m = (Inr x, m')"
  shows "bval x = NOT (bval a)" "bigint_ok x"
proof -
  have "x = map (\<lambda>x. NOT x) a" using assms(2) by (auto simp: js_bigint_not_def split: prod.splits sum.splits)
  moreover have "a \<noteq> []" using assms(1) by (simp add: bigint_ok_def)
  ultimately show "bval x = NOT (bval a)" "bigint_ok x"
    using bval_not ok_not[OF assms(1)] by (simp_all add: not_int_def)
qed

subsection \<open>And, or, exclusive or\<close>

fun logic_int :: "logic_op \<Rightarrow> int \<Rightarrow> int \<Rightarrow> int" where
  "logic_int OP_or x y = x OR y"
| "logic_int OP_and x y = x AND y"
| "logic_int OP_xor x y = x XOR y"

lemma bval_Cons:
  assumes "xs \<noteq> []"
  shows "bval (x # xs) = concat_bit 64 (uint x) (bval xs)"
proof -
  have "bval (x # xs) = uint x + push_bit 64 (bval xs)"
    using assms by (simp add: bval_def push_bit_int_def algebra_simps)
  moreover have "take_bit 64 (uint x) = uint x"
    using unsigned_less[of x] by (intro take_bit_int_eq_self) simp_all
  ultimately show ?thesis by (simp add: concat_bit_eq)
qed

lemma logic_concat:
  "logic_int op (concat_bit 64 x X) (concat_bit 64 y Y) = concat_bit 64 (logic_int op x y) (logic_int op X Y)"
  by (cases op) (auto intro!: bit_eqI simp: bit_concat_bit_iff bit_simps)

lemma slimb_logic: "slimb (logic_limb op x y) = logic_int op (slimb x) (slimb y)"
  by (cases op) (simp_all add: slimb_sint signed_and_eq signed_or_eq signed_xor_eq)

lemma uint_logic: "uint (logic_limb op x y) = logic_int op (uint x) (uint y)"
  by (cases op) (simp_all add: unsigned_and_eq unsigned_or_eq unsigned_xor_eq)

lemma bval_logic:
  "length xs = length ys \<Longrightarrow> xs \<noteq> [] \<Longrightarrow> bval (map2 (logic_limb op) xs ys) = logic_int op (bval xs) (bval ys)"
proof (induction xs ys rule: list_induct2)
  case (Cons x xs y ys)
  show ?case
  proof (cases "xs = []")
    case True
    then show ?thesis using Cons by (simp add: bval_single slimb_logic)
  next
    case False
    then have "ys \<noteq> []" "map2 (logic_limb op) xs ys \<noteq> []" using Cons.hyps by auto
    then show ?thesis using Cons.IH[OF False] False
      by (simp add: bval_Cons uint_logic logic_concat)
  qed
qed simp

lemma logic_int_commute: "logic_int op x y = logic_int op y x"
  by (cases op) (simp_all add: or.commute and.commute xor.commute)

text \<open>The two loops work on the shorter operand extended with its sign.\<close>

definition logic_limbs :: "bigint \<Rightarrow> bigint \<Rightarrow> logic_op \<Rightarrow> bigint" where
  "logic_limbs a b op = map2 (logic_limb op) (take (length b) a) b @
     map (\<lambda>x. logic_limb op x (- js_bigint_sign b)) (drop (length b) a)"

lemma map2_append:
  "length xs = length us \<Longrightarrow> map2 f (xs @ ys) (us @ vs) = map2 f xs us @ map2 f ys vs"
  by simp

lemma logic_limbs_value:
  assumes "b \<noteq> []" "length b \<le> length a"
  shows "bval (logic_limbs a b op) = logic_int op (bval a) (bval b)" "logic_limbs a b op \<noteq> []"
proof -
  let ?k = "length a - length b"
  have z: "map (\<lambda>x. logic_limb op x s) xs = map2 (logic_limb op) xs (replicate (length xs) s)" for s xs
    by (induction xs) auto
  have "logic_limbs a b op = map2 (logic_limb op) (take (length b) a @ drop (length b) a) (b @ replicate ?k (sgn_limb b))"
    unfolding logic_limbs_def z sgn_limb_sign[OF assms(1)] using assms(2) by (subst map2_append) simp_all
  then have e: "logic_limbs a b op = map2 (logic_limb op) a (ext (length a) b)" by (simp add: ext_def)
  have "a \<noteq> []" using assms by auto
  then show "bval (logic_limbs a b op) = logic_int op (bval a) (bval b)" "logic_limbs a b op \<noteq> []"
    using e assms bval_logic[of a "ext (length a) b" op] bval_ext_replicate[OF assms(1), of ?k]
    by (auto simp: ext_def)
qed

lemma js_bigint_logic_spec:
  assumes "bigint_ok a" "bigint_ok b" "js_bigint_logic a b op m = (Inr x, m')"
  shows "bval x = logic_int op (bval a) (bval b)" "bigint_ok x"
proof -
  define a1 b1 where "a1 = (if length a < length b then b else a)" and "b1 = (if length a < length b then a else b)"
  have b1: "b1 \<noteq> []" "length b1 \<le> length a1" using assms by (auto simp: a1_def b1_def bigint_ok_def)
  obtain rn m1 where new: "js_bigint_new (length a1) m = (rn, m1)" by fastforce
  obtain y m2 where n: "js_bigint_normalize (logic_limbs a1 b1 op) m1 = (y, m2)" by fastforce
  have "js_bigint_logic a b op m = (case rn of Inl e \<Rightarrow> (Inl e, m1) | Inr _ \<Rightarrow> (Inr y, m2))"
    using new n unfolding js_bigint_logic_def Let_def a1_def b1_def logic_limbs_def
    by (cases rn) (auto split: if_splits)
  then have "x = y" using assms(3) by (cases rn) auto
  moreover note v = logic_limbs_value[OF b1, of op]
  ultimately have "bval x = logic_int op (bval a1) (bval b1)" "bigint_ok x"
    using normalize_spec[OF v(2) n] by auto
  then show "bval x = logic_int op (bval a) (bval b)" "bigint_ok x"
    using logic_int_commute[of op "bval a" "bval b"] by (auto simp: a1_def b1_def)
qed

subsection \<open>Left shift\<close>

lemma pred_mod: "0 < Q \<Longrightarrow> 0 < P \<Longrightarrow> (Q * P - 1) mod P = P - (1 :: nat)"
proof -
  assume "0 < Q" "0 < P"
  then obtain q where "Q = Suc q" by (cases Q) auto
  then have "Q * P - 1 = (P - 1) + q * P" using \<open>0 < P\<close> by simp
  then have "(Q * P - 1) mod P = (P - 1) mod P" by (simp only: mod_mult_self1)
  then show ?thesis using \<open>0 < P\<close> by simp
qed

lemma ones_mod: "s \<le> 64 \<Longrightarrow> (LB - 1) mod 2 ^ s = 2 ^ s - 1"
proof -
  assume "s \<le> 64"
  then have "LB = 2 ^ (64 - s) * 2 ^ s" by (simp flip: power_add)
  then show ?thesis using pred_mod[of "2 ^ (64 - s)" "2 ^ s"] by simp
qed

lemma shl_top:
  assumes "a \<noteq> []" "0 < s" "s < 64" "mp_shl a s = (rs, h)"
  shows "slimb (if bit (last a) 63 then h OR push_bit s (- 1) else h)
     = int (unat h) - (if bit (last a) 63 then 2 ^ s else 0)"
proof -
  note sp = mp_shl_spec[OF assms(2-4)]
  have p: "(2::nat) ^ s \<le> 9223372036854775808"
    using power_increasing[of s 63 "2::nat"] assms(3) by simp
  show ?thesis
  proof (cases "bit (last a) 63")
    case True
    let ?l = "h OR push_bit s (- 1)"
    have pb: "unat (push_bit s (- 1) :: limb) + 2 ^ s = LB"
    proof -
      have m: "unat (- 1 :: limb) = LB - 1" by (simp add: unsigned_minus_1_eq_mask mask_eq_exp_minus_1)
      have B: "LB = 2 ^ (64 - s) * 2 ^ s" using assms by (simp flip: power_add)
      have o: "(LB - 1) mod 2 ^ (64 - s) = 2 ^ (64 - s) - 1" using assms by (intro ones_mod) auto
      have "s \<le> 64" using assms by simp
      then have "unat (push_bit s (- 1) :: limb) = (2 ^ (64 - s) - 1) * 2 ^ s"
        by (simp only: unat_push_limb m o)
      then show ?thesis using B p by (simp add: algebra_simps)
    qed
    have "unat (push_bit s (- 1) OR h :: limb) = unat (push_bit s (- 1) :: limb) + unat h"
      using sp(3) by (rule limb_or_disj) (auto simp: bit_simps)
    then have u: "unat ?l + 2 ^ s = LB + unat h" using pb by (simp add: or.commute)
    have "bit ?l 63" using assms(2,3) by (simp add: bit_simps)
    then have "slimb ?l = int (unat ?l) - int LB" by (simp add: slimb_def)
    also have "\<dots> = int (unat h) - 2 ^ s" using arg_cong[OF u, of int] by simp
    finally show ?thesis using True by simp
  next
    case False
    have "2 * int (lval a) < int LB ^ length a"
      using bval_bounds(2)[OF assms(1)] False by (simp add: bval_def)
    then have "int (2 * lval a) < int (LB ^ length a)" by (simp only: of_nat_mult of_nat_power of_nat_numeral)
    then have "2 * lval a < LB ^ length a" by (simp only: of_nat_less_iff)
    then have "(2 * lval a) * 2 ^ s < LB ^ length a * 2 ^ s" by (intro mult_less_mono1) auto
    moreover have "LB ^ length a * unat h \<le> lval a * 2 ^ s" using sp(1) by linarith
    ultimately have "LB ^ length a * (2 * unat h) < LB ^ length a * 2 ^ s" by (simp only: mult.assoc mult.left_commute)
    then have "2 * unat h < 2 ^ s" by (rule mult_less_cancel1[THEN iffD1, THEN conjunct2])
    then have "\<not> bit h 63" using p by (simp add: bit_63)
    then show ?thesis using False by (simp add: slimb_def)
  qed
qed

lemma lval_zeros: "lval (replicate d 0 @ xs) = LB ^ d * lval xs"
  by (simp add: lval_append)

lemma bval_zeros: "a \<noteq> [] \<Longrightarrow> bval (replicate d 0 @ a) = int LB ^ d * bval a"
  by (simp add: bval_def lval_zeros power_add algebra_simps)

lemma pow2_limbs: "int LB ^ d = 2 ^ (64 * d)"
  by (simp add: power_mult)

lemma ok_zeros:
  assumes "bigint_ok a" "a \<noteq> [0]"
  shows "bigint_ok (replicate d 0 @ a)"
proof (cases d)
  case (Suc k)
  show ?thesis
  proof (cases "length a = 1")
    case True
    then obtain x where "a = [x]" "x \<noteq> 0" using assms(2) by (cases a) auto
    then show ?thesis using Suc by (auto simp: bigint_ok_def sign_ext_def butlast_append)
  next
    case False
    then obtain xs x where "a = xs @ [x]" "xs \<noteq> []"
      using assms(1) by (cases a rule: rev_cases) (auto simp: bigint_ok_def)
    then show ?thesis using assms(1) by (simp add: bigint_ok_def sign_ext_def butlast_append)
  qed
qed (use assms in simp)

lemma js_bigint_shl_spec:
  assumes ok: "bigint_ok a" and shl: "js_bigint_shl a k m = (res, m')"
  shows "res = Inr x \<Longrightarrow> bval x = bval a * 2 ^ unat k \<and> bigint_ok x"
proof -
  have ne: "a \<noteq> []" using ok by (simp add: bigint_ok_def)
  assume res: "res = Inr x"
  let ?d = "unat k div 64" and ?s = "unat k mod 64"
  have k2: "2 ^ unat k = int LB ^ ?d * 2 ^ ?s"
    unfolding pow2_limbs power_add[symmetric] by simp
  show ?thesis
  proof (cases "length a = 1 \<and> a ! 0 = 0")
    case True
    then have "a = [0]" by (cases a) auto
    moreover have "x = [0]" using shl res True
      by (auto simp: js_bigint_shl_def js_bigint_new_si_def js_bigint_new_def split: if_splits prod.splits bool.splits sum.splits)
    ultimately show ?thesis by (simp add: bval_single bigint_ok_def)
  next
    case False
    then have a0: "a \<noteq> [0]" by auto
    obtain rn m1 where new: "js_bigint_new (length a + ?d) m = (rn, m1)" by fastforce
    show ?thesis
    proof (cases "?s = 0")
      case True
      then have "x = replicate ?d 0 @ a"
        using shl res False new by (auto simp: js_bigint_shl_def Let_def split: sum.splits)
      then show ?thesis using bval_zeros[OF ne] ok_zeros[OF ok a0] k2 True by simp
    next
      case s0: False
      then have s: "0 < ?s" "?s < 64" by auto
      obtain rs h where 1: "mp_shl a ?s = (rs, h)" by fastforce
      let ?l = "if bit (last a) 63 then h OR push_bit ?s (- 1) else h"
      have sg: "(js_bigint_sign a \<noteq> 0) = bit (last a) 63" using ne by (simp add: last_conv_nth)
      obtain re me where ext: "js_bigint_extend (replicate ?d 0 @ rs) ?l m1 = (re, me)" by fastforce
      have "js_bigint_shl a k m = (case rn of Inl e \<Rightarrow> (Inl e, m1) | Inr _ \<Rightarrow> (re, me))"
        unfolding js_bigint_shl_def Let_def new 1 sg using False s0 ext by (cases rn) auto
      then have re: "re = Inr x" using shl res by (cases rn) auto
      note sp = mp_shl_spec[OF s 1]
      have rne: "replicate ?d 0 @ rs \<noteq> []" using sp(2) ne by auto
      note e = js_bigint_extend_spec[OF rne ext re]
      have hs: "int (lval rs) + int LB ^ length a * int (unat h) = int (lval a) * 2 ^ ?s"
        using arg_cong[OF sp(1), of int] by (simp del: of_nat_unat)
      have "bval x = int LB ^ ?d * (int (lval rs) + int LB ^ length a *
          (int (unat h) - (if bit (last a) 63 then 2 ^ ?s else 0)))"
        unfolding e(1) shl_top[OF ne s 1] lval_zeros
        by (simp add: sp(2) power_add algebra_simps del: of_nat_unat)
      also have "\<dots> = int LB ^ ?d * (bval a * 2 ^ ?s)"
        using hs ne by (simp add: bval_def algebra_simps del: of_nat_unat)
      finally show ?thesis using e(2) k2 by simp
    qed
  qed
qed

subsection \<open>Right shift\<close>

lemma bval_drop:
  assumes "d < length a"
  shows "bval a = int (lval (take d a)) + int LB ^ d * bval (drop d a)" "bval (drop d a) = bval a div int LB ^ d"
proof -
  have "lval a = lval (take d a) + LB ^ d * lval (drop d a)" using lval_drop[of a d] assms by (simp add: min_def)
  moreover have "int LB ^ length a = int LB ^ d * int LB ^ (length a - d)"
    using assms by (simp flip: power_add)
  moreover have "last (drop d a) = last a" "drop d a \<noteq> []" "a \<noteq> []" using assms by auto
  ultimately show e: "bval a = int (lval (take d a)) + int LB ^ d * bval (drop d a)"
    by (simp add: bval_def algebra_simps)
  have "int (lval (take d a)) < int LB ^ d" using lval_bound[of "take d a"] assms by (simp flip: of_nat_power)
  then show "bval (drop d a) = bval a div int LB ^ d" unfolding e by (simp add: div_pos_pos_trivial)
qed

lemma ok_drop:
  assumes "bigint_ok a" "d < length a"
  shows "bigint_ok (drop d a)"
proof (cases "length (drop d a) = 1")
  case False
  then have "1 < length (drop d a)" using assms(2) by simp
  moreover from this obtain xs y x where "a = xs @ [y, x]" "d \<le> length xs"
    using assms(2) by (cases a rule: rev_cases; cases "butlast a" rule: rev_cases) auto
  ultimately show ?thesis using assms(1) by (simp add: bigint_ok_def sign_ext_def butlast_append)
qed (use assms in \<open>auto simp: bigint_ok_def\<close>)

lemma shr_limbs:
  assumes ne: "xs \<noteq> []" and s: "0 < s" "s < 64" and 1: "mp_shr xs s (sgn_limb xs) = (rs, r)"
  shows "bval rs = bval xs div 2 ^ s" "rs \<noteq> []"
proof -
  let ?n = "length xs" and ?neg = "bit (last xs) 63"
  obtain l where l: "mp_shr_loop xs s (sgn_limb xs) = (rs, l)" using 1 by (auto simp: mp_shr_def split: prod.splits)
  have sp: "lval rs * 2 ^ s + unat l mod 2 ^ s = lval xs + LB ^ ?n * (unat (sgn_limb xs) mod 2 ^ s)" "length rs = ?n"
    using mp_shr_loop_spec[OF s l] by auto
  show rne: "rs \<noteq> []" using sp(2) ne by auto
  have hi: "int (unat (sgn_limb xs) mod 2 ^ s) = (if ?neg then 2 ^ s - 1 else 0)"
  proof -
    have "(LB - 1) mod 2 ^ s = (2 ^ s - 1 :: nat)" using s by (intro ones_mod) auto
    then show ?thesis
      by (simp add: sgn_limb_def unsigned_minus_1_eq_mask mask_eq_exp_minus_1 of_nat_diff del: of_nat_unat)
  qed
  define P where "P = int (lval rs) - (if ?neg then int LB ^ ?n else 0)"
  have "int (lval rs) * 2 ^ s + int (unat l mod 2 ^ s) = int (lval xs) + int LB ^ ?n * int (unat (sgn_limb xs) mod 2 ^ s)"
    using arg_cong[OF sp(1), of int] by (simp only: of_nat_add of_nat_mult of_nat_power of_nat_numeral)
  then have "bval xs = P * 2 ^ s + int (unat l mod 2 ^ s)"
    unfolding hi P_def bval_def using ne by (simp add: algebra_simps)
  moreover have "0 \<le> int (unat l mod 2 ^ s)" "int (unat l mod 2 ^ s) < 2 ^ s"
    using of_nat_less_iff[of "unat l mod 2 ^ s" "2 ^ s", where 'a = int]
    by (simp_all only: of_nat_power of_nat_numeral of_nat_0_le_iff) simp
  ultimately have P: "P = bval xs div 2 ^ s" by (simp add: div_pos_pos_trivial)
  have "- (int LB ^ ?n) \<le> 2 * P \<and> 2 * P < int LB ^ ?n"
  proof (cases "0 \<le> bval xs")
    case True
    then have p0: "0 \<le> P" unfolding P by (simp add: pos_imp_zdiv_nonneg_iff)
    then have "P * 1 \<le> P * 2 ^ s" by (intro mult_left_mono) auto
    with p0 \<open>bval xs = P * 2 ^ s + _\<close> \<open>0 \<le> int (unat l mod 2 ^ s)\<close> show ?thesis
      using bval_bounds(2)[OF ne] zero_le_power[of "int LB" ?n] by linarith
  next
    case False
    then have "P < 0" unfolding P by (simp add: pos_imp_zdiv_neg_iff)
    moreover have "bval xs \<le> P"
    proof (rule ccontr)
      assume "\<not> bval xs \<le> P"
      then have "P + 1 \<le> bval xs" by simp
      then have "(P + 1) * 2 ^ s \<le> bval xs * 2 ^ s" by simp
      also have "\<dots> \<le> bval xs * 1" using False by (intro mult_left_mono_neg) auto
      finally have "P * 2 ^ s + 2 ^ s \<le> bval xs" by (simp add: algebra_simps)
      with \<open>bval xs = P * 2 ^ s + _\<close> \<open>int (unat l mod 2 ^ s) < 2 ^ s\<close> show False by linarith
    qed
    ultimately show ?thesis using bval_bounds(1)[OF ne] zero_less_power[of "int LB" ?n] by linarith
  qed
  moreover have "int LB ^ length rs dvd int (lval rs) - P" by (simp add: P_def sp(2))
  ultimately show "bval rs = bval xs div 2 ^ s" using bval_unique[OF rne, of P] P sp(2) by simp
qed

lemma js_bigint_new_si_spec:
  "js_bigint_new_si v m = (res, m') \<Longrightarrow> (res = Inr x \<longrightarrow> x = [v]) \<and> alloc_ok m res m' \<and>
     (mem_ok m \<longrightarrow> res = Inr [v] \<and> mem_ok m')"
proof -
  assume 1: "js_bigint_new_si v m = (res, m')"
  obtain rn m1 where new: "js_bigint_new 1 m = (rn, m1)" by fastforce
  note ns = js_bigint_new_spec[OF new]
  have "length r = 1 \<Longrightarrow> r[0 := v] = [v]" for r :: "limb list" by (cases r) auto
  then show ?thesis using 1 ns new
    by (cases rn) (auto simp: js_bigint_new_si_def JS_BIGINT_MAX_SIZE_def alloc_ok_def)
qed

lemma js_bigint_shr_spec:
  assumes ok: "bigint_ok a" and shr: "js_bigint_shr a k m = (Inr x, m')"
  shows "bval x = bval a div 2 ^ unat k \<and> bigint_ok x"
proof -
  have ne: "a \<noteq> []" using ok by (simp add: bigint_ok_def)
  let ?d = "unat k div 64" and ?s = "unat k mod 64"
  have k2: "2 ^ unat k = int LB ^ ?d * 2 ^ ?s"
    unfolding pow2_limbs power_add[symmetric] by simp
  show ?thesis
  proof (cases "length a \<le> ?d")
    case True
    then have "js_bigint_new_si (- js_bigint_sign a) m = (Inr x, m')"
      using shr by (simp add: js_bigint_shr_def Let_def)
    then have x: "x = [sgn_limb a]" using js_bigint_new_si_spec sgn_limb_sign[OF ne] by auto
    have le: "int LB ^ length a \<le> 2 ^ unat k"
    proof -
      have "int LB ^ length a \<le> int LB ^ ?d" using True by (intro power_increasing) auto
      also have "\<dots> \<le> 2 ^ unat k" unfolding k2 by simp
      finally show ?thesis .
    qed
    have "bval a div 2 ^ unat k = (if bit (last a) 63 then - 1 else 0)"
    proof (cases "bit (last a) 63")
      case True
      have "bval a < 0" using True ne lval_bound[of a] by (simp add: bval_def flip: of_nat_power)
      moreover have "- (2 ^ unat k) \<le> bval a" using bval_bounds(1)[OF ne] le calculation by linarith
      ultimately have "bval a div 2 ^ unat k = - 1"
        by (intro int_div_pos_eq[of _ _ _ "bval a + 2 ^ unat k"]) auto
      then show ?thesis using True by simp
    next
      case False
      have "0 \<le> bval a" using False by (simp add: bval_def)
      moreover have "bval a < 2 ^ unat k" using bval_bounds(2)[OF ne] le calculation by linarith
      ultimately show ?thesis using False by (simp add: div_pos_pos_trivial)
    qed
    then show ?thesis by (simp add: x bval_single bigint_ok_def sgn_limb_def)
  next
    case False
    let ?xs = "drop ?d a"
    have xs: "?xs \<noteq> []" "last ?xs = last a" "bval ?xs = bval a div int LB ^ ?d" "bigint_ok ?xs"
      using False bval_drop[of ?d a] ok_drop[OF ok, of ?d] by auto
    have sg: "- js_bigint_sign a = sgn_limb ?xs" using sgn_limb_sign[OF ne] xs(2) by (simp add: sgn_limb_def)
    obtain rn m1 where new: "js_bigint_new (length a - ?d) m = (rn, m1)" by fastforce
    obtain rs r where 1: "mp_shr ?xs ?s (sgn_limb ?xs) = (rs, r)" by fastforce
    obtain y m2 where n: "js_bigint_normalize rs m1 = (y, m2)" by fastforce
    have u: "js_bigint_shr a k m = (case rn of Inl e \<Rightarrow> (Inl e, m1)
        | Inr _ \<Rightarrow> if ?s = 0 then (Inr ?xs, m1) else (Inr y, m2))"
      unfolding js_bigint_shr_def Let_def sg new 1 using False n by (cases rn) simp_all
    then have x: "x = (if ?s = 0 then ?xs else y)" using shr by (cases rn) (auto split: if_splits)
    show ?thesis
    proof (cases "?s = 0")
      case True
      then show ?thesis using x xs k2 by simp
    next
      case s: False
      then have "0 < ?s" "?s < 64" by auto
      note v = shr_limbs[OF xs(1) this 1]
      have "bval a div int LB ^ ?d div 2 ^ ?s = bval a div 2 ^ unat k"
        unfolding k2 by (simp add: zdiv_zmult2_eq)
      then show ?thesis using normalize_spec[OF v(2) n] v(1) xs(3) x s by simp
    qed
  qed
qed

subsection \<open>Comparison\<close>

lemma cmp_limbs_spec:
  "length as = length bs \<Longrightarrow> cmp_limbs as bs = sgn (int (lval (rev as)) - int (lval (rev bs)))"
proof (induction as bs rule: list_induct2)
  case (Cons a as b bs)
  have l: "lval (rev as) < LB ^ length bs" "lval (rev bs) < LB ^ length bs"
    using lval_bound[of "rev as"] lval_bound[of "rev bs"] Cons by simp_all
  have v: "lval (rev (a # as)) = lval (rev as) + unat a * LB ^ length bs"
    "lval (rev (b # bs)) = lval (rev bs) + unat b * LB ^ length bs"
    using Cons.hyps by (simp_all add: lval_append mult.commute)
  have lt: "x * LB ^ n + LB ^ n \<le> y * LB ^ n" if "x < y" for x y n :: nat
    using that by (metis Suc_leI mult_Suc mult_le_mono1 add.commute)
  consider "a = b" | "unat a < unat b" | "unat b < unat a" by (metis linorder_neqE_nat word_unat_eq_iff)
  then show ?case
  proof cases
    case 1
    then show ?thesis using Cons.IH unfolding v by simp
  next
    case 2
    then have "a \<noteq> b" "a < b" by (auto simp: word_less_nat_alt)
    moreover have "lval (rev (a # as)) < lval (rev (b # bs))"
      unfolding v using lt[OF 2, of "length bs"] l by linarith
    ultimately show ?thesis by simp
  next
    case 3
    then have "a \<noteq> b" "\<not> a < b" by (auto simp: word_less_nat_alt)
    moreover have "lval (rev (b # bs)) < lval (rev (a # as))"
      unfolding v using lt[OF 3, of "length bs"] l by linarith
    ultimately show ?thesis by simp
  qed
qed simp

lemma bval_neg_iff: "a \<noteq> [] \<Longrightarrow> bit (last a) 63 \<longleftrightarrow> bval a < 0"
  using lval_bound[of a] by (auto simp: bval_def simp flip: of_nat_power)

lemma js_bigint_cmp_spec:
  assumes "bigint_ok a" "bigint_ok b"
  shows "js_bigint_cmp a b = sgn (bval a - bval b)"
proof -
  have ne: "a \<noteq> []" "b \<noteq> []" using assms by (auto simp: bigint_ok_def)
  have sa: "(js_bigint_sign a \<noteq> 0) = (bval a < 0)" "(js_bigint_sign b \<noteq> 0) = (bval b < 0)"
    using bval_neg_iff[OF ne(1)] bval_neg_iff[OF ne(2)] ne by (simp_all add: last_conv_nth)
  consider "(bval a < 0) \<noteq> (bval b < 0)" | "(bval a < 0) = (bval b < 0)" "length a < length b"
    | "(bval a < 0) = (bval b < 0)" "length b < length a"
    | "(bval a < 0) = (bval b < 0)" "length a = length b" by linarith
  then show ?thesis
  proof cases
    case 1
    then show ?thesis unfolding js_bigint_cmp_def Let_def sa by (auto simp: sgn_if)
  next
    case 2
    then show ?thesis using bigint_ok_shorter[OF assms 2(2)] bval_neg_iff[OF ne(2)]
      unfolding js_bigint_cmp_def Let_def sa by (auto simp: sgn_if)
  next
    case 3
    then show ?thesis using bigint_ok_shorter[OF assms(2,1) 3(2)] bval_neg_iff[OF ne(1)]
      unfolding js_bigint_cmp_def Let_def sa by (auto simp: sgn_if)
  next
    case 4
    then have "js_bigint_cmp a b = sgn (int (lval a) - int (lval b))"
      using cmp_limbs_spec[of "rev a" "rev b"] unfolding js_bigint_cmp_def Let_def sa by simp
    moreover have "bval a - bval b = int (lval a) - int (lval b)"
      using 4 bval_neg_iff ne by (simp add: bval_def)
    ultimately show ?thesis by simp
  qed
qed

end
