(* ===== verification/BigIntDiv.thy ===== *)
theory BigIntDiv
  imports BigIntBits "HOL-Library.Signed_Division"
begin

text \<open>
  Division of BigInts: \<open>js_bigint_divrem\<close> computes the quotient rounded towards zero or the
  remainder with the sign of the dividend, always returns, and fails only for a zero divisor
  or when memory runs out.
\<close>

subsection \<open>Absolute values\<close>

lemma strip_zeros_spec:
  "0 < l \<Longrightarrow> l \<le> length xs \<Longrightarrow> 0 < strip_zeros xs l \<and> strip_zeros xs l \<le> l \<and>
     lval (take (strip_zeros xs l) xs) = lval (take l xs) \<and>
     (strip_zeros xs l = 1 \<or> xs ! (strip_zeros xs l - 1) \<noteq> 0)"
proof (induction xs l rule: strip_zeros.induct)
  case (3 tab k)
  then show ?case
    by (cases "tab ! Suc k = 0") (auto simp: take_Suc_conv_app_nth[of "Suc k" tab] lval_snoc)
qed simp_all

definition abs_limbs :: "bigint \<Rightarrow> bigint" where
  "abs_limbs a = (if js_bigint_sign a \<noteq> 0 then fst (mp_neg a) else a)"

lemma abs_limbs_spec:
  assumes "a \<noteq> []"
  shows "int (lval (abs_limbs a)) = \<bar>bval a\<bar>" "length (abs_limbs a) = length a"
proof -
  obtain r c where 1: "mp_neg a = (r, c)" by fastforce
  note sp = mp_neg_spec[OF 1]
  have lt: "lval a < LB ^ length a" by (rule lval_bound)
  have sg: "(js_bigint_sign a \<noteq> 0) = bit (last a) 63" using assms by (simp add: last_conv_nth)
  have "int (lval (abs_limbs a)) = \<bar>bval a\<bar> \<and> length (abs_limbs a) = length a"
  proof (cases "bit (last a) 63")
    case True
    then have "bval a < 0" using bval_neg_iff[OF assms] by simp
    moreover have "lval a \<noteq> 0"
    proof
      assume "lval a = 0"
      then have "bval a = - (int LB ^ length a)" using True assms by (simp add: bval_def)
      then show False using bval_bounds(1)[OF assms] zero_less_power[of "int LB" "length a"] by linarith
    qed
    moreover have "unat c = 0"
    proof (rule ccontr)
      assume "unat c \<noteq> 0"
      then have "unat c = 1" using sp(2) by linarith
      then show False using sp(1) \<open>lval a \<noteq> 0\<close> by simp
    qed
    ultimately have "lval r + lval a = LB ^ length a" using sp(1) by simp
    then have "int (lval r + lval a) = int (LB ^ length a)" by (rule arg_cong)
    then have "int (lval r) + int (lval a) = int LB ^ length a" by (simp only: of_nat_add of_nat_power)
    then have "int (lval r) = - bval a" using True assms by (simp add: bval_def)
    then show ?thesis using True 1 sp(3) \<open>bval a < 0\<close> unfolding abs_limbs_def sg by simp
  next
    case False
    then show ?thesis unfolding abs_limbs_def sg by (simp add: bval_def)
  qed
  then show "int (lval (abs_limbs a)) = \<bar>bval a\<bar>" "length (abs_limbs a) = length a" by auto
qed

subsection \<open>Normalisation of the operands\<close>

lemma top_limb:
  assumes "xs \<noteq> []" "k * LB ^ (length xs - 1) \<le> lval xs"
  shows "k \<le> unat (xs ! (length xs - 1))"
proof (rule ccontr)
  let ?n = "length xs - 1"
  assume "\<not> k \<le> unat (xs ! ?n)"
  then have "unat (xs ! ?n) + 1 \<le> k" by simp
  then have "(unat (xs ! ?n) + 1) * LB ^ ?n \<le> k * LB ^ ?n" by (rule mult_le_mono1)
  moreover have "lval xs = lval (take ?n xs) + LB ^ ?n * unat (xs ! ?n)"
    using split_top[of xs ?n] assms(1) lval_snoc[of "take ?n xs" "xs ! ?n"] by simp
  moreover have "lval (take ?n xs) < LB ^ ?n" using lval_bound[of "take ?n xs"] assms(1) by simp
  ultimately show False using assms(2) by (simp add: algebra_simps)
qed

lemma top_limb_lower:
  assumes "xs \<noteq> []" "k \<le> unat (xs ! (length xs - 1))"
  shows "k * LB ^ (length xs - 1) \<le> lval xs"
proof -
  let ?n = "length xs - 1"
  have "lval xs = lval (take ?n xs) + LB ^ ?n * unat (xs ! ?n)"
    using split_top[of xs ?n] assms(1) lval_snoc[of "take ?n xs" "xs ! ?n"] by simp
  moreover have "k * LB ^ ?n \<le> unat (xs ! ?n) * LB ^ ?n" using assms(2) by (rule mult_le_mono1)
  ultimately show ?thesis using mult.commute[of "LB ^ ?n" "unat (xs ! ?n)"] by linarith
qed

lemma divrem_normalize_spec:
  assumes tabb: "tabb \<noteq> []" "tabb ! (length tabb - 1) \<noteq> 0" and na: "na < length r"
    and n: "divrem_normalize r na tabb = (r', na', tabb', s)"
  shows "lval (take na' r') = lval (take na r) * 2 ^ s" "lval tabb' = lval tabb * 2 ^ s"
    "length tabb' = length tabb" "na \<le> na'" "na' \<le> Suc na" "length r' = length r" "s < 64"
    "9223372036854775808 \<le> unat (tabb' ! (length tabb' - 1))"
proof -
  let ?t = "tabb ! (length tabb - 1)" and ?nb = "length tabb"
  have s: "s = clz64 ?t" using n
    by (auto simp: divrem_normalize_def js_limb_clz_def Let_def split: if_splits prod.splits)
  note cz = clz64_bounds[OF tabb(2), folded s]
  have top: "9223372036854775808 * LB ^ (?nb - 1) \<le> lval tabb * 2 ^ s"
  proof -
    have "2 ^ (63 - s) * LB ^ (?nb - 1) \<le> lval tabb" using top_limb_lower[OF tabb(1) cz(1)] .
    then have "2 ^ (63 - s) * LB ^ (?nb - 1) * 2 ^ s \<le> lval tabb * 2 ^ s" by (rule mult_le_mono1)
    moreover have "(2::nat) ^ (63 - s) * 2 ^ s = 9223372036854775808" using cz(3) by (simp flip: power_add)
    moreover have "2 ^ (63 - s) * LB ^ (?nb - 1) * 2 ^ s = 2 ^ (63 - s) * 2 ^ s * LB ^ (?nb - 1)"
      by (simp only: ac_simps)
    ultimately show ?thesis by (simp only:)
  qed
  have "lval (take na' r') = lval (take na r) * 2 ^ s \<and> lval tabb' = lval tabb * 2 ^ s \<and>
    length tabb' = length tabb \<and> na \<le> na' \<and> na' \<le> Suc na \<and> length r' = length r"
  proof (cases "s = 0")
    case True
    then show ?thesis using n s by (auto simp: divrem_normalize_def js_limb_clz_def Let_def)
  next
    case False
    then have s0: "0 < s" "s < 64" using cz(3) by auto
    obtain tb hb where 1: "mp_shl tabb s = (tb, hb)" by fastforce
    obtain seg h where 2: "mp_shl (take na r) s = (seg, h)" by fastforce
    note sb = mp_shl_spec[OF s0 1] and sa = mp_shl_spec[OF s0 2]
    have e: "tabb' = tb" "r' = (if h \<noteq> 0 then (splice r 0 seg)[na := h] else splice r 0 seg)"
      "na' = (if h \<noteq> 0 then Suc na else na)"
      using n False s 1 2 unfolding divrem_normalize_def js_limb_clz_def Let_def by (auto split: if_splits)
    have "lval tabb * 2 ^ s < LB ^ ?nb"
    proof -
      let ?k = "?nb - 1"
      have nb: "LB ^ ?nb = LB * LB ^ ?k" using tabb(1) by (cases tabb) auto
      have "lval tabb = lval (take ?k tabb) + LB ^ ?k * unat ?t"
        using split_top[of tabb ?k] tabb(1) lval_snoc[of "take ?k tabb" ?t] by simp
      moreover have "lval (take ?k tabb) < LB ^ ?k" using lval_bound[of "take ?k tabb"] tabb(1) by simp
      ultimately have "lval tabb < (unat ?t + 1) * LB ^ ?k" by (simp add: algebra_simps)
      also have "\<dots> \<le> 2 ^ (64 - s) * LB ^ ?k" using cz(2) by (intro mult_le_mono1) simp
      finally have "lval tabb * 2 ^ s < 2 ^ (64 - s) * LB ^ ?k * 2 ^ s" by simp
      moreover have "(2::nat) ^ (64 - s) * 2 ^ s = LB" using s0 by (simp flip: power_add)
      moreover have "2 ^ (64 - s) * LB ^ ?k * 2 ^ s = 2 ^ (64 - s) * 2 ^ s * LB ^ ?k" by (simp only: ac_simps)
      ultimately show ?thesis unfolding nb by (simp only:)
    qed
    then have "unat hb = 0" using sb(1) by (cases "unat hb") auto
    then have vb: "lval tb = lval tabb * 2 ^ s" using sb(1) by simp
    have ls: "length seg = na" using sa(2) na by simp
    have va: "lval (take na' r') = lval (take na r) * 2 ^ s"
    proof (cases "h = 0")
      case True
      then show ?thesis using e sa(1) ls by (simp add: splice_def)
    next
      case False
      have "take (Suc na) ((splice r 0 seg)[na := h]) = seg @ [h]"
        using splice_seg(1)[of 0 seg r h] na ls by simp
      then show ?thesis using e False sa(1) ls na by (simp add: lval_snoc min_def)
    qed
    show ?thesis using va vb e sb(2) ls na by (simp add: splice_length)
  qed
  then show "lval (take na' r') = lval (take na r) * 2 ^ s" "lval tabb' = lval tabb * 2 ^ s"
    "length tabb' = length tabb" "na \<le> na'" "na' \<le> Suc na" "length r' = length r" by auto
  show "s < 64" using cz(3) by simp
  show "9223372036854775808 \<le> unat (tabb' ! (length tabb' - 1))"
  proof (rule top_limb)
    show "tabb' \<noteq> []" using tabb(1) \<open>length tabb' = length tabb\<close> by auto
    show "9223372036854775808 * LB ^ (length tabb' - 1) \<le> lval tabb'"
      using top \<open>length tabb' = length tabb\<close> \<open>lval tabb' = _\<close> by simp
  qed
qed

subsection \<open>Putting the sign back\<close>

lemma bval_zero_top: "bval (xs @ [0]) = int (lval xs)"
  by (simp add: bval_snoc)

lemma bval_neg_top: "bval (fst (mp_neg (xs @ [0]))) = - int (lval xs)" "length (fst (mp_neg xs)) = length xs"
proof -
  obtain r c where 1: "mp_neg (xs @ [0]) = (r, c)" by fastforce
  note sp = mp_neg_spec[OF 1]
  let ?n = "length (xs @ [0 :: limb])"
  have "int (lval r + lval (xs @ [0]) + LB ^ ?n * unat c) = int (LB ^ ?n)" using sp(1) by (rule arg_cong)
  then have "int (lval r) + int (lval (xs @ [0])) + int LB ^ ?n * int (unat c) = int LB ^ ?n"
    by (simp only: of_nat_add of_nat_mult of_nat_power)
  moreover have "lval (xs @ [0]) = lval xs" by (simp add: lval_snoc)
  ultimately have "int (lval r) - (- int (lval xs)) = int LB ^ ?n * (1 - int (unat c))"
    by (simp add: algebra_simps del: of_nat_unat)
  then have "int LB ^ length r dvd int (lval r) - (- int (lval xs))" using sp(3) by (metis dvd_triv_left)
  moreover have "2 * int (lval xs) < int LB ^ ?n"
  proof -
    have "lval xs < LB ^ length xs" by (rule lval_bound)
    then have "int (lval xs) < int (LB ^ length xs)" by (simp only: of_nat_less_iff)
    then have "int (lval xs) < int LB ^ length xs" by (simp only: of_nat_power)
    moreover have "int LB ^ ?n = 18446744073709551616 * int LB ^ length xs" by simp
    ultimately show ?thesis using zero_less_power[of "int LB" "length xs"] by linarith
  qed
  moreover have "r \<noteq> []" using sp(3) by auto
  ultimately have "bval r = - int (lval xs)" using sp(3) zero_less_power[of "int LB" ?n] by (intro bval_unique) auto
  then show "bval (fst (mp_neg (xs @ [0]))) = - int (lval xs)" using 1 by simp
  show "length (fst (mp_neg xs)) = length xs" using mp_neg_spec(3) by (metis prod.collapse)
qed

subsection \<open>The end of the function\<close>

lemma shr_exact:
  assumes "s < 64" "lval xs = R * 2 ^ s"
  defines "ys \<equiv> (if s \<noteq> 0 then fst (mp_shr xs s 0) else xs)"
  shows "lval ys = R" "length ys = length xs"
proof -
  have "lval ys = R \<and> length ys = length xs"
  proof (cases "s = 0")
    case False
    obtain zs r where 1: "mp_shr xs s 0 = (zs, r)" by fastforce
    have sp: "lval zs * 2 ^ s + unat r = lval xs" "length zs = length xs" "unat r < 2 ^ s"
      using mp_shr_spec[OF _ assms(1) 1] False by auto
    have "R * 2 ^ s div 2 ^ s = (unat r + lval zs * 2 ^ s) div 2 ^ s" using sp(1) assms(2) by (simp add: add.commute)
    then have "R = lval zs" using sp(3) by simp
    then show ?thesis using False 1 sp(2) by (simp add: ys_def)
  qed (use assms in simp)
  then show "lval ys = R" "length ys = length xs" by auto
qed

lemma div_scaled:
  assumes "(N :: nat) * P = Q * (D * P) + R'" "R' < D * P"
  shows "R' = (N mod D) * P \<and> Q = N div D"
proof -
  have e: "N * P = R' + Q * (D * P)" using assms(1) by simp
  have "R' = N * P mod (D * P)" unfolding e using assms(2) by simp
  moreover have "Q = N * P div (D * P)"
  proof -
    have "0 < D * P" using assms(2) by linarith
    then show ?thesis unfolding e using assms(2) by (simp only: div_mult_self1 div_less)
  qed
  ultimately show ?thesis using assms(2) by (cases "P = 0") (simp_all add: mult_mod_left)
qed

lemma divrem_finish_spec:
  assumes tabb: "tabb \<noteq> []" "9223372036854775808 \<le> unat (tabb ! (length tabb - 1))"
    and s: "s < 64" and na: "length tabb \<le> na" "na \<le> length r" "length tabb < length r"
    and lq: "length q = na - length tabb + 2"
    and N: "lval (take na r) = N * 2 ^ s" and D: "lval tabb = D * 2 ^ s"
  shows "\<exists>x m'. divrem_finish q r na tabb s a_neg b_neg is_rem m = Some (Inr x, m') \<and> bigint_ok x \<and>
     bval x = (if is_rem then (if a_neg then - int (N mod D) else int (N mod D))
               else if a_neg \<noteq> b_neg then - int (N div D) else int (N div D)) \<and>
     live m' = live m - 2"
proof -
  let ?nb = "length tabb"
  have lta: "length (take na r) = na" using na by simp
  obtain qs rem where 1: "mp_divnorm (take (na - ?nb + 1) q) (take na r) tabb = Some (qs, rem)"
      "N * 2 ^ s = lval qs * (D * 2 ^ s) + lval (take ?nb rem)" "lval (take ?nb rem) < D * 2 ^ s"
      "length qs = na - ?nb + 1" "length rem = na"
    using mp_divnorm_spec[OF tabb(1), of "take na r" "take (na - ?nb + 1) q"] tabb(2) na lq N D by auto
  have v: "lval (take ?nb rem) = (N mod D) * 2 ^ s" "lval qs = N div D"
    using div_scaled[OF 1(2,3)] by auto
  show ?thesis
  proof (cases is_rem)
    case True
    define r1 where "r1 = splice r 0 rem"
    have r1: "length r1 = length r" "take ?nb r1 = take ?nb rem" using na 1(5) by (simp_all add: r1_def splice_def)
    define ys where "ys = (if s \<noteq> 0 then fst (mp_shr (take ?nb r1) s 0) else take ?nb r1)"
    have ys: "lval ys = N mod D" "length ys = ?nb"
      using shr_exact[OF s, of "take ?nb r1" "N mod D"] r1 v(1) na 1(5) by (simp_all add: ys_def)
    define r2 where "r2 = (if s \<noteq> 0 then splice r1 0 (fst (mp_shr (take ?nb r1) s 0)) else r1)"
    have r2: "length r2 = length r" "take ?nb r2 = ys"
      using ys(2) r1 na by (auto simp: r2_def ys_def splice_def)
    define r3 where "r3 = r2[?nb := 0]"
    have r3: "length r3 = length r" "take (Suc ?nb) r3 = ys @ [0]"
      using r2 na(3) by (simp_all add: r3_def take_Suc_conv_app_nth)
    define r4 where "r4 = (if a_neg then splice r3 0 (fst (mp_neg (take (?nb + 1) r3))) else r3)"
    have r4: "length r4 = length r" "bval (take (Suc ?nb) r4) = (if a_neg then - int (N mod D) else int (N mod D))"
      using r3 bval_neg_top[of ys] bval_neg_top(2)[of "ys @ [0]"] bval_zero_top[of ys] ys na(3)
      by (auto simp: r4_def splice_def)
    obtain x m1 where n: "js_bigint_normalize1 r4 (?nb + 1) (js_free (js_free m)) = (x, m1)" by fastforce
    have "divrem_finish q r na tabb s a_neg b_neg is_rem m = Some (Inr x, m1)"
      unfolding divrem_finish_def Let_def
      by (simp only: 1(1) option.case prod.case r1_def[symmetric] r2_def[symmetric] r3_def[symmetric]
          r4_def[symmetric] True if_True n)
    then show ?thesis using normalize1_spec[OF _ _ n] r4 na(3) True by simp
  next
    case False
    define q1 where "q1 = (splice q 0 qs)[na - ?nb + 1 := 0]"
    have q1: "q1 = qs @ [0]"
    proof -
      have "length q1 = Suc (na - ?nb + 1)" "take (na - ?nb + 1) q1 = qs" "q1 ! (na - ?nb + 1) = 0"
        using lq 1(4) by (simp_all add: q1_def splice_def)
      then show ?thesis using split_top[of q1 "na - ?nb + 1"] by metis
    qed
    define q2 where "q2 = (if a_neg \<noteq> b_neg then fst (mp_neg q1) else q1)"
    have q2: "bval q2 = (if a_neg \<noteq> b_neg then - int (N div D) else int (N div D))" "q2 \<noteq> []"
      using bval_neg_top[of qs] bval_neg_top(2)[of "qs @ [0]"] bval_zero_top[of qs] v(2)
      by (auto simp: q2_def q1)
    obtain x m1 where n: "js_bigint_normalize q2 (js_free (js_free m)) = (x, m1)" by fastforce
    have "divrem_finish q r na tabb s a_neg b_neg is_rem m = Some (Inr x, m1)"
      unfolding divrem_finish_def Let_def
      by (simp only: 1(1) option.case prod.case q1_def[symmetric] q2_def[symmetric] False if_False n)
    then show ?thesis using normalize_spec[OF q2(2) n] q2 False by simp
  qed
qed

subsection \<open>The whole function\<close>

definition div_result :: "bool \<Rightarrow> int \<Rightarrow> int \<Rightarrow> int" where
  "div_result is_rem x y = (if is_rem then x smod y else x sdiv y)"

lemma div_result_abs:
  assumes "y \<noteq> 0"
  shows "(if is_rem then (if x < 0 then - (\<bar>x\<bar> mod \<bar>y\<bar>) else \<bar>x\<bar> mod \<bar>y\<bar>)
     else if (x < 0) \<noteq> (y < 0) then - (\<bar>x\<bar> div \<bar>y\<bar>) else \<bar>x\<bar> div \<bar>y\<bar>) = div_result is_rem x y"
  using assms by (auto simp: div_result_def signed_divide_int_def signed_modulo_int_def sgn_if)

lemma div_result_small:
  assumes "\<bar>x\<bar> < \<bar>y\<bar>"
  shows "div_result is_rem x y = (if is_rem then x else 0)"
  using assms by (auto simp: div_result_def signed_divide_int_def signed_modulo_int_def sgn_if)

lemma stripped:
  assumes "a \<noteq> []" "length (abs_limbs a) \<le> length r" "take (length a) r = abs_limbs a"
  defines "n \<equiv> strip_zeros r (length a)"
  shows "int (lval (take n r)) = \<bar>bval a\<bar>" "0 < n" "n \<le> length a" "n = 1 \<or> r ! (n - 1) \<noteq> 0"
  using strip_zeros_spec[of "length a" r] abs_limbs_spec[OF assms(1)] assms by auto

lemma shorter_less:
  assumes "length xs < length ys" "ys ! (length ys - 1) \<noteq> 0"
  shows "lval xs < lval ys"
proof -
  have ne: "ys \<noteq> []" using assms(1) by auto
  have "1 \<le> unat (ys ! (length ys - 1))" using assms(2) by (simp add: Suc_le_eq unat_gt_0)
  then have "1 * LB ^ (length ys - 1) \<le> lval ys" by (rule top_limb_lower[OF ne])
  moreover have "LB ^ length xs \<le> LB ^ (length ys - 1)" using assms(1) by (intro power_increasing) auto
  ultimately show ?thesis using lval_bound[of xs] by linarith
qed

lemma divrem_zero: "bigint_ok b \<Longrightarrow> bval b = 0 \<longleftrightarrow> b = [0]"
  using bigint_canonical[of b "[0]"] by (auto simp: bval_single bigint_ok_def)

text \<open>After the two copies: the trivial case, then normalisation and long division.\<close>

definition divrem_tail ::
  "bigint \<Rightarrow> limb list \<Rightarrow> nat \<Rightarrow> limb list \<Rightarrow> bool \<Rightarrow> bool \<Rightarrow> bool \<Rightarrow> memstate \<Rightarrow> bigint mresult option" where
  "divrem_tail a r na tabb a_neg b_neg is_rem m =
     (if na < length tabb then
        (let m = js_free (js_free m) in
         if is_rem then
           (case js_bigint_new (length a) m of
              (Inl e, m) \<Rightarrow> Some (Inl e, m)
            | (Inr _, m) \<Rightarrow> Some (Inr a, m))
         else Some (js_bigint_new_si 0 m))
      else
        (case divrem_normalize r na tabb of (r, na, tabb, shift) \<Rightarrow>
           case js_bigint_new (na - length tabb + 2) m of
             (Inl e, m) \<Rightarrow> Some (Inl e, js_free (js_free m))
           | (Inr q, m) \<Rightarrow> divrem_finish q r na tabb shift a_neg b_neg is_rem m))"

definition div_post :: "bigint \<Rightarrow> bigint \<Rightarrow> bool \<Rightarrow> memstate \<Rightarrow> int \<Rightarrow> bigint mresult option \<Rightarrow> bool" where
  "div_post a b is_rem m l out \<longleftrightarrow>
     (\<exists>res m'. out = Some (res, m') \<and> live m' = l + (case res of Inl _ \<Rightarrow> 0 | Inr _ \<Rightarrow> 1) \<and>
        (case res of Inl _ \<Rightarrow> \<not> (mem_ok m \<and> length a + 2 \<le> JS_BIGINT_MAX_SIZE)
         | Inr x \<Rightarrow> bigint_ok x \<and> bval x = div_result is_rem (bval a) (bval b)))"

lemma divrem_tail_spec:
  assumes ok: "bigint_ok a" "bigint_ok b" "bval b \<noteq> 0"
    and N: "int (lval (take na r)) = \<bar>bval a\<bar>" and na: "0 < na" "na \<le> length a" "length r = length a + 2"
    and D: "int (lval tabb) = \<bar>bval b\<bar>" "tabb \<noteq> []" "tabb ! (length tabb - 1) \<noteq> 0"
    and sg: "a_neg = (bval a < 0)" "b_neg = (bval b < 0)"
  shows "div_post a b is_rem m (live m - 2) (divrem_tail a r na tabb a_neg b_neg is_rem m)"
proof (cases "na < length tabb")
  case True
  have "length (take na r) < length tabb" using True na by simp
  then have "lval (take na r) < lval tabb" using D(3) by (rule shorter_less)
  then have dr: "div_result is_rem (bval a) (bval b) = (if is_rem then bval a else 0)"
    using N D(1) by (intro div_result_small) linarith
  obtain rn m1 where 1: "js_bigint_new (length a) (js_free (js_free m)) = (rn, m1)" by fastforce
  note n1 = js_bigint_new_spec[OF 1]
  obtain rz m2 where 2: "js_bigint_new_si 0 (js_free (js_free m)) = (rz, m2)" by fastforce
  note n2 = js_bigint_new_si_spec[OF 2]
  have t: "divrem_tail a r na tabb a_neg b_neg is_rem m
     = (if is_rem then (case rn of Inl e \<Rightarrow> Some (Inl e, m1) | Inr _ \<Rightarrow> Some (Inr a, m1)) else Some (rz, m2))"
    using True 1 2 by (simp add: divrem_tail_def Let_def split: sum.splits)
  show ?thesis
  proof (cases is_rem)
    case True
    then show ?thesis using t n1 dr ok by (cases rn) (auto simp: div_post_def alloc_ok_def)
  next
    case False
    have "rz = Inr y \<Longrightarrow> y = [0]" "alloc_ok (js_free (js_free m)) rz m2" "mem_ok m \<Longrightarrow> rz = Inr [0]" for y
      using n2[of y] by simp_all
    then show ?thesis using t dr False
      by (cases rz) (auto simp: div_post_def alloc_ok_def bigint_ok_def bval_single)
  qed
next
  case False
  obtain r' na' tabb' s where 1: "divrem_normalize r na tabb = (r', na', tabb', s)"
    using prod_cases4 by blast
  have "na < length r" using na by simp
  note nz = divrem_normalize_spec[OF D(2,3) this 1]
  obtain rn m1 where 2: "js_bigint_new (na' - length tabb' + 2) m = (rn, m1)" by fastforce
  note n2 = js_bigint_new_spec[OF 2]
  have t: "divrem_tail a r na tabb a_neg b_neg is_rem m
     = (case rn of Inl e \<Rightarrow> Some (Inl e, js_free (js_free m1))
        | Inr q \<Rightarrow> divrem_finish q r' na' tabb' s a_neg b_neg is_rem m1)"
    using False 1 2 by (simp add: divrem_tail_def)
  show ?thesis
  proof (cases rn)
    case (Inl e)
    have "1 \<le> length tabb'" using D(2) nz(3) by (cases tabb) auto
    then have "na' - length tabb' + 2 \<le> length a + 2" using nz(5) na(2) by linarith
    then show ?thesis using Inl t n2(1,3) by (auto simp: div_post_def alloc_ok_def)
  next
    case (Inr q)
    have l: "length tabb' \<le> na'" "na' \<le> length r'" "length tabb' < length r'" "tabb' \<noteq> []"
      using False nz(3-6) na D(2) by auto
    have lq: "length q = na' - length tabb' + 2" using n2(2)[OF Inr] by simp
    obtain x m' where f: "divrem_finish q r' na' tabb' s a_neg b_neg is_rem m1 = Some (Inr x, m')" "bigint_ok x"
      "bval x = (if is_rem then (if a_neg then - int (lval (take na r) mod lval tabb) else int (lval (take na r) mod lval tabb))
               else if a_neg \<noteq> b_neg then - int (lval (take na r) div lval tabb) else int (lval (take na r) div lval tabb))"
      "live m' = live m1 - 2"
      using divrem_finish_spec[OF l(4) nz(8,7) l(1,2,3) lq nz(1,2), of a_neg b_neg is_rem m1] by blast
    have "bval x = div_result is_rem (bval a) (bval b)"
      using f(3) div_result_abs[OF ok(3), of is_rem "bval a"] unfolding sg zmod_int zdiv_int N D(1) by simp
    then show ?thesis using Inr t f n2(1) by (auto simp: div_post_def alloc_ok_def)
  qed
qed

lemma js_bigint_divrem_spec:
  assumes ok: "bigint_ok a" "bigint_ok b" and b0: "bval b \<noteq> 0"
  shows "div_post a b is_rem m (live m) (js_bigint_divrem a b is_rem m)"
proof -
  have ne: "a \<noteq> []" "b \<noteq> []" using ok by (auto simp: bigint_ok_def)
  have bz: "\<not> (length b = 1 \<and> b ! 0 = 0)"
  proof
    assume "length b = 1 \<and> b ! 0 = 0"
    then have "b = [0]" by (cases b) auto
    then show False using b0 by (simp add: bval_single)
  qed
  have sg: "(js_bigint_sign a \<noteq> 0) = (bval a < 0)" "(js_bigint_sign b \<noteq> 0) = (bval b < 0)"
    using bval_neg_iff[OF ne(1)] bval_neg_iff[OF ne(2)] ne by (simp_all add: last_conv_nth)
  obtain rn m1 where 1: "js_bigint_new (length a + 2) m = (rn, m1)" by fastforce
  note n1 = js_bigint_new_spec[OF 1]
  obtain ok' m2 where 2: "js_malloc m1 = (ok', m2)" by fastforce
  note n2 = js_malloc_spec[OF 2]
  define tb where "tb = take (strip_zeros (abs_limbs b) (length b)) (abs_limbs b)"
  have u: "js_bigint_divrem a b is_rem m = (case rn of Inl e \<Rightarrow> Some (Inl e, m1)
     | Inr r \<Rightarrow> if ok' then divrem_tail a (splice r 0 (abs_limbs a)) (strip_zeros (splice r 0 (abs_limbs a)) (length a)) tb
           (bval a < 0) (bval b < 0) is_rem m2
         else Some (Inl OutOfMemory, js_free m2))"
    unfolding js_bigint_divrem_def Let_def if_not_P[OF bz] 1 divrem_tail_def tb_def abs_limbs_def sg
    by (simp only: 2 prod.case split: sum.split bool.split) simp
  have tb: "int (lval tb) = \<bar>bval b\<bar>" "tb \<noteq> []" "tb ! (length tb - 1) \<noteq> 0"
  proof -
    note st = stripped[OF ne(2), of "abs_limbs b"]
    have l: "length tb = strip_zeros (abs_limbs b) (length b)" "0 < length tb"
      using st abs_limbs_spec[OF ne(2)] by (simp_all add: tb_def)
    show v: "int (lval tb) = \<bar>bval b\<bar>" and "tb \<noteq> []"
      using st l abs_limbs_spec[OF ne(2)] by (auto simp: tb_def)
    show "tb ! (length tb - 1) \<noteq> 0"
    proof (cases "length tb = 1")
      case True
      then obtain x where "tb = [x]" by (cases tb) auto
      then show ?thesis using v b0 by auto
    next
      case False
      then show ?thesis using st l abs_limbs_spec[OF ne(2)] by (simp add: tb_def)
    qed
  qed
  show ?thesis
  proof (cases rn)
    case (Inl e)
    then show ?thesis using u n1(1,3) by (auto simp: div_post_def alloc_ok_def)
  next
    case (Inr r0)
    define r where "r = splice r0 0 (abs_limbs a)"
    have lr0: "length r0 = length a + 2" using n1(2)[OF Inr] by simp
    then have lr: "length r = length a + 2" "take (length a) r = abs_limbs a"
      using abs_limbs_spec[OF ne(1)] by (simp_all add: r_def splice_def)
    note st = stripped[OF ne(1) _ lr(2)]
    have "ok' \<Longrightarrow> div_post a b is_rem m2 (live m2 - 2)
        (divrem_tail a r (strip_zeros r (length a)) tb (bval a < 0) (bval b < 0) is_rem m2)"
      using st lr abs_limbs_spec[OF ne(1)]
      by (intro divrem_tail_spec[OF ok b0 _ _ _ lr(1) tb refl refl]) auto
    moreover have "js_bigint_divrem a b is_rem m = (if ok' then divrem_tail a r (strip_zeros r (length a)) tb
           (bval a < 0) (bval b < 0) is_rem m2 else Some (Inl OutOfMemory, js_free m2))"
      using u Inr by (simp add: r_def)
    ultimately show ?thesis using Inr n1(1,4) n2
      by (cases ok') (auto simp: div_post_def alloc_ok_def split: sum.splits)
  qed
qed

end
