(* ===== verification/BigIntPow.thy ===== *)
theory BigIntPow
  imports BigIntBits
begin

text \<open>
  Powers of BigInts, and the contract that the binary operations share. The locale
  \<open>bigint_binop\<close> states what a caller of an operation relies on: results in normal form whose
  value is a function of the operands' values. Its lemmas are the algebraic laws on limb
  arrays; addition, subtraction and multiplication are its interpretations.
\<close>

subsection \<open>The contract of a binary operation\<close>

locale bigint_binop =
  fixes bop :: "bigint \<Rightarrow> bigint \<Rightarrow> memstate \<Rightarrow> bigint mresult" and f :: "int \<Rightarrow> int \<Rightarrow> int"
  assumes bop_value: "bigint_ok a \<Longrightarrow> bigint_ok b \<Longrightarrow> bop a b m = (Inr x, m') \<Longrightarrow>
      bval x = f (bval a) (bval b) \<and> bigint_ok x"
    and bop_alloc: "bigint_ok a \<Longrightarrow> bigint_ok b \<Longrightarrow> bop a b m = (res, m') \<Longrightarrow> alloc_ok m res m'"
begin

text \<open>The result depends on the operands only, not on the state of the memory.\<close>

lemma result_unique:
  assumes "bigint_ok a" "bigint_ok b" "bop a b m = (Inr x, m1)" "bop a b n = (Inr y, n1)"
  shows "x = y"
  using bop_value[OF assms(1,2,3)] bop_value[OF assms(1,2,4)] by (intro bigint_canonical) auto

lemma commutes:
  assumes "\<And>i j. f i j = f j i" "bigint_ok a" "bigint_ok b"
    "bop a b m = (Inr x, m1)" "bop b a n = (Inr y, n1)"
  shows "x = y"
  using bop_value[OF assms(2,3,4)] bop_value[OF assms(3,2,5)] assms(1) by (intro bigint_canonical) auto

lemma associates:
  assumes "\<And>i j k. f (f i j) k = f i (f j k)" "bigint_ok a" "bigint_ok b" "bigint_ok c"
    "bop a b m1 = (Inr ab, m2)" "bop ab c m3 = (Inr x, m4)"
    "bop b c n1 = (Inr bc, n2)" "bop a bc n3 = (Inr y, n4)"
  shows "x = y"
proof -
  have ab: "bval ab = f (bval a) (bval b)" "bigint_ok ab" using bop_value[OF assms(2,3,5)] by auto
  have bc: "bval bc = f (bval b) (bval c)" "bigint_ok bc" using bop_value[OF assms(3,4,7)] by auto
  show ?thesis using bop_value[OF ab(2) assms(4,6)] bop_value[OF assms(2) bc(2) assms(8)] ab bc assms(1)
    by (intro bigint_canonical) auto
qed

end

lemma ok_ne: "bigint_ok a \<Longrightarrow> a \<noteq> []"
  by (simp add: bigint_ok_def)

lemma add_value_ok:
  assumes "bigint_ok a" "bigint_ok b" "js_bigint_add a b n m = (Inr x, m')"
  shows "bval x = (if n then bval a - bval b else bval a + bval b) \<and> bigint_ok x"
  using js_bigint_add_spec(1)[OF ok_ne[OF assms(1)] ok_ne[OF assms(2)] assms(3) refl] .

lemma add_alloc:
  assumes "bigint_ok a" "bigint_ok b" "js_bigint_add a b n m = (res, m')"
  shows "alloc_ok m res m'"
  by (rule js_bigint_add_spec(2)[OF ok_ne[OF assms(1)] ok_ne[OF assms(2)] assms(3)])

lemma mul_value_ok:
  assumes "bigint_ok a" "bigint_ok b" "js_bigint_mul a b m = (Inr x, m')"
  shows "bval x = bval a * bval b \<and> bigint_ok x"
  using js_bigint_mul_spec(1)[OF ok_ne[OF assms(1)] ok_ne[OF assms(2)] assms(3) refl] .

lemma mul_alloc:
  assumes "bigint_ok a" "bigint_ok b" "js_bigint_mul a b m = (res, m')"
  shows "alloc_ok m res m'"
  by (rule js_bigint_mul_spec(2)[OF ok_ne[OF assms(1)] ok_ne[OF assms(2)] assms(3)])

interpretation badd: bigint_binop "\<lambda>a b. js_bigint_add a b False" "\<lambda>x y. x + y"
  by unfold_locales (drule (2) add_value_ok, simp, erule (2) add_alloc)

interpretation bsub: bigint_binop "\<lambda>a b. js_bigint_add a b True" "\<lambda>x y. x - y"
  by unfold_locales (drule (2) add_value_ok, simp, erule (2) add_alloc)

interpretation bmul: bigint_binop js_bigint_mul "\<lambda>x y. x * y"
  by unfold_locales (erule (2) mul_value_ok, erule (2) mul_alloc)

subsection \<open>Square and multiply\<close>

lemma and_1_odd: "(drop_bit i (e :: u32) AND 1 \<noteq> 0) = odd (unat e div 2 ^ i)"
proof -
  have "unat (drop_bit i e AND 1) = unat (drop_bit i e) mod 2"
    using unat_and_mask[of "drop_bit i e" 1] by (simp add: mask_1)
  then have "(drop_bit i e AND 1 \<noteq> 0) = (unat e div 2 ^ i mod 2 \<noteq> 0)"
    unfolding unat_drop_bit by (metis unat_eq_0)
  then show ?thesis by (simp add: odd_iff_mod_2_eq_one)
qed

lemma pow_loop_spec:
  assumes ok: "bigint_ok a"
  shows "bigint_ok r \<Longrightarrow> bval r = bval a ^ (unat e div 2 ^ i) \<Longrightarrow> pow_loop a e i r m = (Inr x, m') \<Longrightarrow>
    bval x = bval a ^ unat e \<and> bigint_ok x \<and> live m' = live m"
proof (induction i arbitrary: r m)
  case (Suc i)
  let ?E = "unat e div 2 ^ i"
  have half: "unat e div 2 ^ Suc i = ?E div 2" by (simp add: div_mult2_eq[symmetric] mult.commute)
  obtain r1 m1 where 1: "js_bigint_mul r r m = (r1, m1)" by fastforce
  then obtain s where s: "r1 = Inr s" using Suc.prems(3) by (cases r1) auto
  have sq: "bval s = bval a ^ (?E div 2 * 2)" "bigint_ok s" "live m1 = live m + 1"
    using bmul.bop_value[OF Suc.prems(1,1)] bmul.bop_alloc[OF Suc.prems(1,1)] 1 s Suc.prems(2)
    unfolding half by (auto simp: alloc_ok_def power_mult power2_eq_square)
  show ?case
  proof (cases "odd ?E")
    case True
    obtain r2 m2 where 2: "js_bigint_mul s a (js_free m1) = (r2, m2)" by fastforce
    then obtain t where t: "r2 = Inr t" using Suc.prems(3) 1 s True by (cases r2) (auto simp: and_1_odd)
    have "?E = Suc (?E div 2 * 2)" using odd_two_times_div_two_succ[OF True] by simp
    then have "bval a ^ ?E = bval a ^ (?E div 2 * 2) * bval a" by (metis power_Suc2)
    then have pr: "bval t = bval a ^ ?E" "bigint_ok t" "live m2 = live m + 1"
      using bmul.bop_value[OF sq(2) ok] bmul.bop_alloc[OF sq(2) ok] 2 t sq by (auto simp: alloc_ok_def)
    have "pow_loop a e i t (js_free m2) = (Inr x, m')" using Suc.prems(3) 1 s 2 t True by (simp add: and_1_odd)
    then show ?thesis using Suc.IH[OF pr(2,1)] pr(3) by simp
  next
    case False
    then have "?E div 2 * 2 = ?E" by simp
    then have "bval s = bval a ^ ?E" using sq(1) by simp
    moreover have "pow_loop a e i s (js_free m1) = (Inr x, m')"
      using Suc.prems(3) 1 s False by (simp add: and_1_odd)
    ultimately show ?thesis using Suc.IH[OF sq(2)] sq(3) by simp
  qed
qed simp

subsection \<open>Powers of two\<close>

lemma clz_power:
  assumes "v \<noteq> 0" "v AND (v - 1) = 0"
  shows "unat v = 2 ^ (63 - js_limb_clz v)" "js_limb_clz v \<le> 63"
proof -
  let ?n = "63 - clz64 v"
  note cz = clz64_bounds[OF assms(1)]
  show "js_limb_clz v \<le> 63" using cz(3) by (simp add: js_limb_clz_def)
  have up: "unat v < 2 * 2 ^ ?n"
  proof -
    have "64 - clz64 v = Suc ?n" using cz(3) by simp
    then show ?thesis using cz(2) by simp
  qed
  have b: "bit u ?n" if "2 ^ ?n \<le> unat u" "unat u < 2 * 2 ^ ?n" for u :: limb
  proof -
    have "unat u div 2 ^ ?n = 1" using that by (simp add: div_nat_eqI)
    then have "bit (unat u) ?n" by (simp add: bit_iff_odd)
    then show ?thesis by (simp add: bit_unsigned_iff)
  qed
  have v1: "unat (v - 1) = unat v - 1" using assms(1) by (simp add: unat_minus_one)
  have "unat v = 2 ^ ?n"
  proof (rule ccontr)
    assume "unat v \<noteq> 2 ^ ?n"
    then have "2 ^ ?n \<le> unat (v - 1)" "unat (v - 1) < 2 * 2 ^ ?n" using cz(1) up v1 by auto
    then have "bit (v AND (v - 1)) ?n" using b[of v] b[of "v - 1"] cz(1) up by (simp add: bit_and_iff)
    then show False using assms(2) by simp
  qed
  then show "unat v = 2 ^ (63 - js_limb_clz v)" by (simp add: js_limb_clz_def)
qed

lemma int_pred_mult: "1 \<le> p \<Longrightarrow> int ((p - 1) * q) = int (p * q) - int q"
  by (simp add: of_nat_diff left_diff_distrib)

lemma diff_cong_trans: "x = a - b \<Longrightarrow> a = c \<Longrightarrow> b = d \<Longrightarrow> x = (c - d :: int)"
  by simp

lemma slimb_push: "k < 63 \<Longrightarrow> slimb (push_bit k 1) = 2 ^ k" "k < 64 \<Longrightarrow> slimb (push_bit k (- 1)) = - (2 ^ k)"
proof -
  assume "k < 63"
  moreover from this have "unat (push_bit k 1 :: limb) = 2 ^ k"
    by (subst unat_push_limb) simp_all
  moreover have "\<not> bit (push_bit k 1 :: limb) 63" using \<open>k < 63\<close> by (simp add: bit_simps)
  ultimately show "slimb (push_bit k 1) = 2 ^ k" by (simp add: slimb_def del: of_nat_unat)
next
  assume k: "k < 64"
  have B: "LB = 2 ^ (64 - k) * 2 ^ k" using k by (simp flip: power_add)
  have m: "unat (- 1 :: limb) = LB - 1" by (simp add: unsigned_minus_1_eq_mask mask_eq_exp_minus_1)
  have o: "(LB - 1) mod 2 ^ (64 - k) = 2 ^ (64 - k) - 1" by (rule ones_mod) simp
  have "k \<le> 64" using k by simp
  then have u: "unat (push_bit k (- 1) :: limb) = (2 ^ (64 - k) - 1) * 2 ^ k" by (simp only: unat_push_limb m o)
  have "int (unat (push_bit k (- 1) :: limb)) = int (2 ^ (64 - k) * 2 ^ k) - int (2 ^ k)"
    unfolding u by (rule int_pred_mult) simp
  moreover have "int (2 ^ (64 - k) * 2 ^ k) = int LB" by (rule arg_cong [OF B [symmetric]])
  moreover have "int (2 ^ k) = 2 ^ k" by simp
  ultimately have "int (unat (push_bit k (- 1) :: limb)) = int LB - 2 ^ k" by (rule diff_cong_trans)
  moreover have "bit (push_bit k (- 1) :: limb) 63" using k by (simp add: bit_simps)
  ultimately show "slimb (push_bit k (- 1)) = - (2 ^ k)" by (simp add: slimb_def del: of_nat_unat)
qed

lemma zeros_update: "i < n \<Longrightarrow> (replicate n 0)[i := v] = replicate i 0 @ v # replicate (n - Suc i) (0 :: limb)"
  by (simp add: list_eq_iff_nth_eq nth_append nth_Cons' nth_list_update)

lemma zeros_power:
  assumes "bigint_ok a" "bval a = s * 2 ^ (e mod 64)" "s \<noteq> 0"
  shows "bval (replicate (e div 64) 0 @ a) = s * 2 ^ e \<and> bigint_ok (replicate (e div 64) 0 @ a)"
proof -
  have "(2 :: int) ^ e = int LB ^ (e div 64) * 2 ^ (e mod 64)"
    using power_add[of "2 :: int" "64 * (e div 64)" "e mod 64"] by (simp only: mult_div_mod_eq pow2_limbs)
  moreover have "a \<noteq> []" using assms(1) by (auto simp: bigint_ok_def)
  moreover have "a \<noteq> [0]" using assms(2,3) by (auto simp: bval_single)
  ultimately show ?thesis using ok_zeros[OF assms(1)] by (simp only: bval_zeros assms(2) ac_simps simp_thms)
qed

lemma div_65: "(e + 65) div 64 = (e :: nat) div 64 + (if e mod 64 = 63 then 2 else 1)"
proof -
  have "(e + 65) div 64 = (Suc e + 64) div 64" by simp
  also have "\<dots> = Suc e div 64 + 1" by (rule div_add_self2) simp
  finally show ?thesis by (simp add: div_Suc mod_Suc)
qed

lemma single_power_of_two: "slimb v = s * 2 ^ k \<Longrightarrow> s \<noteq> 0 \<Longrightarrow> bigint_ok [v] \<and> bval [v] = s * 2 ^ k"
  by (simp add: bval_single bigint_ok_def)

lemma minus_pow2_limbs:
  "bval ((replicate ((e + 64) div 64) 0)[e div 64 := push_bit (e mod 64) (- 1 :: limb)]) = - (2 ^ e) \<and>
   bigint_ok ((replicate ((e + 64) div 64) 0)[e div 64 := push_bit (e mod 64) (- 1 :: limb)])"
proof -
  let ?d = "e div 64"
  obtain v where v: "v = push_bit (e mod 64) (- 1 :: limb)" by blast
  have "(e + 64) div 64 = ?d + 1" by simp
  then have x: "(replicate ((e + 64) div 64) 0)[?d := v] = replicate ?d 0 @ [v]"
    using zeros_update[of ?d "?d + 1" v] by (simp only: simp_thms) simp
  have "slimb v = - 1 * 2 ^ (e mod 64)" unfolding v by (subst slimb_push(2)) simp_all
  from single_power_of_two[OF this] zeros_power[of "[v]" "- 1" e] show ?thesis
    unfolding v[symmetric] x by simp
qed

lemma plus_pow2_limbs:
  "bval ((replicate ((e + 65) div 64) 0)[e div 64 := push_bit (e mod 64) (1 :: limb)]) = 2 ^ e \<and>
   bigint_ok ((replicate ((e + 65) div 64) 0)[e div 64 := push_bit (e mod 64) (1 :: limb)])"
proof (cases "e mod 64 = 63")
  case True
  let ?d = "e div 64"
  have x: "(replicate (?d + 2) 0)[?d := v] = replicate ?d 0 @ [v, 0 :: limb]" for v
    using zeros_update[of ?d "?d + 2" v] by simp
  have b: "bval [push_bit 63 1, 0] = 1 * 2 ^ (e mod 64)" unfolding True using bval_snoc[of "[push_bit 63 1]" 0] by simp
  have "bigint_ok [push_bit 63 1, 0]" by (simp add: bigint_ok_def sign_ext_def bit_simps)
  from zeros_power[OF this b] show ?thesis unfolding div_65 if_P[OF True] x unfolding True by simp
next
  case False
  let ?d = "e div 64"
  obtain v where v: "v = push_bit (e mod 64) (1 :: limb)" by blast
  have "e mod 64 < 63" using False mod_less_divisor[of 64 e] by linarith
  then have "slimb v = 1 * 2 ^ (e mod 64)" unfolding v by (subst slimb_push(1)) simp_all
  moreover have "(replicate (?d + 1) 0)[?d := v] = replicate ?d 0 @ [v]"
    using zeros_update[of ?d "?d + 1" v] by simp
  ultimately show ?thesis using single_power_of_two[of v 1 "e mod 64"] zeros_power[of "[v]" 1 e]
    unfolding v[symmetric] div_65 if_not_P[OF False] by simp
qed

lemma power_of_two_limbs:
  fixes e :: nat
  defines "xs neg \<equiv> (replicate ((e + 64 + 1 - (if neg then 1 else 0)) div 64) 0)[e div 64 :=
     push_bit (e mod 64) (if neg then - 1 else 1 :: limb)]"
  shows "bval (xs neg) = (if neg then - (2 ^ e) else 2 ^ e) \<and> bigint_ok (xs neg)"
proof -
  have "e + 64 + 1 - 1 = e + 64" "e + 64 + 1 - 0 = e + 65" by simp_all
  then show ?thesis unfolding xs_def
    using minus_pow2_limbs[of e] plus_pow2_limbs[of e]
    by (cases neg) (simp_all only: if_True if_False simp_thms)
qed

lemma pow2_spec:
  assumes b: "bval b = int (unat (b ! 0))"
    and v: "bval a = (if is_neg then - int (unat v) else int (unat v))" "v \<noteq> 0" "v AND (v - 1) = 0"
    and p: "js_bigint_pow2 v is_neg b m = (res, m')"
  shows "(res = Inr x \<longrightarrow> bval x = bval a ^ nat (bval b) \<and> bigint_ok x) \<and> alloc_ok m res m'"
proof -
  let ?n = "63 - js_limb_clz v" and ?E = "unat (b ! 0)"
  define e1 where "e1 = (ucast (ucast (b ! 0) :: u32) * of_nat ?n :: u64)"
  consider (long) "length b > 1" | (large) "b ! 0 > 0x7fffffff" | (big) "e1 > of_nat (JS_BIGINT_MAX_SIZE * 64)"
    | (ok) "\<not> length b > 1" "\<not> b ! 0 > 0x7fffffff" "\<not> e1 > of_nat (JS_BIGINT_MAX_SIZE * 64)" by blast
  then show ?thesis
  proof cases
    case ok
    have E: "?E \<le> 2147483647" using ok(2) by (simp add: word_less_nat_alt not_less)
    have n: "?n \<le> 63" by simp
    have u1: "unat (ucast (b ! 0) :: u32) = ?E" using E by (simp add: unat_ucast_mod)
    have u2: "unat (ucast (ucast (b ! 0) :: u32) :: u64) = ?E"
      unfolding unat_ucast_mod[of "ucast (b ! 0) :: u32"] u1 using E by simp
    have u3: "unat (of_nat ?n :: u64) = ?n" unfolding unat_of_nat by (rule mod_less) (use n in simp)
    have "?E * ?n \<le> 2147483647 * 63" using E n by (rule mult_le_mono)
    then have e1: "unat e1 = ?E * ?n"
      unfolding e1_def using u2 u3 by (subst unat_mult_lem[THEN iffD1]) simp_all
    have le: "?E * ?n \<le> 1048576"
      using ok(3) unfolding word_less_nat_alt e1 JS_BIGINT_MAX_SIZE_def by simp
    have u4: "unat (ucast e1 :: u32) = ?E * ?n" using le by (simp add: unat_ucast_mod e1)
    define neg where "neg \<longleftrightarrow> is_neg \<and> b ! 0 AND 1 \<noteq> 0"
    have odd: "(b ! 0 AND 1 \<noteq> 0) = odd ?E"
    proof -
      have "unat (b ! 0 AND 1) = ?E mod 2" using unat_and_mask[of "b ! 0" 1] by (simp add: mask_1)
      then have "(b ! 0 AND 1 \<noteq> 0) = (?E mod 2 \<noteq> 0)" by (metis unat_eq_0)
      then show ?thesis by (simp add: odd_iff_mod_2_eq_one)
    qed
    let ?len = "(?E * ?n + 64 + 1 - (if neg then 1 else 0)) div 64"
    obtain rn m1 where new: "js_bigint_new ?len m = (rn, m1)" by fastforce
    note ns = js_bigint_new_spec[OF new]
    have u: "js_bigint_pow2 v is_neg b m = (case rn of Inl err \<Rightarrow> (Inl err, m1)
        | Inr r \<Rightarrow> (Inr ((replicate (length r) 0)[?E * ?n div 64 := push_bit (?E * ?n mod 64) (if neg then - 1 else 1)]), m1))"
      using ok unfolding js_bigint_pow2_def Let_def e1_def[symmetric] neg_def[symmetric]
      by (simp only: if_False u4 new) (simp split: sum.splits)
    have pw: "bval a ^ ?E = (if neg then - (2 ^ (?E * ?n)) else 2 ^ (?E * ?n))"
    proof -
      have vn: "int (unat v) = 2 ^ ?n" using clz_power[OF v(2,3)] by (simp del: of_nat_unat)
      have "(2 ^ ?n) ^ ?E = (2 :: int) ^ (?E * ?n)" by (simp add: power_mult[symmetric] mult.commute)
      then show ?thesis using v(1) unfolding vn neg_def odd by (simp add: power_minus_odd)
    qed
    have nb: "nat (bval b) = ?E" unfolding b by (simp del: of_nat_unat)
    define y where "y = (replicate ?len 0)[?E * ?n div 64 := push_bit (?E * ?n mod 64) (if neg then - 1 else 1 :: limb)]"
    have y: "bval y = bval a ^ nat (bval b) \<and> bigint_ok y"
      using power_of_two_limbs[of "?E * ?n" neg] unfolding y_def pw nb .
    show ?thesis
    proof (cases rn)
      case (Inl err)
      then show ?thesis using u p ns(1) by (simp add: alloc_ok_def)
    next
      case (Inr r)
      have "length r = ?len" using ns(2)[OF Inr] by simp
      then have "res = Inr y" "m' = m1" using u p unfolding Inr y_def by simp_all
      then show ?thesis using y ns(1) Inr by (auto simp: alloc_ok_def)
    qed
  next
    case long
    then have "res = Inl RangeErrorPow" "m' = m" using p by (simp_all add: js_bigint_pow2_def Let_def)
    then show ?thesis by (simp add: alloc_ok_def)
  next
    case large
    then have "res = Inl RangeErrorPow" "m' = m" using p by (simp_all add: js_bigint_pow2_def Let_def split: if_splits)
    then show ?thesis by (simp add: alloc_ok_def)
  next
    case big
    then have "res = Inl RangeErrorPow" "m' = m" using p unfolding js_bigint_pow2_def Let_def e1_def[symmetric]
      by (simp_all split: if_splits)
    then show ?thesis by (simp add: alloc_ok_def)
  qed
qed

lemma bval_nonneg_single: "bigint_ok b \<Longrightarrow> 0 \<le> bval b \<Longrightarrow> length b = 1 \<Longrightarrow> bval b = int (unat (b ! 0))"
  using bval_neg_iff[of b] by (cases b) (auto simp: bval_def simp del: of_nat_unat)

text \<open>The dispatch of \<open>js_bigint_pow\<close> for a base of one limb, and what each branch returns.\<close>

lemma single_limb:
  assumes "length a = 1"
  shows "a = [a ! 0]" "bval a = slimb (a ! 0)"
proof -
  show a: "a = [a ! 0]" using assms by (cases a) auto
  show "bval a = slimb (a ! 0)" by (subst a) (simp add: bval_single)
qed

lemma abs_single:
  assumes "length a = 1"
  defines "v \<equiv> a ! 0"
  defines "v' \<equiv> if bit v 63 then - v else v"
  shows "bval a = (if bit v 63 then - int (unat v') else int (unat v'))" "v' = 0 \<longleftrightarrow> v = 0"
  using single_limb(2)[OF assms(1)] limb_lt[of v]
  by (auto simp: slimb_def v_def[symmetric] v'_def limb_neg of_nat_diff simp del: of_nat_unat)

lemma limb_le_1: "(v :: limb) \<le> 1 \<longleftrightarrow> v = 0 \<or> v = 1"
proof
  assume "v \<le> 1"
  then have "unat v \<le> 1" by (simp add: word_le_nat_alt)
  then show "v = 0 \<or> v = 1" by (rule carry_cases)
qed auto

lemma m1_power:
  assumes "b ! 0 = x"
  shows "slimb (1 - 2 * (x AND 1)) = (- 1) ^ unat x"
proof -
  have a: "x AND 1 = (if odd (unat x) then 1 else 0)"
  proof -
    have "unat (x AND 1) = unat x mod 2" using unat_and_mask[of x 1] by (simp add: mask_1)
    then have "unat (x AND 1) = unat (if odd (unat x) then 1 else 0 :: limb)" by (simp add: odd_iff_mod_2_eq_one)
    then show ?thesis by (simp only: word_unat_eq_iff)
  qed
  have "slimb 1 = 1" by (simp add: slimb_sint)
  then show ?thesis unfolding a by simp
qed

lemma even_bval:
  assumes "b \<noteq> []"
  shows "even (bval b) \<longleftrightarrow> even (unat (b ! 0))"
proof -
  have "even (bval b) \<longleftrightarrow> even (int (lval b))" using assms by (auto simp: bval_def)
  also have "\<dots> \<longleftrightarrow> even (unat (b ! 0))" using assms by (cases b) (auto simp del: of_nat_unat)
  finally show ?thesis .
qed

lemma pow_general:
  assumes ok: "bigint_ok a" and b: "bval b = int (unat (b ! 0))" "b ! 0 \<noteq> 0" "\<not> b ! 0 > 0x7fffffff"
    and e: "e = (ucast (b ! 0) :: u32)" and p: "pow_loop a e (32 - clz32 e - 1) a m = (Inr x, m')"
  shows "bval x = bval a ^ nat (bval b) \<and> bigint_ok x \<and> live m' = live m"
proof -
  have E: "unat (b ! 0) \<le> 2147483647" using b(3) by (simp add: word_less_nat_alt not_less)
  then have u: "unat e = unat (b ! 0)" by (simp add: e unat_ucast_mod)
  then have pos: "0 < unat e" using b(2) by (simp add: unat_gt_0)
  have le: "bit_length (unat e) \<le> 32" by (rule bit_length_le) (use unat_lt_pow[of e] in simp)
  let ?k = "bit_length (unat e) - 1"
  have k: "32 - clz32 e - 1 = ?k" using le by (simp add: clz32_def)
  have "1 \<le> bit_length (unat e)" using pos by (simp add: bit_length_pos)
  then have "2 ^ bit_length (unat e) = (2 :: nat) * 2 ^ ?k" by (cases "bit_length (unat e)") auto
  then have "2 ^ ?k \<le> unat e" "unat e < 2 * 2 ^ ?k" using bit_length_bounds[OF pos] by auto
  then have "unat e div 2 ^ ?k = 1" by (simp add: div_nat_eqI)
  then have "bval a = bval a ^ (unat e div 2 ^ ?k)" by simp
  then have "bval x = bval a ^ unat e \<and> bigint_ok x \<and> live m' = live m"
    using pow_loop_spec[OF ok ok _ p[unfolded k]] by simp
  then show ?thesis using b(1) u by (simp del: of_nat_unat)
qed

lemma js_bigint_pow_spec:
  assumes ok: "bigint_ok a" "bigint_ok b" and p: "js_bigint_pow a b m = (Inr x, m')"
  shows "0 \<le> bval b" "bval x = bval a ^ nat (bval b)" "bigint_ok x" "live m' = live m + 1"
proof -
  have neb: "b \<noteq> []" using ok by (simp add: bigint_ok_def)
  have sg: "js_bigint_sign b \<noteq> 0 \<longleftrightarrow> bval b < 0" using bval_neg_iff[OF neb] neb by (simp add: last_conv_nth)
  show nn: "0 \<le> bval b" using p sg by (cases "bval b < 0") (simp_all add: js_bigint_pow_def Let_def)
  have ns: "\<not> js_bigint_sign b \<noteq> 0" using sg nn by simp
  have new: "bval x = slimb v \<and> bigint_ok x \<and> live m' = live m + 1" if "js_bigint_new_si v m = (Inr x, m')" for v
    using js_bigint_new_si_spec[OF that, of x] by (simp add: bval_single bigint_ok_def alloc_ok_def)
  have one: "slimb 1 = 1" by (simp add: slimb_sint)
  define v where "v = a ! 0"
  define v' where "v' = (if bit v 63 then - v else v)"
  note unf = js_bigint_pow_def Let_def v_def[symmetric] v'_def[symmetric] if_not_P[OF ns]
  note b1 = bval_nonneg_single[OF ok(2) nn]
  have "bval x = bval a ^ nat (bval b) \<and> bigint_ok x \<and> live m' = live m + 1"
  proof (cases "length b = 1 \<and> b ! 0 = 0")
    case True
    then have "bval b = 0" using single_limb(2)[of b] by simp
    then show ?thesis using new[of 1] p True one unfolding unf by simp
  next
    case z: False
    have bz: "bval b \<noteq> 0"
      using bigint_canonical[OF ok(2), of "[0]"] z by (auto simp: bval_single bigint_ok_def)
    note unf = unf if_not_P[OF z]
    consider (small) "length a = 1" "v \<le> 1" | (m1) "length a = 1" "\<not> v \<le> 1" "v = - 1"
      | (two) "length a = 1" "\<not> v \<le> 1" "v \<noteq> - 1" "v' AND (v' - 1) = 0"
      | (gen) "\<not> (length a = 1 \<and> v \<le> 1)" "\<not> (length a = 1 \<and> v = - 1)" "\<not> (length a = 1 \<and> v' AND (v' - 1) = 0)"
      by blast
    then show ?thesis
    proof cases
      case small
      then have "bval a = 0 \<or> bval a = 1" "bval a = slimb v"
        using limb_le_1 single_limb(2)[of a] one by (auto simp: v_def)
      then have "bval a ^ nat (bval b) = slimb v" using nn bz by (auto simp: power_0_left)
      then show ?thesis using new[of v] p small unfolding unf by simp
    next
      case m1
      then have "bval a = - 1" using single_limb(2)[of a] by (simp add: v_def)
      moreover have "(- 1 :: int) ^ nat (bval b) = (- 1) ^ unat (b ! 0)"
        using even_bval[OF neb] nn by (simp add: minus_one_power_iff even_nat_iff)
      ultimately show ?thesis using new[of "1 - 2 * (b ! 0 AND 1)"] p m1 m1_power[OF refl, of b]
        unfolding unf by simp
    next
      case two
      then have "js_bigint_pow2 v' (bit v 63) b m = (Inr x, m')" using p unfolding unf by simp
      moreover from this have "length b = 1"
        using neb by (cases b) (auto simp: js_bigint_pow2_def Let_def split: if_splits)
      moreover note ab = abs_single[of a, folded v_def, folded v'_def, OF two(1)]
      moreover have "v' \<noteq> 0" using ab(2) two(2) by auto
      ultimately show ?thesis using pow2_spec[OF b1, of a "bit v 63" v' m "Inr x" m' x] two(4)
        by (simp add: alloc_ok_def)
    next
      case gen
      note unf = unf if_not_P[OF gen(1)] if_not_P[OF gen(2)] if_not_P[OF gen(3)]
      have lb: "length b = 1" "\<not> b ! 0 > 0x7fffffff"
        using p neb unfolding unf by (cases b; auto split: if_splits)+
      obtain rn m1 where n: "js_bigint_new (length a) m = (rn, m1)" by fastforce
      have "pow_loop a (ucast (b ! 0)) (32 - clz32 (ucast (b ! 0)) - 1) a m1 = (Inr x, m')" "\<exists>r. rn = Inr r"
        using p n lb unfolding unf by (cases rn; simp)+
      moreover have "b ! 0 \<noteq> 0" using z lb(1) by simp
      ultimately show ?thesis
        using pow_general[OF ok(1) b1[OF lb(1)] _ lb(2) refl] js_bigint_new_spec(1)[OF n]
        by (auto simp: alloc_ok_def)
    qed
  qed
  then show "bval x = bval a ^ nat (bval b)" "bigint_ok x" "live m' = live m + 1" by auto
qed

subsection \<open>Algebraic laws on limb arrays\<close>

lemma distributes:
  assumes "bigint_ok a" "bigint_ok b" "bigint_ok c"
    "js_bigint_add b c False m1 = (Inr bc, m2)" "js_bigint_mul a bc m3 = (Inr x, m4)"
    "js_bigint_mul a b n1 = (Inr ab, n2)" "js_bigint_mul a c n3 = (Inr ac, n4)"
    "js_bigint_add ab ac False n5 = (Inr y, n6)"
  shows "x = y"
proof -
  have bc: "bval bc = bval b + bval c" "bigint_ok bc" using badd.bop_value[OF assms(2,3,4)] by auto
  have p: "bval ab = bval a * bval b" "bigint_ok ab" "bval ac = bval a * bval c" "bigint_ok ac"
    using bmul.bop_value[OF assms(1,2,6)] bmul.bop_value[OF assms(1,3,7)] by auto
  show ?thesis using bmul.bop_value[OF assms(1) bc(2) assms(5)] badd.bop_value[OF p(2,4) assms(8)] bc p
    by (intro bigint_canonical) (auto simp: algebra_simps)
qed

end
