(* ===== verification/BigIntProps.thy ===== *)
theory BigIntProps
  imports BigIntDiv BigIntPow
begin

text \<open>
  The properties of the BigInt component. Each states what a caller of the C function can rely
  on, for every state of the allocator: the value of the result, its normal form, the error
  behaviour, and the balance of allocated memory.
\<close>

abbreviation mem0 :: memstate where
  "mem0 \<equiv> \<lparr>outcomes = [], junk = 7, live = 0\<rparr>"

text \<open>The definitions that evaluate the operations on concrete operands.\<close>

lemmas bigint_eval =
  js_bigint_add_def js_bigint_new_def js_malloc_def js_realloc_def js_free_def JS_BIGINT_MAX_SIZE_def
  js_bigint_extend_def js_bigint_normalize_def js_bigint_normalize1_def js_bigint_mul_def
  js_bigint_pow_def js_bigint_new_si_def js_bigint_shl_def js_bigint_shr_def js_bigint_logic_def
  js_bigint_not_def ADDC_def mp_mul_basecase_def mp_add_mul1_def splice_def dl_def lo64_def hi64_def
  mp_shl_def mp_shr_def clz32_def drop_bit_63 drop_bit_eq_div push_bit_eq_mult bit_63 limb_le_1 Let_def

text \<open>
  C15: \<open>js_bigint_add\<close> computes the sum or the difference of its operands, in normal form. It
  fails only when an allocation fails or when the operands exceed the maximal size, and it
  leaves exactly its result allocated, nothing on failure.
\<close>

theorem bigint_add_correct:
  assumes "bigint_ok a" "bigint_ok b" "js_bigint_add a b b_neg m = (res, m')"
  shows "(case res of
            Inr x \<Rightarrow> bval x = (if b_neg then bval a - bval b else bval a + bval b) \<and> bigint_ok x
          | Inl e \<Rightarrow> \<not> (mem_ok m \<and> max (length a) (length b) \<le> JS_BIGINT_MAX_SIZE)) \<and>
         alloc_ok m res m'"
  using js_bigint_add_spec[OF ok_ne[OF assms(1)] ok_ne[OF assms(2)] assms(3)]
  by (cases res) auto

theorem bigint_add_correct_witness:
  "\<exists>m'. js_bigint_add [18446744073709551615, 0] [1] False mem0 = (Inr [0, 1], m') \<and>
     bval [0, 1] = bval [18446744073709551615, 0] + bval [1] \<and> live m' = 1"
proof -
  have e: "js_bigint_add [18446744073709551615, 0] [1] False mem0 = (Inr [0, 1], mem0\<lparr>live := 1\<rparr>)"
    by (simp add: bigint_eval)
  have ok: "bigint_ok [18446744073709551615, 0]" "bigint_ok [1]"
    by (simp_all add: bigint_ok_def sign_ext_def bit_63)
  show ?thesis using bigint_add_correct[OF ok e] e by (simp add: alloc_ok_def)
qed

text \<open>
  C14: \<open>js_bigint_mul\<close> computes the product of its operands, in normal form; it fails only when an
  allocation fails or the product may exceed the maximal size, and leaves exactly its result
  allocated.
\<close>

theorem bigint_mul_correct:
  assumes "bigint_ok a" "bigint_ok b" "js_bigint_mul a b m = (res, m')"
  shows "(case res of
            Inr x \<Rightarrow> bval x = bval a * bval b \<and> bigint_ok x
          | Inl e \<Rightarrow> \<not> (mem_ok m \<and> length a + length b \<le> JS_BIGINT_MAX_SIZE)) \<and>
         alloc_ok m res m'"
  using js_bigint_mul_spec[OF ok_ne[OF assms(1)] ok_ne[OF assms(2)] assms(3)]
  by (cases res) auto

theorem bigint_mul_correct_witness:
  "\<exists>m'. js_bigint_mul [0x8000000000000000] [0x8000000000000000] mem0 = (Inr [0, 0x4000000000000000], m') \<and>
     bval [0, 0x4000000000000000] = bval [0x8000000000000000] * bval [0x8000000000000000]"
proof -
  have e: "js_bigint_mul [0x8000000000000000] [0x8000000000000000] mem0
      = (Inr [0, 0x4000000000000000], mem0\<lparr>live := 1\<rparr>)"
    by (simp add: bigint_eval)
  have ok: "bigint_ok [0x8000000000000000]" by (simp add: bigint_ok_def)
  show ?thesis using bigint_mul_correct[OF ok ok e] e by simp
qed

text \<open>
  C4: \<open>js_bigint_divrem\<close> by a non-zero divisor returns (its inner loops end), and computes the
  quotient rounded towards zero, or the remainder with the sign of the dividend, in normal
  form. It fails only when memory runs out or the dividend is too large, and then leaves
  nothing allocated.
\<close>

theorem bigint_divrem_correct:
  assumes "bigint_ok a" "bigint_ok b" "bval b \<noteq> 0"
  shows "\<exists>res m'. js_bigint_divrem a b is_rem m = Some (res, m') \<and> alloc_ok m res m' \<and>
     (case res of
        Inr x \<Rightarrow> bval x = (if is_rem then bval a smod bval b else bval a sdiv bval b) \<and> bigint_ok x
      | Inl e \<Rightarrow> \<not> (mem_ok m \<and> length a + 2 \<le> JS_BIGINT_MAX_SIZE))"
proof -
  obtain res m' where "js_bigint_divrem a b is_rem m = Some (res, m')"
    "live m' = live m + (case res of Inl _ \<Rightarrow> 0 | Inr _ \<Rightarrow> 1)"
    "case res of Inl _ \<Rightarrow> \<not> (mem_ok m \<and> length a + 2 \<le> JS_BIGINT_MAX_SIZE)
       | Inr x \<Rightarrow> bigint_ok x \<and> bval x = div_result is_rem (bval a) (bval b)"
    using js_bigint_divrem_spec[OF assms, of is_rem m] by (auto simp: div_post_def)
  then show ?thesis by (cases res) (auto simp: alloc_ok_def div_result_def)
qed

theorem bigint_divrem_correct_witness:
  "\<exists>res m'. js_bigint_divrem [1, 0, 5] [3, - 2] False mem0 = Some (res, m') \<and> alloc_ok mem0 res m' \<and>
     (case res of
        Inr x \<Rightarrow> bval x = bval [1, 0, 5] sdiv bval [3, - 2] \<and> bigint_ok x
      | Inl e \<Rightarrow> \<not> (mem_ok mem0 \<and> length [1, 0, 5 :: limb] + 2 \<le> JS_BIGINT_MAX_SIZE))"
proof -
  have ok: "bigint_ok [1, 0, 5]" "bigint_ok [3, - 2]" by (simp_all add: bigint_ok_def sign_ext_def)
  have nz: "bval [3, - 2] \<noteq> 0" using bval_snoc[of "[3]" "- 2"] by (simp add: slimb_sint)
  show ?thesis using bigint_divrem_correct[OF ok nz, of False mem0] by (simp only: if_False)
qed

text \<open>
  C16: A power that \<open>js_bigint_pow\<close> returns is the power of the values, in normal form, for the
  special cases of the code (zero, one, minus one, powers of two) as for square and multiply;
  its exponent was not negative, and only the result stays allocated.
\<close>

theorem bigint_pow_correct:
  assumes "bigint_ok a" "bigint_ok b" "js_bigint_pow a b m = (Inr x, m')"
  shows "0 \<le> bval b \<and> bval x = bval a ^ nat (bval b) \<and> bigint_ok x \<and> live m' = live m + 1"
  using js_bigint_pow_spec[OF assms] by blast

theorem bigint_pow_correct_witness:
  "\<exists>m'. js_bigint_pow [- 3] [5] mem0 = (Inr [- 243], m') \<and> bval [- 243] = bval [- 3] ^ nat (bval [5])"
proof -
  have bl: "bit_length 5 = 3" by (simp add: bit_length_pos)
  let ?m = "mem0\<lparr>live := 1\<rparr>"
  have m: "js_bigint_mul [- 3] [- 3] ?m = (Inr [9], mem0\<lparr>live := 2\<rparr>)"
    "js_bigint_mul [9] [9] ?m = (Inr [81], mem0\<lparr>live := 2\<rparr>)"
    "js_bigint_mul [81] [- 3] ?m = (Inr [- 243], mem0\<lparr>live := 2\<rparr>)" by (simp_all add: bigint_eval)
  then have "pow_loop [- 3] 5 (Suc (Suc 0)) [- 3] ?m = (Inr [- 243], ?m)"
    by (simp add: js_free_def and_1_odd Let_def)
  then have l: "pow_loop [- 3] 5 2 [- 3] ?m = (Inr [- 243], ?m)" by (simp only: numeral_2_eq_2)
  have e: "js_bigint_pow [- 3] [5] mem0 = (Inr [- 243], ?m)"
    using l by (simp add: js_bigint_pow_def js_bigint_new_def js_malloc_def JS_BIGINT_MAX_SIZE_def clz32_def
        drop_bit_63 bit_63 limb_le_1 Let_def bl)
  have ok: "bigint_ok [- 3]" "bigint_ok [5]" by (simp_all add: bigint_ok_def)
  show ?thesis using bigint_pow_correct[OF ok e] e by blast
qed

text \<open>A product inside the loop that fails leaves the block of the intermediate power.\<close>

lemma pow_loop_fails:
  assumes "bigint_ok a"
  shows "bigint_ok r \<Longrightarrow> pow_loop a e i r m = (Inl err, m') \<Longrightarrow> live m' = live m"
proof (induction i arbitrary: r m)
  case (Suc i)
  obtain r1 m1 where 1: "js_bigint_mul r r m = (r1, m1)" by fastforce
  have a1: "alloc_ok m r1 m1" by (rule mul_alloc[OF Suc.prems(1,1) 1])
  show ?case
  proof (cases r1)
    case (Inl e1)
    then show ?thesis using Suc.prems(2) 1 a1 by (simp add: alloc_ok_def)
  next
    case (Inr s)
    have s: "bigint_ok s" "live (js_free m1) = live m"
      using mul_value_ok[OF Suc.prems(1,1) 1[unfolded Inr]] a1 Inr by (simp_all add: alloc_ok_def js_free_def)
    obtain r2 m2 where 2: "js_bigint_mul s a (js_free m1) = (r2, m2)" by fastforce
    have a2: "alloc_ok (js_free m1) r2 m2" by (rule mul_alloc[OF s(1) assms 2])
    show ?thesis
    proof (cases "drop_bit i e AND 1 \<noteq> 0")
      case False
      then show ?thesis using Suc.IH[OF s(1)] Suc.prems(2) 1 Inr s(2) by simp
    next
      case True
      show ?thesis
      proof (cases r2)
        case (Inl e2)
        then show ?thesis using Suc.prems(2) 1 Inr 2 True a2 s(2) by (simp add: alloc_ok_def)
      next
        case r2: (Inr t)
        have "bigint_ok t" "live (js_free m2) = live m"
          using mul_value_ok[OF s(1) assms 2[unfolded r2]] a2 r2 s(2) by (simp_all add: alloc_ok_def js_free_def)
        moreover have "pow_loop a e i t (js_free m2) = (Inl err, m')" using Suc.prems(2) 1 Inr 2 r2 True by simp
        ultimately show ?thesis using Suc.IH by metis
      qed
    qed
  qed
qed simp

text \<open>
  C37: When memory runs out inside the loop of \<open>js_bigint_pow\<close>, the intermediate power is not
  freed: whenever the first allocation succeeds and the call then fails without memory, one block stays
  allocated although the caller gets none.
\<close>

theorem bigint_pow_leaks_on_error:
  assumes "bigint_ok a" "outcomes m = True # later" "js_bigint_pow a b m = (Inl OutOfMemory, m')"
  shows "live m' = live m + 1"
proof -
  have m: "js_malloc m = (True, m\<lparr>outcomes := later, live := live m + 1\<rparr>)" using assms(2) by (simp add: js_malloc_def)
  have new: "js_bigint_new n m \<noteq> (Inl OutOfMemory, m'')" for n m'' by (simp add: js_bigint_new_def m)
  then have si: "js_bigint_new_si v m \<noteq> (Inl OutOfMemory, m'')" for v m''
    by (auto simp: js_bigint_new_si_def split: prod.splits sum.splits)
  have p2: "js_bigint_pow2 v n b m \<noteq> (Inl OutOfMemory, m'')" for v n m''
    using new by (auto simp: js_bigint_pow2_def Let_def split: prod.splits sum.splits if_splits)
  obtain e k r m1 where 1: "js_bigint_new (length a) m = (Inr r, m1)" "pow_loop a e k a m1 = (Inl OutOfMemory, m')"
    using assms(3) new si p2 by (auto simp: js_bigint_pow_def Let_def split: if_splits prod.splits sum.splits)
  have "live m1 = live m + 1" using 1(1) by (auto simp: js_bigint_new_def m split: if_splits)
  then show ?thesis using pow_loop_fails[OF assms(1,1) 1(2)] by simp
qed

theorem bigint_pow_leaks_on_error_witness:
  "\<exists>m'. js_bigint_pow [3] [2] (mem0\<lparr>outcomes := [True, False]\<rparr>) = (Inl OutOfMemory, m') \<and>
     live m' = live (mem0\<lparr>outcomes := [True, False]\<rparr>) + 1"
proof -
  have bl: "bit_length 2 = 2" by (simp add: bit_length_pos)
  have e: "js_bigint_pow [3] [2] (mem0\<lparr>outcomes := [True, False]\<rparr>) = (Inl OutOfMemory, mem0\<lparr>live := 1\<rparr>)"
    by (simp add: bigint_eval bl)
  have "bigint_ok [3]" "outcomes (mem0\<lparr>outcomes := [True, False]\<rparr>) = True # [False]" by (simp_all add: bigint_ok_def)
  from bigint_pow_leaks_on_error[OF this e] e show ?thesis by blast
qed

text \<open>
  C34: \<open>js_bigint_logic\<close> computes the bitwise and, or and exclusive or of the two's complement
  integers of any length, \<open>js_bigint_not\<close> their complement, all in normal form.
\<close>

theorem bigint_logic_correct:
  assumes "bigint_ok a" "bigint_ok b" "js_bigint_logic a b op m = (Inr x, m1)"
    "js_bigint_not a n = (Inr y, n1)"
  shows "bval x = logic_int op (bval a) (bval b) \<and> bigint_ok x \<and> bval y = NOT (bval a) \<and> bigint_ok y"
  using js_bigint_logic_spec[OF assms(1-3)] js_bigint_not_spec[OF assms(1,4)] by blast

theorem bigint_logic_correct_witness:
  "bval [8, 7] = logic_int OP_and (bval [12, 7]) (bval [- 8]) \<and> bval [- 13, - 8] = NOT (bval [12, 7])"
proof -
  have e: "js_bigint_logic [12, 7] [- 8] OP_and mem0 = (Inr [8, 7], mem0\<lparr>live := 1\<rparr>)"
    "js_bigint_not [12, 7] mem0 = (Inr [- 13, - 8], mem0\<lparr>live := 1\<rparr>)" by (simp_all add: bigint_eval)
  have ok: "bigint_ok [12, 7]" "bigint_ok [- 8]" by (simp_all add: bigint_ok_def sign_ext_def)
  show ?thesis using bigint_logic_correct[OF ok e] by blast
qed

text \<open>
  C35: The shifts multiply by a power of two and divide by one with rounding towards minus
  infinity, in normal form.
\<close>

theorem bigint_shift_correct:
  assumes "bigint_ok a"
  shows "(js_bigint_shl a k m = (Inr x, m1) \<longrightarrow> bval x = bval a * 2 ^ unat k \<and> bigint_ok x) \<and>
     (js_bigint_shr a k m = (Inr y, m2) \<longrightarrow> bval y = bval a div 2 ^ unat k \<and> bigint_ok y)"
  using js_bigint_shl_spec[OF assms, of k m "Inr x" m1 x] js_bigint_shr_spec[OF assms, of k m y m2] by auto

theorem bigint_shift_correct_witness:
  "bval [0, 6] = bval [3] * 2 ^ 65 \<and> bval [- 1] = bval [- 3] div 2 ^ 65"
proof -
  have e: "js_bigint_shl [3] 65 mem0 = (Inr [0, 6], mem0\<lparr>live := 1\<rparr>)"
    "js_bigint_shr [- 3] 65 mem0 = (Inr [- 1], mem0\<lparr>live := 1\<rparr>)" by (simp_all add: bigint_eval)
  have ok: "bigint_ok [3]" "bigint_ok [- 3]" by (simp_all add: bigint_ok_def)
  have k: "unat (65 :: u32) = 65" by simp
  show ?thesis
    using bigint_shift_correct[OF ok(1), of 65 mem0 "[0, 6]" "mem0\<lparr>live := 1\<rparr>"]
      bigint_shift_correct[OF ok(2), of 65 mem0 _ _ "[- 1]" "mem0\<lparr>live := 1\<rparr>"] e
    unfolding k by blast
qed

text \<open>C36: \<open>js_bigint_cmp\<close> on operands in normal form returns the sign of their difference.\<close>

theorem bigint_cmp_correct:
  assumes "bigint_ok a" "bigint_ok b"
  shows "js_bigint_cmp a b = sgn (bval a - bval b)"
  by (rule js_bigint_cmp_spec[OF assms])

theorem bigint_cmp_correct_witness: "js_bigint_cmp [0, - 2] [5] = sgn (bval [0, - 2] - bval [5])"
  by (rule bigint_cmp_correct) (simp_all add: bigint_ok_def sign_ext_def)

text \<open>
  The normal form is unique: two limb arrays in normal form with the same value are the
  same array. This is what lets \<open>js_bigint_cmp\<close> compare lengths first.
\<close>

theorem bigint_normal_form_unique:
  assumes "bigint_ok a" "bigint_ok b" "bval a = bval b"
  shows "a = b"
  using assms by (rule bigint_canonical)

theorem bigint_normal_form_unique_witness: "take 1 [5, 0] = [5 :: limb]"
  by (rule bigint_normal_form_unique) (simp_all add: bigint_ok_def)

text \<open>
  Multiplication distributes over addition limb for limb, whatever the allocator does, when
  none of the five calls fails.
\<close>

theorem bigint_distributes:
  assumes "bigint_ok a" "bigint_ok b" "bigint_ok c"
    "js_bigint_add b c False m1 = (Inr bc, m2)" "js_bigint_mul a bc m3 = (Inr x, m4)"
    "js_bigint_mul a b n1 = (Inr ab, n2)" "js_bigint_mul a c n3 = (Inr ac, n4)"
    "js_bigint_add ab ac False n5 = (Inr y, n6)"
  shows "x = y"
  using assms by (rule distributes)

theorem bigint_distributes_witness: "fst (js_bigint_mul [3] [7] mem0) = fst (js_bigint_add [6] [15] False mem0)"
proof -
  let ?m = "mem0\<lparr>live := 1\<rparr>"
  have e: "js_bigint_add [2] [5] False mem0 = (Inr [7], ?m)" "js_bigint_mul [3] [7] mem0 = (Inr [21], ?m)"
    "js_bigint_mul [3] [2] mem0 = (Inr [6], ?m)" "js_bigint_mul [3] [5] mem0 = (Inr [15], ?m)"
    "js_bigint_add [6] [15] False mem0 = (Inr [21], ?m)"
    by (simp_all add: bigint_eval)
  have ok: "bigint_ok [3]" "bigint_ok [2]" "bigint_ok [5]" by (simp_all add: bigint_ok_def)
  have "[21] = ([21] :: limb list)" by (rule bigint_distributes[OF ok e])
  with e show ?thesis by simp
qed

end
