(* ===== verification/BigIntFloat.thy ===== *)
theory BigIntFloat
  imports BigIntPow Complex_Main
begin

text \<open>
  Comparing a BigInt with a double: the exponent that \<open>js_bigint_get_mant_exp\<close> finds is that of the magnitude, and
  what \<open>js_bigint_float64_cmp\<close> makes of it.
\<close>

subsection \<open>The magnitude\<close>

definition magnitude_carry :: "limb list \<Rightarrow> limb \<Rightarrow> limb" where
  "magnitude_carry xs c = (if c \<noteq> 0 \<and> (\<forall>x\<in>set xs. x = 0) then 1 else 0)"

lemma magnitude_carry_simps [simp]:
  "magnitude_carry [] 1 = 1" "magnitude_carry xs 0 = 0"
  "c = 0 \<or> c = 1 \<Longrightarrow> magnitude_carry ys (magnitude_carry xs c) = magnitude_carry (xs @ ys) c"
  "magnitude_carry xs c = 0 \<or> magnitude_carry xs c = 1"
  by (auto simp: magnitude_carry_def)

lemma abs_limb_carry:
  "snd (abs_limb x 0 0) = 0" "c = 0 \<or> c = 1 \<Longrightarrow> snd (abs_limb x (- 1) c) = magnitude_carry [x] c"
  by (auto simp: abs_limb_def magnitude_carry_def Let_def word_less_1 word_neq_0_conv add_eq_0_iff not_eq_complement)

lemma mant_low_carry_plus: "snd (mant_low xs 0 0 lb) = 0"
proof (induction xs arbitrary: lb)
  case (Cons x xs)
  obtain v c' where v: "abs_limb x 0 0 = (v, c')" by fastforce
  then have "c' = 0" using abs_limb_carry(1)[of x] by simp
  then show ?case using Cons.IH by (simp add: v)
qed simp

lemma mant_low_carry_minus: "c = 0 \<or> c = 1 \<Longrightarrow> snd (mant_low xs (- 1) c lb) = magnitude_carry xs c"
proof (induction xs arbitrary: c lb)
  case (Cons x xs)
  obtain v c' where v: "abs_limb x (- 1) c = (v, c')" by fastforce
  then have c': "c' = magnitude_carry [x] c" using abs_limb_carry(2)[OF Cons.prems, of x] by simp
  then have "snd (mant_low xs (- 1) c' (lb OR v)) = magnitude_carry xs c'" using Cons.IH by simp
  then show ?case using Cons.prems by (simp add: v c')
qed (auto simp: magnitude_carry_def)

text \<open>The top limb of the magnitude.\<close>

definition magnitude_top :: "bigint \<Rightarrow> limb" where
  "magnitude_top a = (if bit (last a) 63 then NOT (last a) + magnitude_carry (butlast a) 1 else last a)"

lemma magnitude_top_bounds:
  assumes "a \<noteq> []"
  shows "int (unat (magnitude_top a)) * int LB ^ (length a - 1) \<le> \<bar>bval a\<bar>"
    "\<bar>bval a\<bar> < (int (unat (magnitude_top a)) + 1) * int LB ^ (length a - 1)"
proof -
  obtain xs x where a: "a = xs @ [x]" using assms by (cases a rule: rev_cases) auto
  let ?B = "int LB ^ length xs"
  have low: "int (lval xs) < ?B" using lval_bound[of xs] by (simp flip: of_nat_power)
  have B: "0 < ?B" by simp
  have "int (unat (magnitude_top a)) * ?B \<le> \<bar>bval a\<bar> \<and> \<bar>bval a\<bar> < (int (unat (magnitude_top a)) + 1) * ?B"
  proof (cases "bit x 63")
    case False
    then have s: "slimb x = int (unat x)" "magnitude_top a = x" by (simp_all add: slimb_def magnitude_top_def a)
    have "\<bar>bval a\<bar> = int (lval xs) + ?B * int (unat x)" unfolding a bval_snoc s(1) by simp
    then show ?thesis unfolding s(2) using low by (simp add: algebra_simps)
  next
    case True
    have x: "unat x < LB" "x \<noteq> 0" using limb_lt[of x] True by auto
    then have s: "slimb x = int (unat x) - int LB" using True by (simp add: slimb_def)
    have "int (unat x) - int LB \<le> - 1" using x(1) by (simp del: of_nat_unat)
    then have m: "?B * (int (unat x) - int LB) \<le> ?B * - 1" by (intro mult_left_mono) simp_all
    have nx: "int (unat (NOT x)) = int LB - int (unat x) - 1" using limb_not[of x] by linarith
    have "?B * (int LB - int (unat x)) = - (?B * (int (unat x) - int LB))" by (simp add: right_diff_distrib del: of_nat_unat)
    then have v: "\<bar>bval a\<bar> = ?B * (int LB - int (unat x)) - int (lval xs)" unfolding a bval_snoc s using m low by linarith
    show ?thesis
    proof (cases "lval xs = 0")
      case True
      then have t: "magnitude_top a = 1 + NOT x"
        using \<open>bit x 63\<close> by (simp add: magnitude_top_def a magnitude_carry_def lval_0_iff add.commute)
      have "1 + NOT x \<noteq> 0" using x(2) by (simp add: not_eq_complement)
      then have "int (unat (magnitude_top a)) = int LB - int (unat x)" unfolding t using nx unatSuc[of "NOT x"] by linarith
      then show ?thesis using v True B by (simp add: mult.commute ring_distribs del: of_nat_unat)
    next
      case False
      then have "magnitude_top a = NOT x"
        using \<open>bit x 63\<close> by (simp add: magnitude_top_def a magnitude_carry_def lval_0_iff)
      then have "int LB - int (unat x) = int (unat (magnitude_top a)) + 1" using nx by simp
      then have "\<bar>bval a\<bar> = ?B * (int (unat (magnitude_top a)) + 1) - int (lval xs)" using v by (simp only:)
      then have "\<bar>bval a\<bar> = int (unat (magnitude_top a)) * ?B + ?B - int (lval xs)" by (simp only: ring_distribs mult_1_right mult.commute)
      moreover have "(int (unat (magnitude_top a)) + 1) * ?B = int (unat (magnitude_top a)) * ?B + ?B" by (simp only: ring_distribs mult_1_left)
      ultimately show ?thesis using False low by linarith
    qed
  qed
  then show "int (unat (magnitude_top a)) * int LB ^ (length a - 1) \<le> \<bar>bval a\<bar>"
    "\<bar>bval a\<bar> < (int (unat (magnitude_top a)) + 1) * int LB ^ (length a - 1)"
    by (simp_all add: a)
qed

text \<open>The exponent that the code computes: that of the leading bit.\<close>

lemma get_mant_exp_bounds:
  assumes "bigint_ok a" "bval a \<noteq> 0" "js_bigint_get_mant_exp a = (mant, f)"
  shows "0 \<le> f" "2 ^ nat f \<le> \<bar>bval a\<bar>" "\<bar>bval a\<bar> < 2 ^ Suc (nat f)"
proof -
  have ne: "a \<noteq> []" using assms(1) by (simp add: bigint_ok_def)
  let ?n = "length a" and ?t = "magnitude_top a"
  have n: "0 < ?n" using ne by simp
  define s where "s = js_bigint_sign a"
  have s: "s = (if bit (last a) 63 then 1 else 0)" using ne by (simp add: s_def last_conv_nth)
  obtain lb c1 where 1: "mant_low (take (?n - 2) a) (- s) s 0 = (lb, c1)" by fastforce
  obtain t0 c2 where 2: "(if ?n = 1 then (0, c1) else abs_limb (a ! (?n - 2)) (- s) c1) = (t0, c2)" by fastforce
  obtain t1 c3 where 3: "abs_limb (a ! (?n - 1)) (- s) c2 = (t1, c3)" by fastforce
  have bl: "butlast a = take (?n - 2) a @ [a ! (?n - 2)]" if ne1: "?n \<noteq> 1"
  proof -
    obtain k where "?n = Suc (Suc k)" using ne1 n by (cases ?n; cases "?n - 1") simp_all
    then show ?thesis by (simp add: butlast_conv_take take_Suc_conv_app_nth)
  qed
  have c2: "c2 = (if s = 0 then 0 else magnitude_carry (butlast a) 1)"
  proof (cases "s = 0")
    case True
    then have "c1 = 0" using 1 mant_low_carry_plus[of "take (?n - 2) a" 0] by simp
    then show ?thesis using 2 True abs_limb_carry(1)[of "a ! (?n - 2)"] by (auto split: if_splits)
  next
    case False
    then have s1: "s = 1" using s by (simp split: if_splits)
    then have c1: "c1 = magnitude_carry (take (?n - 2) a) 1" using 1 mant_low_carry_minus[of 1 "take (?n - 2) a" 0] by simp
    show ?thesis
    proof (cases "?n = 1")
      case True
      then have "butlast a = []" "take (?n - 2) a = []" by (simp_all add: butlast_conv_take)
      then show ?thesis using 2 c1 s1 True by simp
    next
      case False
      have "c2 = magnitude_carry [a ! (?n - 2)] c1"
        using 2 False s1 abs_limb_carry(2)[of c1 "a ! (?n - 2)"] c1 by (simp add: magnitude_carry_def split: if_splits)
      then show ?thesis using c1 s1 bl[OF False] by simp
    qed
  qed
  have t1: "t1 = ?t"
  proof -
    have "t1 = (last a XOR - s) + c2" using 3 ne by (simp add: abs_limb_def Let_def last_conv_nth split: if_splits)
    then show ?thesis using c2 s by (cases "bit (last a) 63") (simp_all add: magnitude_top_def)
  qed
  have f: "f = int (?n * 64) - int (if ?t = 0 then 64 else clz64 ?t) - 1"
  proof -
    define x where "x = t0 OR (if lb \<noteq> 0 then 1 else 0)"
    have "js_bigint_get_mant_exp a = (let (shift, a1, a0) =
        (if ?t = 0 then (64, x, 0)
         else let shift = clz64 ?t in
           if shift \<noteq> 0 then (shift, push_bit shift ?t OR drop_bit (64 - shift) x, push_bit shift x) else (shift, ?t, x))
        in (a1 OR (if a0 \<noteq> 0 then 1 else 0), int (?n * 64) - int shift - 1))"
      unfolding js_bigint_get_mant_exp_def Let_def s_def[symmetric] 1 prod.case 2 3 t1 x_def ..
    then show ?thesis using assms(3) by (auto simp: Let_def split: if_splits)
  qed
  note tb = magnitude_top_bounds[OF ne]
  obtain k where k: "?n = Suc k" using n by (cases ?n) auto
  have LBk: "int LB ^ k = 2 ^ (64 * k)" by (simp add: power_mult)
  note tb = tb[unfolded k diff_Suc_1]
  have "0 \<le> f \<and> 2 ^ nat f \<le> \<bar>bval a\<bar> \<and> \<bar>bval a\<bar> < 2 ^ Suc (nat f)"
  proof (cases "?t = 0")
    case False
    note cz = clz64_bounds[OF False]
    let ?c = "clz64 ?t"
    have "f = int (64 * k + (63 - ?c))" using f False cz(3) k by simp
    then have nf: "nat f = 64 * k + (63 - ?c)" "0 \<le> f" by simp_all
    have "int (2 ^ (63 - ?c)) \<le> int (unat ?t)" using cz(1) by (simp only: of_nat_le_iff)
    then have "2 ^ (63 - ?c) \<le> int (unat ?t)" by (simp only: of_nat_power of_nat_numeral)
    then have "2 ^ (63 - ?c) * int LB ^ k \<le> int (unat ?t) * int LB ^ k" by (intro mult_right_mono) simp_all
    moreover have "2 ^ nat f = 2 ^ (63 - ?c) * int LB ^ k" unfolding nf LBk power_add by (rule mult.commute)
    ultimately have l: "2 ^ nat f \<le> \<bar>bval a\<bar>" using tb(1) by linarith
    have "int (unat ?t) < int (2 ^ (64 - ?c))" using cz(2) by (simp only: of_nat_less_iff)
    then have "int (unat ?t) + 1 \<le> 2 ^ (64 - ?c)" by (simp only: of_nat_power of_nat_numeral zless_imp_add1_zle)
    then have "(int (unat ?t) + 1) * int LB ^ k \<le> 2 ^ (64 - ?c) * int LB ^ k" by (intro mult_right_mono) simp_all
    moreover have "2 ^ (64 - ?c) * int LB ^ k = 2 ^ Suc (nat f)"
    proof -
      have "Suc (nat f) = (64 - ?c) + 64 * k" using cz(3) nf(1) by simp
      then show ?thesis unfolding LBk by (simp only: power_add)
    qed
    ultimately have "\<bar>bval a\<bar> < 2 ^ Suc (nat f)" using tb(2) by linarith
    then show ?thesis using l nf(2) by simp
  next
    case True
    have up: "\<bar>bval a\<bar> < int LB ^ k" using tb(2) True by simp
    have "k \<noteq> 0" using up assms(2) by (cases k) auto
    then have "2 * bval a < - (int LB ^ k) \<or> int LB ^ k \<le> 2 * bval a" using bigint_ok_range[OF assms(1)] k by simp
    then have lo: "int LB ^ k \<le> 2 * \<bar>bval a\<bar>" by linarith
    have "f = int (64 * k) - 1" using f True k by simp
    then have nf: "0 \<le> f" "Suc (nat f) = 64 * k" using \<open>k \<noteq> 0\<close> by simp_all
    show ?thesis using up lo nf(1) unfolding LBk nf(2)[symmetric] by simp
  qed
  then show "0 \<le> f" "2 ^ nat f \<le> \<bar>bval a\<bar>" "\<bar>bval a\<bar> < 2 ^ Suc (nat f)" by auto
qed

subsection \<open>The value of a double\<close>

definition float64_exponent :: "u64 \<Rightarrow> nat" where
  "float64_exponent d = unat (drop_bit 52 d AND (push_bit 11 1 - 1))"

definition float64_mantissa :: "u64 \<Rightarrow> nat" where
  "float64_mantissa d = unat (d AND (push_bit 52 1 - 1))"

text \<open>A finite double, normal or subnormal, as IEEE 754 reads its bits.\<close>

definition float64_magnitude :: "u64 \<Rightarrow> real" where
  "float64_magnitude d =
     (if float64_exponent d = 0 then real (float64_mantissa d) * 2 powi (- 1074)
      else (2 ^ 52 + real (float64_mantissa d)) * 2 powi (int (float64_exponent d) - 1075))"

definition float64_value :: "u64 \<Rightarrow> real" where
  "float64_value d = (if bit d 63 then - float64_magnitude d else float64_magnitude d)"

lemma mantissa_bound: "float64_mantissa d < 2 ^ 52"
proof -
  have "d AND (push_bit 52 1 - 1) = take_bit 52 d" by (simp add: take_bit_eq_mask mask_eq_exp_minus_1 push_bit_eq_mult)
  then have "float64_mantissa d = take_bit 52 (unat d)" by (simp only: float64_mantissa_def unsigned_take_bit_eq)
  then show ?thesis by (simp only: take_bit_nat_less_exp)
qed

lemma magnitude_zero: "float64_magnitude d = 0 \<longleftrightarrow> float64_exponent d = 0 \<and> float64_mantissa d = 0"
  by (auto simp: float64_magnitude_def power_int_eq_0_iff add_nonneg_eq_0_iff)

lemma magnitude_nonneg: "0 \<le> float64_magnitude d"
  by (simp add: float64_magnitude_def)

lemma magnitude_bounds:
  shows "float64_exponent d \<noteq> 0 \<Longrightarrow> 2 powi (int (float64_exponent d) - 1023) \<le> float64_magnitude d"
    "float64_magnitude d < 2 powi (int (float64_exponent d) - 1022)"
proof -
  let ?e = "int (float64_exponent d)" and ?m = "real (float64_mantissa d)"
  have m: "?m < 2 ^ 52" using of_nat_less_iff[where 'a = real, THEN iffD2, OF mantissa_bound[of d]] by simp
  have p: "(2 :: real) powi (?e - 1023) = 2 ^ 52 * 2 powi (?e - 1075)" "(2 :: real) powi (?e - 1022) = 2 ^ 53 * 2 powi (?e - 1075)"
    using power_int_add[of "2 :: real" 52 "?e - 1075"] power_int_add[of "2 :: real" 53 "?e - 1075"] by simp_all
  have pos: "0 < (2 :: real) powi (?e - 1075)" by simp
  show "2 powi (?e - 1023) \<le> float64_magnitude d" if "float64_exponent d \<noteq> 0"
    using that pos unfolding p by (simp add: float64_magnitude_def)
  show "float64_magnitude d < 2 powi (?e - 1022)"
  proof (cases "float64_exponent d = 0")
    case True
    have "?m * 2 powi (- 1074) < 2 ^ 52 * 2 powi (- 1074)" using m by (intro mult_strict_right_mono) simp_all
    also have "(2 :: real) ^ 52 * 2 powi (- 1074) = 2 powi (- 1022)" using power_int_add[of "2 :: real" 52 "- 1074"] by simp
    finally show ?thesis using True by (simp add: float64_magnitude_def)
  next
    case False
    have "(2 ^ 52 + ?m) * 2 powi (?e - 1075) < 2 ^ 53 * 2 powi (?e - 1075)" using m pos by (intro mult_strict_right_mono) simp_all
    then show ?thesis using False unfolding p by (simp add: float64_magnitude_def)
  qed
qed

subsection \<open>The comparison\<close>

definition compare :: "real \<Rightarrow> real \<Rightarrow> int" where
  "compare x y = (if x < y then - 1 else if x = y then 0 else 1)"

lemma sign_of_value: "bigint_ok a \<Longrightarrow> (if js_bigint_sign a \<noteq> 0 then 1 else 0) = (if bval a < 0 then 1 else 0 :: int)"
  using bval_neg_iff[of a] by (simp add: bigint_ok_def last_conv_nth)

lemma zero_iff: "bigint_ok a \<Longrightarrow> length a = 1 \<and> a ! 0 = 0 \<longleftrightarrow> bval a = 0"
  using bigint_canonical[of a "[0]"] by (cases a) (auto simp: bigint_ok_def bval_single)

text \<open>When one magnitude is at least twice the other, the exponents decide.\<close>

lemma exponents_decide:
  assumes "bigint_ok a" "bval a \<noteq> 0" "js_bigint_get_mant_exp a = (mant, f)"
    "float64_magnitude d \<noteq> 0" "2 * float64_magnitude d \<le> \<bar>real_of_int (bval a)\<bar> \<or> 2 * \<bar>real_of_int (bval a)\<bar> \<le> float64_magnitude d"
  shows "f \<noteq> int (float64_exponent d) - 1023"
    "f < int (float64_exponent d) - 1023 \<longleftrightarrow> \<bar>real_of_int (bval a)\<bar> < float64_magnitude d"
proof -
  let ?e = "int (float64_exponent d) - 1023" and ?A = "\<bar>real_of_int (bval a)\<bar>" and ?M = "float64_magnitude d"
  note g = get_mant_exp_bounds[OF assms(1-3)]
  have pf: "real_of_int (2 ^ n) = 2 powi (int n)" for n by simp
  have f: "2 powi f \<le> ?A" "?A < 2 powi (f + 1)"
  proof -
    have "real_of_int (2 ^ nat f) \<le> real_of_int \<bar>bval a\<bar>" using g(2) by (simp only: of_int_le_iff)
    then show "2 powi f \<le> ?A" using g(1) unfolding pf by (simp only: of_int_abs nat_0_le)
    have "real_of_int \<bar>bval a\<bar> < real_of_int (2 ^ Suc (nat f))" using g(3) by (simp only: of_int_less_iff)
    moreover have "int (Suc (nat f)) = f + 1" using g(1) by simp
    ultimately show "?A < 2 powi (f + 1)" unfolding pf by (simp only: of_int_abs)
  qed
  have M: "?M < 2 powi (?e + 1)" "?e < 0 \<or> 2 powi ?e \<le> ?M"
    using magnitude_bounds[of d] by (cases "float64_exponent d = 0"; simp add: algebra_simps)+
  have less: "?A < ?M \<and> 2 * ?A \<le> ?M" if "f < ?e"
  proof -
    have "2 powi (f + 1) \<le> (2 :: real) powi ?e" using that by (intro power_int_increasing) simp_all
    then show ?thesis using f M that g(1) assms(5) by linarith
  qed
  have ne: "f \<noteq> ?e"
  proof
    assume e: "f = ?e"
    have "2 powi (?e + 1) = 2 * (2 :: real) powi ?e" using power_int_add[of "2 :: real" ?e 1] by simp
    then show False using f M g(1) assms(5) unfolding e by linarith
  qed
  have more: "?M < ?A" if "?e < f"
  proof -
    have "2 powi (?e + 1) \<le> (2 :: real) powi f" using that by (intro power_int_increasing) simp_all
    then show ?thesis using f M by linarith
  qed
  show "f \<noteq> ?e" by (rule ne)
  show "f < ?e \<longleftrightarrow> ?A < ?M" using less more ne by (cases "f < ?e") force+
qed

text \<open>C38: \<open>js_bigint_float64_cmp\<close> on a BigInt and a finite double of which one has at least twice the magnitude of the
  other, zero included: the result is the order of the two numbers, except that two negative numbers
  are ordered the wrong way round.\<close>

theorem bigint_float64_cmp_negative:
  assumes "bigint_ok a" "float64_exponent d \<noteq> 2047"
    "2 * \<bar>float64_value d\<bar> \<le> \<bar>real_of_int (bval a)\<bar> \<or> 2 * \<bar>real_of_int (bval a)\<bar> \<le> \<bar>float64_value d\<bar>"
  shows "js_bigint_float64_cmp a d =
    (if bval a < 0 \<and> float64_value d < 0 then - compare (real_of_int (bval a)) (float64_value d)
     else compare (real_of_int (bval a)) (float64_value d))"
proof -
  let ?A = "real_of_int (bval a)" and ?v = "float64_value d" and ?M = "float64_magnitude d"
  have v: "\<bar>?v\<bar> = ?M" "?v < 0 \<longleftrightarrow> bit d 63 \<and> ?M \<noteq> 0" "?v = 0 \<longleftrightarrow> ?M = 0"
    using magnitude_nonneg[of d] by (auto simp: float64_value_def)
  have sd: "(if drop_bit 63 d \<noteq> 0 then 1 else 0 :: int) = (if bit d 63 then 1 else 0)"
    by (simp add: drop_bit_63)
  have m0: "d AND (push_bit 52 1 - 1) = 0 \<longleftrightarrow> float64_mantissa d = 0" by (simp add: float64_mantissa_def unat_eq_0)
  obtain am f where af: "js_bigint_get_mant_exp a = (am, f)" by fastforce
  have code: "js_bigint_float64_cmp a d =
     (if ?M = 0 then (if bval a = 0 then 0 else 1 - 2 * (if bval a < 0 then 1 else 0))
      else if bval a = 0 then 2 * (if bit d 63 then 1 else 0) - 1
      else if (bval a < 0) \<noteq> bit d 63 then 1 - 2 * (if bval a < 0 then 1 else 0)
      else if f < int (float64_exponent d) - 1023 then - 1 else 1)"
  proof -
    have e: "float64_exponent d \<noteq> 2047" "int (float64_exponent d) \<noteq> 2047" using assms(2) by simp_all
    have z: "int (float64_exponent d) = 0 \<and> float64_mantissa d = 0 \<longleftrightarrow> ?M = 0" using magnitude_zero[of d] by simp
    have ne: "f \<noteq> int (float64_exponent d) - 1023" if "bval a \<noteq> 0" "?M \<noteq> 0"
      using exponents_decide(1)[OF assms(1) that(1) af that(2)] assms(3) v(1) by simp
    show ?thesis
      unfolding js_bigint_float64_cmp_def Let_def float64_exponent_def[symmetric] sd m0 sign_of_value[OF assms(1)] zero_iff[OF assms(1)]
        af prod.case z if_not_P[OF e(2)]
      using ne by (cases "bval a < 0"; cases "bit d 63"; cases "?M = 0"; cases "bval a = 0"; simp)
  qed
  show ?thesis
  proof (cases "?M = 0 \<or> bval a = 0 \<or> (bval a < 0) \<noteq> bit d 63")
    case True
    then show ?thesis using v unfolding code by (auto simp: compare_def)
  next
    case False
    then have "f < int (float64_exponent d) - 1023 \<longleftrightarrow> \<bar>?A\<bar> < ?M" using exponents_decide(2)[OF assms(1) _ af, of d] assms(3) v(1) by simp
    moreover have "\<bar>?A\<bar> \<noteq> ?M" using assms(3) v(1) False by auto
    moreover have "?v = (if bval a < 0 then - ?M else ?M)" using False by (simp add: float64_value_def)
    ultimately show ?thesis using False v unfolding code by (auto simp: compare_def)
  qed
qed

text \<open>-4 against -1.0.\<close>

theorem bigint_float64_cmp_negative_witness:
  "js_bigint_float64_cmp [- 4] 0xBFF0000000000000 = 1 \<and> bval [- 4] = - 4 \<and> float64_value 0xBFF0000000000000 = - 1"
proof -
  have e: "float64_exponent 0xBFF0000000000000 = 1023" "float64_mantissa 0xBFF0000000000000 = 0" by code_simp+
  have b: "bit (0xBFF0000000000000 :: u64) 63" by simp
  have v: "float64_value 0xBFF0000000000000 = - 1"
    using power_int_add[of "2 :: real" 52 "- 52"] by (simp only: float64_value_def float64_magnitude_def e b) simp
  have a: "bval [- 4] = - 4" "bigint_ok [- 4]" by (simp_all add: bval_single slimb_sint bigint_ok_def)
  show ?thesis using bigint_float64_cmp_negative[OF a(2), of "0xBFF0000000000000"] e v a(1) by (simp add: compare_def)
qed

end
