(* ===== verification/JsString.thy ===== *)
theory JsString
  imports Utf8 Memory
begin

text \<open>
  The strings of the engine, \<open>zipline/native/quickjs/quickjs.c\<close>: the \<open>StringBuffer\<close> functions,
  the conversion of UTF-8 to a string (\<open>JS_NewStringLen\<close>) and back (\<open>JS_ToCStringLen2\<close>), and the
  comparisons and concatenation of flat strings. A \<open>JSString\<close> holds bytes (Latin-1) or UTF-16
  units; a \<open>StringBuffer\<close> starts with bytes and is widened when a larger unit arrives.

  A write past the allocated block is \<open>None\<close>. The parameter \<open>us\<close> is \<open>malloc_usable_size\<close>: the
  bytes the allocator really gave for a request.
\<close>

datatype jsstr = Str8 "u8 list" | Str16 "u16 list"

fun str_units :: "jsstr \<Rightarrow> u16 list" where
  "str_units (Str8 bs) = map ucast bs"
| "str_units (Str16 us) = us"

fun str_wide :: "jsstr \<Rightarrow> bool" where
  "str_wide (Str8 bs) = False"
| "str_wide (Str16 us) = True"

definition str_length :: "jsstr \<Rightarrow> nat" where
  "str_length p = length (str_units p)"

lemma str_length_simps [simp]: "str_length (Str8 bs) = length bs" "str_length (Str16 us) = length us"
  by (simp_all add: str_length_def)

datatype str_error = StringTooLong | StrOutOfMemory

type_synonym 'a strresult = "(str_error + 'a) \<times> memstate"

definition JS_STRING_LEN_MAX :: nat where
  "JS_STRING_LEN_MAX = 2 ^ 30 - 1"

definition sizeof_JSString :: nat where
  "sizeof_JSString = 12"

text \<open>
  \<open>js_alloc_string\<close>: a negative length becomes a request for almost the whole address space,
  which no allocator serves.
\<close>

definition js_alloc_string :: "int \<Rightarrow> memstate \<Rightarrow> bool \<times> memstate" where
  "js_alloc_string max_len m = (if max_len < 0 then (False, m) else js_malloc m)"

definition js_new_string8_len :: "u8 list \<Rightarrow> memstate \<Rightarrow> jsstr strresult" where
  "js_new_string8_len buf m =
     (if buf = [] then (Inr (Str8 []), m)
      else case js_alloc_string (int (length buf)) m of
             (False, m) \<Rightarrow> (Inl StrOutOfMemory, m)
           | (True, m) \<Rightarrow> (Inr (Str8 buf), m))"

definition js_new_string16_len :: "u16 list \<Rightarrow> memstate \<Rightarrow> jsstr strresult" where
  "js_new_string16_len buf m =
     (case js_alloc_string (int (length buf)) m of
        (False, m) \<Rightarrow> (Inl StrOutOfMemory, m)
      | (True, m) \<Rightarrow> (Inr (Str16 buf), m))"

definition js_new_string_char :: "u16 \<Rightarrow> memstate \<Rightarrow> jsstr strresult" where
  "js_new_string_char c m =
     (if c < 0x100 then js_new_string8_len [ucast c] m else js_new_string16_len [c] m)"

text \<open>\<open>js_sub_string\<close>: a wide string whose part fits bytes gives a narrow string.\<close>

definition js_sub_string :: "jsstr \<Rightarrow> nat \<Rightarrow> nat \<Rightarrow> memstate \<Rightarrow> jsstr strresult" where
  "js_sub_string p start end1 m =
     (if start = 0 \<and> end1 = str_length p then (Inr p, m)
      else case p of
        Str16 us \<Rightarrow>
          if end1 - start > 0 then
            (let part = take (end1 - start) (drop start us) in
             if foldl (OR) 0 part > 0xFF then js_new_string16_len part m
             else case js_alloc_string (int (end1 - start)) m of
                    (False, m) \<Rightarrow> (Inl StrOutOfMemory, m)
                  | (True, m) \<Rightarrow> (Inr (Str8 (map ucast part)), m))
          else js_new_string8_len [] m
      | Str8 bs \<Rightarrow> js_new_string8_len (take (end1 - start) (drop start bs)) m)"

subsection \<open>String buffers\<close>

text \<open>
  \<open>sb_str\<close> holds the \<open>len\<close> units written so far, \<open>sb_size\<close> is the capacity in units,
  \<open>sb_live\<close> tells whether \<open>str\<close> is not \<open>NULL\<close>, and \<open>sb_error\<close> the exception behind a non-zero
  \<open>error_status\<close>.
\<close>

record string_buffer =
  sb_str :: "u16 list"
  sb_size :: nat
  sb_wide :: bool
  sb_live :: bool
  sb_error :: "str_error option"

type_synonym sbresult = "(bool \<times> string_buffer \<times> memstate) option"

definition string_buffer_init2 :: "nat \<Rightarrow> bool \<Rightarrow> memstate \<Rightarrow> string_buffer \<times> memstate" where
  "string_buffer_init2 sz is_wide m =
     (case js_alloc_string (int sz) m of
        (True, m) \<Rightarrow> (\<lparr>sb_str = [], sb_size = sz, sb_wide = is_wide, sb_live = True,
                        sb_error = None\<rparr>, m)
      | (False, m) \<Rightarrow> (\<lparr>sb_str = [], sb_size = 0, sb_wide = is_wide, sb_live = False,
                        sb_error = Some StrOutOfMemory\<rparr>, m))"

definition string_buffer_init :: "nat \<Rightarrow> memstate \<Rightarrow> string_buffer \<times> memstate" where
  "string_buffer_init sz m = string_buffer_init2 sz False m"

definition string_buffer_free :: "string_buffer \<Rightarrow> memstate \<Rightarrow> string_buffer \<times> memstate" where
  "string_buffer_free s m = (s\<lparr>sb_live := False\<rparr>, if sb_live s then js_free m else m)"

definition string_buffer_set_error :: "str_error \<Rightarrow> string_buffer \<Rightarrow> memstate \<Rightarrow> sbresult" where
  "string_buffer_set_error e s m =
     Some (False, s\<lparr>sb_str := [], sb_size := 0, sb_live := False, sb_error := Some e\<rparr>,
           if sb_live s then js_free m else m)"

definition slack_of :: "(nat \<Rightarrow> nat) \<Rightarrow> nat \<Rightarrow> nat" where
  "slack_of us sz = (if us sz > sz then us sz - sz else 0)"

definition string_buffer_widen :: "(nat \<Rightarrow> nat) \<Rightarrow> string_buffer \<Rightarrow> nat \<Rightarrow> memstate \<Rightarrow> sbresult" where
  "string_buffer_widen us s sz m =
     (if sb_error s \<noteq> None then Some (False, s, m)
      else case js_realloc m of
             (False, m) \<Rightarrow> string_buffer_set_error StrOutOfMemory s m
           | (True, m) \<Rightarrow>
               Some (True, s\<lparr>sb_wide := True,
                             sb_size := sz + slack_of us (sizeof_JSString + 2 * sz) div 2\<rparr>, m))"

text \<open>\<open>s->size * 3 / 2\<close> in 32-bit arithmetic; a wrapped product is negative, so it loses to \<open>new_len\<close>.\<close>

definition grown_size :: "nat \<Rightarrow> nat" where
  "grown_size sz = nat (sint (word_of_nat (sz * 3) :: u32) div 2)"

definition string_buffer_realloc ::
    "(nat \<Rightarrow> nat) \<Rightarrow> string_buffer \<Rightarrow> nat \<Rightarrow> u32 \<Rightarrow> memstate \<Rightarrow> sbresult" where
  "string_buffer_realloc us s new_len c m =
     (if sb_error s \<noteq> None then Some (False, s, m)
      else if new_len > JS_STRING_LEN_MAX then string_buffer_set_error StringTooLong s m
      else
        let new_size = min (max new_len (grown_size (sb_size s))) JS_STRING_LEN_MAX in
        if \<not> sb_wide s \<and> c \<ge> 0x100 then string_buffer_widen us s new_size m
        else
          let bytes = sizeof_JSString + (if sb_wide s then 2 * new_size else new_size + 1) in
          case js_realloc m of
            (False, m) \<Rightarrow> string_buffer_set_error StrOutOfMemory s m
          | (True, m) \<Rightarrow>
              Some (True, s\<lparr>sb_size := min (new_size + (if sb_wide s then slack_of us bytes div 2
                                                     else slack_of us bytes)) JS_STRING_LEN_MAX\<rparr>, m))"

text \<open>A store through \<open>str8\<close> or \<open>str16\<close> at \<open>len\<close>, checked against the capacity.\<close>

definition sb_store :: "u16 list \<Rightarrow> string_buffer \<Rightarrow> string_buffer option" where
  "sb_store cs s =
     (if cs = [] \<or> sb_live s \<and> length (sb_str s) + length cs \<le> sb_size s then
        Some (s\<lparr>sb_str := sb_str s @ (if sb_wide s then cs else map (\<lambda>c. ucast (ucast c :: u8)) cs)\<rparr>)
      else None)"

definition sb_put :: "u32 \<Rightarrow> string_buffer \<Rightarrow> memstate \<Rightarrow> sbresult" where
  "sb_put c s m = map_option (\<lambda>s. (True, s, m)) (sb_store [ucast c] s)"

definition string_buffer_putc16_slow ::
    "(nat \<Rightarrow> nat) \<Rightarrow> string_buffer \<Rightarrow> u32 \<Rightarrow> memstate \<Rightarrow> sbresult" where
  "string_buffer_putc16_slow us s c m =
     do {
       (ok, s, m) \<leftarrow> (if length (sb_str s) \<ge> sb_size s
                        then string_buffer_realloc us s (length (sb_str s) + 1) c m
                        else Some (True, s, m));
       if \<not> ok then Some (False, s, m)
       else if sb_wide s \<or> c < 0x100 then sb_put c s m
       else do {
         (ok, s, m) \<leftarrow> string_buffer_widen us s (sb_size s) m;
         if \<not> ok then Some (False, s, m) else sb_put c s m
       }
     }"

definition string_buffer_putc8 ::
    "(nat \<Rightarrow> nat) \<Rightarrow> string_buffer \<Rightarrow> u32 \<Rightarrow> memstate \<Rightarrow> sbresult" where
  "string_buffer_putc8 us s c m =
     do {
       (ok, s, m) \<leftarrow> (if length (sb_str s) \<ge> sb_size s
                        then string_buffer_realloc us s (length (sb_str s) + 1) c m
                        else Some (True, s, m));
       if \<not> ok then Some (False, s, m) else sb_put c s m
     }"

definition string_buffer_putc16 ::
    "(nat \<Rightarrow> nat) \<Rightarrow> string_buffer \<Rightarrow> u32 \<Rightarrow> memstate \<Rightarrow> sbresult" where
  "string_buffer_putc16 us s c m =
     (if length (sb_str s) < sb_size s \<and> (sb_wide s \<or> c < 0x100) then sb_put c s m
      else string_buffer_putc16_slow us s c m)"

definition string_buffer_putc_slow ::
    "(nat \<Rightarrow> nat) \<Rightarrow> string_buffer \<Rightarrow> u32 \<Rightarrow> memstate \<Rightarrow> sbresult" where
  "string_buffer_putc_slow us s c m =
     (if c \<ge> 0x10000 then
        do {
          (ok, s, m) \<leftarrow> string_buffer_putc16 us s (get_hi_surrogate c) m;
          if \<not> ok then Some (False, s, m) else string_buffer_putc16 us s (get_lo_surrogate c) m
        }
      else string_buffer_putc16 us s c m)"

definition string_buffer_putc ::
    "(nat \<Rightarrow> nat) \<Rightarrow> string_buffer \<Rightarrow> u32 \<Rightarrow> memstate \<Rightarrow> sbresult" where
  "string_buffer_putc us s c m =
     (if length (sb_str s) < sb_size s \<and> sb_wide s \<and> c < 0x10000 then sb_put c s m
      else if length (sb_str s) < sb_size s \<and> sb_wide s \<and> length (sb_str s) + 1 < sb_size s then
        map_option (\<lambda>s. (True, s, m)) (sb_store [ucast (get_hi_surrogate c), ucast (get_lo_surrogate c)] s)
      else if length (sb_str s) < sb_size s \<and> \<not> sb_wide s \<and> c < 0x100 then sb_put c s m
      else string_buffer_putc_slow us s c m)"

definition string_buffer_write8 ::
    "(nat \<Rightarrow> nat) \<Rightarrow> string_buffer \<Rightarrow> u8 list \<Rightarrow> memstate \<Rightarrow> sbresult" where
  "string_buffer_write8 us s p m =
     do {
       (ok, s, m) \<leftarrow> (if length (sb_str s) + length p > sb_size s
                        then string_buffer_realloc us s (length (sb_str s) + length p) 0 m
                        else Some (True, s, m));
       if \<not> ok then Some (False, s, m)
       else map_option (\<lambda>s. (True, s, m)) (sb_store (map ucast p) s)
     }"

definition string_buffer_write16 ::
    "(nat \<Rightarrow> nat) \<Rightarrow> string_buffer \<Rightarrow> u16 list \<Rightarrow> memstate \<Rightarrow> sbresult" where
  "string_buffer_write16 us s p m =
     (let c = ucast (foldl (OR) 0 p) :: u32 in
      do {
        (ok, s, m) \<leftarrow> (if length (sb_str s) + length p > sb_size s
                         then string_buffer_realloc us s (length (sb_str s) + length p) c m
                         else if \<not> sb_wide s \<and> c \<ge> 0x100
                         then string_buffer_widen us s (sb_size s) m
                         else Some (True, s, m));
        if \<not> ok then Some (False, s, m) else map_option (\<lambda>s. (True, s, m)) (sb_store p s)
      })"

definition string_buffer_concat ::
    "(nat \<Rightarrow> nat) \<Rightarrow> string_buffer \<Rightarrow> jsstr \<Rightarrow> nat \<Rightarrow> nat \<Rightarrow> memstate \<Rightarrow> sbresult" where
  "string_buffer_concat us s p from1 to m =
     (if to \<le> from1 then Some (True, s, m)
      else case p of
        Str16 u \<Rightarrow> string_buffer_write16 us s (take (to - from1) (drop from1 u)) m
      | Str8 b \<Rightarrow> string_buffer_write8 us s (take (to - from1) (drop from1 b)) m)"

fun fill_loop :: "(nat \<Rightarrow> nat) \<Rightarrow> nat \<Rightarrow> u32 \<Rightarrow> string_buffer \<Rightarrow> memstate \<Rightarrow> sbresult" where
  "fill_loop us 0 c s m = Some (True, s, m)"
| "fill_loop us (Suc n) c s m =
     do {
       (ok, s, m) \<leftarrow> string_buffer_putc16 us s c m;
       if \<not> ok then Some (False, s, m) else fill_loop us n c s m
     }"

definition string_buffer_fill ::
    "(nat \<Rightarrow> nat) \<Rightarrow> string_buffer \<Rightarrow> u32 \<Rightarrow> nat \<Rightarrow> memstate \<Rightarrow> sbresult" where
  "string_buffer_fill us s c count m =
     do {
       (ok, s, m) \<leftarrow> (if length (sb_str s) + count > sb_size s
                        then string_buffer_realloc us s (length (sb_str s) + count) c m
                        else Some (True, s, m));
       if \<not> ok then Some (False, s, m) else fill_loop us count c s m
     }"

text \<open>Shrinking the block may fail without harm, so its outcome is only consumed.\<close>

definition string_buffer_end :: "string_buffer \<Rightarrow> memstate \<Rightarrow> jsstr strresult" where
  "string_buffer_end s m =
     (case sb_error s of
        Some e \<Rightarrow> (Inl e, m)
      | None \<Rightarrow>
          if sb_str s = [] then (Inr (Str8 []), if sb_live s then js_free m else m)
          else
            (Inr (if sb_wide s then Str16 (sb_str s) else Str8 (map ucast (sb_str s))),
             if length (sb_str s) < sb_size s then snd (js_realloc m) else m))"

subsection \<open>UTF-8 to strings\<close>

definition is_trail :: "u8 \<Rightarrow> bool" where
  "is_trail b \<longleftrightarrow> b \<ge> 0x80 \<and> b < 0xc0"

text \<open>What the decoder skips for an invalid sequence.\<close>

definition skip_invalid :: "u8 list \<Rightarrow> u8 list" where
  "skip_invalid p =
     (case dropWhile is_trail p of
        [] \<Rightarrow> []
      | _ # p \<Rightarrow> dropWhile is_trail p)"

lemma skip_invalid_shorter: "p \<noteq> [] \<Longrightarrow> length (skip_invalid p) < length p"
proof -
  assume "p \<noteq> []"
  have l: "length (dropWhile is_trail q) \<le> length q" for q by (rule length_dropWhile_le)
  show ?thesis
  proof (cases "dropWhile is_trail p")
    case Nil
    then show ?thesis using \<open>p \<noteq> []\<close> unfolding skip_invalid_def Nil by simp
  next
    case (Cons b q)
    have "length (dropWhile is_trail q) \<le> length q" "length (b # q) \<le> length p"
      using l[of q] l[of p] Cons by simp_all
    then show ?thesis unfolding skip_invalid_def Cons by simp
  qed
qed

lemma unicode_to_utf8_nonempty: "c < 0x80000000 \<Longrightarrow> unicode_to_utf8 c \<noteq> []"
  by (simp add: unicode_to_utf8_def)

lemma from_utf8_shorter: "unicode_from_utf8 p n = Some (Some (c, r)) \<Longrightarrow> length r < length p"
  using encode_decode[of p n c r] unicode_to_utf8_nonempty[of c] by (cases "unicode_to_utf8 c") auto

function new_string_loop ::
    "(nat \<Rightarrow> nat) \<Rightarrow> string_buffer \<Rightarrow> u8 list \<Rightarrow> memstate \<Rightarrow> (string_buffer \<times> memstate) option" where
  "new_string_loop us b [] m = Some (b, m)"
| "new_string_loop us b (c # p) m =
     (if c < 128 then
        do { (_, b, m) \<leftarrow> string_buffer_putc8 us b (ucast c) m; new_string_loop us b p m }
      else case unicode_from_utf8 (c # p) (int (length (c # p))) of
        None \<Rightarrow> None
      | Some None \<Rightarrow>
          do { (_, b, m) \<leftarrow> string_buffer_putc16 us b 0xfffd m;
               new_string_loop us b (skip_invalid (c # p)) m }
      | Some (Some (u, rest)) \<Rightarrow>
          if u < 0x10000 then
            do { (_, b, m) \<leftarrow> string_buffer_putc16 us b u m; new_string_loop us b rest m }
          else if u \<le> 0x10FFFF then
            do { (_, b, m) \<leftarrow> string_buffer_putc16 us b (get_hi_surrogate u) m;
                 (_, b, m) \<leftarrow> string_buffer_putc16 us b (get_lo_surrogate u) m;
                 new_string_loop us b rest m }
          else
            do { (_, b, m) \<leftarrow> string_buffer_putc16 us b 0xfffd m;
                 new_string_loop us b (skip_invalid (c # p)) m })"
  by pat_completeness auto
termination
  by (relation "measure (\<lambda>(us, b, p, m). length p)")
    (use skip_invalid_shorter in \<open>force dest: from_utf8_shorter\<close>)+

text \<open>
  The length of the buffer becomes the \<open>int\<close> size of the string buffer, and what is left of it the \<open>int\<close> bound
  of \<open>unicode_from_utf8\<close>. From \<open>2 ^ 31\<close> bytes on these conversions change the value, unless the bytes are ASCII: this is
  \<open>None\<close>.
\<close>

definition JS_NewStringLen :: "(nat \<Rightarrow> nat) \<Rightarrow> u8 list \<Rightarrow> memstate \<Rightarrow> jsstr strresult option" where
  "JS_NewStringLen us buf m =
     (let len1 = length (takeWhile (\<lambda>c. c < 128) buf) in
      if len1 > JS_STRING_LEN_MAX then Some (Inl StringTooLong, m)
      else if len1 = length buf then Some (js_new_string8_len buf m)
      else if length buf \<ge> 2 ^ 31 then None
      else
        let (b, m) = string_buffer_init (length buf) m in
        case sb_error b of
          Some e \<Rightarrow> Some (Inl e, snd (string_buffer_free b m))
        | None \<Rightarrow>
            do {
              (_, b, m) \<leftarrow> string_buffer_write8 us b (take len1 buf) m;
              (b, m) \<leftarrow> new_string_loop us b (drop len1 buf) m;
              Some (string_buffer_end b m)
            })"

text \<open>\<open>JS_NewString\<close> takes a C string, so it stops at the first zero byte.\<close>

definition JS_NewString :: "(nat \<Rightarrow> nat) \<Rightarrow> u8 list \<Rightarrow> memstate \<Rightarrow> jsstr strresult option" where
  "JS_NewString us str m = JS_NewStringLen us (cstr str) m"

subsection \<open>Strings to UTF-8\<close>

fun to_cstr_narrow :: "u8 list \<Rightarrow> u8 list" where
  "to_cstr_narrow [] = []"
| "to_cstr_narrow (c # src) =
     (if c < 0x80 then [c] else [drop_bit 6 c OR 0xc0, (c AND 0x3f) OR 0x80]) @ to_cstr_narrow src"

fun to_cstr_wide :: "bool \<Rightarrow> u16 list \<Rightarrow> u8 list" where
  "to_cstr_wide cesu8 [] = []"
| "to_cstr_wide cesu8 [c] = (if c < 0x80 then [ucast c] else unicode_to_utf8 (ucast c))"
| "to_cstr_wide cesu8 (c # c1 # src) =
     (if c < 0x80 then ucast c # to_cstr_wide cesu8 (c1 # src)
      else if is_hi_surrogate (ucast c) \<and> \<not> cesu8 \<and> is_lo_surrogate (ucast c1) then
        unicode_to_utf8 (from_surrogate (ucast c) (ucast c1)) @ to_cstr_wide cesu8 src
      else unicode_to_utf8 (ucast c) @ to_cstr_wide cesu8 (c1 # src))"

text \<open>
  The string value \<open>val\<close> is already a string here; the bytes come without the final zero. The
  capacity is computed in 32-bit arithmetic.
\<close>

definition JS_ToCStringLen2 :: "jsstr \<Rightarrow> bool \<Rightarrow> memstate \<Rightarrow> u8 list strresult" where
  "JS_ToCStringLen2 str cesu8 m =
     (case str of
        Str8 src \<Rightarrow>
          let count = length (filter (\<lambda>c. drop_bit 7 c = 1) src) in
          if count = 0 then (Inr src, m)
          else (case js_alloc_string (int (length src + count)) m of
                  (False, m) \<Rightarrow> (Inl StrOutOfMemory, m)
                | (True, m) \<Rightarrow> (Inr (to_cstr_narrow src), m))
      | Str16 src \<Rightarrow>
          case js_alloc_string (sint (word_of_nat (length src * 3) :: u32)) m of
            (False, m) \<Rightarrow> (Inl StrOutOfMemory, m)
          | (True, m) \<Rightarrow> (Inr (to_cstr_wide cesu8 src), m))"

subsection \<open>What the buffer operations append\<close>

definition sb_ok :: "string_buffer \<Rightarrow> bool" where
  "sb_ok s \<longleftrightarrow>
     (if sb_error s = None then
        sb_live s \<and> length (sb_str s) \<le> sb_size s \<and> (\<not> sb_wide s \<longrightarrow> (\<forall>c\<in>set (sb_str s). c < 0x100))
      else \<not> sb_live s \<and> sb_str s = [] \<and> sb_size s = 0)"

definition sb_blocks :: "string_buffer \<Rightarrow> int" where
  "sb_blocks s = (if sb_live s then 1 else 0)"

definition sb_appends :: "u16 list \<Rightarrow> string_buffer \<Rightarrow> memstate \<Rightarrow> sbresult \<Rightarrow> bool" where
  "sb_appends cs s m r \<longleftrightarrow> (case r of None \<Rightarrow> False | Some (ok, s', m') \<Rightarrow> sb_ok s' \<and>
     (sb_error s' = None \<longrightarrow> sb_error s = None \<and> sb_str s' = sb_str s @ cs) \<and>
     (\<not> ok \<longrightarrow> sb_error s' \<noteq> None) \<and> (ok \<and> sb_error s = None \<longrightarrow> sb_error s' = None) \<and>
     live m' - sb_blocks s' = live m - sb_blocks s \<and>
     (mem_ok m \<longrightarrow> mem_ok m' \<and>
        (sb_error s = None \<and> length (sb_str s) + length cs \<le> JS_STRING_LEN_MAX \<longrightarrow> sb_error s' = None)))"

lemma mask_byte: "c < 0x100 \<Longrightarrow> ucast (ucast (c :: u16) :: u8) = c"
  by (simp add: word_unat_eq_iff unat_ucast_mod word_less_nat_alt)

lemma set_error_spec:
  assumes "sb_ok s" "mem_ok m \<longrightarrow> e = StringTooLong \<and> JS_STRING_LEN_MAX < length (sb_str s) + length cs"
  shows "sb_appends cs s m (string_buffer_set_error e s m)"
  using assms by (auto simp: sb_appends_def string_buffer_set_error_def sb_ok_def sb_blocks_def)

text \<open>Making room: nothing is appended, the capacity reaches \<open>n\<close> and large units fit.\<close>

definition sb_room :: "nat \<Rightarrow> bool \<Rightarrow> string_buffer \<Rightarrow> memstate \<Rightarrow> sbresult \<Rightarrow> bool" where
  "sb_room n large s m r \<longleftrightarrow> (case r of None \<Rightarrow> False | Some (ok, s', m') \<Rightarrow> sb_ok s' \<and>
     (ok \<longrightarrow> sb_error s = None \<and> sb_error s' = None \<and> sb_str s' = sb_str s \<and> n \<le> sb_size s' \<and>
       (large \<longrightarrow> sb_wide s')) \<and>
     (\<not> ok \<longrightarrow> sb_error s' \<noteq> None) \<and>
     live m' - sb_blocks s' = live m - sb_blocks s \<and>
     (mem_ok m \<longrightarrow> mem_ok m' \<and> (sb_error s = None \<and> n \<le> JS_STRING_LEN_MAX \<longrightarrow> ok)))"

lemma widen_room:
  assumes "sb_ok s" "length (sb_str s) \<le> n" "k \<le> n"
  shows "sb_room k True s m (string_buffer_widen us s n m)"
proof -
  obtain ok m' where r: "js_realloc m = (ok, m')" by fastforce
  note js_realloc_spec[OF r]
  note rs = this
  show ?thesis
  proof (cases "sb_error s = None")
    case False
    then have "string_buffer_widen us s n m = Some (False, s, m)" by (simp add: string_buffer_widen_def)
    then show ?thesis using False assms(1) by (simp add: sb_room_def)
  next
    case True
    show ?thesis
    proof (cases ok)
      case ok: True
      have e: "string_buffer_widen us s n m =
          Some (True, s\<lparr>sb_wide := True, sb_size := n + slack_of us (sizeof_JSString + 2 * n) div 2\<rparr>, m')"
        using True ok r by (simp add: string_buffer_widen_def)
      show ?thesis unfolding e sb_room_def using True assms rs by (simp add: sb_ok_def sb_blocks_def)
    next
      case ok: False
      have e: "string_buffer_widen us s n m = string_buffer_set_error StrOutOfMemory s m'"
        using True ok r by (simp add: string_buffer_widen_def)
      show ?thesis unfolding e sb_room_def string_buffer_set_error_def using True assms rs ok
        by (auto simp: sb_ok_def sb_blocks_def)
    qed
  qed
qed

lemma realloc_same:
  assumes "sb_ok s" "length (sb_str s) \<le> n" "sb_error s = None" "n \<le> JS_STRING_LEN_MAX" "sb_wide s \<or> \<not> c \<ge> 0x100"
  shows "sb_room n (c \<ge> 0x100) s m (string_buffer_realloc us s n c m)"
proof -
  obtain ok m' where r: "js_realloc m = (ok, m')" by fastforce
  have w: "\<not> (\<not> sb_wide s \<and> c \<ge> 0x100)" using assms(5) by blast
  let ?n = "min (max n (grown_size (sb_size s))) JS_STRING_LEN_MAX"
  have n: "n \<le> min (?n + k) JS_STRING_LEN_MAX" for k using assms(4) by simp
  show ?thesis
  proof (cases ok)
    case True
    let ?b = "sizeof_JSString + (if sb_wide s then 2 * ?n else ?n + 1)"
    let ?s = "s\<lparr>sb_size := min (?n + (if sb_wide s then slack_of us ?b div 2 else slack_of us ?b)) JS_STRING_LEN_MAX\<rparr>"
    have e: "string_buffer_realloc us s n c m = Some (True, ?s, m')"
      using assms(3,4) r True unfolding string_buffer_realloc_def Let_def if_not_P[OF w] by simp
    have "sb_ok ?s" using assms(1,2,3) n by (auto simp: sb_ok_def intro: order_trans)
    then show ?thesis unfolding e sb_room_def using assms(3,5) n js_realloc_spec[OF r] by (auto simp: sb_blocks_def)
  next
    case False
    have e: "string_buffer_realloc us s n c m = string_buffer_set_error StrOutOfMemory s m'"
      using assms(3,4) r False unfolding string_buffer_realloc_def Let_def if_not_P[OF w] by simp
    show ?thesis unfolding e sb_room_def string_buffer_set_error_def using assms(1,3) js_realloc_spec[OF r] False
      by (auto simp: sb_ok_def sb_blocks_def)
  qed
qed

lemma realloc_room:
  assumes "sb_ok s" "length (sb_str s) \<le> n"
  shows "sb_room n (c \<ge> 0x100) s m (string_buffer_realloc us s n c m)"
proof -
  consider (err) "sb_error s \<noteq> None" | (long) "sb_error s = None" "n > JS_STRING_LEN_MAX"
    | (wide) "sb_error s = None" "n \<le> JS_STRING_LEN_MAX" "\<not> sb_wide s" "c \<ge> 0x100"
    | (same) "sb_error s = None" "n \<le> JS_STRING_LEN_MAX" "sb_wide s \<or> \<not> c \<ge> 0x100"
    by fastforce
  then show ?thesis
  proof cases
    case err
    then have "string_buffer_realloc us s n c m = Some (False, s, m)" by (simp add: string_buffer_realloc_def)
    then show ?thesis using err assms(1) by (simp add: sb_room_def)
  next
    case long
    then have "string_buffer_realloc us s n c m = string_buffer_set_error StringTooLong s m"
      by (simp add: string_buffer_realloc_def)
    then show ?thesis using long assms(1)
      by (simp add: sb_room_def string_buffer_set_error_def sb_ok_def sb_blocks_def)
  next
    case wide
    let ?n = "min (max n (grown_size (sb_size s))) JS_STRING_LEN_MAX"
    have e: "string_buffer_realloc us s n c m = string_buffer_widen us s ?n m"
      using wide by (simp add: string_buffer_realloc_def Let_def)
    have "sb_room n True s m (string_buffer_widen us s ?n m)"
      by (rule widen_room) (use assms wide in auto)
    then show ?thesis unfolding e using wide by simp
  next
    case same
    with assms show ?thesis by (intro realloc_same)
  qed
qed

lemma stay_room:
  "sb_ok s \<Longrightarrow> sb_error s = None \<Longrightarrow> n \<le> sb_size s \<Longrightarrow> (large \<longrightarrow> sb_wide s)
   \<Longrightarrow> sb_room n large s m (Some (True, s, m))"
  by (auto simp: sb_room_def)

text \<open>Room followed by a checked store appends.\<close>

lemma room_store:
  assumes r: "sb_room (length (sb_str s) + length cs) (\<exists>c\<in>set cs. c \<ge> 0x100) s m r" "sb_ok s"
    and f: "\<And>s' m'. sb_ok s' \<Longrightarrow> sb_error s' = None \<Longrightarrow> sb_str s' = sb_str s
       \<Longrightarrow> length (sb_str s) + length cs \<le> sb_size s' \<Longrightarrow> ((\<exists>c\<in>set cs. c \<ge> 0x100) \<longrightarrow> sb_wide s')
       \<Longrightarrow> f s' m' = map_option (\<lambda>s. (True, s, m')) (sb_store cs s')"
  shows "sb_appends cs s m (do { (ok, s, m) \<leftarrow> r; if \<not> ok then Some (False, s, m) else f s m })"
proof -
  obtain ok s' m' where 1: "r = Some (ok, s', m')" "sb_ok s'"
    "ok \<longrightarrow> sb_error s = None \<and> sb_error s' = None \<and> sb_str s' = sb_str s \<and>
       length (sb_str s) + length cs \<le> sb_size s' \<and> ((\<exists>c\<in>set cs. c \<ge> 0x100) \<longrightarrow> sb_wide s')"
    "\<not> ok \<longrightarrow> sb_error s' \<noteq> None" "live m' - sb_blocks s' = live m - sb_blocks s"
    "mem_ok m \<longrightarrow> mem_ok m' \<and> (sb_error s = None \<and> length (sb_str s) + length cs \<le> JS_STRING_LEN_MAX \<longrightarrow> ok)"
    using r(1) unfolding sb_room_def by (auto split: option.splits)
  show ?thesis
  proof (cases ok)
    case True
    then have 2: "f s' m' = map_option (\<lambda>s. (True, s, m')) (sb_store cs s')" using 1 by (intro f) auto
    have sm: "\<forall>c\<in>set cs. c < 0x100" if "\<not> sb_wide s'" using that 1(3) True by (auto simp: not_le[symmetric])
    have "map (\<lambda>c. ucast (ucast c :: u8)) cs = cs" if "\<not> sb_wide s'"
      using sm[OF that] by (intro map_idI mask_byte) blast
    then have st: "sb_store cs s' = Some (s'\<lparr>sb_str := sb_str s' @ cs\<rparr>)"
      using 1(2,3) True by (auto simp: sb_store_def sb_ok_def)
    have ok': "sb_ok (s'\<lparr>sb_str := sb_str s' @ cs\<rparr>)"
      using 1(2,3) True sm by (auto simp: sb_ok_def)
    show ?thesis using 1 True ok' by (simp add: sb_appends_def 2 st sb_blocks_def)
  next
    case False
    then show ?thesis using 1 by (auto simp: sb_appends_def)
  qed
qed

subsection \<open>Surrogate pairs\<close>

lemma is_hi_iff: "is_hi_surrogate c \<longleftrightarrow> unat c div 1024 = 54"
proof -
  have "is_hi_surrogate c \<longleftrightarrow> unat (drop_bit 10 c) = unat (drop_bit 10 0xD800 :: u32)"
    unfolding is_hi_surrogate_def word_unat_eq_iff ..
  then show ?thesis by (simp add: unat_drop_bit)
qed

lemma is_lo_iff: "is_lo_surrogate c \<longleftrightarrow> unat c div 1024 = 55"
proof -
  have "is_lo_surrogate c \<longleftrightarrow> unat (drop_bit 10 c) = unat (drop_bit 10 0xDC00 :: u32)"
    unfolding is_lo_surrogate_def word_unat_eq_iff ..
  then show ?thesis by (simp add: unat_drop_bit)
qed

lemma unat_get_hi:
  assumes "0x10000 \<le> u" "u \<le> 0x10FFFF"
  shows "unat (get_hi_surrogate u) = unat u div 1024 - 64 + 55296"
proof -
  have u: "65536 \<le> unat u" "unat u \<le> 1114111" using assms by (simp_all add: word_le_nat_alt)
  have "64 \<le> unat u div 1024" "unat u div 1024 < 1088" using u by (auto simp: less_eq_div_iff_mult_less_eq div_less_iff_less_mult)
  then have "unat (drop_bit 10 u - 64) = unat u div 1024 - 64" (is "unat ?x = _")
    by (subst unat_sub_le) (simp_all add: word_le_nat_alt unat_drop_bit)
  then have "unat (?x + 0xD800) = unat u div 1024 - 64 + 55296"
    using \<open>unat u div 1024 < 1088\<close> by (subst unat_add_small) simp_all
  then show ?thesis by (simp add: get_hi_surrogate_def)
qed

lemma unat_get_lo: "unat (get_lo_surrogate u) = unat u mod 1024 + 56320"
proof -
  have m: "(0x3FF :: u32) = mask 10" by (simp add: mask_eq_exp_minus_1)
  have a: "unat (u AND 0x3FF) = unat u mod 1024" unfolding m by (simp add: unat_and_mask)
  have "unat ((u AND 0x3FF) OR 0xDC00) = unat (u AND 0x3FF) + unat (0xDC00 :: u32)"
    by (rule unat_or_small[of _ 10]) (simp_all add: a mask_eq_exp_minus_1)
  then show ?thesis by (simp add: get_lo_surrogate_def a)
qed

lemma surrogate_range: "0x10000 \<le> u \<Longrightarrow> u \<le> 0x10FFFF \<Longrightarrow> get_hi_surrogate u < 0x10000 \<and> get_lo_surrogate u < 0x10000"
proof -
  assume u: "0x10000 \<le> u" "u \<le> 0x10FFFF"
  then have "unat u div 1024 < 1088" by (simp add: word_le_nat_alt div_less_iff_less_mult)
  then show ?thesis using unat_get_hi[OF u] unat_get_lo[of u] mod_less_divisor[of 1024 "unat u"]
    unfolding word_less_nat_alt by (simp del: mod_less_divisor)
qed

lemma from_surrogate_spec:
  assumes "is_hi_surrogate hi" "is_lo_surrogate lo"
  shows "unat (from_surrogate hi lo) = 65536 + 1024 * (unat hi - 55296) + (unat lo - 56320)"
    "0x10000 \<le> from_surrogate hi lo" "from_surrogate hi lo \<le> 0x10FFFF"
    "get_hi_surrogate (from_surrogate hi lo) = hi" "get_lo_surrogate (from_surrogate hi lo) = lo"
proof -
  have h: "55296 \<le> unat hi" "unat hi < 56320" using assms(1) unfolding is_hi_iff using div_mult_mod_eq[of "unat hi" 1024] mod_less_divisor[of 1024 "unat hi"] by linarith+
  have l: "56320 \<le> unat lo" "unat lo < 57344" using assms(2) unfolding is_lo_iff using div_mult_mod_eq[of "unat lo" 1024] mod_less_divisor[of 1024 "unat lo"] by linarith+
  show u: "unat (from_surrogate hi lo) = 65536 + 1024 * (unat hi - 55296) + (unat lo - 56320)"
  proof -
    have a: "unat (hi - 0xD800) = unat hi - 55296" using h by (subst unat_sub_le) (simp_all add: word_le_nat_alt)
    have b: "unat (lo - 0xDC00) = unat lo - 56320" using l by (subst unat_sub_le) (simp_all add: word_le_nat_alt)
    have m: "unat (0x400 * x) = 1024 * unat x" if "unat x < 1024" for x :: u32
      using that by (subst unat_mult_lem[THEN iffD1]) simp_all
    have m': "unat (0x400 * (hi - 0xD800)) = 1024 * (unat hi - 55296)" using h by (subst m) (simp_all add: a)
    define x y where "x = 0x400 * (hi - 0xD800)" and "y = lo - 0xDC00"
    note ux = m'[folded x_def] and uy = b[folded y_def]
    have "unat (0x10000 + x) = 65536 + unat x"
      by (subst unat_add_small) (use h ux in simp_all)
    moreover from this have "unat (0x10000 + x + y) = unat (0x10000 + x) + unat y"
      by (intro unat_add_small) (use h l ux uy in simp)
    ultimately show ?thesis unfolding from_surrogate_def x_def[symmetric] y_def[symmetric]
      using ux uy by simp
  qed
  show r: "0x10000 \<le> from_surrogate hi lo" "from_surrogate hi lo \<le> 0x10FFFF"
    using h l by (simp_all add: word_le_nat_alt u)
  obtain a b where ab: "unat hi = 55296 + a" "unat lo = 56320 + b" "a < 1024" "b < 1024"
    using that[of "unat hi - 55296" "unat lo - 56320"] h l by simp
  let ?u = "unat (from_surrogate hi lo)"
  have u': "?u = b + (64 + a) * 1024" using u ab by simp
  have m: "?u mod 1024 = b" unfolding u' mod_mult_self1 using ab(4) by simp
  have "?u div 1024 = 64 + a + b div 1024" unfolding u' by (rule div_mult_self1) simp
  then have d: "?u div 1024 = 64 + a" using ab(4) by simp
  show "get_hi_surrogate (from_surrogate hi lo) = hi" "get_lo_surrogate (from_surrogate hi lo) = lo"
    unfolding word_unat_eq_iff unat_get_hi[OF r] unat_get_lo m d using ab by simp_all
qed

lemma sb_put_eq: "sb_put c s m = map_option (\<lambda>s. (True, s, m)) (sb_store [ucast c] s)"
  by (rule sb_put_def)

lemma ucast_large: "c < 0x10000 \<Longrightarrow> (0x100 \<le> (ucast (c :: u32) :: u16)) = (0x100 \<le> c)"
  by (simp add: word_le_nat_alt unat_ucast_mod word_less_nat_alt)

lemma sb_no_error: "sb_ok s \<Longrightarrow> length (sb_str s) < sb_size s \<Longrightarrow> sb_error s = None"
  unfolding sb_ok_def by (cases "sb_error s = None") simp_all

lemma need_room:
  assumes "sb_ok s" "sb_error s = None \<or> 0 < k"
    "large \<longrightarrow> c \<ge> 0x100 \<and> (length (sb_str s) + k \<le> sb_size s \<longrightarrow> sb_wide s)"
  shows "sb_room (length (sb_str s) + k) large s m
     (if length (sb_str s) + k > sb_size s then string_buffer_realloc us s (length (sb_str s) + k) c m
      else Some (True, s, m))"
proof (cases "length (sb_str s) + k > sb_size s")
  case True
  then show ?thesis using assms(3) realloc_room[OF assms(1), of "length (sb_str s) + k" c m us]
    by (auto simp: sb_room_def split: option.splits)
next
  case False
  then have "sb_error s = None" using assms(2) sb_no_error[OF assms(1)] by linarith
  then show ?thesis using False assms by (auto intro: stay_room)
qed

lemma putc16_slow_appends:
  assumes "sb_ok s" "c < 0x10000"
  shows "sb_appends [ucast c] s m (string_buffer_putc16_slow us s c m)"
proof -
  let ?r = "if length (sb_str s) \<ge> sb_size s
            then string_buffer_realloc us s (length (sb_str s) + 1) c m else Some (True, s, m)"
  let ?f = "\<lambda>s m. if sb_wide s \<or> c < 0x100 then sb_put c s m
       else do { (ok, s, m) \<leftarrow> string_buffer_widen us s (sb_size s) m;
                 if \<not> ok then Some (False, s, m) else sb_put c s m }"
  have 1: "sb_room (length (sb_str s) + 1) False s m ?r"
    using need_room[OF assms(1), of 1 False c m us] by (simp add: less_Suc_eq_le split: if_splits)
  then obtain ok s1 m1 where r: "?r = Some (ok, s1, m1)"
    by (auto simp: sb_room_def split: option.splits)
  show ?thesis
  proof (cases "ok \<and> \<not> (sb_wide s1 \<or> c < 0x100)")
    case False
    have "sb_room (length (sb_str s) + 1) (c \<ge> 0x100) s m ?r"
      using 1 False unfolding r sb_room_def by auto
    then have "sb_appends [ucast c] s m (do { (ok, s, m) \<leftarrow> ?r; if \<not> ok then Some (False, s, m) else sb_put c s m })"
      using assms(2) by (intro room_store) (simp_all add: assms(1) sb_put_eq ucast_large)
    then show ?thesis using False unfolding string_buffer_putc16_slow_def r by auto
  next
    case True
    have s1: "sb_ok s1" "sb_error s1 = None" "sb_str s1 = sb_str s" "length (sb_str s) + 1 \<le> sb_size s1" "sb_error s = None"
      "live m1 - sb_blocks s1 = live m - sb_blocks s" "mem_ok m \<longrightarrow> mem_ok m1"
      using 1 True unfolding r sb_room_def by auto
    have "sb_room (length (sb_str s1) + 1) True s1 m1 (string_buffer_widen us s1 (sb_size s1) m1)"
      by (rule widen_room) (use s1 in \<open>auto simp: sb_ok_def\<close>)
    then have "sb_room (length (sb_str s1) + length [ucast c :: u16]) (\<exists>c\<in>set [ucast c :: u16]. c \<ge> 0x100) s1 m1
        (string_buffer_widen us s1 (sb_size s1) m1)"
      using s1(3,4) by (auto simp: sb_room_def split: option.splits)
    then have "sb_appends [ucast c] s1 m1 (do { (ok, s, m) \<leftarrow> string_buffer_widen us s1 (sb_size s1) m1;
        if \<not> ok then Some (False, s, m) else sb_put c s m })"
      by (rule room_store) (simp_all add: s1 sb_put_eq)
    then have "sb_appends [ucast c] s m (do { (ok, s, m) \<leftarrow> string_buffer_widen us s1 (sb_size s1) m1;
        if \<not> ok then Some (False, s, m) else sb_put c s m })"
      using s1 by (auto simp: sb_appends_def split: option.splits)
    then show ?thesis using True unfolding string_buffer_putc16_slow_def r by simp
  qed
qed

lemma putc16_appends:
  assumes "sb_ok s" "c < 0x10000"
  shows "sb_appends [ucast c] s m (string_buffer_putc16 us s c m)"
proof (cases "length (sb_str s) < sb_size s \<and> (sb_wide s \<or> c < 0x100)")
  case True
  then have e: "sb_error s = None" using assms(1) sb_no_error by blast
  have "sb_room (length (sb_str s) + 1) (c \<ge> 0x100) s m (Some (True, s, m))"
    using True by (intro stay_room assms(1) e) auto
  then have "sb_appends [ucast c] s m (do { (ok, s, m) \<leftarrow> Some (True, s, m); if \<not> ok then Some (False, s, m) else sb_put c s m })"
    using assms(2) by (intro room_store) (simp_all add: assms(1) sb_put_eq ucast_large)
  then show ?thesis using True by (simp add: string_buffer_putc16_def)
next
  case False
  then show ?thesis using putc16_slow_appends[OF assms] unfolding string_buffer_putc16_def if_not_P[OF False] by blast
qed

lemma putc8_appends:
  assumes "sb_ok s" "c < 0x100"
  shows "sb_appends [ucast c] s m (string_buffer_putc8 us s c m)"
proof -
  have c: "c < 0x10000" "\<not> c \<ge> 0x100" using assms(2) by (simp_all add: word_less_nat_alt word_le_nat_alt)
  have "sb_room (length (sb_str s) + 1) (c \<ge> 0x100) s m (if length (sb_str s) \<ge> sb_size s
            then string_buffer_realloc us s (length (sb_str s) + 1) c m else Some (True, s, m))"
    using need_room[OF assms(1), of 1 "c \<ge> 0x100" c m us] c(2) by (simp add: less_Suc_eq_le split: if_splits)
  then show ?thesis unfolding string_buffer_putc8_def
    by (intro room_store) (simp_all add: assms(1) sb_put_eq ucast_large[OF c(1)])
qed

lemma byte_small: "\<not> 0x100 \<le> (ucast (c :: u8) :: u16)"
proof -
  have "unat c < 256" using unat_lt_pow[of c] by simp
  then show ?thesis by (simp add: word_le_nat_alt unat_ucast_mod)
qed

lemma write8_appends:
  assumes "sb_ok s"
  shows "sb_appends (map ucast p) s m (string_buffer_write8 us s p m)"
proof (cases "sb_error s = None \<or> p \<noteq> []")
  case True
  have l: "(\<exists>c\<in>set (map ucast p :: u16 list). c \<ge> 0x100) = False" using byte_small by auto
  show ?thesis unfolding string_buffer_write8_def
    by (rule room_store) (use need_room[OF assms, of "length p" False 0 m us] True assms l in auto)
next
  case False
  then show ?thesis using assms
    by (auto simp: string_buffer_write8_def sb_ok_def sb_store_def sb_appends_def sb_blocks_def)
qed

lemma foldl_or_large:
  "(0x100 \<le> foldl (OR) a (p :: u16 list)) \<longleftrightarrow> 0x100 \<le> a \<or> (\<exists>c\<in>set p. 0x100 \<le> c)"
proof (induction p arbitrary: a)
  case (Cons c p)
  have "0x100 \<le> w \<longleftrightarrow> drop_bit 8 w \<noteq> 0" for w :: u16
    by (simp add: word_le_nat_alt word_unat_eq_iff unat_drop_bit div_eq_0_iff not_less)
  then have "0x100 \<le> a OR c \<longleftrightarrow> 0x100 \<le> a \<or> 0x100 \<le> c" by (simp add: drop_bit_or or_eq_0_iff)
  then show ?case using Cons by auto
qed simp

lemma write16_appends:
  assumes "sb_ok s"
  shows "sb_appends p s m (string_buffer_write16 us s p m)"
proof -
  define c where "c = (ucast (foldl (OR) 0 p) :: u32)"
  have l: "c \<ge> 0x100 \<longleftrightarrow> (\<exists>c\<in>set p. c \<ge> 0x100)"
  proof -
    have "c \<ge> 0x100 \<longleftrightarrow> 0x100 \<le> foldl (OR) (0 :: u16) p"
      using unat_lt_pow[of "foldl (OR) (0 :: u16) p"] by (simp add: c_def word_le_nat_alt unat_ucast_mod)
    then show ?thesis using foldl_or_large[of 0 p] by simp
  qed
  show ?thesis
  proof (cases "sb_error s = None \<or> p \<noteq> []")
    case True
    show ?thesis unfolding string_buffer_write16_def Let_def c_def[symmetric]
    proof (rule room_store, goal_cases)
      case 1
      show ?case
      proof (cases "length (sb_str s) + length p \<le> sb_size s \<and> \<not> sb_wide s \<and> c \<ge> 0x100")
        case w: True
        then have "sb_error s = None" using True sb_no_error[OF assms] by (cases p) auto
        then have "sb_room (length (sb_str s) + length p) True s m (string_buffer_widen us s (sb_size s) m)"
          using assms w by (intro widen_room) (auto simp: sb_ok_def)
        then show ?thesis using w l by (auto simp: sb_room_def split: option.splits)
      next
        case False
        have "sb_room (length (sb_str s) + length p) (c \<ge> 0x100) s m (if length (sb_str s) + length p > sb_size s
            then string_buffer_realloc us s (length (sb_str s) + length p) c m else Some (True, s, m))"
          by (rule need_room) (use assms True False in auto)
        then show ?thesis using False unfolding l[symmetric]
          by (cases "0x100 \<le> c") (auto split: if_splits)
      qed
    qed (use assms in auto)
  next
    case False
    then show ?thesis using assms
      by (auto simp: string_buffer_write16_def sb_ok_def sb_store_def sb_appends_def sb_blocks_def)
  qed
qed

lemma string_buffer_init_spec:
  "string_buffer_init2 n w m = (s, m') \<Longrightarrow> sb_ok s \<and> sb_str s = [] \<and> live m' = live m + sb_blocks s \<and>
     (mem_ok m \<longrightarrow> mem_ok m' \<and> sb_error s = None)"
  by (cases "js_malloc m")
    (auto simp: string_buffer_init2_def js_alloc_string_def sb_ok_def sb_blocks_def dest: js_malloc_spec split: bool.splits)

lemma string_buffer_end_spec:
  assumes "sb_ok s" "string_buffer_end s m = (r, m')"
  shows "case r of Inl e \<Rightarrow> sb_error s = Some e \<and> live m' = live m
     | Inr v \<Rightarrow> sb_error s = None \<and> str_units v = sb_str s \<and>
               live m' = live m - (if str_units v = [] then 1 else 0)"
proof (cases "sb_error s")
  case None
  then have k: "sb_live s" "\<not> sb_wide s \<longrightarrow> map ucast (map ucast (sb_str s) :: u8 list) = sb_str s"
    using assms(1) mask_byte by (auto simp: sb_ok_def intro!: map_idI)
  obtain ok m1 where "js_realloc m = (ok, m1)" by fastforce
  then show ?thesis using None assms(2) k js_realloc_spec[of m ok m1]
    by (auto simp: string_buffer_end_def split: if_splits)
qed (use assms in \<open>auto simp: string_buffer_end_def\<close>)

lemma sb_appendsE:
  assumes "sb_appends cs s m r"
  obtains ok s' m' where "r = Some (ok, s', m')" "sb_ok s'"
    "sb_error s' = None \<Longrightarrow> sb_error s = None \<and> sb_str s' = sb_str s @ cs"
    "\<not> ok \<Longrightarrow> sb_error s' \<noteq> None" "ok \<and> sb_error s = None \<Longrightarrow> sb_error s' = None"
    "live m' - sb_blocks s' = live m - sb_blocks s" "mem_ok m \<Longrightarrow> mem_ok m'"
    "mem_ok m \<Longrightarrow> sb_error s = None \<Longrightarrow> length (sb_str s) + length cs \<le> JS_STRING_LEN_MAX \<Longrightarrow> sb_error s' = None"
proof -
  from assms obtain x where "r = Some x" by (cases r) (simp_all add: sb_appends_def)
  then obtain ok s' m' where r: "r = Some (ok, s', m')" by (cases x) simp
  show thesis using that[OF r] assms unfolding r sb_appends_def option.case prod.case by blast
qed

lemma sb_appends_seq:
  assumes "sb_appends xs s m (Some (ok, s1, m1))" "sb_appends ys s1 m1 (Some (ok2, s2, m2))" "ok \<or> (ok2 \<longrightarrow> sb_error s2 = None)"
  shows "sb_appends (xs @ ys) s m (Some (ok2, s2, m2))"
proof -
  note a = assms(1)[unfolded sb_appends_def option.case prod.case]
    and b = assms(2)[unfolded sb_appends_def option.case prod.case]
  show ?thesis unfolding sb_appends_def option.case prod.case
  proof (intro conjI)
    show "sb_ok s2" "\<not> ok2 \<longrightarrow> sb_error s2 \<noteq> None" using b by blast+
    show "sb_error s2 = None \<longrightarrow> sb_error s = None \<and> sb_str s2 = sb_str s @ xs @ ys"
      using a b by (metis append.assoc)
    show "ok2 \<and> sb_error s = None \<longrightarrow> sb_error s2 = None" using a b assms(3) by blast
    show "live m2 - sb_blocks s2 = live m - sb_blocks s" using a b by linarith
    have "mem_ok m \<Longrightarrow> mem_ok m1 \<and> mem_ok m2" using a b by blast
    moreover have "sb_error s2 = None" if "mem_ok m" "sb_error s = None" "length (sb_str s) + length (xs @ ys) \<le> JS_STRING_LEN_MAX"
    proof -
      have "sb_error s1 = None" using a that by simp
      moreover from this have "sb_str s1 = sb_str s @ xs" using a by blast
      ultimately show ?thesis using a b that by (metis add.assoc length_append)
    qed
    ultimately show "mem_ok m \<longrightarrow> mem_ok m2 \<and>
       (sb_error s = None \<and> length (sb_str s) + length (xs @ ys) \<le> JS_STRING_LEN_MAX \<longrightarrow> sb_error s2 = None)"
      by blast
  qed
qed

lemma sb_appends_bind:
  assumes "sb_appends xs s m r" "\<And>s1 m1. sb_ok s1 \<Longrightarrow> sb_appends ys s1 m1 (f s1 m1)"
  shows "sb_appends (xs @ ys) s m (do { (ok, s, m) \<leftarrow> r; if \<not> ok then Some (False, s, m) else f s m })"
proof -
  obtain ok s1 m1 where r: "r = Some (ok, s1, m1)" "sb_ok s1" using sb_appendsE[OF assms(1)] by metis
  show ?thesis
  proof (cases ok)
    case True
    obtain ok2 s2 m2 where f: "f s1 m1 = Some (ok2, s2, m2)" using sb_appendsE[OF assms(2)[OF r(2)]] by metis
    have "sb_appends (xs @ ys) s m (Some (ok2, s2, m2))"
      using sb_appends_seq[of xs s m ok s1 m1 ys ok2 s2 m2] assms(1) assms(2)[OF r(2), of m1] True unfolding r f by blast
    then show ?thesis using True by (simp add: r f)
  next
    case False
    then show ?thesis using assms(1) by (auto simp: r sb_appends_def)
  qed
qed

lemma fill_loop_appends:
  assumes "sb_ok s" "c < 0x10000"
  shows "sb_appends (replicate n (ucast c)) s m (fill_loop us n c s m)"
  using assms(1)
proof (induction n arbitrary: s m)
  case 0
  then show ?case by (simp add: sb_appends_def)
next
  case (Suc n)
  have "sb_appends ([ucast c] @ replicate n (ucast c)) s m
     (do { (ok, s, m) \<leftarrow> string_buffer_putc16 us s c m; if \<not> ok then Some (False, s, m) else fill_loop us n c s m })"
    by (rule sb_appends_bind[OF putc16_appends[OF Suc.prems assms(2)] Suc.IH])
  then show ?case by simp
qed

lemma from_utf8_total: "unicode_from_utf8 (c # p) (int (length (c # p))) \<noteq> None"
proof -
  show ?thesis
  proof (cases "c < 0x80 \<or> utf8_trail_len c = None")
    case True
    then show ?thesis by (auto simp: unicode_from_utf8_def)
  next
    case False
    then obtain l where l: "utf8_trail_len c = Some l" by auto
    show ?thesis
    proof (cases "length p < l")
      case False
      then have "utf8_cont_loop l u p \<noteq> None" for u by (intro utf8_cont_loop_total) simp
      then obtain y where "utf8_cont_loop l (ucast c AND utf8_first_code_mask ! (l - 1)) p = Some y" by auto
      then show ?thesis using False l by (cases y) (auto simp: unicode_from_utf8_def)
    qed (auto simp: unicode_from_utf8_def l)
  qed
qed

text \<open>The units the decoder reads from a byte sequence.\<close>

function utf8_units :: "u8 list \<Rightarrow> u16 list" where
  "utf8_units [] = []"
| "utf8_units (c # p) =
     (if c < 128 then ucast c # utf8_units p
      else case unicode_from_utf8 (c # p) (int (length (c # p))) of
        None \<Rightarrow> []
      | Some None \<Rightarrow> 0xfffd # utf8_units (skip_invalid (c # p))
      | Some (Some (u, rest)) \<Rightarrow>
          if u < 0x10000 then ucast u # utf8_units rest
          else if u \<le> 0x10FFFF
          then ucast (get_hi_surrogate u) # ucast (get_lo_surrogate u) # utf8_units rest
          else 0xfffd # utf8_units (skip_invalid (c # p)))"
  by pat_completeness auto
termination
  by (relation "measure length") (use skip_invalid_shorter in \<open>force dest: from_utf8_shorter\<close>)+

lemma put_then:
  assumes 1: "sb_appends xs b m r"
    and 2: "\<And>ok b1 m1. r = Some (ok, b1, m1) \<Longrightarrow> sb_ok b1 \<Longrightarrow>
       sb_appends ys b1 m1 (map_option (\<lambda>(b, m). (sb_error b = None, b, m)) (f b1 m1))"
  shows "sb_appends (xs @ ys) b m
     (map_option (\<lambda>(b, m). (sb_error b = None, b, m)) (do { (_, b, m) \<leftarrow> r; f b m }))"
proof -
  obtain ok b1 m1 where r: "r = Some (ok, b1, m1)" "sb_ok b1" using sb_appendsE[OF 1] by metis
  note 2 = 2[OF r]
  obtain b2 m2 where f: "f b1 m1 = Some (b2, m2)" using sb_appendsE[OF 2] by force
  have "sb_appends (xs @ ys) b m (Some (sb_error b2 = None, b2, m2))"
    using sb_appends_seq[of xs b m ok b1 m1 ys "sb_error b2 = None" b2 m2] 1 2 unfolding r f by simp
  then show ?thesis by (simp add: r f)
qed

lemma new_string_loop_appends:
  "sb_ok b \<Longrightarrow> sb_appends (utf8_units p) b m
     (map_option (\<lambda>(b, m). (sb_error b = None, b, m)) (new_string_loop us b p m))"
proof (induction p arbitrary: b m rule: utf8_units.induct)
  case 1
  then show ?case by (auto simp: sb_appends_def)
next
  case (2 c p)
  let ?ok = "map_option (\<lambda>(b, m). (sb_error b = None, b, m))"
  show ?case
  proof (cases "c < 128")
    case True
    have "unat (ucast c :: u32) < 128" using True by (simp add: unat_ucast_mod word_less_nat_alt)
    then have c: "ucast c < (0x100 :: u32)" "ucast (ucast c :: u32) = (ucast c :: u16)"
      using True by (simp_all add: word_less_nat_alt word_unat_eq_iff unat_ucast_mod)
    have "sb_appends ([ucast c] @ utf8_units p) b m (?ok
       (do { (_, b, m) \<leftarrow> string_buffer_putc8 us b (ucast c) m; new_string_loop us b p m }))"
      by (rule put_then[OF putc8_appends[OF 2(6) c(1), unfolded c(2)]]) (rule 2(1)[OF True])
    then show ?thesis using True by simp
  next
    case c: False
    have put: "sb_appends (ucast u # utf8_units q) b m (?ok
        (do { (_, b, m) \<leftarrow> string_buffer_putc16 us b u m; new_string_loop us b q m }))"
      if "sb_ok b" "u < 0x10000" "\<And>b m. sb_ok b \<Longrightarrow> sb_appends (utf8_units q) b m (?ok (new_string_loop us b q m))"
      for u q b m
      using put_then[OF putc16_appends[OF that(1,2)] that(3)] by simp
    obtain x where x: "unicode_from_utf8 (c # p) (int (length (c # p))) = Some x" using from_utf8_total by fast
    show ?thesis
    proof (cases x)
      case None
      show ?thesis using put[OF 2(6), of "0xfffd", OF _ 2(2)[OF c x None]] c x None by simp
    next
      case (Some ur)
      obtain u rest where ur: "ur = (u, rest)" by fastforce
      note xs = x[unfolded Some ur] and IH = 2(3)[OF c x Some ur[symmetric]] 2(4)[OF c x Some ur[symmetric]] 2(5)[OF c x Some ur[symmetric]]
      consider "u < 0x10000" | "0x10000 \<le> u" "u \<le> 0x10FFFF" | "\<not> u < 0x10000" "\<not> u \<le> 0x10FFFF" by fastforce
      then show ?thesis
      proof cases
        case 1
        show ?thesis using put[OF 2(6) 1 IH(1)[OF 1]] c xs 1 by simp
      next
        case p: 2
        have h: "get_hi_surrogate u < 0x10000" "get_lo_surrogate u < 0x10000" using surrogate_range[OF p] by simp_all
        have n: "\<not> u < 0x10000" using p(1) by simp
        have "sb_appends ([ucast (get_hi_surrogate u)] @ ucast (get_lo_surrogate u) # utf8_units rest) b m
          (?ok (do { (_, b, m) \<leftarrow> string_buffer_putc16 us b (get_hi_surrogate u) m;
                     (_, b, m) \<leftarrow> string_buffer_putc16 us b (get_lo_surrogate u) m; new_string_loop us b rest m }))"
          by (rule put_then[OF putc16_appends[OF 2(6) h(1)]]) (rule put[OF _ h(2) IH(2)[OF n p(2)]])
        then show ?thesis using c xs n p by simp
      next
        case 3
        show ?thesis using put[OF 2(6), of "0xfffd", OF _ IH(3)[OF 3]] c xs 3 by simp
      qed
    qed
  qed
qed

subsection \<open>Strings survive the way through UTF-8\<close>

lemma utf8_units_ascii: "c < 0x80 \<Longrightarrow> utf8_units (ucast (c :: u16) # p) = c # utf8_units p"
proof -
  assume "c < 0x80"
  then have "unat (ucast c :: u8) = unat c" "unat c < 128" by (simp_all add: unat_ucast_mod word_less_nat_alt)
  then have "(ucast c :: u8) < 128" "ucast (ucast c :: u8) = c"
    by (simp_all add: word_less_nat_alt word_unat_eq_iff unat_ucast_mod)
  then show ?thesis by simp
qed

lemma encode_not_ascii:
  assumes "0x80 \<le> u" "u < 0x80000000"
  obtains b bs where "unicode_to_utf8 u = b # bs" "\<not> b < 128"
proof -
  obtain b bs where e: "unicode_to_utf8 u = b # bs"
    using unicode_to_utf8_nonempty[OF assms(2)] by (cases "unicode_to_utf8 u") auto
  have "unicode_from_utf8 (b # bs) (int (length (b # bs))) = Some (Some (u, []))"
    using decode_encode[of u "int (length (b # bs))" "[]"] assms e by simp
  moreover have "unat (ucast b :: u32) < 128" if "b < 128" using that by (simp add: unat_ucast_mod word_less_nat_alt)
  ultimately have "\<not> b < 128" using assms(1) by (auto simp: unicode_from_utf8_def word_le_nat_alt word_less_nat_alt)
  then show thesis using that e by blast
qed

lemma utf8_units_code:
  assumes "0x80 \<le> u" "u \<le> 0x10FFFF"
  shows "utf8_units (unicode_to_utf8 u @ p) =
    (if u < 0x10000 then ucast u # utf8_units p
     else ucast (get_hi_surrogate u) # ucast (get_lo_surrogate u) # utf8_units p)"
proof -
  have u: "u < 0x80000000" using assms(2) by (simp add: word_le_nat_alt word_less_nat_alt)
  obtain b bs where e: "unicode_to_utf8 u = b # bs" "\<not> b < 128" by (rule encode_not_ascii[OF assms(1) u])
  have "unicode_from_utf8 (b # bs @ p) (int (length (b # bs @ p))) = Some (Some (u, p))"
    using decode_encode[of u "int (length (b # bs @ p))" p] u e by simp
  then show ?thesis using e assms(2) by simp
qed

lemma ucast16_code: "0x80 \<le> c \<Longrightarrow> (0x80 :: u32) \<le> ucast (c :: u16) \<and> (ucast c :: u32) < 0x10000 \<and> ucast (ucast c :: u32) = c"
  using unat_lt_pow[of c] by (simp add: word_le_nat_alt word_less_nat_alt unat_ucast_mod word_unat_eq_iff)

lemma utf8_units_bmp:
  assumes "\<not> c < 0x80"
  shows "utf8_units (unicode_to_utf8 (ucast (c :: u16)) @ p) = c # utf8_units p"
proof -
  note c = ucast16_code[of c]
  have "0x80 \<le> c" using assms by simp
  moreover have "(ucast c :: u32) \<le> 0x10FFFF" using c calculation by (simp add: word_le_nat_alt word_less_nat_alt)
  ultimately show ?thesis using c by (simp add: utf8_units_code)
qed

lemma utf8_units_wide: "utf8_units (to_cstr_wide cesu8 us) = us"
proof (induction cesu8 us rule: to_cstr_wide.induct)
  case (2 cesu8 c)
  then show ?case using utf8_units_ascii[of c "[]"] utf8_units_bmp[of c "[]"] by (simp del: utf8_units.simps(2))
next
  case (3 cesu8 c c1 src)
  show ?case
  proof (cases "c < 0x80")
    case True
    then show ?thesis using 3(1) utf8_units_ascii[OF True] by (simp del: utf8_units.simps(2))
  next
    case F: False
    show ?thesis
    proof (cases "is_hi_surrogate (ucast c) \<and> \<not> cesu8 \<and> is_lo_surrogate (ucast c1)")
      case True
      note fs = from_surrogate_spec(2-5)[of "ucast c" "ucast c1"]
      have "0x80 \<le> from_surrogate (ucast c) (ucast c1)" using fs(1) True by (simp add: word_le_nat_alt)
      moreover have "ucast (ucast x :: u32) = x" for x :: u16
        using unat_lt_pow[of x] by (simp add: unat_ucast_mod word_unat_eq_iff)
      ultimately show ?thesis using fs True F 3(2) by (simp add: utf8_units_code del: utf8_units.simps(2))
    next
      case False
      show ?thesis using 3(3)[OF F False] unfolding to_cstr_wide.simps if_not_P[OF F] if_not_P[OF False] utf8_units_bmp[OF F]
        by simp
    qed
  qed
qed simp

lemma narrow_code:
  fixes c :: u8
  assumes "\<not> c < 0x80"
  shows "[drop_bit 6 c OR 0xc0, (c AND 0x3f) OR 0x80] = unicode_to_utf8 (ucast (ucast c :: u16))"
proof -
  have c: "unat c < 256" "128 \<le> unat c" using unat_lt_pow[of c] assms by (simp_all add: word_less_nat_alt)
  have u: "unat (ucast (ucast c :: u16) :: u32) = unat c" using c by (simp add: unat_ucast_mod)
  have "unicode_to_utf8 (ucast (ucast c :: u16)) =
      [ucast (drop_bit 6 (ucast (ucast c :: u16)) OR 0xc0 :: u32), utf8_cont_byte 0 (ucast (ucast c :: u16))]"
    using c by (simp add: unicode_to_utf8_def word_less_nat_alt u)
  moreover have "ucast (drop_bit 6 (ucast (ucast c :: u16)) OR 0xc0 :: u32) = drop_bit 6 c OR 0xc0"
    by (rule bit_word_eqI) (auto simp: bit_simps)
  moreover have "utf8_cont_byte 0 (ucast (ucast c :: u16)) = (c AND 0x3f) OR 0x80"
    unfolding utf8_cont_byte_def by (rule bit_word_eqI) (auto simp: bit_simps)
  ultimately show ?thesis by simp
qed

lemma utf8_units_narrow: "utf8_units (to_cstr_narrow bs) = map ucast bs"
proof (induction bs)
  case (Cons c bs)
  have e: "unat (ucast c :: u16) = unat c" using unat_lt_pow[of c] by (simp add: unat_ucast_mod)
  show ?case
  proof (cases "c < 0x80")
    case True
    then show ?thesis using Cons by simp
  next
    case False
    then have "\<not> (ucast c :: u16) < 0x80" by (simp add: word_less_nat_alt e)
    from utf8_units_bmp[OF this, of "to_cstr_narrow bs"] show ?thesis
      unfolding to_cstr_narrow.simps if_not_P[OF False] narrow_code[OF False] by (simp add: Cons)
  qed
qed simp

lemma utf8_units_all_ascii: "\<forall>b\<in>set p. b < 128 \<Longrightarrow> utf8_units p = map ucast p"
  by (induction p) auto

lemma utf8_units_append_ascii: "\<forall>b\<in>set p. b < 128 \<Longrightarrow> utf8_units (p @ q) = map ucast p @ utf8_units q"
  by (induction p) auto

lemma length_utf8_units: "length (utf8_units p) \<le> length p"
proof (induction p rule: utf8_units.induct)
  case (2 c p)
  show ?case
  proof (cases "c < 128")
    case True
    then show ?thesis using 2(1) by simp
  next
    case c: False
    have sk: "length (skip_invalid (c # p)) < length (c # p)" by (rule skip_invalid_shorter) simp
    obtain x where x: "unicode_from_utf8 (c # p) (int (length (c # p))) = Some x" using from_utf8_total by fast
    show ?thesis
    proof (cases x)
      case None
      show ?thesis using 2(2)[OF c x None] c x None sk by simp
    next
      case (Some ur)
      obtain u rest where ur: "ur = (u, rest)" by fastforce
      note xs = x[unfolded Some ur] and IH = 2(3)[OF c x Some ur[symmetric]] 2(4)[OF c x Some ur[symmetric]] 2(5)[OF c x Some ur[symmetric]]
      have sh: "length rest < length (c # p)" by (rule from_utf8_shorter[OF xs])
      have e: "c # p = unicode_to_utf8 u @ rest" using encode_decode[OF xs] by simp
      consider "u < 0x10000" | "\<not> u < 0x10000" "u \<le> 0x10FFFF" | "\<not> u < 0x10000" "\<not> u \<le> 0x10FFFF" by blast
      then show ?thesis
      proof cases
        case 1
        then show ?thesis using IH(1)[OF 1] c xs sh by simp
      next
        case p: 2
        have "length (unicode_to_utf8 u) \<ge> 2" using p encode_decode[OF xs]
          by (simp add: unicode_to_utf8_def word_less_nat_alt)
        then have "length rest + 2 \<le> length (c # p)" unfolding e by simp
        then show ?thesis using IH(2)[OF p] c xs p by simp
      next
        case 3
        then show ?thesis using IH(3)[OF 3] c xs sk by simp
      qed
    qed
  qed
qed simp

text \<open>A string with the units \<open>us\<close> was made, or none for lack of memory or because it is too long.\<close>

definition string_made :: "u16 list \<Rightarrow> bool \<Rightarrow> memstate \<Rightarrow> jsstr strresult option \<Rightarrow> bool" where
  "string_made units fits m res \<longleftrightarrow>
     (case res of
        None \<Rightarrow> False
      | Some (Inl e, m') \<Rightarrow> live m' = live m \<and> \<not> (mem_ok m \<and> fits)
      | Some (Inr v, m') \<Rightarrow>
          str_units v = units \<and> live m' = live m + (if units = [] then 0 else 1) \<and> (mem_ok m \<longrightarrow> mem_ok m'))"

lemma new_string8_made: "string_made (map ucast buf) fits m (Some (js_new_string8_len buf m))"
proof -
  obtain ok m1 where r: "js_malloc m = (ok, m1)" by fastforce
  then show ?thesis using js_malloc_spec[OF r]
    by (cases ok) (auto simp: string_made_def js_new_string8_len_def js_alloc_string_def)
qed

lemma string_buffer_end_mem_ok:
  assumes "string_buffer_end s m = (r, m')" "mem_ok m"
  shows "mem_ok m'"
proof -
  obtain ok m1 where "js_realloc m = (ok, m1)" by fastforce
  then have "mem_ok (snd (js_realloc m))" using js_realloc_spec[of m ok m1] assms(2) by simp
  moreover have "m' \<in> {m, js_free m, snd (js_realloc m)}"
    using assms(1) by (auto simp: string_buffer_end_def split: option.splits if_splits)
  ultimately show ?thesis using assms(2) by auto
qed

lemma buffer_made:
  assumes i: "string_buffer_init2 n w m = (b, m1)" and ne: "sb_error b = None"
    and a: "sb_appends units b m1 (map_option (\<lambda>(b, m). (sb_error b = None, b, m)) p)"
  shows "string_made units (length units \<le> JS_STRING_LEN_MAX) m (do { (b, m) \<leftarrow> p; Some (string_buffer_end b m) })"
proof -
  note ini = string_buffer_init_spec[OF i]
  obtain b2 m2 where p: "p = Some (b2, m2)" using sb_appendsE[OF a] by force
  note a' = a[unfolded p sb_appends_def, simplified]
  obtain r m3 where e: "string_buffer_end b2 m2 = (r, m3)" by fastforce
  have k: "sb_ok b2" using a' by blast
  note es = string_buffer_end_spec[OF k e]
  have b: "live m1 = live m + 1" "sb_live b" using ini ne by (simp_all add: sb_ok_def sb_blocks_def)
  show ?thesis
  proof (cases r)
    case (Inl err)
    then have er: "sb_error b2 = Some err" "live m3 = live m2" using es by simp_all
    then have "sb_blocks b2 = 0" using k by (simp add: sb_ok_def sb_blocks_def)
    then have "live m3 = live m" using a' b er by (simp add: sb_blocks_def)
    moreover have "\<not> (mem_ok m \<and> length units \<le> JS_STRING_LEN_MAX)"
      using a' ini er(1) ne by (metis append_Nil length_append option.distinct(1))
    ultimately show ?thesis by (simp add: p e Inl string_made_def)
  next
    case (Inr v)
    then have er: "sb_error b2 = None" "str_units v = sb_str b2" "live m3 = live m2 - (if str_units v = [] then 1 else 0)"
      using es by simp_all
    then have u: "str_units v = units" using a' ini by simp
    have "sb_blocks b2 = 1" using k er(1) by (simp add: sb_ok_def sb_blocks_def)
    then have "live m3 = live m + (if units = [] then 0 else 1)" using a' b er u by (simp add: sb_blocks_def)
    moreover have "mem_ok m \<Longrightarrow> mem_ok m3" using a' ini string_buffer_end_mem_ok[OF e] by blast
    ultimately show ?thesis using u by (simp add: p e Inr string_made_def)
  qed
qed

lemma JS_NewStringLen_made:
  assumes "length buf < 2 ^ 31 \<or> JS_NewStringLen us buf m \<noteq> None"
  shows "string_made (utf8_units buf) (length buf \<le> JS_STRING_LEN_MAX) m (JS_NewStringLen us buf m)"
proof -
  let ?n = "length (takeWhile (\<lambda>c. c < 128) buf)"
  have le: "?n \<le> length buf" by (rule length_takeWhile_le)
  have asc: "\<forall>b\<in>set (take ?n buf). b < 128" by (simp add: takeWhile_eq_take[symmetric]) (metis set_takeWhileD)
  consider "?n > JS_STRING_LEN_MAX" | "?n \<le> JS_STRING_LEN_MAX" "?n = length buf"
    | "?n \<le> JS_STRING_LEN_MAX" "?n \<noteq> length buf" by linarith
  then show ?thesis
  proof cases
    case 1
    then have "JS_NewStringLen us buf m = Some (Inl StringTooLong, m)" by (simp add: JS_NewStringLen_def)
    then show ?thesis using 1 le by (simp add: string_made_def)
  next
    case 2
    then have "JS_NewStringLen us buf m = Some (js_new_string8_len buf m)" by (simp add: JS_NewStringLen_def)
    moreover have "utf8_units buf = map ucast buf" using asc 2(2) by (intro utf8_units_all_ascii) simp
    ultimately show ?thesis using new_string8_made by simp
  next
    case 3
    then have short: "\<not> 2147483648 \<le> length buf" using assms by (auto simp: JS_NewStringLen_def)
    obtain b m1 where i: "string_buffer_init2 (length buf) False m = (b, m1)" by fastforce
    note ini = string_buffer_init_spec[OF i]
    show ?thesis
    proof (cases "sb_error b")
      case (Some e)
      then have "JS_NewStringLen us buf m = Some (Inl e, snd (string_buffer_free b m1))" "\<not> sb_live b"
        using 3 ini short by (simp_all add: JS_NewStringLen_def Let_def string_buffer_init_def i sb_ok_def)
      then show ?thesis using ini Some by (simp add: string_made_def string_buffer_free_def sb_blocks_def)
    next
      case None
      let ?p = "do { (_, b, m) \<leftarrow> string_buffer_write8 us b (take ?n buf) m1; new_string_loop us b (drop ?n buf) m }"
      have "sb_appends (map ucast (take ?n buf) @ utf8_units (drop ?n buf)) b m1
          (map_option (\<lambda>(b, m). (sb_error b = None, b, m)) ?p)"
        by (rule put_then[OF write8_appends]) (use ini new_string_loop_appends in auto)
      moreover have u: "map ucast (take ?n buf) @ utf8_units (drop ?n buf) = utf8_units buf"
        using utf8_units_append_ascii[OF asc, of "drop ?n buf"] by simp
      ultimately have "string_made (utf8_units buf) (length (utf8_units buf) \<le> JS_STRING_LEN_MAX) m
          (do { (b, m) \<leftarrow> ?p; Some (string_buffer_end b m) })"
        by (intro buffer_made[OF i None]) simp
      moreover have "(do { (b, m) \<leftarrow> ?p; Some (string_buffer_end b m) }) = JS_NewStringLen us buf m"
      proof -
        obtain ok b1 m2 where w: "string_buffer_write8 us b (take ?n buf) m1 = Some (ok, b1, m2)"
          using sb_appendsE[OF write8_appends] ini by metis
        show ?thesis using 3 None w short unfolding JS_NewStringLen_def Let_def string_buffer_init_def i by simp
      qed
      ultimately show ?thesis using length_utf8_units[of buf]
        by (auto simp: string_made_def split: option.splits prod.splits sum.splits)
    qed
  qed
qed

subsection \<open>The bytes written fit the block\<close>

lemma length_to_cstr_narrow: "length (to_cstr_narrow src) = length src + length (filter (\<lambda>c. drop_bit 7 c = 1) src)"
proof (induction src)
  case (Cons c src)
  have "drop_bit 7 c = 1 \<longleftrightarrow> \<not> c < 0x80"
    using unat_lt_pow[of c] by (auto simp: word_unat_eq_iff unat_drop_bit word_less_nat_alt div_nat_eqI not_less)
  then show ?case using Cons by simp
qed simp

lemma length_code_16: "length (unicode_to_utf8 (ucast (c :: u16))) \<le> 3"
proof -
  have "(ucast c :: u32) < 0x10000" using unat_lt_pow[of c] by (simp add: word_less_nat_alt unat_ucast_mod)
  then show ?thesis by (simp add: unicode_to_utf8_def)
qed

lemma length_to_cstr_wide: "length (to_cstr_wide cesu8 us) \<le> 3 * length us"
proof (induction cesu8 us rule: to_cstr_wide.induct)
  case (2 cesu8 c)
  then show ?case using length_code_16[of c] by simp
next
  case (3 cesu8 c c1 src)
  have six: "length (unicode_to_utf8 u) \<le> 6" for u by (simp add: unicode_to_utf8_def)
  show ?case
  proof (cases "c < 0x80")
    case True
    then show ?thesis using 3(1) by simp
  next
    case F: False
    show ?thesis
    proof (cases "is_hi_surrogate (ucast c) \<and> \<not> cesu8 \<and> is_lo_surrogate (ucast c1)")
      case True
      then show ?thesis using 3(2)[OF F True] six[of "from_surrogate (ucast c) (ucast c1)"]
        unfolding to_cstr_wide.simps if_not_P[OF F] if_P[OF True] by simp
    next
      case False
      then show ?thesis using 3(3)[OF F False] length_code_16[of c]
        unfolding to_cstr_wide.simps if_not_P[OF F] if_not_P[OF False] by simp
    qed
  qed
qed simp

lemma to_cstr_ascii: "filter (\<lambda>c. drop_bit 7 c = 1) src = [] \<Longrightarrow> to_cstr_narrow src = src"
proof (induction src)
  case (Cons c src)
  have "\<not> c < 0x80 \<Longrightarrow> drop_bit 7 c = 1"
    using unat_lt_pow[of c] by (auto simp: word_unat_eq_iff unat_drop_bit word_less_nat_alt div_nat_eqI not_less)
  then show ?case using Cons by (auto split: if_splits)
qed simp

text \<open>\<open>JS_ToCStringLen2\<close> never writes past the block it allocates: a narrow string takes its
  length plus one more byte per non-ASCII character, a wide string at most three bytes per unit.\<close>

theorem js_to_cstring_fits:
  assumes "JS_ToCStringLen2 s cesu8 m = (Inr bytes, m')"
  shows "length bytes \<le> (case s of Str8 src \<Rightarrow> length src + length (filter (\<lambda>c. drop_bit 7 c = 1) src)
                                  | Str16 src \<Rightarrow> 3 * length src)"
  using assms length_to_cstr_narrow length_to_cstr_wide
  by (cases s) (auto simp: JS_ToCStringLen2_def Let_def split: if_splits prod.splits bool.splits)

theorem js_to_cstring_fits_witness:
  "length [0xE2, 0x82, 0xAC :: u8] \<le> (case Str16 [0x20AC] of Str8 src \<Rightarrow> length src + length (filter (\<lambda>c. drop_bit 7 c = 1) src)
                                  | Str16 src \<Rightarrow> 3 * length src)"
proof (rule js_to_cstring_fits)
  show "JS_ToCStringLen2 (Str16 [0x20AC]) False \<lparr>outcomes = [], junk = 0, live = 0\<rparr>
      = (Inr [0xE2, 0x82, 0xAC], \<lparr>outcomes = [], junk = 0, live = 1\<rparr>)"
    by (simp add: JS_ToCStringLen2_def js_alloc_string_def js_malloc_def unicode_to_utf8_def utf8_cont_byte_def)
qed

text \<open>C31: A string of the engine, unpaired surrogates included, comes back unit for unit from its
  UTF-8 form, whether surrogate pairs were joined or (\<open>cesu8\<close>) kept apart.\<close>

theorem js_string_roundtrip:
  assumes "JS_ToCStringLen2 s cesu8 m = (Inr bytes, m1)" "JS_NewStringLen us bytes m2 = Some (Inr v, m3)"
  shows "str_units v = str_units s"
proof -
  have "str_units v = utf8_units bytes" using JS_NewStringLen_made[of bytes us m2] assms(2) by (simp add: string_made_def)
  moreover have "utf8_units bytes = str_units s"
  proof (cases s)
    case (Str8 src)
    then have "bytes = to_cstr_narrow src"
      using assms(1) to_cstr_ascii by (auto simp: JS_ToCStringLen2_def Let_def split: if_splits prod.splits bool.splits)
    then show ?thesis by (simp add: Str8 utf8_units_narrow)
  next
    case (Str16 src)
    then have "bytes = to_cstr_wide cesu8 src"
      using assms(1) by (auto simp: JS_ToCStringLen2_def split: prod.splits bool.splits)
    then show ?thesis by (simp add: Str16 utf8_units_wide)
  qed
  ultimately show ?thesis by simp
qed

lemmas string_eval = JS_ToCStringLen2_def js_alloc_string_def js_malloc_def js_realloc_def unicode_to_utf8_def
  utf8_cont_byte_def is_hi_surrogate_def is_lo_surrogate_def from_surrogate_def get_hi_surrogate_def get_lo_surrogate_def
  JS_NewStringLen_def string_buffer_init_def string_buffer_init2_def string_buffer_write8_def string_buffer_putc16_def
  string_buffer_putc16_slow_def string_buffer_putc8_def string_buffer_widen_def string_buffer_realloc_def
  string_buffer_end_def sb_store_def sb_put_def slack_of_def JS_STRING_LEN_MAX_def
  sizeof_JSString_def Let_def

theorem js_string_roundtrip_witness:
  "str_units (Str16 [0xD83D, 0xDE00]) = str_units (Str16 [0xD83D, 0xDE00])"
proof (rule js_string_roundtrip)
  let ?m = "\<lparr>outcomes = [], junk = 0, live = 0\<rparr> :: memstate"
  show "JS_ToCStringLen2 (Str16 [0xD83D, 0xDE00]) False ?m = (Inr [0xF0, 0x9F, 0x98, 0x80], \<lparr>outcomes = [], junk = 0, live = 1\<rparr>)"
    by (simp add: string_eval)
  have "unicode_from_utf8 [0xF0, 0x9F, 0x98, 0x80] 4 = Some (Some (0x1F600, []))" by code_simp
  then show "JS_NewStringLen id [0xF0, 0x9F, 0x98, 0x80] ?m = Some (Inr (Str16 [0xD83D, 0xDE00]), \<lparr>outcomes = [], junk = 0, live = 1\<rparr>)"
    by (simp add: string_eval)
qed

text \<open>C32: \<open>JS_NewStringLen\<close> never writes outside its buffer, whatever the bytes and whatever the allocator answers: it
  either gives a string with exactly the units of the UTF-8 text (invalid sequences replaced by
  U+FFFD) in one block that stays allocated, or it fails, which needs an allocation failure or
  a text beyond the maximal length, and then every block is freed again. The text has less than \<open>2 ^ 31\<close> bytes.\<close>

theorem js_new_string_len_correct:
  assumes "length buf < 2 ^ 31"
  shows "\<exists>r m'. JS_NewStringLen us buf m = Some (r, m') \<and>
     (case r of
        Inr v \<Rightarrow> str_units v = utf8_units buf \<and> live m' = live m + (if utf8_units buf = [] then 0 else 1)
      | Inl e \<Rightarrow> live m' = live m \<and> \<not> (mem_ok m \<and> length buf \<le> JS_STRING_LEN_MAX))"
proof (cases "JS_NewStringLen us buf m")
  case None
  then show ?thesis using JS_NewStringLen_made[of buf us m] assms by (simp add: string_made_def)
next
  case (Some x)
  obtain r m' where x: "x = (r, m')" by fastforce
  show ?thesis using JS_NewStringLen_made[of buf us m] assms Some x
    by (intro exI[of _ r] exI[of _ m']) (cases r; simp add: string_made_def)
qed

text \<open>A truncated sequence, and no memory for the wide string that U+FFFD needs.\<close>

theorem js_new_string_len_correct_witness:
  "\<exists>r m'. JS_NewStringLen id [0x61, 0xE2, 0x82] \<lparr>outcomes = [True, False], junk = 0, live = 5\<rparr> = Some (r, m') \<and>
     (case r of
        Inr v \<Rightarrow> str_units v = utf8_units [0x61, 0xE2, 0x82] \<and> live m' = live \<lparr>outcomes = [True, False], junk = 0, live = 5\<rparr> + (if utf8_units [0x61, 0xE2, 0x82] = [] then 0 else 1)
      | Inl e \<Rightarrow> live m' = live \<lparr>outcomes = [True, False], junk = 0, live = 5\<rparr> \<and>
          \<not> (mem_ok \<lparr>outcomes = [True, False], junk = 0, live = 5\<rparr> \<and> length [0x61 :: u8, 0xE2, 0x82] \<le> JS_STRING_LEN_MAX))"
  by (rule js_new_string_len_correct) simp

end
