(* ===== verification/Ropes.thy ===== *)
theory Ropes
  imports JsString
begin

text \<open>
  String comparison, concatenation and the ropes of \<open>zipline/native/quickjs/quickjs.c\<close>. A string
  value of the engine is a flat \<open>JSString\<close> (\<open>Leaf\<close>) or a \<open>JSStringRope\<close> (\<open>Node\<close>) that stores its
  length, width and a bound of its depth beside its two parts. Concatenation copies short
  strings and builds nodes for long ones; a node deeper than \<open>JS_STRING_ROPE_MAX_DEPTH\<close> is
  rebuilt from its leaves with one bucket per Fibonacci number.

  Reference counts are not part of the model: ropes are values here, and what the code does in
  place (\<open>JS_ConcatStringInPlace\<close>, the update in \<open>js_linearize_string_rope\<close>) is returned.
\<close>

definition JS_STRING_ROPE_SHORT_LEN :: nat where
  "JS_STRING_ROPE_SHORT_LEN = 512"

definition JS_STRING_ROPE_SHORT2_LEN :: nat where
  "JS_STRING_ROPE_SHORT2_LEN = 8192"

definition JS_STRING_ROPE_MAX_DEPTH :: nat where
  "JS_STRING_ROPE_MAX_DEPTH = 60"

datatype rope = Leaf jsstr
  | Node (node_len: nat) (node_wide: bool) (node_depth: nat) (node_left: rope) (node_right: rope)

fun rope_units :: "rope \<Rightarrow> u16 list" where
  "rope_units (Leaf s) = str_units s"
| "rope_units (Node n w d l r) = rope_units l @ rope_units r"

subsection \<open>Comparison of flat strings\<close>

text \<open>
  The difference of the first units that differ. Of \<open>memcmp\<close> the library specifies only the sign, and the callers use
  only the sign; the model takes the difference there too.
\<close>

fun memcmp16_8 :: "u16 list \<Rightarrow> u8 list \<Rightarrow> nat \<Rightarrow> int" where
  "memcmp16_8 (a # as) (b # bs) (Suc n) =
     (let c = uint a - uint b in if c \<noteq> 0 then c else memcmp16_8 as bs n)"
| "memcmp16_8 _ _ _ = 0"

fun memcmp16 :: "u16 list \<Rightarrow> u16 list \<Rightarrow> nat \<Rightarrow> int" where
  "memcmp16 (a # as) (b # bs) (Suc n) =
     (let c = uint a - uint b in if c \<noteq> 0 then c else memcmp16 as bs n)"
| "memcmp16 _ _ _ = 0"

fun memcmp8 :: "u8 list \<Rightarrow> u8 list \<Rightarrow> nat \<Rightarrow> int" where
  "memcmp8 (a # as) (b # bs) (Suc n) =
     (let c = uint a - uint b in if c \<noteq> 0 then c else memcmp8 as bs n)"
| "memcmp8 _ _ _ = 0"

fun js_string_memcmp :: "jsstr \<Rightarrow> nat \<Rightarrow> jsstr \<Rightarrow> nat \<Rightarrow> nat \<Rightarrow> int" where
  "js_string_memcmp (Str8 a) pos1 (Str8 b) pos2 n = memcmp8 (drop pos1 a) (drop pos2 b) n"
| "js_string_memcmp (Str8 a) pos1 (Str16 b) pos2 n = - memcmp16_8 (drop pos2 b) (drop pos1 a) n"
| "js_string_memcmp (Str16 a) pos1 (Str8 b) pos2 n = memcmp16_8 (drop pos1 a) (drop pos2 b) n"
| "js_string_memcmp (Str16 a) pos1 (Str16 b) pos2 n = memcmp16 (drop pos1 a) (drop pos2 b) n"

definition js_string_eq :: "jsstr \<Rightarrow> jsstr \<Rightarrow> bool" where
  "js_string_eq p1 p2 =
     (str_length p1 = str_length p2 \<and> js_string_memcmp p1 0 p2 0 (str_length p1) = 0)"

definition cmp_lengths :: "nat \<Rightarrow> nat \<Rightarrow> int" where
  "cmp_lengths n1 n2 = (if n1 = n2 then 0 else if n1 < n2 then - 1 else 1)"

definition js_string_compare :: "jsstr \<Rightarrow> jsstr \<Rightarrow> int" where
  "js_string_compare p1 p2 =
     (let res = js_string_memcmp p1 0 p2 0 (min (str_length p1) (str_length p2)) in
      if res = 0 then cmp_lengths (str_length p1) (str_length p2) else res)"

subsection \<open>Concatenation of flat strings\<close>

definition JS_ConcatString1 :: "jsstr \<Rightarrow> jsstr \<Rightarrow> memstate \<Rightarrow> jsstr strresult" where
  "JS_ConcatString1 p1 p2 m =
     (if str_length p1 + str_length p2 > JS_STRING_LEN_MAX then (Inl StringTooLong, m)
      else case js_alloc_string (int (str_length p1 + str_length p2)) m of
        (False, m) \<Rightarrow> (Inl StrOutOfMemory, m)
      | (True, m) \<Rightarrow>
          (Inr (case (p1, p2) of
                  (Str8 a, Str8 b) \<Rightarrow> Str8 (a @ b)
                | _ \<Rightarrow> Str16 (str_units p1 @ str_units p2)), m))"

text \<open>
  \<open>blk\<close> tells for the block of a string its reference count and usable size in bytes. The result
  is the extended string when the second one fits behind the first.
\<close>

definition JS_ConcatStringInPlace :: "(jsstr \<Rightarrow> nat \<times> nat) \<Rightarrow> jsstr \<Rightarrow> jsstr \<Rightarrow> jsstr option" where
  "JS_ConcatStringInPlace blk p1 p2 =
     (if str_length p2 = 0 then Some p1
      else if fst (blk p1) \<noteq> 1 then None
      else case p1 of
        Str16 a \<Rightarrow>
          if snd (blk p1) \<ge> sizeof_JSString + 2 * (length a + str_length p2)
          then Some (Str16 (a @ str_units p2)) else None
      | Str8 a \<Rightarrow>
          (case p2 of
             Str16 b \<Rightarrow> None
           | Str8 b \<Rightarrow>
               if snd (blk p1) \<ge> sizeof_JSString + length a + length b + 1
               then Some (Str8 (a @ b)) else None))"

definition JS_ConcatString2 :: "(jsstr \<Rightarrow> nat \<times> nat) \<Rightarrow> jsstr \<Rightarrow> jsstr \<Rightarrow> memstate \<Rightarrow> jsstr strresult" where
  "JS_ConcatString2 blk op1 op2 m =
     (case JS_ConcatStringInPlace blk op1 op2 of
        Some p \<Rightarrow> (Inr p, m)
      | None \<Rightarrow> JS_ConcatString1 op1 op2 m)"

subsection \<open>Reading ropes\<close>

fun string_rope_get_len :: "rope \<Rightarrow> nat" where
  "string_rope_get_len (Leaf p) = str_length p"
| "string_rope_get_len (Node n w d l r) = n"

fun rope_wide :: "rope \<Rightarrow> bool" where
  "rope_wide (Leaf p) = str_wide p"
| "rope_wide (Node n w d l r) = w"

fun rope_depth :: "rope \<Rightarrow> nat" where
  "rope_depth (Leaf p) = 0"
| "rope_depth (Node n w d l r) = d"

definition string_get :: "jsstr \<Rightarrow> nat \<Rightarrow> u16 option" where
  "string_get p idx = rd (str_units p) idx"

fun string_rope_get :: "rope \<Rightarrow> nat \<Rightarrow> u16 option" where
  "string_rope_get (Leaf p) idx = string_get p idx"
| "string_rope_get (Node n w d l r) idx =
     (let len = string_rope_get_len l in
      if idx < len then string_rope_get l idx else string_rope_get r (idx - len))"

text \<open>
  The iterator is its stack, the top first; \<open>string_rope_iter_next\<close> gives \<open>None\<close> when the
  assertion on the stack fails, \<open>Some (None, _)\<close> at the end.
\<close>

type_synonym rope_iter = "rope list"

definition string_rope_iter_init :: "rope \<Rightarrow> rope_iter" where
  "string_rope_iter_init val = [val]"

fun rope_iter_descend :: "rope \<Rightarrow> rope_iter \<Rightarrow> (jsstr option \<times> rope_iter) option" where
  "rope_iter_descend (Leaf p) stack = Some (Some p, stack)"
| "rope_iter_descend (Node n w d l r) stack =
     (if length stack < JS_STRING_ROPE_MAX_DEPTH then rope_iter_descend l (r # stack) else None)"

fun string_rope_iter_next :: "rope_iter \<Rightarrow> (jsstr option \<times> rope_iter) option" where
  "string_rope_iter_next [] = Some (None, [])"
| "string_rope_iter_next (val # stack) = rope_iter_descend val stack"

fun rope_weight :: "rope \<Rightarrow> nat" where
  "rope_weight (Leaf p) = 1"
| "rope_weight (Node n w d l r) = 1 + rope_weight l + rope_weight r"

definition iter_weight :: "rope_iter \<Rightarrow> nat" where
  "iter_weight stack = sum_list (map rope_weight stack)"

lemma descend_weight:
  "rope_iter_descend val stack = Some (p, stack') \<Longrightarrow> iter_weight stack' < rope_weight val + iter_weight stack"
  by (induction val stack rule: rope_iter_descend.induct) (force simp: iter_weight_def split: if_splits)+

lemma iter_next_weight:
  "string_rope_iter_next it = Some (p, it') \<Longrightarrow>
     iter_weight it' < iter_weight it \<or> it = [] \<and> it' = [] \<and> p = None"
  by (cases it) (auto simp: iter_weight_def dest: descend_weight)

definition iter_step :: "jsstr \<Rightarrow> nat \<Rightarrow> rope_iter \<Rightarrow> (jsstr option \<times> nat \<times> rope_iter) option" where
  "iter_step p pos it =
     (if pos \<ge> str_length p then map_option (\<lambda>(p, it). (p, 0, it)) (string_rope_iter_next it)
      else Some (Some p, pos, it))"

definition side_weight :: "jsstr option \<Rightarrow> rope_iter \<Rightarrow> nat" where
  "side_weight p it = iter_weight it + (if p = None then 0 else 1)"

lemma iter_step_weight:
  assumes "iter_step p pos it = Some (p', pos', it')"
  shows "side_weight p' it' \<le> side_weight (Some p) it"
    "pos \<ge> str_length p \<Longrightarrow> side_weight p' it' < side_weight (Some p) it"
  using assms iter_next_weight[of it p' it']
  by (auto simp: iter_step_def side_weight_def split: if_splits)

text \<open>The loop of \<open>js_string_rope_compare\<close>; a missing string would be read through \<open>NULL\<close>.\<close>

function rope_compare_loop ::
    "jsstr option \<Rightarrow> nat \<Rightarrow> rope_iter \<Rightarrow> jsstr option \<Rightarrow> nat \<Rightarrow> rope_iter \<Rightarrow> nat \<Rightarrow> int option" where
  "rope_compare_loop p1 pos1 it1 p2 pos2 it2 len =
     (if len = 0 then Some 0
      else case p1 of None \<Rightarrow> None | Some s1 \<Rightarrow>
        (case p2 of None \<Rightarrow> None | Some s2 \<Rightarrow>
          let l = min (min (str_length s1 - pos1) (str_length s2 - pos2)) len;
              res = js_string_memcmp s1 pos1 s2 pos2 l
          in if res \<noteq> 0 then Some res
             else do {
               (p1, pos1, it1) \<leftarrow> iter_step s1 (pos1 + l) it1;
               (p2, pos2, it2) \<leftarrow> iter_step s2 (pos2 + l) it2;
               rope_compare_loop p1 pos1 it1 p2 pos2 it2 (len - l)
             }))"
  by pat_completeness auto
termination
proof (relation "measure (\<lambda>(p1, pos1, it1, p2, pos2, it2, len). len + side_weight p1 it1 + side_weight p2 it2)",
    goal_cases)
  case (2 p1 pos1 it1 p2 pos2 it2 len s1 s2 l res x p1' y pos1' it1' x2 p2' y2 pos2' it2')
  have 1: "iter_step s1 (pos1 + l) it1 = Some (p1', pos1', it1')" "iter_step s2 (pos2 + l) it2 = Some (p2', pos2', it2')"
    using 2 by auto
  note w = iter_step_weight[OF 1(1)] iter_step_weight[OF 1(2)]
  have ld: "l = min (min (str_length s1 - pos1) (str_length s2 - pos2)) len" and ln: "len \<noteq> 0" using 2 by blast+
  have l: "l \<le> len" "l = 0 \<Longrightarrow> pos1 + l \<ge> str_length s1 \<or> pos2 + l \<ge> str_length s2" "len \<noteq> 0"
    using ld ln by linarith+
  have "len - l + side_weight p1' it1' + side_weight p2' it2' < len + side_weight (Some s1) it1 + side_weight (Some s2) it2"
  proof (cases "l = 0")
    case True
    then consider "pos1 + l \<ge> str_length s1" | "pos2 + l \<ge> str_length s2" using l(2) by blast
    then show ?thesis using w l(1) by cases linarith+
  next
    case False
    then show ?thesis using w(1,3) l by linarith
  qed
  moreover have "p1 = Some s1" "p2 = Some s2" using 2 by blast+
  ultimately show ?case by (simp only: in_measure prod.case)
qed simp

definition js_string_rope_compare :: "rope \<Rightarrow> rope \<Rightarrow> bool \<Rightarrow> int option" where
  "js_string_rope_compare op1 op2 eq_only =
     (let len1 = string_rope_get_len op1; len2 = string_rope_get_len op2 in
      if eq_only \<and> len1 \<noteq> len2 then Some 1
      else do {
        (p1, it1) \<leftarrow> string_rope_iter_next (string_rope_iter_init op1);
        (p2, it2) \<leftarrow> string_rope_iter_next (string_rope_iter_init op2);
        res \<leftarrow> rope_compare_loop p1 0 it1 p2 0 it2 (min len1 len2);
        Some (if res \<noteq> 0 then res else cmp_lengths len1 len2)
      })"

subsection \<open>Flattening a rope\<close>

fun string_buffer_concat_value ::
    "(nat \<Rightarrow> nat) \<Rightarrow> string_buffer \<Rightarrow> rope \<Rightarrow> memstate \<Rightarrow> sbresult" where
  "string_buffer_concat_value us s (Leaf p) m =
     (if sb_error s \<noteq> None then Some (False, s, m)
      else string_buffer_concat us s p 0 (str_length p) m)"
| "string_buffer_concat_value us s (Node n w d l r) m =
     (if sb_error s \<noteq> None then Some (False, s, m)
      else do {
        (ok, s, m) \<leftarrow> string_buffer_concat_value us s l m;
        if \<not> ok then Some (False, s, m) else string_buffer_concat_value us s r m
      })"

text \<open>
  The flat string and the rope as it is left for other holders of the value; a leaf is not a rope
  and is returned as it is by the callers.
\<close>

definition is_empty_leaf :: "rope \<Rightarrow> bool" where
  "is_empty_leaf v = (case v of Leaf p \<Rightarrow> str_length p = 0 | _ \<Rightarrow> False)"

fun js_linearize_string_rope :: "(nat \<Rightarrow> nat) \<Rightarrow> rope \<Rightarrow> memstate \<Rightarrow> (rope \<times> rope) strresult option" where
  "js_linearize_string_rope us (Leaf p) m = Some (Inr (Leaf p, Leaf p), m)"
| "js_linearize_string_rope us (Node n w d l r) m =
     (if is_empty_leaf r then Some (Inr (l, Node n w d l r), m)
      else
        let (b, m) = string_buffer_init2 n w m in
        case sb_error b of
          Some e \<Rightarrow> Some (Inl e, m)
        | None \<Rightarrow>
            do {
              (ok, b, m) \<leftarrow> string_buffer_concat_value us b (Node n w d l r) m;
              case string_buffer_end b m of
                (Inl e, m) \<Rightarrow> Some (Inl e, m)
              | (Inr p, m) \<Rightarrow> Some (Inr (Leaf p, Node n w d (Leaf p) (Leaf (Str8 []))), m)
            })"

subsection \<open>Building and rebalancing ropes\<close>

definition rope_node :: "rope \<Rightarrow> rope \<Rightarrow> memstate \<Rightarrow> rope strresult" where
  "rope_node op1 op2 m =
     (let len = string_rope_get_len op1 + string_rope_get_len op2 in
      if len > JS_STRING_LEN_MAX then (Inl StringTooLong, m)
      else case js_malloc m of
        (False, m) \<Rightarrow> (Inl StrOutOfMemory, m)
      | (True, m) \<Rightarrow>
          (Inr (Node len (rope_wide op1 \<or> rope_wide op2) (max (rope_depth op1) (rope_depth op2) + 1) op1 op2), m))"

definition ROPE_N_BUCKETS :: nat where
  "ROPE_N_BUCKETS = 44"

definition rope_bucket_len :: "nat list" where
  "rope_bucket_len =
    [1, 2, 3, 5, 8, 13, 21, 34, 55, 89, 144, 233, 377, 610, 987, 1597, 2584, 4181, 6765, 10946,
     17711, 28657, 46368, 75025, 121393, 196418, 317811, 514229, 832040, 1346269, 2178309, 3524578,
     5702887, 9227465, 14930352, 24157817, 39088169, 63245986, 102334155, 165580141, 267914296,
     433494437, 701408733, 1134903170]"

text \<open>
  The rebalancing functions take the constructor \<open>js_new_string_rope\<close> they call as the argument
  \<open>mk\<close>, since the two call each other. Buckets are \<open>None\<close> for \<open>JS_NULL\<close>. A result \<open>None\<close> is an index
  outside the arrays or, below, exhausted fuel.
\<close>

type_synonym mk_rope = "rope \<Rightarrow> rope \<Rightarrow> memstate \<Rightarrow> rope strresult option"

type_synonym buckets = "rope option list"

text \<open>The first loop: everything in the buckets that are too small for the new leaf.\<close>

function rope_collect ::
    "mk_rope \<Rightarrow> nat \<Rightarrow> nat \<Rightarrow> rope option \<Rightarrow> buckets \<Rightarrow> memstate
     \<Rightarrow> ((rope option \<times> nat) option \<times> buckets \<times> memstate) option" where
  "rope_collect mk len i a bs m =
     (if i + 1 \<ge> ROPE_N_BUCKETS then None
      else if len < rope_bucket_len ! (i + 1) then Some (Some (a, i), bs, m)
      else case bs ! i of
        None \<Rightarrow> rope_collect mk len (i + 1) a bs m
      | Some b \<Rightarrow>
          (case a of
             None \<Rightarrow> rope_collect mk len (i + 1) (Some b) (bs[i := None]) m
           | Some a \<Rightarrow>
               do {
                 (r, m) \<leftarrow> mk b a m;
                 case r of
                   Inl e \<Rightarrow> Some (None, bs[i := None], m)
                 | Inr a \<Rightarrow> rope_collect mk len (i + 1) (Some a) (bs[i := None]) m
               }))"
  by pat_completeness auto
termination by (relation "measure (\<lambda>(mk, len, i, a, bs, m). ROPE_N_BUCKETS - i)") auto

text \<open>The second loop: the carry into the occupied buckets above.\<close>

function rope_carry ::
    "mk_rope \<Rightarrow> nat \<Rightarrow> rope \<Rightarrow> buckets \<Rightarrow> memstate \<Rightarrow> (bool \<times> buckets \<times> memstate) option" where
  "rope_carry mk i a bs m =
     (if i \<ge> ROPE_N_BUCKETS then None
      else case bs ! i of
        None \<Rightarrow> Some (True, bs[i := Some a], m)
      | Some b \<Rightarrow>
          do {
            (r, m) \<leftarrow> mk b a m;
            case r of
              Inl e \<Rightarrow> Some (False, bs[i := None], m)
            | Inr a \<Rightarrow> rope_carry mk (i + 1) a (bs[i := None]) m
          })"
  by pat_completeness auto
termination by (relation "measure (\<lambda>(mk, i, a, bs, m). ROPE_N_BUCKETS - i)") auto

definition rope_insert_leaf ::
    "mk_rope \<Rightarrow> jsstr \<Rightarrow> buckets \<Rightarrow> memstate \<Rightarrow> (bool \<times> buckets \<times> memstate) option" where
  "rope_insert_leaf mk p bs m =
     (if str_length p = 0 then Some (True, bs, m)
      else do {
        (ai, bs, m) \<leftarrow> rope_collect mk (str_length p) 0 None bs m;
        case ai of
          None \<Rightarrow> Some (False, bs, m)
        | Some (None, i) \<Rightarrow> rope_carry mk i (Leaf p) bs m
        | Some (Some a, i) \<Rightarrow>
            do {
              (r, m) \<leftarrow> mk a (Leaf p) m;
              case r of
                Inl e \<Rightarrow> Some (False, bs, m)
              | Inr a \<Rightarrow> rope_carry mk i a bs m
            }
      })"

text \<open>The status of the two calls for a node is dropped, as in the source.\<close>

fun js_rebalancee_string_rope_rec ::
    "mk_rope \<Rightarrow> rope \<Rightarrow> buckets \<Rightarrow> memstate \<Rightarrow> (bool \<times> buckets \<times> memstate) option" where
  "js_rebalancee_string_rope_rec mk (Leaf p) bs m = rope_insert_leaf mk p bs m"
| "js_rebalancee_string_rope_rec mk (Node n w d l r) bs m =
     do {
       (_, bs, m) \<leftarrow> js_rebalancee_string_rope_rec mk l bs m;
       (_, bs, m) \<leftarrow> js_rebalancee_string_rope_rec mk r bs m;
       Some (True, bs, m)
     }"

fun rope_join :: "mk_rope \<Rightarrow> rope option \<Rightarrow> buckets \<Rightarrow> memstate \<Rightarrow> rope option strresult option" where
  "rope_join mk a [] m = Some (Inr a, m)"
| "rope_join mk a (None # bs) m = rope_join mk a bs m"
| "rope_join mk None (Some b # bs) m = rope_join mk (Some b) bs m"
| "rope_join mk (Some a) (Some b # bs) m =
     do {
       (r, m) \<leftarrow> mk b a m;
       case r of
         Inl e \<Rightarrow> Some (Inl e, m)
       | Inr a \<Rightarrow> rope_join mk (Some a) bs m
     }"

definition js_rebalancee_string_rope :: "mk_rope \<Rightarrow> rope \<Rightarrow> memstate \<Rightarrow> rope strresult option" where
  "js_rebalancee_string_rope mk rope m =
     do {
       (ok, bs, m) \<leftarrow> js_rebalancee_string_rope_rec mk rope (replicate ROPE_N_BUCKETS None) m;
       if \<not> ok then Some (Inl StrOutOfMemory, m)
       else do {
         (r, m) \<leftarrow> rope_join mk None bs m;
         case r of
           Inl e \<Rightarrow> Some (Inl e, m)
         | Inr None \<Rightarrow> Some (Inr (Leaf (Str8 [])), m)
         | Inr (Some a) \<Rightarrow> Some (Inr a, m)
       }
     }"

text \<open>The fuel bounds how deeply rebalancing may call itself through the constructor.\<close>

fun js_new_string_rope :: "nat \<Rightarrow> mk_rope" where
  "js_new_string_rope 0 op1 op2 m =
     (case rope_node op1 op2 m of
        (Inl e, m) \<Rightarrow> Some (Inl e, m)
      | (Inr r, m) \<Rightarrow> if rope_depth r > JS_STRING_ROPE_MAX_DEPTH then None else Some (Inr r, m))"
| "js_new_string_rope (Suc n) op1 op2 m =
     (case rope_node op1 op2 m of
        (Inl e, m) \<Rightarrow> Some (Inl e, m)
      | (Inr r, m) \<Rightarrow>
          if rope_depth r > JS_STRING_ROPE_MAX_DEPTH
          then js_rebalancee_string_rope (js_new_string_rope n) r m
          else Some (Inr r, m))"

subsection \<open>Concatenation of values\<close>

text \<open>\<open>JS_ConcatString\<close> for operands that are strings already.\<close>

definition JS_ConcatString ::
    "nat \<Rightarrow> (jsstr \<Rightarrow> nat \<times> nat) \<Rightarrow> rope \<Rightarrow> rope \<Rightarrow> memstate \<Rightarrow> rope strresult option" where
  "JS_ConcatString n blk op1 op2 m =
     (case op2 of
        Leaf p2 \<Rightarrow>
          if str_length p2 = 0 then Some (Inr op1, m)
          else if str_length p2 \<le> JS_STRING_ROPE_SHORT_LEN then
            (case op1 of
               Leaf p1 \<Rightarrow>
                 if str_length p1 \<le> JS_STRING_ROPE_SHORT2_LEN
                 then Some (apfst (map_sum id Leaf) (JS_ConcatString2 blk p1 p2 m))
                 else js_new_string_rope n op1 op2 m
             | Node _ _ _ l r \<Rightarrow>
                 (case r of
                    Leaf pr \<Rightarrow>
                      if str_length pr \<le> JS_STRING_ROPE_SHORT_LEN then
                        (case JS_ConcatString2 (\<lambda>p. (2, snd (blk p))) pr p2 m of
                           (Inl e, m) \<Rightarrow> Some (Inl e, m)
                         | (Inr val, m) \<Rightarrow> js_new_string_rope n l (Leaf val) m)
                      else js_new_string_rope n op1 op2 m
                  | _ \<Rightarrow> js_new_string_rope n op1 op2 m))
          else js_new_string_rope n op1 op2 m
      | Node _ _ _ l r \<Rightarrow>
          (case op1 of
             Leaf p1 \<Rightarrow>
               if str_length p1 = 0 then Some (Inr op2, m)
               else (case l of
                 Leaf pl \<Rightarrow>
                   if str_length pl \<le> JS_STRING_ROPE_SHORT_LEN then
                     (case JS_ConcatString2 blk p1 pl m of
                        (Inl e, m) \<Rightarrow> Some (Inl e, m)
                      | (Inr val, m) \<Rightarrow> js_new_string_rope n (Leaf val) r m)
                   else js_new_string_rope n op1 op2 m
               | _ \<Rightarrow> js_new_string_rope n op1 op2 m)
           | _ \<Rightarrow> js_new_string_rope n op1 op2 m))"

subsection \<open>Well-formed ropes\<close>

fun rope_ok :: "rope \<Rightarrow> bool" where
  "rope_ok (Leaf p) = True"
| "rope_ok (Node n w d l r) \<longleftrightarrow>
     n = length (rope_units l) + length (rope_units r) \<and>
     rope_depth l < d \<and> rope_depth r < d \<and> (is_empty_leaf r \<longrightarrow> rope_depth l = 0) \<and> rope_ok l \<and> rope_ok r"

definition rope_fits :: "rope \<Rightarrow> bool" where
  "rope_fits r \<longleftrightarrow> rope_ok r \<and> rope_depth r \<le> JS_STRING_ROPE_MAX_DEPTH"

lemma rope_len [simp]: "rope_ok r \<Longrightarrow> string_rope_get_len r = length (rope_units r)"
  by (cases r) (auto simp: str_length_def)

lemma rope_depth_0: "rope_ok r \<Longrightarrow> rope_depth r = 0 \<longleftrightarrow> (\<exists>p. r = Leaf p)"
  by (cases r) auto

lemma string_rope_get_spec: "rope_ok r \<Longrightarrow> string_rope_get r i = rd (rope_units r) i"
proof (induction r arbitrary: i)
  case (Node n w d l r)
  then show ?case by (auto simp: Let_def rd_def nth_append)
qed (simp add: string_get_def)

subsection \<open>Iteration\<close>

definition iter_units :: "rope_iter \<Rightarrow> u16 list" where
  "iter_units it = concat (map rope_units it)"

fun iter_ok :: "rope_iter \<Rightarrow> bool" where
  "iter_ok [] = True"
| "iter_ok (v # st) \<longleftrightarrow> rope_ok v \<and> rope_depth v + length st \<le> JS_STRING_ROPE_MAX_DEPTH \<and> iter_ok st"

lemma iter_descend_ok:
  assumes "rope_ok v" "rope_depth v + length st \<le> JS_STRING_ROPE_MAX_DEPTH" "iter_ok st"
  shows "\<exists>p st'. rope_iter_descend v st = Some (Some p, st') \<and> iter_ok st' \<and>
     str_units p @ iter_units st' = rope_units v @ iter_units st"
  using assms
proof (induction v st rule: rope_iter_descend.induct)
  case (1 p stack)
  then show ?case by simp
next
  case (2 n w d l r stack)
  have s: "length stack < JS_STRING_ROPE_MAX_DEPTH" using 2(2,3) by simp
  have "\<exists>p st'. rope_iter_descend l (r # stack) = Some (Some p, st') \<and> iter_ok st' \<and>
     str_units p @ iter_units st' = rope_units l @ iter_units (r # stack)"
    by (rule 2(1)[OF s]) (use 2(2-4) in auto)
  then show ?case using s by (simp add: iter_units_def)
qed

lemma iter_next_ok:
  assumes "iter_ok it"
  obtains p it' where "string_rope_iter_next it = Some (p, it')" "iter_ok it'"
    "p = None \<Longrightarrow> it = [] \<and> it' = []" "\<And>s. p = Some s \<Longrightarrow> str_units s @ iter_units it' = iter_units it"
proof (cases it)
  case Nil
  then show ?thesis using that[of None "[]"] by simp
next
  case (Cons v st)
  then obtain p st' where "rope_iter_descend v st = Some (Some p, st')" "iter_ok st'"
     "str_units p @ iter_units st' = rope_units v @ iter_units st"
    using iter_descend_ok[of v st] assms by auto
  then show ?thesis using that[of "Some p" st'] Cons by (simp add: iter_units_def)
qed

subsection \<open>Comparison\<close>

text \<open>The reference: lexicographic comparison of unit sequences.\<close>

fun cmp_units :: "u16 list \<Rightarrow> u16 list \<Rightarrow> int" where
  "cmp_units [] [] = 0"
| "cmp_units [] (b # bs) = - 1"
| "cmp_units (a # as) [] = 1"
| "cmp_units (a # as) (b # bs) = (if a = b then cmp_units as bs else uint a - uint b)"

lemma uint_eq: "uint (a :: 'a::len word) = uint b \<longleftrightarrow> a = b"
  by (simp add: word_uint_eq_iff)

lemma cmp_units_0: "cmp_units as bs = 0 \<longleftrightarrow> as = bs"
  by (induction as bs rule: cmp_units.induct) (simp_all add: uint_eq)

lemma cmp_units_swap: "cmp_units bs as = - cmp_units as bs"
  by (induction as bs rule: cmp_units.induct) auto

lemma cmp_units_append:
  "length xs = length ys \<Longrightarrow> cmp_units (xs @ as) (ys @ bs) = (if xs = ys then cmp_units as bs else cmp_units xs ys)"
  by (induction xs ys rule: list_induct2) auto

lemma cmp_units_prefix: "cmp_units as bs = (let n = min (length as) (length bs) in
   if take n as = take n bs then cmp_lengths (length as) (length bs) else cmp_units (take n as) (take n bs))"
  by (induction as bs rule: cmp_units.induct) (auto simp: cmp_lengths_def Let_def)

lemma memcmp16_spec: "n \<le> length as \<Longrightarrow> n \<le> length bs \<Longrightarrow> memcmp16 as bs n = cmp_units (take n as) (take n bs)"
  by (induction as bs n rule: memcmp16.induct) (simp_all add: Let_def uint_eq)

lemma uint_byte: "uint (ucast (b :: u8) :: u16) = uint b"
proof -
  have "unat (ucast b :: u16) = unat b" using unat_lt_pow[of b] by (simp add: unat_ucast_mod)
  then have "int (unat (ucast b :: u16)) = int (unat b)" by (rule arg_cong)
  then show ?thesis by (simp only: uint_nat)
qed

lemma ucast_byte_eq: "(ucast (a :: u8) :: u16) = ucast b \<longleftrightarrow> a = b"
  by (metis uint_byte word_uint_eqI)

lemma memcmp16_8_spec:
  "n \<le> length as \<Longrightarrow> n \<le> length bs \<Longrightarrow> memcmp16_8 as bs n = cmp_units (take n as) (take n (map ucast bs))"
  by (induction as bs n rule: memcmp16_8.induct) (simp_all add: Let_def uint_byte[symmetric] uint_eq)

lemma memcmp8_spec:
  "n \<le> length as \<Longrightarrow> n \<le> length bs \<Longrightarrow> memcmp8 as bs n = cmp_units (take n (map ucast as)) (take n (map ucast bs))"
  by (induction as bs n rule: memcmp8.induct) (simp_all add: Let_def uint_byte uint_eq ucast_byte_eq)

lemma js_string_memcmp_spec:
  "pos1 + n \<le> str_length p1 \<Longrightarrow> pos2 + n \<le> str_length p2 \<Longrightarrow>
   js_string_memcmp p1 pos1 p2 pos2 n = cmp_units (take n (drop pos1 (str_units p1))) (take n (drop pos2 (str_units p2)))"
  using cmp_units_swap[of "take n (drop pos2 (str_units p2))" "take n (drop pos1 (str_units p1))"]
  by (cases p1; cases p2) (simp_all add: memcmp8_spec memcmp16_spec memcmp16_8_spec drop_map)

lemma js_string_compare_spec: "js_string_compare p1 p2 = cmp_units (str_units p1) (str_units p2)"
  by (simp add: js_string_compare_def Let_def js_string_memcmp_spec cmp_units_0 str_length_def
      cmp_units_prefix[of "str_units p1" "str_units p2"])

lemma js_string_eq_spec: "js_string_eq p1 p2 \<longleftrightarrow> str_units p1 = str_units p2"
  by (auto simp: js_string_eq_def js_string_memcmp_spec cmp_units_0 str_length_def)

definition side_units :: "jsstr option \<Rightarrow> nat \<Rightarrow> rope_iter \<Rightarrow> u16 list" where
  "side_units p pos it = (case p of None \<Rightarrow> [] | Some s \<Rightarrow> drop pos (str_units s)) @ iter_units it"

definition side_ok :: "jsstr option \<Rightarrow> nat \<Rightarrow> rope_iter \<Rightarrow> bool" where
  "side_ok p pos it \<longleftrightarrow> iter_ok it \<and> (case p of None \<Rightarrow> it = [] | Some s \<Rightarrow> pos \<le> str_length s)"

lemma iter_step_spec:
  assumes "side_ok (Some s) pos it" "pos + l \<le> str_length s"
  obtains p' pos' it' where "iter_step s (pos + l) it = Some (p', pos', it')" "side_ok p' pos' it'"
    "side_units (Some s) pos it = take l (drop pos (str_units s)) @ side_units p' pos' it'"
proof (cases "pos + l \<ge> str_length s")
  case True
  have it: "iter_ok it" using assms(1) by (simp add: side_ok_def)
  obtain p it' where n: "string_rope_iter_next it = Some (p, it')" "iter_ok it'" "p = None \<Longrightarrow> it = [] \<and> it' = []"
    "\<And>s. p = Some s \<Longrightarrow> str_units s @ iter_units it' = iter_units it" by (rule iter_next_ok[OF it]) blast
  have d: "take l (drop pos (str_units s)) = drop pos (str_units s)" using True assms(2) by (simp add: str_length_def)
  show ?thesis
    by (rule that[of p 0 it']) (use True n d in \<open>cases p; simp add: iter_step_def side_ok_def side_units_def iter_units_def\<close>)+
next
  case False
  have "drop pos (str_units s) = take l (drop pos (str_units s)) @ drop (pos + l) (str_units s)"
    by (metis append_take_drop_id drop_drop add.commute)
  then show ?thesis using that[of "Some s" "pos + l" it] False assms
    by (simp add: iter_step_def side_ok_def side_units_def)
qed

lemma take_app: "length a = l \<Longrightarrow> l \<le> n \<Longrightarrow> take n (a @ x) = a @ take (n - l) x"
  by simp

lemma iter_start:
  assumes "rope_fits op"
  obtains p it where "string_rope_iter_next (string_rope_iter_init op) = Some (p, it)" "side_ok p 0 it"
    "side_units p 0 it = rope_units op"
proof -
  obtain s it where "rope_iter_descend op [] = Some (Some s, it)" "iter_ok it" "str_units s @ iter_units it = rope_units op"
    using iter_descend_ok[of op "[]"] assms by (auto simp: rope_fits_def iter_units_def)
  then show thesis using that[of "Some s" it] by (simp add: string_rope_iter_init_def side_ok_def side_units_def)
qed

lemma rope_compare_loop_spec:
  assumes "side_ok p1 pos1 it1" "side_ok p2 pos2 it2"
    "len \<le> length (side_units p1 pos1 it1)" "len \<le> length (side_units p2 pos2 it2)"
  shows "rope_compare_loop p1 pos1 it1 p2 pos2 it2 len =
     Some (cmp_units (take len (side_units p1 pos1 it1)) (take len (side_units p2 pos2 it2)))"
  using assms
proof (induction p1 pos1 it1 p2 pos2 it2 len rule: rope_compare_loop.induct)
  case (1 p1 pos1 it1 p2 pos2 it2 len)
  let ?u1 = "side_units p1 pos1 it1" and ?u2 = "side_units p2 pos2 it2"
  show ?case
  proof (cases "len = 0")
    case True
    then show ?thesis by simp
  next
    case False
    then have "?u1 \<noteq> []" "?u2 \<noteq> []" using 1(4,5) by auto
    then obtain s1 s2 where s: "p1 = Some s1" "p2 = Some s2"
      using 1(2,3) by (auto simp: side_units_def side_ok_def iter_units_def split: option.splits)
    obtain l where ld: "l = min (min (str_length s1 - pos1) (str_length s2 - pos2)) len" by blast
    have ps: "pos1 \<le> str_length s1" "pos2 \<le> str_length s2" using 1(2,3) s by (simp_all add: side_ok_def)
    have l: "pos1 + l \<le> str_length s1" "pos2 + l \<le> str_length s2" "l \<le> len"
      using ps ld by linarith+
    have res: "js_string_memcmp s1 pos1 s2 pos2 l =
        cmp_units (take l (drop pos1 (str_units s1))) (take l (drop pos2 (str_units s2)))" (is "_ = cmp_units ?a ?b")
      by (rule js_string_memcmp_spec[OF l(1,2)])
    obtain p1' pos1' it1' where n1: "iter_step s1 (pos1 + l) it1 = Some (p1', pos1', it1')" "side_ok p1' pos1' it1'"
      "?u1 = ?a @ side_units p1' pos1' it1'" using iter_step_spec[OF 1(2)[unfolded s] l(1)] s by metis
    obtain p2' pos2' it2' where n2: "iter_step s2 (pos2 + l) it2 = Some (p2', pos2', it2')" "side_ok p2' pos2' it2'"
      "?u2 = ?b @ side_units p2' pos2' it2'" using iter_step_spec[OF 1(3)[unfolded s] l(2)] s by metis
    have ab: "length ?a = l" "length ?b = l" using l(1,2) by (simp_all add: str_length_def)
    have c: "cmp_units (?a @ x) (?b @ y) = (if ?a = ?b then cmp_units x y else cmp_units ?a ?b)" for x y
      by (rule cmp_units_append) (simp only: ab)
    have t: "take len ?u1 = ?a @ take (len - l) (side_units p1' pos1' it1')"
      "take len ?u2 = ?b @ take (len - l) (side_units p2' pos2' it2')"
      unfolding n1(3) n2(3) by (rule take_app[OF ab(1) l(3)], rule take_app[OF ab(2) l(3)])
    show ?thesis
    proof (cases "?a = ?b")
      case False
      then show ?thesis using \<open>len \<noteq> 0\<close> res unfolding t
        by (subst rope_compare_loop.simps) (simp add: s Let_def ld[symmetric] c cmp_units_append cmp_units_0 del: rope_compare_loop.simps)
    next
      case True
      have "rope_compare_loop p1' pos1' it1' p2' pos2' it2' (len - l) =
         Some (cmp_units (take (len - l) (side_units p1' pos1' it1')) (take (len - l) (side_units p2' pos2' it2')))"
      proof (rule 1(1)[OF False s(1,2) ld refl _ n1(1) refl refl n2(1) refl refl])
        show "\<not> js_string_memcmp s1 pos1 s2 pos2 l \<noteq> 0" using True res by (simp add: cmp_units_0)
        show "len - l \<le> length (side_units p1' pos1' it1')" "len - l \<le> length (side_units p2' pos2' it2')"
          using 1(4,5) n1(3) n2(3) ab by simp_all
      qed (use n1 n2 in auto)
      then show ?thesis using \<open>len \<noteq> 0\<close> res True n1(1) n2(1) unfolding t
        by (subst rope_compare_loop.simps) (simp add: s Let_def ld[symmetric] c cmp_units_append cmp_units_0 del: rope_compare_loop.simps)
    qed
  qed
qed

lemma js_string_rope_compare_spec:
  assumes "rope_fits op1" "rope_fits op2"
  shows "js_string_rope_compare op1 op2 eq_only = Some res \<Longrightarrow>
      (if eq_only then (res = 0) = (rope_units op1 = rope_units op2)
       else res = cmp_units (rope_units op1) (rope_units op2))"
    and "js_string_rope_compare op1 op2 eq_only \<noteq> None"
proof -
  let ?u1 = "rope_units op1" and ?u2 = "rope_units op2" and ?n = "min (length (rope_units op1)) (length (rope_units op2))"
  have ok: "rope_ok op1" "rope_ok op2" using assms by (simp_all add: rope_fits_def)
  obtain p1 it1 where n1: "string_rope_iter_next (string_rope_iter_init op1) = Some (p1, it1)" "side_ok p1 0 it1"
    "side_units p1 0 it1 = ?u1" by (rule iter_start[OF assms(1)])
  obtain p2 it2 where n2: "string_rope_iter_next (string_rope_iter_init op2) = Some (p2, it2)" "side_ok p2 0 it2"
    "side_units p2 0 it2 = ?u2" by (rule iter_start[OF assms(2)])
  have lp: "rope_compare_loop p1 0 it1 p2 0 it2 ?n = Some (cmp_units (take ?n ?u1) (take ?n ?u2))"
    using rope_compare_loop_spec[OF n1(2) n2(2), of ?n] by (simp add: n1(3) n2(3) del: rope_compare_loop.simps)
  have e: "js_string_rope_compare op1 op2 eq_only =
     (if eq_only \<and> length ?u1 \<noteq> length ?u2 then Some 1 else Some (cmp_units ?u1 ?u2))"
    using lp unfolding js_string_rope_compare_def Let_def rope_len[OF ok(1)] rope_len[OF ok(2)] n1(1) n2(1)
    by (simp add: cmp_units_prefix[of ?u1 ?u2] cmp_units_0 Let_def del: rope_compare_loop.simps)
  show "js_string_rope_compare op1 op2 eq_only \<noteq> None" unfolding e by simp
  show "js_string_rope_compare op1 op2 eq_only = Some res \<Longrightarrow>
      (if eq_only then (res = 0) = (?u1 = ?u2) else res = cmp_units ?u1 ?u2)"
    unfolding e using cmp_units_0[of ?u1 ?u2] by (auto split: if_splits)
qed

subsection \<open>Flattening\<close>

lemma concat_value_appends:
  "sb_ok s \<Longrightarrow> sb_appends (rope_units v) s m (string_buffer_concat_value us s v m)"
proof (induction us s v m rule: string_buffer_concat_value.induct)
  case (1 us s p m)
  show ?case
  proof (cases "sb_error s \<noteq> None \<or> str_length p = 0")
    case True
    then show ?thesis using 1 by (auto simp: sb_appends_def string_buffer_concat_def str_length_def)
  next
    case False
    then show ?thesis using write8_appends[OF 1] write16_appends[OF 1]
      by (cases p) (auto simp: string_buffer_concat_def)
  qed
next
  case (2 us s n w d l r m)
  show ?case
  proof (cases "sb_error s \<noteq> None")
    case True
    then show ?thesis using 2(3) by (auto simp: sb_appends_def)
  next
    case False
    then have e: "sb_error s = None" by simp
    obtain ok s1 m1 where 1: "string_buffer_concat_value us s l m = Some (ok, s1, m1)" "sb_ok s1"
      using sb_appendsE[OF 2(1)[OF _ 2(3)]] e by metis
    have a: "sb_appends (rope_units l) s m (Some (ok, s1, m1))" using 2(1)[OF _ 2(3)] e 1(1) by simp
    show ?thesis
    proof (cases ok)
      case True
      have IH: "sb_appends (rope_units r) s1 m1 (string_buffer_concat_value us s1 r m1)"
        by (rule 2(2)[OF _ 1(1) refl refl _ 1(2)]) (use e True in auto)
      then obtain ok2 s2 m2 where r: "string_buffer_concat_value us s1 r m1 = Some (ok2, s2, m2)"
        by (elim sb_appendsE)
      show ?thesis using sb_appends_seq[OF a, of "rope_units r" ok2 s2 m2] IH True e by (simp add: 1(1) r)
    next
      case False
      then show ?thesis using a e by (auto simp: 1(1) sb_appends_def)
    qed
  qed
qed

lemma js_linearize_spec:
  assumes "rope_ok v"
  obtains res m' where "js_linearize_string_rope us v m = Some (res, m')"
    "\<And>f v'. res = Inr (f, v') \<Longrightarrow> rope_depth f = 0 \<and> rope_ok f \<and> rope_units f = rope_units v \<and> rope_ok v' \<and>
        rope_units v' = rope_units v \<and> rope_depth v' = rope_depth v"
    "mem_ok m \<Longrightarrow> length (rope_units v) \<le> JS_STRING_LEN_MAX \<Longrightarrow> \<exists>x. res = Inr x"
proof (cases v)
  case (Leaf p)
  then show ?thesis using that by simp
next
  case (Node n w d l r)
  show ?thesis
  proof (cases "is_empty_leaf r")
    case True
    then have "rope_units r = []" by (cases r) (auto simp: is_empty_leaf_def str_length_def)
    then show ?thesis using that[of "Inr (l, v)" m] True assms Node by simp
  next
    case False
    obtain b m1 where i: "string_buffer_init2 n w m = (b, m1)" by fastforce
    note ini = string_buffer_init_spec[OF i]
    show ?thesis
    proof (cases "sb_error b")
      case (Some e)
      then show ?thesis using that[of "Inl e" m1] False Node ini by (auto simp: i)
    next
      case None
      have a: "sb_appends (rope_units v) b m1 (string_buffer_concat_value us b v m1)"
        by (rule concat_value_appends) (use ini in blast)
      obtain ok b2 m2 where c: "string_buffer_concat_value us b v m1 = Some (ok, b2, m2)" "sb_ok b2"
        "sb_error b2 = None \<Longrightarrow> sb_str b2 = sb_str b @ rope_units v"
        "mem_ok m1 \<Longrightarrow> sb_error b = None \<Longrightarrow> length (sb_str b) + length (rope_units v) \<le> JS_STRING_LEN_MAX \<Longrightarrow> sb_error b2 = None"
        by (rule sb_appendsE[OF a]) metis
      obtain r3 m3 where e: "string_buffer_end b2 m2 = (r3, m3)" by fastforce
      note es = string_buffer_end_spec[OF c(2) e]
      have lin: "js_linearize_string_rope us v m =
         (case r3 of Inl e \<Rightarrow> Some (Inl e, m3)
          | Inr p \<Rightarrow> Some (Inr (Leaf p, Node n w d (Leaf p) (Leaf (Str8 []))), m3))"
        using False None e c(1) unfolding Node
        by (simp add: i del: string_buffer_concat_value.simps split: sum.splits)
      show ?thesis
      proof (cases r3)
        case (Inl err)
        then show ?thesis using that[of "Inl err" m3] lin es c(4) ini None by auto
      next
        case (Inr p)
        then have "str_units p = rope_units v" using es c(3) ini by simp
        then show ?thesis using that[of "Inr (Leaf p, Node n w d (Leaf p) (Leaf (Str8 [])))" m3] lin Inr Node assms
          by (auto simp: is_empty_leaf_def)
      qed
    qed
  qed
qed

subsection \<open>The contract of the node constructor\<close>

definition opt_units :: "rope option \<Rightarrow> u16 list" where
  "opt_units a = (case a of None \<Rightarrow> [] | Some r \<Rightarrow> rope_units r)"

definition opt_fits :: "rope option \<Rightarrow> bool" where
  "opt_fits a \<longleftrightarrow> (case a of None \<Rightarrow> True | Some r \<Rightarrow> rope_fits r \<and> rope_units r \<noteq> [])"

definition bucket_units :: "buckets \<Rightarrow> u16 list" where
  "bucket_units bs = concat (rev (map opt_units bs))"

definition buckets_fit :: "buckets \<Rightarrow> bool" where
  "buckets_fit bs \<longleftrightarrow> length bs = ROPE_N_BUCKETS \<and> (\<forall>b\<in>set bs. opt_fits b)"

lemma opt_simps [simp]: "opt_units None = []" "opt_units (Some r) = rope_units r" "opt_fits None"
  "opt_fits (Some r) \<longleftrightarrow> rope_fits r \<and> rope_units r \<noteq> []"
  by (simp_all add: opt_units_def opt_fits_def)

lemma bucket_units_update:
  assumes "\<forall>j<i. bs ! j = None" "i < length bs"
  shows "bucket_units (bs[i := x]) = bucket_units (drop (Suc i) bs) @ opt_units x"
proof -
  have "map opt_units (take i bs) = replicate i []"
    using assms by (intro nth_equalityI) auto
  then have "concat (rev (map opt_units (take i bs))) = []" by simp
  then show ?thesis using assms(2) by (simp add: bucket_units_def upd_conv_take_nth_drop)
qed

lemma bucket_units_nth:
  assumes "\<forall>j<i. bs ! j = None" "i < length bs"
  shows "bucket_units bs = bucket_units (bs[i := None]) @ opt_units (bs ! i)"
  using bucket_units_update[OF assms, of "bs ! i"] bucket_units_update[OF assms, of None] by simp

lemma buckets_fit_update: "buckets_fit bs \<Longrightarrow> opt_fits x \<Longrightarrow> buckets_fit (bs[i := x])"
  using set_update_subset_insert[of bs i x] by (auto simp: buckets_fit_def)

text \<open>
  Short ropes: bucket \<open>j\<close> holds at least \<open>rope_bucket_len ! j\<close> units and has depth at most
  \<open>2 * j\<close>, so with less than \<open>rope_bucket_len ! 30\<close> units nothing gets deeper than 59.
\<close>

definition small_buckets :: "buckets \<Rightarrow> bool" where
  "small_buckets bs \<longleftrightarrow> length bs = ROPE_N_BUCKETS \<and>
     (\<forall>j r. j < ROPE_N_BUCKETS \<longrightarrow> bs ! j = Some r \<longrightarrow>
        rope_bucket_len ! j \<le> length (rope_units r) \<and> rope_depth r \<le> 2 * j)"

definition rope_bound :: nat where
  "rope_bound = 2178309"

lemma bucket_len_double: "i < 43 \<Longrightarrow> rope_bucket_len ! (i + 1) \<le> 2 * rope_bucket_len ! i"
proof -
  have "\<forall>i<43. rope_bucket_len ! (i + 1) \<le> 2 * rope_bucket_len ! i"
    by (simp add: all_less_numeral rope_bucket_len_def)
  then show "i < 43 \<Longrightarrow> rope_bucket_len ! (i + 1) \<le> 2 * rope_bucket_len ! i" by blast
qed

lemma bucket_len_bound: "i < ROPE_N_BUCKETS \<Longrightarrow> rope_bucket_len ! i < rope_bound \<Longrightarrow> i < 30"
proof -
  have "\<forall>i<44. i < 30 \<or> rope_bound \<le> rope_bucket_len ! i"
    by (simp add: all_less_numeral rope_bucket_len_def rope_bound_def)
  then show "i < ROPE_N_BUCKETS \<Longrightarrow> rope_bucket_len ! i < rope_bound \<Longrightarrow> i < 30"
    by (metis ROPE_N_BUCKETS_def not_le)
qed

lemma nonempty_leaf [simp]: "rope_units b \<noteq> [] \<Longrightarrow> \<not> is_empty_leaf b"
  by (cases b) (auto simp: is_empty_leaf_def str_length_def)

locale rope_maker =
  fixes mk :: mk_rope
  assumes mk_units:
    "rope_fits a \<Longrightarrow> rope_fits b \<Longrightarrow> \<not> is_empty_leaf b \<or> rope_depth a = 0 \<Longrightarrow> mem_ok m
     \<Longrightarrow> length (rope_units a) + length (rope_units b) \<le> JS_STRING_LEN_MAX
     \<Longrightarrow> mk a b m = Some (res, m')
     \<Longrightarrow> (\<exists>r. res = Inr r \<and> rope_units r = rope_units a @ rope_units b \<and> rope_fits r) \<and> mem_ok m'"
    and mk_shallow:
    "max (rope_depth a) (rope_depth b) < JS_STRING_ROPE_MAX_DEPTH \<Longrightarrow> mk a b m = Some (rope_node a b m)"
begin

lemma collect_units:
  assumes "rope_collect mk len i a bs m = Some (res, bs', m')" "buckets_fit bs" "\<forall>j<i. bs ! j = None" "opt_fits a"
    "mem_ok m" "length (bucket_units bs @ opt_units a) \<le> JS_STRING_LEN_MAX"
  shows "\<exists>a' i'. res = Some (a', i') \<and> buckets_fit bs' \<and> (\<forall>j<i'. bs' ! j = None) \<and> opt_fits a' \<and> mem_ok m' \<and>
     i' + 1 < ROPE_N_BUCKETS \<and> bucket_units bs' @ opt_units a' = bucket_units bs @ opt_units a"
  using assms
proof (induction "ROPE_N_BUCKETS - i" arbitrary: i a bs m rule: less_induct)
  case less
  have i: "i + 1 < ROPE_N_BUCKETS" using less(2) by (subst (asm) rope_collect.simps) (simp split: if_splits)
  have lb: "i < length bs" using less(3) i by (simp add: buckets_fit_def)
  have dec: "ROPE_N_BUCKETS - (i + 1) < ROPE_N_BUCKETS - i" using i by simp
  have below: "\<forall>j<i + 1. bs[i := None] ! j = None" using less(4) lb by (auto simp: less_Suc_eq)
  note u = bucket_units_nth[OF less(4) lb] and bf = buckets_fit_update[OF less(3), of None i]
  show ?case
  proof (cases "len < rope_bucket_len ! (i + 1)")
    case True
    then have "res = Some (a, i)" "bs' = bs" "m' = m" using less(2) i by (subst (asm) rope_collect.simps; simp)+
    then show ?thesis using less i by auto
  next
    case ge: False
    show ?thesis
    proof (cases "bs ! i")
      case None
      then have "rope_collect mk len (i + 1) a bs m = Some (res, bs', m')"
        using less(2) i ge by (subst (asm) rope_collect.simps) simp
      moreover have "\<forall>j<i + 1. bs ! j = None" using less(4) None by (auto simp: less_Suc_eq)
      ultimately show ?thesis using less(1)[OF dec _ less(3) _ less(5,6,7)] by blast
    next
      case (Some b)
      have b: "rope_fits b" "rope_units b \<noteq> []"
        using less(3) lb Some nth_mem[OF lb] by (auto simp: buckets_fit_def)
      show ?thesis
      proof (cases a)
        case None
        have "rope_collect mk len (i + 1) (Some b) (bs[i := None]) m = Some (res, bs', m')"
          using less(2) i ge Some None by (subst (asm) rope_collect.simps) simp
        then show ?thesis
          using less(1)[OF dec _ bf below, of "Some b" m] b u less(6,7) Some None by auto
      next
        case (Some a1)
        note a1 = this
        obtain r m1 where mk: "mk b a1 m = Some (r, m1)"
          using less(2) i ge \<open>bs ! i = Some b\<close> a1 by (subst (asm) rope_collect.simps) (auto split: bind_splits)
        have len: "length (rope_units b) + length (rope_units a1) \<le> JS_STRING_LEN_MAX"
          using less(7) u \<open>bs ! i = Some b\<close> a1 by simp
        obtain a2 where a2: "r = Inr a2" "rope_units a2 = rope_units b @ rope_units a1" "rope_fits a2" "mem_ok m1"
          using mk_units[OF b(1) _ _ less(6) len mk] less(5) a1 by auto
        have "rope_collect mk len (i + 1) (Some a2) (bs[i := None]) m1 = Some (res, bs', m')"
          using less(2) i ge \<open>bs ! i = Some b\<close> a1 mk a2(1) by (subst (asm) rope_collect.simps) simp
        then show ?thesis
          using less(1)[OF dec _ bf below, of "Some a2" m1] a2 b u less(7) \<open>bs ! i = Some b\<close> a1 by auto
      qed
    qed
  qed
qed

lemma carry_units:
  assumes "rope_carry mk i a bs m = Some (ok, bs', m')" "buckets_fit bs" "\<forall>j<i. bs ! j = None"
    "rope_fits a" "rope_units a \<noteq> []" "mem_ok m" "length (bucket_units bs @ rope_units a) \<le> JS_STRING_LEN_MAX"
  shows "ok \<and> buckets_fit bs' \<and> mem_ok m' \<and> bucket_units bs' = bucket_units bs @ rope_units a"
  using assms
proof (induction "ROPE_N_BUCKETS - i" arbitrary: i a bs m rule: less_induct)
  case less
  have i: "i < ROPE_N_BUCKETS" using less(2) by (subst (asm) rope_carry.simps) (simp split: if_splits)
  have lb: "i < length bs" using less(3) i by (simp add: buckets_fit_def)
  have dec: "ROPE_N_BUCKETS - (i + 1) < ROPE_N_BUCKETS - i" using i by simp
  have below: "\<forall>j<i + 1. bs[i := None] ! j = None" using less(4) lb by (auto simp: less_Suc_eq)
  note u = bucket_units_nth[OF less(4) lb] and bf = buckets_fit_update[OF less(3), of None i]
  show ?case
  proof (cases "bs ! i")
    case None
    then have "ok" "bs' = bs[i := Some a]" "m' = m" using less(2) i by (subst (asm) rope_carry.simps; simp)+
    then show ?thesis using less(5-7) None buckets_fit_update[OF less(3), of "Some a" i]
      bucket_units_update[OF less(4) lb, of "Some a"] bucket_units_update[OF less(4) lb, of None] u by auto
  next
    case (Some b)
    have b: "rope_fits b" "rope_units b \<noteq> []"
      using less(3) lb Some nth_mem[OF lb] by (auto simp: buckets_fit_def)
    obtain r m1 where mk: "mk b a m = Some (r, m1)"
      using less(2) i Some by (subst (asm) rope_carry.simps) (auto split: bind_splits)
    have len: "length (rope_units b) + length (rope_units a) \<le> JS_STRING_LEN_MAX" using less(8) u Some by simp
    obtain a2 where a2: "r = Inr a2" "rope_units a2 = rope_units b @ rope_units a" "rope_fits a2" "mem_ok m1"
      using mk_units[OF b(1) less(5) _ less(7) len mk] less(6) by auto
    have "rope_carry mk (i + 1) a2 (bs[i := None]) m1 = Some (ok, bs', m')"
      using less(2) i Some mk a2(1) by (subst (asm) rope_carry.simps) simp
    then show ?thesis using less(1)[OF dec _ bf below, of a2 m1] a2 b u less(8) Some by auto
  qed
qed

lemma insert_units:
  assumes "rope_insert_leaf mk p bs m = Some (ok, bs', m')" "buckets_fit bs" "mem_ok m"
    "length (bucket_units bs @ str_units p) \<le> JS_STRING_LEN_MAX"
  shows "ok \<and> buckets_fit bs' \<and> mem_ok m' \<and> bucket_units bs' = bucket_units bs @ str_units p"
proof (cases "str_units p = []")
  case True
  then show ?thesis using assms by (simp add: rope_insert_leaf_def str_length_def)
next
  case False
  have lf: "rope_fits (Leaf p)" by (simp add: rope_fits_def)
  obtain res bs1 m1 where c: "rope_collect mk (str_length p) 0 None bs m = Some (res, bs1, m1)"
    using assms(1) False by (auto simp: rope_insert_leaf_def str_length_def simp del: rope_collect.simps split: bind_splits)
  obtain a i where cu: "res = Some (a, i)" "buckets_fit bs1" "\<forall>j<i. bs1 ! j = None" "opt_fits a" "mem_ok m1"
    "bucket_units bs1 @ opt_units a = bucket_units bs"
    using collect_units[OF c assms(2) _ _ assms(3)] assms(4) by auto
  show ?thesis
  proof (cases a)
    case None
    have "rope_carry mk i (Leaf p) bs1 m1 = Some (ok, bs', m')"
      using assms(1) False c cu(1) None
      by (simp add: rope_insert_leaf_def str_length_def del: rope_collect.simps rope_carry.simps)
    then show ?thesis using carry_units[OF _ cu(2,3) lf _ cu(5)] False assms(4) cu(6) None by auto
  next
    case (Some a1)
    obtain r m2 where mk: "mk a1 (Leaf p) m1 = Some (r, m2)"
      using assms(1) False c cu(1) Some
      by (auto simp: rope_insert_leaf_def str_length_def simp del: rope_collect.simps rope_carry.simps split: bind_splits)
    have u: "bucket_units bs1 @ rope_units a1 = bucket_units bs" using cu(6) Some by simp
    have lu: "length (bucket_units bs) = length (bucket_units bs1) + length (rope_units a1)"
      using arg_cong[OF u, of length] by simp
    obtain a2 where a2: "r = Inr a2" "rope_units a2 = rope_units a1 @ str_units p" "rope_fits a2" "mem_ok m2"
      using mk_units[OF _ lf _ cu(5) _ mk] cu(4) Some False assms(4) lu by auto
    have cr: "rope_carry mk i a2 bs1 m2 = Some (ok, bs', m')"
      using assms(1) False c cu(1) Some mk a2(1)
      by (simp add: rope_insert_leaf_def str_length_def del: rope_collect.simps rope_carry.simps)
    have "ok \<and> buckets_fit bs' \<and> mem_ok m' \<and> bucket_units bs' = bucket_units bs1 @ rope_units a2"
      by (rule carry_units[OF cr cu(2,3) a2(3) _ a2(4)]) (use a2(2) False assms(4) lu in auto)
    then show ?thesis using a2(2) u by (metis append.assoc)
  qed
qed

lemma rec_units:
  assumes "js_rebalancee_string_rope_rec mk v bs m = Some (ok, bs', m')" "buckets_fit bs" "mem_ok m"
    "length (bucket_units bs @ rope_units v) \<le> JS_STRING_LEN_MAX"
  shows "ok \<and> buckets_fit bs' \<and> mem_ok m' \<and> bucket_units bs' = bucket_units bs @ rope_units v"
  using assms
proof (induction v arbitrary: bs m ok bs' m')
  case (Leaf p)
  then show ?case using insert_units[of p bs m ok bs' m'] by simp
next
  case (Node n w d l r)
  obtain ok1 bs1 m1 where 1: "js_rebalancee_string_rope_rec mk l bs m = Some (ok1, bs1, m1)"
    using Node(3) by (auto split: bind_splits)
  obtain ok2 bs2 m2 where 2: "js_rebalancee_string_rope_rec mk r bs1 m1 = Some (ok2, bs2, m2)"
    using Node(3) 1 by (auto split: bind_splits)
  have a: "buckets_fit bs1" "mem_ok m1" "bucket_units bs1 = bucket_units bs @ rope_units l"
    using Node(1)[OF 1 Node(4,5)] Node(6) by auto
  have "buckets_fit bs2 \<and> mem_ok m2 \<and> bucket_units bs2 = bucket_units bs1 @ rope_units r"
    using Node(2)[OF 2 a(1,2)] Node(6) a(3) by auto
  then show ?case using Node(3) 1 2 a(3) by simp
qed

lemma join_units:
  assumes "rope_join mk a bs m = Some (res, m')" "opt_fits a" "\<forall>b\<in>set bs. opt_fits b" "mem_ok m"
    "length (bucket_units bs @ opt_units a) \<le> JS_STRING_LEN_MAX"
  shows "\<exists>x. res = Inr x \<and> opt_fits x \<and> mem_ok m' \<and> opt_units x = bucket_units bs @ opt_units a"
  using assms
proof (induction bs arbitrary: a m)
  case Nil
  then show ?case by (auto simp: bucket_units_def)
next
  case (Cons b bs)
  have u: "bucket_units (b # bs) = bucket_units bs @ opt_units b" by (simp add: bucket_units_def)
  show ?case
  proof (cases b)
    case None
    then show ?thesis using Cons.IH[of a m] Cons.prems u by simp
  next
    case (Some b1)
    show ?thesis
    proof (cases a)
      case None
      then show ?thesis using Cons.IH[of "Some b1" m] Cons.prems u Some by simp
    next
      case a: (Some a1)
      obtain r m1 where mk: "mk b1 a1 m = Some (r, m1)"
        using Cons.prems(1) Some a by (auto split: bind_splits)
      obtain a2 where a2: "r = Inr a2" "rope_units a2 = rope_units b1 @ rope_units a1" "rope_fits a2" "mem_ok m1"
        using mk_units[OF _ _ _ Cons.prems(4) _ mk] Cons.prems Some a u by auto
      then show ?thesis using Cons.IH[of "Some a2" m1] Cons.prems Some a mk u by auto
    qed
  qed
qed

lemma rebalance_units:
  assumes "js_rebalancee_string_rope mk v m = Some (res, m')" "mem_ok m" "length (rope_units v) \<le> JS_STRING_LEN_MAX"
  shows "(\<exists>r. res = Inr r \<and> rope_units r = rope_units v \<and> rope_fits r) \<and> mem_ok m'"
proof -
  let ?bs = "replicate ROPE_N_BUCKETS None :: buckets"
  have e: "buckets_fit ?bs" "bucket_units ?bs = []" by (simp_all add: buckets_fit_def bucket_units_def)
  obtain ok bs m1 where 1: "js_rebalancee_string_rope_rec mk v ?bs m = Some (ok, bs, m1)"
    using assms(1) by (auto simp: js_rebalancee_string_rope_def split: bind_splits)
  have r: "ok" "buckets_fit bs" "mem_ok m1" "bucket_units bs = rope_units v"
    using rec_units[OF 1 e(1) assms(2)] e(2) assms(3) by auto
  obtain x m2 where 2: "rope_join mk None bs m1 = Some (x, m2)"
    using assms(1) 1 r(1) by (auto simp: js_rebalancee_string_rope_def split: bind_splits)
  obtain a where a: "x = Inr a" "opt_fits a" "mem_ok m2" "opt_units a = rope_units v"
    using join_units[OF 2 _ _ r(3)] r(2,4) assms(3) by (auto simp: buckets_fit_def)
  show ?thesis using assms(1) 1 2 r(1) a by (cases a) (auto simp: js_rebalancee_string_rope_def rope_fits_def)
qed

end

context rope_maker begin

lemma mk_small:
  assumes "rope_depth a < JS_STRING_ROPE_MAX_DEPTH" "rope_depth b < JS_STRING_ROPE_MAX_DEPTH"
  obtains res m' where "mk a b m = Some (res, m')"
    "\<And>r. res = Inr r \<Longrightarrow> rope_units r = rope_units a @ rope_units b \<and>
       rope_depth r = max (rope_depth a) (rope_depth b) + 1"
proof -
  obtain ok m1 where "js_malloc m = (ok, m1)" by fastforce
  then show thesis using that mk_shallow[of a b m] assms
    by (cases ok; cases "rope_node a b m") (auto simp: rope_node_def Let_def split: if_splits)
qed

lemma small_bucketsD:
  "small_buckets bs \<Longrightarrow> j < ROPE_N_BUCKETS \<Longrightarrow> bs ! j = Some r
   \<Longrightarrow> rope_bucket_len ! j \<le> length (rope_units r) \<and> rope_depth r \<le> 2 * j"
  by (auto simp: small_buckets_def)

lemma small_buckets_update:
  assumes "small_buckets bs"
    "\<And>r. x = Some r \<Longrightarrow> rope_bucket_len ! i \<le> length (rope_units r) \<and> rope_depth r \<le> 2 * i"
  shows "small_buckets (bs[i := x])"
proof -
  have "rope_bucket_len ! j \<le> length (rope_units r) \<and> rope_depth r \<le> 2 * j"
    if "j < ROPE_N_BUCKETS" "bs[i := x] ! j = Some r" for j r
    by (cases "j = i") (use that assms in \<open>auto simp: small_buckets_def\<close>)
  then show ?thesis using assms(1) by (simp add: small_buckets_def)
qed

lemma collect_total:
  assumes "small_buckets bs" "\<forall>j<i. bs ! j = None" "\<And>r. a = Some r \<Longrightarrow> rope_depth r + 1 \<le> 2 * i"
    "i < 30" "rope_bucket_len ! i \<le> len" "len < rope_bound"
  obtains res bs' m' where "rope_collect mk len i a bs m = Some (res, bs', m')" "small_buckets bs'"
    "length (bucket_units bs') + (case res of None \<Rightarrow> 0 | Some (a, _) \<Rightarrow> length (opt_units a))
       \<le> length (bucket_units bs) + length (opt_units a)"
    "\<And>a' i'. res = Some (a', i') \<Longrightarrow> (\<forall>j<i'. bs' ! j = None) \<and> i' < 30 \<and> rope_bucket_len ! i' \<le> len \<and>
       (\<forall>r. a' = Some r \<longrightarrow> rope_depth r + 1 \<le> 2 * i')"
  using assms
proof (induction "ROPE_N_BUCKETS - i" arbitrary: i a bs m thesis rule: less_induct)
  case less
  have i: "i + 1 < ROPE_N_BUCKETS" "i < ROPE_N_BUCKETS" using less(6) by (simp_all add: ROPE_N_BUCKETS_def)
  have lb: "i < length bs" using less(3) i by (simp add: small_buckets_def)
  have dec: "ROPE_N_BUCKETS - (i + 1) < ROPE_N_BUCKETS - i" using i by simp
  have below: "\<forall>j<i + 1. bs[i := None] ! j = None" using less(4) lb by (auto simp: less_Suc_eq)
  have sb: "small_buckets (bs[i := None])" using less(3) by (rule small_buckets_update) simp
  have u: "length (bucket_units bs) = length (bucket_units (bs[i := None])) + length (opt_units (bs ! i))"
    using arg_cong[OF bucket_units_nth[OF less(4) lb], of length] by simp
  show ?case
  proof (cases "len < rope_bucket_len ! (i + 1)")
    case True
    then have "rope_collect mk len i a bs m = Some (Some (a, i), bs, m)"
      using i by (subst rope_collect.simps) simp
    then show ?thesis by (rule less(2)) (use less in auto)
  next
    case ge: False
    then have i30: "i + 1 < 30" using bucket_len_bound[of "i + 1"] i less(8) by linarith
    have Fi: "rope_bucket_len ! (i + 1) \<le> len" using ge by simp
    have step: thesis
      if 1: "rope_collect mk len i a bs m = rope_collect mk len (i + 1) a1 bs1 m1"
        and 2: "small_buckets bs1" "\<forall>j<i + 1. bs1 ! j = None" "\<And>r. a1 = Some r \<Longrightarrow> rope_depth r + 1 \<le> 2 * (i + 1)"
        and 3: "length (bucket_units bs1) + length (opt_units a1) \<le> length (bucket_units bs) + length (opt_units a)"
      for a1 bs1 m1
      by (rule less(1)[OF dec _ 2 i30 Fi less(8), where m = m1]) (rule less(2), unfold 1, use 3 in auto)
    show ?thesis
    proof (cases "bs ! i")
      case None
      have e: "rope_collect mk len i a bs m = rope_collect mk len (i + 1) a bs m"
        using i ge None by (subst rope_collect.simps) simp
      show ?thesis by (rule step[OF e less(3)]) (use less(4,5) None in \<open>auto simp: less_Suc_eq\<close>)
    next
      case (Some b)
      note b = small_bucketsD[OF less(3) i(2) Some]
      show ?thesis
      proof (cases a)
        case None
        have e: "rope_collect mk len i a bs m = rope_collect mk len (i + 1) (Some b) (bs[i := None]) m"
          using i ge Some None by (subst rope_collect.simps) simp
        show ?thesis by (rule step[OF e sb below]) (use b u Some in auto)
      next
        case a1: (Some a1)
        have d: "rope_depth b < JS_STRING_ROPE_MAX_DEPTH" "rope_depth a1 < JS_STRING_ROPE_MAX_DEPTH"
          using b less(5)[OF a1] less(6) by (simp_all add: JS_STRING_ROPE_MAX_DEPTH_def)
        obtain r m1 where mk: "mk b a1 m = Some (r, m1)"
          "\<And>x. r = Inr x \<Longrightarrow> rope_units x = rope_units b @ rope_units a1 \<and> rope_depth x = max (rope_depth b) (rope_depth a1) + 1"
          using mk_small[OF d, of m] by metis
        show ?thesis
        proof (cases r)
          case (Inl e)
          then have "rope_collect mk len i a bs m = Some (None, bs[i := None], m1)"
            using i ge Some a1 mk(1) by (subst rope_collect.simps) simp
          then show ?thesis by (rule less(2)) (use sb u in auto)
        next
          case (Inr a2)
          have e: "rope_collect mk len i a bs m = rope_collect mk len (i + 1) (Some a2) (bs[i := None]) m1"
            using i ge Some a1 mk(1) Inr by (subst rope_collect.simps) simp
          show ?thesis by (rule step[OF e sb below]) (use mk(2)[OF Inr] b less(5)[OF a1] u Some a1 in auto)
        qed
      qed
    qed
  qed
qed

lemma carry_total:
  assumes "small_buckets bs" "\<forall>j<i. bs ! j = None" "rope_depth a \<le> 2 * i" "rope_bucket_len ! i \<le> length (rope_units a)"
    "i < ROPE_N_BUCKETS" "length (bucket_units bs) + length (rope_units a) < rope_bound"
  obtains ok bs' m' where "rope_carry mk i a bs m = Some (ok, bs', m')" "small_buckets bs'"
    "length (bucket_units bs') \<le> length (bucket_units bs) + length (rope_units a)"
  using assms
proof (induction "ROPE_N_BUCKETS - i" arbitrary: i a bs m thesis rule: less_induct)
  case less
  have lb: "i < length bs" using less(3,7) by (simp add: small_buckets_def)
  have dec: "ROPE_N_BUCKETS - (i + 1) < ROPE_N_BUCKETS - i" using less(7) by simp
  have below: "\<forall>j<i + 1. bs[i := None] ! j = None" using less(4) lb by (auto simp: less_Suc_eq)
  have sb: "small_buckets (bs[i := None])" using less(3) by (rule small_buckets_update) simp
  have u: "length (bucket_units bs) = length (bucket_units (bs[i := None])) + length (opt_units (bs ! i))"
    using arg_cong[OF bucket_units_nth[OF less(4) lb], of length] by simp
  have i30: "i < 30" by (rule bucket_len_bound[OF less(7)]) (use less(6,8) in linarith)
  show ?case
  proof (cases "bs ! i")
    case None
    then have e: "rope_carry mk i a bs m = Some (True, bs[i := Some a], m)"
      using less(7) by (subst rope_carry.simps) simp
    have "small_buckets (bs[i := Some a])" using less(3) by (rule small_buckets_update) (use less in auto)
    then show ?thesis using less(2)[OF e] u None
      arg_cong[OF bucket_units_update[OF less(4) lb, of "Some a"], of length]
      arg_cong[OF bucket_units_update[OF less(4) lb, of None], of length] by simp
  next
    case (Some b)
    note b = small_bucketsD[OF less(3,7) Some]
    have d: "rope_depth b < JS_STRING_ROPE_MAX_DEPTH" "rope_depth a < JS_STRING_ROPE_MAX_DEPTH"
      using b less(5) i30 by (simp_all add: JS_STRING_ROPE_MAX_DEPTH_def)
    obtain r m1 where mk: "mk b a m = Some (r, m1)"
      "\<And>x. r = Inr x \<Longrightarrow> rope_units x = rope_units b @ rope_units a \<and> rope_depth x = max (rope_depth b) (rope_depth a) + 1"
      using mk_small[OF d, of m] by metis
    show ?thesis
    proof (cases r)
      case (Inl e)
      then have "rope_carry mk i a bs m = Some (False, bs[i := None], m1)"
        using less(7) Some mk(1) by (subst rope_carry.simps) simp
      then show ?thesis by (rule less(2)) (use sb u in auto)
    next
      case (Inr a2)
      have e: "rope_carry mk i a bs m = rope_carry mk (i + 1) a2 (bs[i := None]) m1"
        using less(7) Some mk(1) Inr by (subst rope_carry.simps) simp
      note a2 = mk(2)[OF Inr]
      have F: "rope_bucket_len ! (i + 1) \<le> length (rope_units a2)"
        using bucket_len_double[of i] i30 a2 b less(6) by simp
      have n: "i + 1 < ROPE_N_BUCKETS" using i30 by (simp add: ROPE_N_BUCKETS_def)
      show ?thesis
        by (rule less(1)[OF dec _ sb below _ F n, where m = m1]) (rule less(2), unfold e, use a2 b less(5,8) u Some in auto)
    qed
  qed
qed

lemma insert_total:
  assumes "small_buckets bs" "length (bucket_units bs) + str_length p < rope_bound"
  obtains ok bs' m' where "rope_insert_leaf mk p bs m = Some (ok, bs', m')" "small_buckets bs'"
    "length (bucket_units bs') \<le> length (bucket_units bs) + str_length p"
proof (cases "str_length p = 0")
  case True
  then have "rope_insert_leaf mk p bs m = Some (True, bs, m)" by (simp add: rope_insert_leaf_def)
  then show thesis by (rule that) (use assms in auto)
next
  case False
  have lf: "rope_bucket_len ! 0 \<le> str_length p" using False by (simp add: rope_bucket_len_def)
  obtain res bs1 m1 where c: "rope_collect mk (str_length p) 0 None bs m = Some (res, bs1, m1)" "small_buckets bs1"
    "length (bucket_units bs1) + (case res of None \<Rightarrow> 0 | Some (a, _) \<Rightarrow> length (opt_units a)) \<le> length (bucket_units bs)"
    "\<And>a' i'. res = Some (a', i') \<Longrightarrow> (\<forall>j<i'. bs1 ! j = None) \<and> i' < 30 \<and> rope_bucket_len ! i' \<le> str_length p \<and>
       (\<forall>r. a' = Some r \<longrightarrow> rope_depth r + 1 \<le> 2 * i')"
    by (rule collect_total[OF assms(1), of 0 None "str_length p" m]) (use lf assms in auto)
  show thesis
  proof (cases res)
    case None
    then have "rope_insert_leaf mk p bs m = Some (False, bs1, m1)"
      using c(1) False by (simp add: rope_insert_leaf_def del: rope_collect.simps)
    then show thesis by (rule that) (use c None in auto)
  next
    case (Some ai)
    obtain a i where ai: "ai = (a, i)" by fastforce
    note k = c(4)[OF Some[unfolded ai]]
    have i: "i < ROPE_N_BUCKETS" using k by (simp add: ROPE_N_BUCKETS_def)
    show thesis
    proof (cases a)
      case None
      obtain ok bs2 m2 where r: "rope_carry mk i (Leaf p) bs1 m1 = Some (ok, bs2, m2)" "small_buckets bs2"
        "length (bucket_units bs2) \<le> length (bucket_units bs1) + length (rope_units (Leaf p))"
        by (rule carry_total[OF c(2), of i "Leaf p" m1]) (use k i c(3) assms(2) Some ai None in \<open>auto simp: str_length_def\<close>)
      have "rope_insert_leaf mk p bs m = Some (ok, bs2, m2)"
        using c(1) r(1) False Some ai None by (simp add: rope_insert_leaf_def del: rope_collect.simps rope_carry.simps)
      then show thesis by (rule that) (use r c(3) Some ai None in \<open>auto simp: str_length_def\<close>)
    next
      case a1: (Some a1)
      have d: "rope_depth a1 < JS_STRING_ROPE_MAX_DEPTH" "rope_depth (Leaf p) < JS_STRING_ROPE_MAX_DEPTH"
        using k a1 by (auto simp: JS_STRING_ROPE_MAX_DEPTH_def)
      obtain r m2 where mk: "mk a1 (Leaf p) m1 = Some (r, m2)"
        "\<And>x. r = Inr x \<Longrightarrow> rope_units x = rope_units a1 @ str_units p \<and> rope_depth x = max (rope_depth a1) 0 + 1"
        using mk_small[OF d, of m1] by (metis rope_depth.simps(1) rope_units.simps(1))
      show thesis
      proof (cases r)
        case (Inl e)
        then have "rope_insert_leaf mk p bs m = Some (False, bs1, m2)"
          using c(1) mk(1) False Some ai a1 by (simp add: rope_insert_leaf_def del: rope_collect.simps)
        then show thesis by (rule that) (use c Some ai a1 in auto)
      next
        case (Inr a2)
        note a2 = mk(2)[OF Inr]
        obtain ok bs2 m3 where r: "rope_carry mk i a2 bs1 m2 = Some (ok, bs2, m3)" "small_buckets bs2"
          "length (bucket_units bs2) \<le> length (bucket_units bs1) + length (rope_units a2)"
          by (rule carry_total[OF c(2), of i a2 m2]) (use k i c(3) a2 assms(2) Some ai a1 in \<open>auto simp: str_length_def\<close>)
        have "rope_insert_leaf mk p bs m = Some (ok, bs2, m3)"
          using c(1) r(1) mk(1) Inr False Some ai a1 by (simp add: rope_insert_leaf_def del: rope_collect.simps rope_carry.simps)
        then show thesis by (rule that) (use r c(3) a2 Some ai a1 in \<open>auto simp: str_length_def\<close>)
      qed
    qed
  qed
qed

lemma rec_total:
  assumes "small_buckets bs" "length (bucket_units bs) + length (rope_units v) < rope_bound"
  obtains ok bs' m' where "js_rebalancee_string_rope_rec mk v bs m = Some (ok, bs', m')" "small_buckets bs'"
    "length (bucket_units bs') \<le> length (bucket_units bs) + length (rope_units v)"
  using assms
proof (induction v arbitrary: bs m thesis)
  case (Leaf p)
  show ?case by (rule insert_total[OF Leaf(2), of p m]) (use Leaf in \<open>auto simp: str_length_def\<close>)
next
  case (Node n w d l r)
  obtain ok1 bs1 m1 where 1: "js_rebalancee_string_rope_rec mk l bs m = Some (ok1, bs1, m1)" "small_buckets bs1"
    "length (bucket_units bs1) \<le> length (bucket_units bs) + length (rope_units l)"
    by (rule Node(1)[OF _ Node(4), of m]) (use Node(5) in auto)
  obtain ok2 bs2 m2 where 2: "js_rebalancee_string_rope_rec mk r bs1 m1 = Some (ok2, bs2, m2)" "small_buckets bs2"
    "length (bucket_units bs2) \<le> length (bucket_units bs1) + length (rope_units r)"
    by (rule Node(2)[OF _ 1(2), of m1]) (use Node(5) 1(3) in auto)
  show ?case by (rule Node(3)[of True bs2 m2]) (use 1 2 in auto)
qed

lemma join_total:
  assumes "\<And>j r. j < length bs \<Longrightarrow> bs ! j = Some r \<Longrightarrow> rope_depth r \<le> 2 * (k + j) \<and> k + j < 30"
    "\<And>r. a = Some r \<Longrightarrow> rope_depth r < JS_STRING_ROPE_MAX_DEPTH \<and> rope_depth r + 1 \<le> 2 * k"
  shows "rope_join mk a bs m \<noteq> None"
  using assms
proof (induction bs arbitrary: a m k)
  case (Cons b bs)
  have IH: "rope_join mk a' bs m' \<noteq> None" if "\<And>r. a' = Some r \<Longrightarrow> rope_depth r < JS_STRING_ROPE_MAX_DEPTH \<and> rope_depth r + 1 \<le> 2 * (k + 1)"
    for a' m'
    by (rule Cons.IH[of "k + 1"]) (use Cons.prems(1)[of "Suc _"] that in auto)
  show ?case
  proof (cases b)
    case None
    then show ?thesis using IH[of a m] Cons.prems(2) by fastforce
  next
    case (Some b1)
    have b1: "rope_depth b1 \<le> 2 * k" "k < 30" using Cons.prems(1)[of 0 b1] Some by auto
    show ?thesis
    proof (cases a)
      case None
      then show ?thesis using IH[of "Some b1" m] b1 Some by (simp add: JS_STRING_ROPE_MAX_DEPTH_def)
    next
      case a1: (Some a1)
      note a1' = Cons.prems(2)[OF a1]
      have d: "rope_depth b1 < JS_STRING_ROPE_MAX_DEPTH" using b1 by (simp add: JS_STRING_ROPE_MAX_DEPTH_def)
      obtain r m1 where mk: "mk b1 a1 m = Some (r, m1)"
        "\<And>x. r = Inr x \<Longrightarrow> rope_depth x = max (rope_depth b1) (rope_depth a1) + 1"
        using mk_small[of b1 a1 m] d a1' by metis
      have "rope_join mk (Some x) bs m1 \<noteq> None" if "r = Inr x" for x
        by (rule IH) (use mk(2)[OF that] b1 a1' in \<open>auto simp: JS_STRING_ROPE_MAX_DEPTH_def\<close>)
      then show ?thesis using Some a1 mk(1) by (cases r) auto
    qed
  qed
qed simp

lemma opt_units_le: "b \<in> set bs \<Longrightarrow> length (opt_units b) \<le> length (bucket_units bs)"
  unfolding bucket_units_def by (induction bs) auto

lemma rebalance_total:
  assumes "length (rope_units v) < rope_bound"
  shows "js_rebalancee_string_rope mk v m \<noteq> None"
proof -
  let ?bs = "replicate ROPE_N_BUCKETS None :: buckets"
  have sb: "small_buckets ?bs" and e: "bucket_units ?bs = []" by (simp_all add: small_buckets_def bucket_units_def)
  obtain ok bs m1 where 1: "js_rebalancee_string_rope_rec mk v ?bs m = Some (ok, bs, m1)" "small_buckets bs"
    "length (bucket_units bs) \<le> length (rope_units v)"
    by (rule rec_total[OF sb, of v m]) (use assms e in auto)
  have "rope_join mk None bs m1 \<noteq> None"
  proof (rule join_total[of bs 0])
    fix j r assume j: "j < length bs" "bs ! j = Some r"
    have jn: "j < ROPE_N_BUCKETS" using 1(2) j by (simp add: small_buckets_def)
    note b = small_bucketsD[OF 1(2) jn j(2)]
    have "length (rope_units r) \<le> length (bucket_units bs)" using opt_units_le[of "Some r" bs] j by (metis nth_mem opt_simps(2))
    then show "rope_depth r \<le> 2 * (0 + j) \<and> 0 + j < 30"
      using b bucket_len_bound[OF jn] 1(3) assms by simp
  qed simp
  then obtain x m2 where "rope_join mk None bs m1 = Some (x, m2)" by auto
  then show ?thesis using 1(1) by (cases x) (auto simp: js_rebalancee_string_rope_def split: option.splits)
qed

end

subsection \<open>The constructor keeps its contract\<close>

lemma rope_node_spec:
  assumes "rope_fits a" "rope_fits b" "\<not> is_empty_leaf b \<or> rope_depth a = 0" "mem_ok m"
    "length (rope_units a) + length (rope_units b) \<le> JS_STRING_LEN_MAX"
  obtains r m' where "rope_node a b m = (Inr r, m')" "mem_ok m'" "rope_ok r" "rope_units r = rope_units a @ rope_units b"
    "rope_depth r = max (rope_depth a) (rope_depth b) + 1"
proof -
  obtain ok m1 where r: "js_malloc m = (ok, m1)" by fastforce
  have "ok" "mem_ok m1" using js_malloc_spec[OF r] assms(4) by auto
  moreover have "is_empty_leaf b \<longrightarrow> rope_depth a = 0"
    using assms(3) by (cases b) (auto simp: is_empty_leaf_def str_length_def)
  ultimately show thesis using that[of _ m1] assms r by (auto simp: rope_node_def rope_fits_def Let_def less_Suc_eq_le)
qed

lemma new_rope_maker: "rope_maker (js_new_string_rope n)"
proof (induction n)
  case 0
  show ?case
  proof (unfold_locales, goal_cases)
    case (1 a b m res m')
    then show ?case by (elim rope_node_spec[of a b m]) (auto simp: rope_fits_def split: if_splits)
  next
    case (2 a b m)
    then show ?case by (auto simp: rope_node_def Let_def split: sum.splits bool.splits prod.splits)
  qed
next
  case (Suc n)
  show ?case
  proof (unfold_locales, goal_cases)
    case (1 a b m res m')
    obtain r m1 where r: "rope_node a b m = (Inr r, m1)" "mem_ok m1" "rope_ok r" "rope_units r = rope_units a @ rope_units b"
      by (rule rope_node_spec[OF 1(1-5)])
    show ?case
    proof (cases "rope_depth r > JS_STRING_ROPE_MAX_DEPTH")
      case True
      then have "js_rebalancee_string_rope (js_new_string_rope n) r m1 = Some (res, m')" using 1(6) r(1) by simp
      from rope_maker.rebalance_units[OF Suc this r(2)] show ?thesis using 1(5) r(4) by simp
    next
      case False
      then show ?thesis using 1(6) r by (auto simp: rope_fits_def)
    qed
  next
    case (2 a b m)
    then show ?case by (auto simp: rope_node_def Let_def split: sum.splits bool.splits prod.splits)
  qed
qed

interpretation nsr: rope_maker "js_new_string_rope n" for n
  by (rule new_rope_maker)

lemma js_new_string_rope_total:
  assumes "length (rope_units a) + length (rope_units b) < rope_bound"
  shows "js_new_string_rope (Suc n) a b m \<noteq> None"
proof (cases "rope_node a b m")
  case (Pair x m1)
  have "rope_units r = rope_units a @ rope_units b" if "x = Inr r" for r
    using Pair that by (auto simp: rope_node_def Let_def split: if_splits bool.splits prod.splits)
  then show ?thesis using Pair nsr.rebalance_total[of _ n m1] assms by (cases x) auto
qed

subsection \<open>Concatenation\<close>

lemma concat2_spec:
  assumes "mem_ok m" "str_length p1 + str_length p2 \<le> JS_STRING_LEN_MAX"
  obtains p m' where "JS_ConcatString2 blk p1 p2 m = (Inr p, m')" "mem_ok m'" "str_units p = str_units p1 @ str_units p2"
proof (cases "JS_ConcatStringInPlace blk p1 p2")
  case None
  obtain ok m1 where r: "js_malloc m = (ok, m1)" by fastforce
  have "ok" "mem_ok m1" using js_malloc_spec[OF r] assms(1) by auto
  then show thesis using that[of "case (p1, p2) of (Str8 a, Str8 b) \<Rightarrow> Str8 (a @ b) | _ \<Rightarrow> Str16 (str_units p1 @ str_units p2)" m1]
      None assms(2) r
    by (cases p1; cases p2) (auto simp: JS_ConcatString2_def JS_ConcatString1_def js_alloc_string_def)
next
  case (Some p)
  then have "str_units p = str_units p1 @ str_units p2"
    by (cases p1; cases p2) (auto simp: JS_ConcatStringInPlace_def split: if_splits)
  then show thesis using that[of p m] Some assms(1) by (simp add: JS_ConcatString2_def)
qed

lemma js_new_string_rope_result:
  assumes "js_new_string_rope n a b m = Some (res, m')" "rope_fits a" "rope_fits b"
    "\<not> is_empty_leaf b \<or> rope_depth a = 0" "mem_ok m" "length (rope_units a) + length (rope_units b) \<le> JS_STRING_LEN_MAX"
  shows "\<exists>r. res = Inr r \<and> rope_units r = rope_units a @ rope_units b \<and> rope_fits r"
  using nsr.mk_units[OF assms(2-6,1)] by blast

lemma fits_parts:
  "rope_fits (Node n w d l r) \<Longrightarrow> rope_fits l \<and> rope_fits r \<and> (is_empty_leaf r \<longrightarrow> rope_depth l = 0)"
  by (auto simp: rope_fits_def)

lemma fits_leaf [simp]: "rope_fits (Leaf p)"
  by (simp add: rope_fits_def)

lemma JS_ConcatString_result:
  assumes c: "JS_ConcatString n blk op1 op2 m = Some (res, m')" and f: "rope_fits op1" "rope_fits op2" and m: "mem_ok m"
    and len: "length (rope_units op1) + length (rope_units op2) \<le> JS_STRING_LEN_MAX"
  shows "\<exists>r. res = Inr r \<and> rope_units r = rope_units op1 @ rope_units op2 \<and> rope_fits r"
proof -
  have node: ?thesis if "js_new_string_rope n op1 op2 m = Some (res, m')" "\<not> is_empty_leaf op2 \<or> rope_depth op1 = 0"
    by (rule js_new_string_rope_result[OF that(1) f that(2) m len])
  show ?thesis
  proof (cases op2)
    case op2: (Leaf p2)
    show ?thesis
    proof (cases "str_length p2 = 0 \<or> str_length p2 > JS_STRING_ROPE_SHORT_LEN")
      case True
      then show ?thesis using c f node op2
        by (auto simp: JS_ConcatString_def str_length_def is_empty_leaf_def split: if_splits)
    next
      case sh: False
      have ne: "\<not> is_empty_leaf op2" using sh op2 by (simp add: is_empty_leaf_def)
      show ?thesis
      proof (cases op1)
        case op1: (Leaf p1)
        show ?thesis
        proof (cases "str_length p1 \<le> JS_STRING_ROPE_SHORT2_LEN")
          case True
          obtain p m1 where "JS_ConcatString2 blk p1 p2 m = (Inr p, m1)" "mem_ok m1" "str_units p = str_units p1 @ str_units p2"
            by (rule concat2_spec[OF m, of p1 p2 blk]) (use len op1 op2 in \<open>auto simp: str_length_def\<close>)
          then show ?thesis using c sh op1 op2 True by (auto simp: JS_ConcatString_def)
        next
          case False
          then show ?thesis using c sh op1 op2 node ne by (auto simp: JS_ConcatString_def)
        qed
      next
        case op1: (Node k w d l r)
        show ?thesis
        proof (cases "\<exists>pr. r = Leaf pr \<and> str_length pr \<le> JS_STRING_ROPE_SHORT_LEN")
          case True
          then obtain pr where pr: "r = Leaf pr" "str_length pr \<le> JS_STRING_ROPE_SHORT_LEN" by blast
          let ?blk = "\<lambda>p. (2, snd (blk p)) :: nat \<times> nat"
          obtain v m1 where v: "JS_ConcatString2 ?blk pr p2 m = (Inr v, m1)" "mem_ok m1" "str_units v = str_units pr @ str_units p2"
            by (rule concat2_spec[OF m, of pr p2 ?blk]) (use len op1 op2 pr(1) in \<open>auto simp: str_length_def\<close>)
          have c': "js_new_string_rope n l (Leaf v) m1 = Some (res, m')"
            using c sh op1 op2 pr v(1) by (simp add: JS_ConcatString_def)
          have "\<not> is_empty_leaf (Leaf v)" using v(3) sh by (auto simp: is_empty_leaf_def str_length_def)
          then show ?thesis using js_new_string_rope_result[OF c' _ fits_leaf _ v(2)] fits_parts[OF f(1)[unfolded op1]] len op1 op2 pr(1) v(3)
            by auto
        next
          case False
          then show ?thesis using c sh op1 op2 node ne by (auto simp: JS_ConcatString_def split: rope.splits)
        qed
      qed
    qed
  next
    case op2: (Node k w d l r)
    have ne: "\<not> is_empty_leaf op2" using op2 by (simp add: is_empty_leaf_def)
    show ?thesis
    proof (cases "\<exists>p1 pl. op1 = Leaf p1 \<and> str_length p1 \<noteq> 0 \<and> l = Leaf pl \<and> str_length pl \<le> JS_STRING_ROPE_SHORT_LEN")
      case True
      then obtain p1 pl where p: "op1 = Leaf p1" "str_length p1 \<noteq> 0" "l = Leaf pl" "str_length pl \<le> JS_STRING_ROPE_SHORT_LEN"
        by blast
      obtain v m1 where v: "JS_ConcatString2 blk p1 pl m = (Inr v, m1)" "mem_ok m1" "str_units v = str_units p1 @ str_units pl"
        by (rule concat2_spec[OF m, of p1 pl blk]) (use len p op2 in \<open>auto simp: str_length_def\<close>)
      have c': "js_new_string_rope n (Leaf v) r m1 = Some (res, m')"
        using c op2 p v(1) by (simp add: JS_ConcatString_def)
      then show ?thesis using js_new_string_rope_result[OF c' fits_leaf _ _ v(2)] fits_parts[OF f(2)[unfolded op2]] len op2 p v(3)
        by auto
    next
      case False
      then show ?thesis using c f op2 node ne
        by (auto simp: JS_ConcatString_def str_length_def split: rope.splits if_splits)
    qed
  qed
qed

lemma JS_ConcatString_total:
  assumes "length (rope_units op1) + length (rope_units op2) < rope_bound"
  shows "JS_ConcatString (Suc n) blk op1 op2 m \<noteq> None"
proof -
  have "str_units v = str_units p @ str_units q" if "JS_ConcatString2 b p q m = (Inr v, m1)" for b p q v m1
    using that by (cases p; cases q) (auto simp: JS_ConcatString2_def JS_ConcatString1_def JS_ConcatStringInPlace_def
        split: option.splits if_splits prod.splits bool.splits)
  then show ?thesis using assms js_new_string_rope_total[of _ _ n]
    by (auto simp: JS_ConcatString_def split: rope.splits prod.splits sum.splits simp del: js_new_string_rope.simps)
qed

subsection \<open>Properties\<close>

text \<open>C9: Concatenating two string values of together less than 2178309 units succeeds when no allocation
  fails, with a single unit of fuel, and gives the units of the first followed by those of the
  second, whether the strings were copied, extended in place, merged into the neighbouring leaf
  or joined in a node, and whether or not the rope was rebalanced; the result again satisfies
  the rope invariant and stays within the maximal depth.\<close>

theorem rope_concat_correct:
  assumes "rope_fits op1" "rope_fits op2" "mem_ok m" "length (rope_units op1) + length (rope_units op2) < 2178309"
  shows "\<exists>r m'. JS_ConcatString 1 blk op1 op2 m = Some (Inr r, m') \<and> rope_units r = rope_units op1 @ rope_units op2 \<and> rope_fits r"
proof -
  obtain res m' where c: "JS_ConcatString 1 blk op1 op2 m = Some (res, m')"
    using JS_ConcatString_total[of op1 op2 0 blk m] assms(4) by (auto simp: rope_bound_def)
  have "length (rope_units op1) + length (rope_units op2) \<le> JS_STRING_LEN_MAX" using assms(4) by (simp add: JS_STRING_LEN_MAX_def)
  from JS_ConcatString_result[OF c assms(1-3) this] c show ?thesis by blast
qed

theorem rope_concat_correct_witness:
  "\<exists>r m'. JS_ConcatString 1 (\<lambda>_. (2, 0)) (Leaf (Str8 (replicate 9000 0x61))) (Leaf (Str8 [0x62])) \<lparr>outcomes = [], junk = 0, live = 0\<rparr> = Some (Inr r, m') \<and>
     rope_units r = rope_units (Leaf (Str8 (replicate 9000 0x61))) @ rope_units (Leaf (Str8 [0x62])) \<and> rope_fits r"
  by (rule rope_concat_correct) (simp_all add: mem_ok_def)

text \<open>C18: Rebalancing terminates: when both strings together have less than 2178309 units, one
  rebalancing is never entered from within another, so the concatenation returns with a single
  unit of fuel, also when allocations fail.\<close>

theorem rope_concat_terminates:
  assumes "length (rope_units op1) + length (rope_units op2) < 2178309"
  shows "\<exists>res m'. JS_ConcatString 1 blk op1 op2 m = Some (res, m')"
  using JS_ConcatString_total[of op1 op2 0 blk m] assms by (auto simp: rope_bound_def)

theorem rope_concat_terminates_witness:
  "\<exists>res m'. JS_ConcatString 1 (\<lambda>_. (1, 0)) (Leaf (Str8 [0x61])) (Leaf (Str16 [0x20AC]))
     \<lparr>outcomes = [False], junk = 0, live = 0\<rparr> = Some (res, m')"
  by (rule rope_concat_terminates) simp

text \<open>C19: Comparing ropes leaf by leaf, with leaves of either width, is lexicographic comparison of
  their units, and the iterator's stack never overflows on ropes within the maximal depth.\<close>

theorem rope_compare_lexicographic:
  assumes "rope_fits op1" "rope_fits op2"
  shows "js_string_rope_compare op1 op2 False = Some (cmp_units (rope_units op1) (rope_units op2)) \<and>
    (\<exists>res. js_string_rope_compare op1 op2 True = Some res \<and> ((res = 0) = (rope_units op1 = rope_units op2)))"
proof -
  have n: "js_string_rope_compare op1 op2 e \<noteq> None" for e by (rule js_string_rope_compare_spec(2)[OF assms])
  obtain r1 where r1: "js_string_rope_compare op1 op2 False = Some r1" using n[of False] by blast
  obtain r2 where r2: "js_string_rope_compare op1 op2 True = Some r2" using n[of True] by blast
  note r = r1 r2
  show ?thesis
    using js_string_rope_compare_spec(1)[OF assms r(1)] js_string_rope_compare_spec(1)[OF assms r(2)] r by simp
qed

theorem rope_compare_lexicographic_witness:
  "js_string_rope_compare (Node 2 True 1 (Leaf (Str8 [0x61])) (Leaf (Str16 [0x20AC]))) (Leaf (Str8 [0x61, 0x62])) False =
     Some (cmp_units (rope_units (Node 2 True 1 (Leaf (Str8 [0x61])) (Leaf (Str16 [0x20AC])))) (rope_units (Leaf (Str8 [0x61, 0x62])))) \<and>
   (\<exists>res. js_string_rope_compare (Node 2 True 1 (Leaf (Str8 [0x61])) (Leaf (Str16 [0x20AC]))) (Leaf (Str8 [0x61, 0x62])) True = Some res \<and>
     ((res = 0) = (rope_units (Node 2 True 1 (Leaf (Str8 [0x61])) (Leaf (Str16 [0x20AC]))) = rope_units (Leaf (Str8 [0x61, 0x62])))))"
  by (rule rope_compare_lexicographic) (simp_all add: rope_fits_def JS_STRING_ROPE_MAX_DEPTH_def is_empty_leaf_def)

text \<open>C20: Flattening a rope gives a string with the same units and leaves behind a rope with the
  same content; every index reads the same unit before and after.\<close>

theorem rope_linearize_correct:
  assumes "rope_ok v" "js_linearize_string_rope us v m = Some (Inr (f, v'), m')"
  shows "(\<exists>p. f = Leaf p) \<and> rope_units f = rope_units v \<and> rope_ok v' \<and> rope_units v' = rope_units v \<and>
    (\<forall>i. string_rope_get v i = string_rope_get f i \<and> string_rope_get v' i = string_rope_get f i)"
proof -
  have "rope_depth f = 0 \<and> rope_ok f \<and> rope_units f = rope_units v \<and> rope_ok v' \<and> rope_units v' = rope_units v"
    by (rule js_linearize_spec[OF assms(1), of us m]) (use assms(2) in auto)
  then show ?thesis using assms(1) rope_depth_0[of f] by (auto simp: string_rope_get_spec)
qed

theorem rope_linearize_correct_witness:
  "(\<exists>p. Leaf (Str8 [0x61, 0x62]) = Leaf p) \<and> rope_units (Leaf (Str8 [0x61, 0x62])) = rope_units (Node 2 False 1 (Leaf (Str8 [0x61])) (Leaf (Str8 [0x62]))) \<and>
    rope_ok (Node 2 False 1 (Leaf (Str8 [0x61, 0x62])) (Leaf (Str8 []))) \<and>
    rope_units (Node 2 False 1 (Leaf (Str8 [0x61, 0x62])) (Leaf (Str8 []))) = rope_units (Node 2 False 1 (Leaf (Str8 [0x61])) (Leaf (Str8 [0x62]))) \<and>
    (\<forall>i. string_rope_get (Node 2 False 1 (Leaf (Str8 [0x61])) (Leaf (Str8 [0x62]))) i = string_rope_get (Leaf (Str8 [0x61, 0x62])) i \<and>
      string_rope_get (Node 2 False 1 (Leaf (Str8 [0x61, 0x62])) (Leaf (Str8 []))) i = string_rope_get (Leaf (Str8 [0x61, 0x62])) i)"
proof (rule rope_linearize_correct)
  let ?m = "\<lparr>outcomes = [], junk = 0, live = 0\<rparr> :: memstate"
  show "rope_ok (Node 2 False 1 (Leaf (Str8 [0x61])) (Leaf (Str8 [0x62])))" by (simp add: is_empty_leaf_def)
  show "js_linearize_string_rope id (Node 2 False 1 (Leaf (Str8 [0x61])) (Leaf (Str8 [0x62]))) ?m =
     Some (Inr (Leaf (Str8 [0x61, 0x62]), Node 2 False 1 (Leaf (Str8 [0x61, 0x62])) (Leaf (Str8 []))),
       \<lparr>outcomes = [], junk = 0, live = 1\<rparr>)"
    by (simp add: is_empty_leaf_def string_buffer_concat_def string_eval)
qed

text \<open>The status of the recursive calls is ignored while a rope is rebalanced: when the
  allocator fails once, the leaves gathered so far are lost and the call still succeeds, here
  with the empty string for a rope of two characters.\<close>

lemma rope_rebalance_swallows_failure:
  "js_rebalancee_string_rope (js_new_string_rope 0)
     (Node 2 False 1 (Leaf (Str8 [0x61])) (Leaf (Str8 [0x62]))) \<lparr>outcomes = [False], junk = 0, live = 0\<rparr> =
   Some (Inr (Leaf (Str8 [])), \<lparr>outcomes = [], junk = 0, live = 0\<rparr>)"
proof -
  have j: "rope_join mk None (replicate n None) m = Some (Inr None, m)" for mk n m
    by (induction n) auto
  have c: "rope_collect mk (Suc 0) 0 None bs m = Some (Some (None, 0), bs, m)" for mk bs m
    by (subst rope_collect.simps) (simp add: ROPE_N_BUCKETS_def rope_bucket_len_def)
  have k0: "rope_carry mk 0 a (replicate ROPE_N_BUCKETS None) m = Some (True, (replicate ROPE_N_BUCKETS None)[0 := Some a], m)" for mk a m
    by (subst rope_carry.simps) (simp add: ROPE_N_BUCKETS_def)
  have f: "js_new_string_rope 0 (Leaf (Str8 [0x61])) (Leaf (Str8 [0x62])) \<lparr>outcomes = [False], junk = 0, live = 0\<rparr>
      = Some (Inl StrOutOfMemory, \<lparr>outcomes = [], junk = 0, live = 0\<rparr>)"
    by (simp add: rope_node_def js_malloc_def JS_STRING_LEN_MAX_def)
  have k1: "rope_carry (js_new_string_rope 0) 0 (Leaf (Str8 [0x62])) ((replicate ROPE_N_BUCKETS None)[0 := Some (Leaf (Str8 [0x61]))])
       \<lparr>outcomes = [False], junk = 0, live = 0\<rparr>
     = Some (False, replicate ROPE_N_BUCKETS None, \<lparr>outcomes = [], junk = 0, live = 0\<rparr>)"
    by (subst rope_carry.simps) (simp add: ROPE_N_BUCKETS_def f list_eq_iff_nth_eq nth_list_update del: js_new_string_rope.simps replicate.simps)
  have u: "(replicate ROPE_N_BUCKETS None)[0 := None] = replicate ROPE_N_BUCKETS None"
    by (metis list_update_id nth_replicate ROPE_N_BUCKETS_def zero_less_numeral)
  show ?thesis
    by (simp add: js_rebalancee_string_rope_def rope_insert_leaf_def c k0 k1 j u
        del: rope_collect.simps rope_carry.simps js_new_string_rope.simps)
qed

end
