(* ===== verification/ArrayBuffers.thy ===== *)
theory ArrayBuffers
  imports Cutils
begin

text \<open>
  \<open>ArrayBuffer\<close>, \<open>SharedArrayBuffer\<close>, the typed arrays and \<open>DataView\<close> of
  \<open>zipline/native/quickjs/quickjs.c\<close>. The heap holds the buffers and the views on them; a buffer
  owns a block of memory and knows its views, a view caches the element count and a pointer into
  the block, which \<open>js_array_buffer_update_typed_arrays\<close> refreshes. Reading or writing outside the
  block gives \<open>None\<close>.

  Converting an argument can run guest code, which can resize or detach the buffer before the
  operation goes on. Conversions are therefore arguments of the operations: a \<open>guest\<close> takes the
  heap and gives the converted value, or the exception it threw, and the heap it left. Offsets
  and lengths are natural numbers: every buffer is at most \<open>INT32_MAX\<close> bytes long and indices are
  at most \<open>MAX_SAFE_INTEGER\<close>, so the \<open>uint64_t\<close> and \<open>int64_t\<close> arithmetic of the code does not wrap.
\<close>

subsection \<open>The heap\<close>

datatype buf_error = AbTypeError | AbRangeError | AbInternalError | AbOutOfMemory | AbGuest nat

datatype ta_class = UINT8C_ARRAY | INT8_ARRAY | UINT8_ARRAY | INT16_ARRAY | UINT16_ARRAY | INT32_ARRAY
  | UINT32_ARRAY | BIG_INT64_ARRAY | BIG_UINT64_ARRAY | FLOAT16_ARRAY | FLOAT32_ARRAY | FLOAT64_ARRAY
  | DATAVIEW

fun typed_array_size_log2 :: "ta_class \<Rightarrow> nat" where
  "typed_array_size_log2 UINT8C_ARRAY = 0"
| "typed_array_size_log2 INT8_ARRAY = 0"
| "typed_array_size_log2 UINT8_ARRAY = 0"
| "typed_array_size_log2 INT16_ARRAY = 1"
| "typed_array_size_log2 UINT16_ARRAY = 1"
| "typed_array_size_log2 INT32_ARRAY = 2"
| "typed_array_size_log2 UINT32_ARRAY = 2"
| "typed_array_size_log2 BIG_INT64_ARRAY = 3"
| "typed_array_size_log2 BIG_UINT64_ARRAY = 3"
| "typed_array_size_log2 FLOAT16_ARRAY = 1"
| "typed_array_size_log2 FLOAT32_ARRAY = 2"
| "typed_array_size_log2 FLOAT64_ARRAY = 3"
| "typed_array_size_log2 DATAVIEW = 0"

definition elem_size :: "ta_class \<Rightarrow> nat" where
  "elem_size c = 2 ^ typed_array_size_log2 c"

text \<open>
  \<open>max_byte_length\<close> is \<open>None\<close> for \<open>-1\<close>, \<open>ab_data\<close> is \<open>None\<close> for \<open>NULL\<close> and otherwise the whole block;
  \<open>js_free_func\<close> tells that \<open>free_func\<close> is \<open>js_array_buffer_free\<close>; \<open>array_list\<close> holds the views.
\<close>

record array_buffer =
  byte_length :: nat
  max_byte_length :: "nat option"
  detached :: bool
  shared :: bool
  ab_data :: "u8 list option"
  js_free_func :: bool
  array_list :: "nat list"

text \<open>
  A typed array or view with the fields \<open>u.array.count\<close> and \<open>u.array.u.ptr\<close> of its object; the
  pointer is the offset in the block of the buffer.
\<close>

record typed_array =
  ta_class :: ta_class
  ta_buffer :: nat
  ta_offset :: nat
  ta_length :: nat
  track_rab :: bool
  ta_count :: nat
  ta_ptr :: "nat option"

text \<open>
  \<open>sab_alloc\<close> tells whether the embedder installed an allocator for shared buffers; \<open>allocs\<close> scripts
  the outcomes of the coming allocations, which succeed when it is empty. Objects stay in the
  heap: one that a failed operation releases is an object that nothing refers to.
\<close>

record js_heap =
  buffers :: "array_buffer list"
  views :: "typed_array list"
  sab_alloc :: bool
  allocs :: "bool list"

type_synonym 'a ab_result = "((buf_error + 'a) \<times> js_heap) option"

type_synonym 'a guest = "js_heap \<Rightarrow> 'a ab_result"

definition INT32_MAX :: nat where
  "INT32_MAX = 2147483647"

definition MAX_SAFE_INTEGER :: int where
  "MAX_SAFE_INTEGER = 9007199254740991"

definition halloc :: "js_heap \<Rightarrow> bool \<times> js_heap" where
  "halloc h = (case allocs h of [] \<Rightarrow> (True, h) | ok # rest \<Rightarrow> (ok, h\<lparr>allocs := rest\<rparr>))"

definition throw :: "buf_error \<Rightarrow> js_heap \<Rightarrow> 'a ab_result" where
  "throw e h = Some (Inl e, h)"

definition return :: "'a \<Rightarrow> js_heap \<Rightarrow> 'a ab_result" where
  "return x h = Some (Inr x, h)"

text \<open>Going on with the value, or leaving with the exception.\<close>

definition and_then :: "'a ab_result \<Rightarrow> ('a \<Rightarrow> js_heap \<Rightarrow> 'b ab_result) \<Rightarrow> 'b ab_result" where
  "and_then r f = do { (x, h) \<leftarrow> r; case x of Inl e \<Rightarrow> Some (Inl e, h) | Inr v \<Rightarrow> f v h }"

subsection \<open>Conversions of arguments\<close>

text \<open>
  The argument of these is what \<open>JS_ToInt64SatFree\<close> gives for the value, which may run guest code.
\<close>

definition JS_ToIndex :: "int guest \<Rightarrow> nat guest" where
  "JS_ToIndex val h =
     and_then (val h) (\<lambda>v h. if v < 0 \<or> v > MAX_SAFE_INTEGER then throw AbRangeError h else return (nat v) h)"

definition JS_ToInt64Clamp :: "int guest \<Rightarrow> int \<Rightarrow> int \<Rightarrow> int \<Rightarrow> int guest" where
  "JS_ToInt64Clamp val lo hi neg_offset h =
     and_then (val h) (\<lambda>v h.
       let v = (if v < 0 then v + neg_offset else v) in
       return (if v < lo then lo else if v > hi then hi else v) h)"

definition JS_ToInt32Clamp :: "int guest \<Rightarrow> int \<Rightarrow> int \<Rightarrow> int \<Rightarrow> int guest" where
  "JS_ToInt32Clamp val lo hi min_offset h =
     and_then (val h) (\<lambda>v h.
       return (if v < lo then (let v = v + min_offset in if v < lo then lo else v)
               else if v > hi then hi else v) h)"

subsection \<open>Creating buffers\<close>

text \<open>
  \<open>js_create_from_ctor\<close> reads the prototype of \<open>new_target\<close>, which can be guest code, and allocates
  the object; with \<open>JS_UNDEFINED\<close> there is nothing to read.
\<close>

definition js_create_from_ctor :: "unit guest \<Rightarrow> unit guest" where
  "js_create_from_ctor ctor h =
     and_then (ctor h) (\<lambda>_ h.
       case halloc h of (False, h) \<Rightarrow> throw AbOutOfMemory h | (True, h) \<Rightarrow> return () h)"

definition no_ctor :: "unit guest" where
  "no_ctor h = return () h"

definition js_array_buffer_constructor3 ::
    "unit guest \<Rightarrow> nat \<Rightarrow> nat option \<Rightarrow> bool \<Rightarrow> u8 list option \<Rightarrow> bool \<Rightarrow> bool \<Rightarrow> nat guest" where
  "js_array_buffer_constructor3 new_target len max_len sh buf free_func alloc_flag h =
     (if \<not> alloc_flag \<and> buf \<noteq> None \<and> max_len \<noteq> None \<and> \<not> free_func then throw AbInternalError h
      else and_then (js_create_from_ctor new_target h) (\<lambda>_ h.
        if len > INT32_MAX then throw AbRangeError h
        else if (case max_len of Some n \<Rightarrow> n > INT32_MAX | None \<Rightarrow> False) then throw AbRangeError h
        else case halloc h of
          (False, h) \<Rightarrow> throw AbOutOfMemory h
        | (True, h) \<Rightarrow>
            do {
              (data, h) \<leftarrow>
                (if alloc_flag then
                   let sz = (if sh \<and> sab_alloc h then (case max_len of Some n \<Rightarrow> n | None \<Rightarrow> len) else len) in
                   case halloc h of
                     (False, h) \<Rightarrow> Some (None, h)
                   | (True, h) \<Rightarrow> Some (Some (replicate (max sz 1) 0), h)
                 else Some (buf, h));
              if alloc_flag \<and> data = None then throw AbOutOfMemory h
              else do {
                data \<leftarrow>
                  (case (alloc_flag, buf, data) of
                     (True, Some b, Some d) \<Rightarrow>
                       if len \<le> length b then map_option Some (copy_to d 0 (take len b)) else None
                   | _ \<Rightarrow> Some data);
                return (length (buffers h))
                  (h\<lparr>buffers := buffers h @
                      [\<lparr>byte_length = len, max_byte_length = max_len, detached = False, shared = sh,
                        ab_data = data, js_free_func = free_func, array_list = []\<rparr>]\<rparr>)
              }
            }))"

definition js_array_buffer_constructor2 :: "unit guest \<Rightarrow> nat \<Rightarrow> nat option \<Rightarrow> bool \<Rightarrow> nat guest" where
  "js_array_buffer_constructor2 new_target len max_len sh =
     js_array_buffer_constructor3 new_target len max_len sh None True True"

definition js_array_buffer_constructor1 :: "unit guest \<Rightarrow> nat \<Rightarrow> nat option \<Rightarrow> nat guest" where
  "js_array_buffer_constructor1 new_target len max_len =
     js_array_buffer_constructor2 new_target len max_len False"

definition JS_NewArrayBuffer :: "u8 list option \<Rightarrow> nat \<Rightarrow> bool \<Rightarrow> bool \<Rightarrow> nat guest" where
  "JS_NewArrayBuffer buf len free_func is_shared =
     js_array_buffer_constructor3 no_ctor len None is_shared buf free_func False"

definition JS_NewArrayBufferCopy :: "u8 list option \<Rightarrow> nat \<Rightarrow> nat guest" where
  "JS_NewArrayBufferCopy buf len =
     js_array_buffer_constructor3 no_ctor len None False buf True True"

text \<open>
  \<open>options\<close> is \<open>None\<close> when there is no options object; otherwise reading its \<open>maxByteLength\<close> gives
  \<open>None\<close> for \<open>undefined\<close> or the number it converts to.
\<close>

definition js_array_buffer_constructor0 ::
    "unit guest \<Rightarrow> int guest \<Rightarrow> int option guest option \<Rightarrow> bool \<Rightarrow> nat guest" where
  "js_array_buffer_constructor0 new_target len options sh h =
     and_then (JS_ToIndex len h) (\<lambda>len h.
       case options of
         None \<Rightarrow> js_array_buffer_constructor2 new_target len None sh h
       | Some opt \<Rightarrow>
           and_then (opt h) (\<lambda>v h.
             case v of
               None \<Rightarrow> js_array_buffer_constructor2 new_target len None sh h
             | Some i \<Rightarrow>
                 if (i \<ge> 0 \<and> int len > i) \<or> i > MAX_SAFE_INTEGER then throw AbRangeError h
                 else js_array_buffer_constructor2 new_target len
                        (Some (if i < 0 then nat (i + 2 ^ 64) else nat i)) sh h))"

definition js_array_buffer_constructor :: "unit guest \<Rightarrow> int guest \<Rightarrow> int option guest option \<Rightarrow> nat guest" where
  "js_array_buffer_constructor new_target len options =
     js_array_buffer_constructor0 new_target len options False"

definition js_shared_array_buffer_constructor :: "unit guest \<Rightarrow> int guest \<Rightarrow> int option guest option \<Rightarrow> nat guest" where
  "js_shared_array_buffer_constructor new_target len options =
     js_array_buffer_constructor0 new_target len options True"

subsection \<open>Properties of buffers\<close>

text \<open>\<open>JS_GetOpaque2\<close>: a value that is not a buffer of the class is a \<open>TypeError\<close>.\<close>

definition get_opaque2 :: "nat \<Rightarrow> bool \<Rightarrow> array_buffer guest" where
  "get_opaque2 b sh h =
     (if b < length (buffers h) \<and> shared (buffers h ! b) = sh then return (buffers h ! b) h
      else throw AbTypeError h)"

definition array_buffer_is_resizable :: "array_buffer \<Rightarrow> bool" where
  "array_buffer_is_resizable ab \<longleftrightarrow> max_byte_length ab \<noteq> None"

definition js_array_buffer_get_detached :: "nat \<Rightarrow> bool guest" where
  "js_array_buffer_get_detached b h = and_then (get_opaque2 b False h) (\<lambda>ab h. return (detached ab) h)"

definition js_array_buffer_get_byteLength :: "nat \<Rightarrow> bool \<Rightarrow> nat guest" where
  "js_array_buffer_get_byteLength b sh h = and_then (get_opaque2 b sh h) (\<lambda>ab h. return (byte_length ab) h)"

definition js_array_buffer_get_maxByteLength :: "nat \<Rightarrow> bool \<Rightarrow> nat guest" where
  "js_array_buffer_get_maxByteLength b sh h =
     and_then (get_opaque2 b sh h) (\<lambda>ab h.
       return (case max_byte_length ab of Some n \<Rightarrow> n | None \<Rightarrow> byte_length ab) h)"

definition js_array_buffer_get_resizable :: "nat \<Rightarrow> bool \<Rightarrow> bool guest" where
  "js_array_buffer_get_resizable b sh h =
     and_then (get_opaque2 b sh h) (\<lambda>ab h. return (array_buffer_is_resizable ab) h)"

subsection \<open>Detaching, transferring and resizing\<close>

definition update_view :: "array_buffer \<Rightarrow> typed_array \<Rightarrow> typed_array" where
  "update_view ab ta =
     (let len = byte_length ab; sz = elem_size (ta_class ta) in
      if ta_class ta = DATAVIEW then
        if track_rab ta then ta\<lparr>ta_length := (if ta_offset ta < len then len - ta_offset ta else 0)\<rparr> else ta
      else
        let ta = ta\<lparr>ta_count := 0, ta_ptr := None\<rparr> in
        if track_rab ta then
          if len \<ge> ta_offset ta + sz
          then ta\<lparr>ta_count := (len - ta_offset ta) div sz, ta_ptr := Some (ta_offset ta)\<rparr> else ta
        else if len \<ge> ta_offset ta + ta_length ta
        then ta\<lparr>ta_count := ta_length ta div sz, ta_ptr := Some (ta_offset ta)\<rparr> else ta)"

definition js_array_buffer_update_typed_arrays :: "nat \<Rightarrow> js_heap \<Rightarrow> js_heap" where
  "js_array_buffer_update_typed_arrays b h =
     h\<lparr>views := fold (\<lambda>v vs. vs[v := update_view (buffers h ! b) (vs ! v)]) (array_list (buffers h ! b)) (views h)\<rparr>"

text \<open>A buffer without its block.\<close>

definition neuter :: "nat \<Rightarrow> js_heap \<Rightarrow> js_heap" where
  "neuter b h =
     js_array_buffer_update_typed_arrays b
       (h\<lparr>buffers := (buffers h)[b := (buffers h ! b)\<lparr>ab_data := None, byte_length := 0, detached := True\<rparr>]\<rparr>)"

definition JS_DetachArrayBuffer :: "nat \<Rightarrow> js_heap \<Rightarrow> js_heap" where
  "JS_DetachArrayBuffer b h =
     (if \<not> (b < length (buffers h) \<and> \<not> shared (buffers h ! b)) \<or> detached (buffers h ! b) then h
      else neuter b h)"

definition js_get_array_buffer :: "nat \<Rightarrow> array_buffer guest" where
  "js_get_array_buffer b h =
     (if b < length (buffers h) then return (buffers h ! b) h else throw AbTypeError h)"

definition JS_GetArrayBuffer :: "nat \<Rightarrow> (u8 list option \<times> nat) guest" where
  "JS_GetArrayBuffer b h =
     and_then (js_get_array_buffer b h) (\<lambda>ab h.
       if detached ab then throw AbTypeError h else return (ab_data ab, byte_length ab) h)"

text \<open>\<open>js_realloc\<close> of a block and \<open>memset\<close> of what lies behind the old length.\<close>

definition resize_block :: "nat \<Rightarrow> nat \<Rightarrow> nat \<Rightarrow> u8 list \<Rightarrow> u8 list option" where
  "resize_block old_len new_len sz data =
     (let bs = take sz data @ replicate (sz - length data) 0xAA in
      if new_len > old_len then copy_to bs old_len (replicate (new_len - old_len) 0) else Some bs)"

definition js_array_buffer_transfer :: "nat \<Rightarrow> int guest option \<Rightarrow> bool \<Rightarrow> nat guest" where
  "js_array_buffer_transfer b new_len_arg to_fixed h =
     and_then (get_opaque2 b False h) (\<lambda>ab h.
     and_then (case new_len_arg of
         None \<Rightarrow> return (byte_length ab) h
       | Some val \<Rightarrow> JS_ToIndex val h) (\<lambda>new_len h.
       let ab = buffers h ! b;
           pmax = (if \<not> to_fixed \<and> array_buffer_is_resizable ab \<and> js_free_func ab then max_byte_length ab else None)
       in
       if detached ab then throw AbTypeError h
       else if \<not> to_fixed \<and> (case max_byte_length ab of Some n \<Rightarrow> new_len > n | None \<Rightarrow> False)
       then throw AbTypeError h
       else if new_len = 0 then
         and_then (js_array_buffer_constructor2 no_ctor 0 pmax False h) (\<lambda>res h.
           return res (JS_DetachArrayBuffer b h))
       else
         let old_len = byte_length ab in
         if new_len \<noteq> old_len then
           if new_len > INT32_MAX then throw AbRangeError h
           else if \<not> js_free_func ab then
             and_then (js_array_buffer_constructor2 no_ctor new_len pmax False h) (\<lambda>res h. do {
               d \<leftarrow> ab_data ab;
               nd \<leftarrow> ab_data (buffers h ! res);
               nd' \<leftarrow> (if min old_len new_len \<le> length d then copy_to nd 0 (take (min old_len new_len) d) else None);
               return res (neuter b (h\<lparr>buffers := (buffers h)[res := (buffers h ! res)\<lparr>ab_data := Some nd'\<rparr>]\<rparr>))
             })
           else
             and_then (js_array_buffer_constructor2 no_ctor 0 pmax False h) (\<lambda>res h.
               case halloc h of
                 (False, h) \<Rightarrow> throw AbOutOfMemory h
               | (True, h) \<Rightarrow> do {
                   d \<leftarrow> ab_data ab;
                   bs \<leftarrow> resize_block old_len new_len new_len d;
                   return res (neuter b (h\<lparr>buffers := (buffers h)[res := (buffers h ! res)\<lparr>ab_data := Some bs, byte_length := new_len\<rparr>]\<rparr>))
                 })
         else
           and_then (js_array_buffer_constructor3 no_ctor new_len pmax False (ab_data ab) (js_free_func ab) False h) (\<lambda>res h.
             return res (neuter b h))))"

definition js_array_buffer_resize :: "nat \<Rightarrow> int guest \<Rightarrow> bool \<Rightarrow> unit guest" where
  "js_array_buffer_resize b val sh h =
     and_then (get_opaque2 b sh h) (\<lambda>_ h.
     and_then (val h) (\<lambda>len h.
       let ab = buffers h ! b in
       if detached ab then throw AbTypeError h
       else case max_byte_length ab of
         None \<Rightarrow> throw AbTypeError h
       | Some max_len \<Rightarrow>
           if \<not> js_free_func ab then throw AbTypeError h
           else if len < 0 \<or> len > int max_len then throw AbRangeError h
           else if shared ab then
             if nat len < byte_length ab then throw AbRangeError h
             else return ()
               (js_array_buffer_update_typed_arrays b
                 (h\<lparr>buffers := (buffers h)[b := ab\<lparr>byte_length := nat len\<rparr>]\<rparr>))
           else
             case halloc h of
               (False, h) \<Rightarrow> throw AbOutOfMemory h
             | (True, h) \<Rightarrow> do {
                 d \<leftarrow> ab_data ab;
                 bs \<leftarrow> resize_block (byte_length ab) (nat len) (max (nat len) 1) d;
                 return ()
                   (js_array_buffer_update_typed_arrays b
                     (h\<lparr>buffers := (buffers h)[b := ab\<lparr>byte_length := nat len, ab_data := Some bs\<rparr>]\<rparr>))
               }))"

text \<open>
  \<open>species\<close> stands for the lookup and the call of the species constructor: \<open>None\<close> when there is no
  constructor, otherwise the value it returned for the length.
\<close>

definition js_array_buffer_slice ::
    "nat \<Rightarrow> int guest \<Rightarrow> int guest option \<Rightarrow> (nat \<Rightarrow> nat option guest) \<Rightarrow> bool \<Rightarrow> nat guest" where
  "js_array_buffer_slice b arg0 arg1 species sh h =
     and_then (get_opaque2 b sh h) (\<lambda>ab h.
       if detached ab then throw AbTypeError h
       else let len = int (byte_length ab) in
         and_then (JS_ToInt64Clamp arg0 0 len len h) (\<lambda>start h.
         and_then (case arg1 of None \<Rightarrow> return len h | Some v \<Rightarrow> JS_ToInt64Clamp v 0 len len h) (\<lambda>end h.
           let new_len = nat (max (end - start) 0) in
           and_then (species new_len h) (\<lambda>ctor h.
           and_then (case ctor of
               None \<Rightarrow> js_array_buffer_constructor2 no_ctor new_len None sh h
             | Some r \<Rightarrow> return r h) (\<lambda>new_obj h.
           and_then (get_opaque2 new_obj sh h) (\<lambda>new_ab h.
             if new_obj = b then throw AbTypeError h
             else if detached new_ab then throw AbTypeError h
             else if byte_length new_ab < new_len then throw AbTypeError h
             else let ab = buffers h ! b in
               if detached ab \<or> byte_length ab < nat start + new_len then throw AbTypeError h
               else do {
                 d \<leftarrow> ab_data ab;
                 nd \<leftarrow> ab_data new_ab;
                 nd' \<leftarrow> (if nat start + new_len \<le> length d then copy_to nd 0 (take new_len (drop (nat start) d)) else None);
                 return new_obj (h\<lparr>buffers := (buffers h)[new_obj := new_ab\<lparr>ab_data := Some nd'\<rparr>]\<rparr>)
               }))))))"

end
