(* ===== verification/TypedArrays.thy ===== *)
theory TypedArrays
  imports ArrayBuffers
begin

text \<open>
  The typed arrays and \<open>DataView\<close> objects of \<open>zipline/native/quickjs/quickjs.c\<close> on the buffers of
  \<open>ArrayBuffers\<close>: construction from a length, a buffer, another typed array or an object, the
  element accesses of \<open>JS_GetPropertyValue\<close> and \<open>JS_SetPropertyValue\<close>, the operations that move
  bytes in bulk, and the interface \<open>JS_GetTypedArrayBuffer\<close> of the embedder.

  An element is the 64 bits of which the code stores the low ones; what a number value converts
  to is the argument of the operation, since the conversion can run guest code.
\<close>

subsection \<open>State of a view\<close>

definition get_typed_array :: "nat \<Rightarrow> typed_array guest" where
  "get_typed_array v h =
     (if v < length (views h) \<and> ta_class (views h ! v) \<noteq> DATAVIEW then return (views h ! v) h
      else throw AbTypeError h)"

definition typed_array_is_oob :: "nat \<Rightarrow> js_heap \<Rightarrow> bool" where
  "typed_array_is_oob v h =
     (let ta = views h ! v; ab = buffers h ! ta_buffer ta; len = byte_length ab in
      if detached ab then True
      else if ta_offset ta > len then True
      else if track_rab ta then False
      else if len < ta_offset ta + ta_length ta then True
      else ta_offset ta + ta_count ta * elem_size (ta_class ta) > len)"

definition js_typed_array_get_length_unsafe :: "nat \<Rightarrow> nat guest" where
  "js_typed_array_get_length_unsafe v h =
     and_then (get_typed_array v h) (\<lambda>ta h.
       if typed_array_is_oob v h then throw AbTypeError h else return (ta_count ta) h)"

definition validate_typed_array :: "nat \<Rightarrow> unit guest" where
  "validate_typed_array v h =
     and_then (get_typed_array v h) (\<lambda>_ h.
       if typed_array_is_oob v h then throw AbTypeError h else return () h)"

definition js_typed_array_get_length :: "nat \<Rightarrow> nat guest" where
  "js_typed_array_get_length v h = and_then (get_typed_array v h) (\<lambda>ta h. return (ta_count ta) h)"

definition js_typed_array_get_buffer :: "nat \<Rightarrow> nat guest" where
  "js_typed_array_get_buffer v h = and_then (get_typed_array v h) (\<lambda>ta h. return (ta_buffer ta) h)"

definition js_typed_array_get_byteLength :: "nat \<Rightarrow> nat guest" where
  "js_typed_array_get_byteLength v h =
     and_then (get_typed_array v h) (\<lambda>ta h.
       if typed_array_is_oob v h then return 0 h
       else if \<not> track_rab ta then return (ta_length ta) h
       else return (ta_count ta * elem_size (ta_class ta)) h)"

definition js_typed_array_get_byteOffset :: "nat \<Rightarrow> nat guest" where
  "js_typed_array_get_byteOffset v h =
     and_then (get_typed_array v h) (\<lambda>ta h.
       return (if typed_array_is_oob v h then 0 else ta_offset ta) h)"

text \<open>The buffer, the offset, the length in bytes and the size of an element.\<close>

definition JS_GetTypedArrayBuffer :: "nat \<Rightarrow> (nat \<times> nat \<times> nat \<times> nat) guest" where
  "JS_GetTypedArrayBuffer v h =
     and_then (get_typed_array v h) (\<lambda>ta h.
       if typed_array_is_oob v h then throw AbTypeError h
       else return (ta_buffer ta, ta_offset ta, ta_length ta, elem_size (ta_class ta)) h)"

subsection \<open>Memory of a view\<close>

text \<open>Reads and writes of \<open>n\<close> bytes at an offset of the block of a buffer.\<close>

definition read_block :: "nat \<Rightarrow> nat \<Rightarrow> nat \<Rightarrow> js_heap \<Rightarrow> u8 list option" where
  "read_block b p n h = do {
     d \<leftarrow> ab_data (buffers h ! b);
     if p + n \<le> length d then Some (take n (drop p d)) else None
   }"

definition write_block :: "nat \<Rightarrow> nat \<Rightarrow> u8 list \<Rightarrow> js_heap \<Rightarrow> js_heap option" where
  "write_block b p bs h = do {
     d \<leftarrow> ab_data (buffers h ! b);
     d \<leftarrow> copy_to d p bs;
     Some (h\<lparr>buffers := (buffers h)[b := (buffers h ! b)\<lparr>ab_data := Some d\<rparr>]\<rparr>)
   }"

text \<open>Element \<open>i\<close> through the cached pointer, which may be \<open>NULL\<close>.\<close>

definition load_elem :: "typed_array \<Rightarrow> nat \<Rightarrow> js_heap \<Rightarrow> u64 option" where
  "load_elem ta i h = do {
     p \<leftarrow> ta_ptr ta;
     bs \<leftarrow> read_block (ta_buffer ta) (p + i * elem_size (ta_class ta)) (elem_size (ta_class ta)) h;
     Some (word_of_nat (le_value bs))
   }"

definition store_elem :: "typed_array \<Rightarrow> nat \<Rightarrow> u64 \<Rightarrow> js_heap \<Rightarrow> js_heap option" where
  "store_elem ta i x h = do {
     p \<leftarrow> ta_ptr ta;
     write_block (ta_buffer ta) (p + i * elem_size (ta_class ta)) (le_bytes (elem_size (ta_class ta)) (unat x)) h
   }"

subsection \<open>Element access\<close>

text \<open>The number that the bits of an element stand for; floating point values stay bits.\<close>

datatype js_num = NumInt int | NumBig int | NumFloat16 u16 | NumFloat32 u32 | NumFloat64 u64

fun js_element_value :: "ta_class \<Rightarrow> u64 \<Rightarrow> js_num" where
  "js_element_value INT8_ARRAY x = NumInt (sint (ucast x :: u8))"
| "js_element_value UINT8_ARRAY x = NumInt (uint (ucast x :: u8))"
| "js_element_value UINT8C_ARRAY x = NumInt (uint (ucast x :: u8))"
| "js_element_value INT16_ARRAY x = NumInt (sint (ucast x :: u16))"
| "js_element_value UINT16_ARRAY x = NumInt (uint (ucast x :: u16))"
| "js_element_value INT32_ARRAY x = NumInt (sint (ucast x :: u32))"
| "js_element_value UINT32_ARRAY x = NumInt (uint (ucast x :: u32))"
| "js_element_value BIG_INT64_ARRAY x = NumBig (sint x)"
| "js_element_value BIG_UINT64_ARRAY x = NumBig (uint x)"
| "js_element_value FLOAT16_ARRAY x = NumFloat16 (ucast x)"
| "js_element_value FLOAT32_ARRAY x = NumFloat32 (ucast x)"
| "js_element_value FLOAT64_ARRAY x = NumFloat64 x"
| "js_element_value DATAVIEW x = NumInt 0"

text \<open>\<open>None\<close> for \<open>undefined\<close>, which an index behind the last element reads as.\<close>

definition js_get_element :: "nat \<Rightarrow> nat \<Rightarrow> js_num option guest" where
  "js_get_element v idx h =
     (let ta = views h ! v in
      if idx \<ge> ta_count ta then return None h
      else do { x \<leftarrow> load_elem ta idx h; return (Some (js_element_value (ta_class ta) x)) h })"

definition js_set_element :: "nat \<Rightarrow> nat \<Rightarrow> u64 guest \<Rightarrow> unit guest" where
  "js_set_element v idx val h =
     and_then (val h) (\<lambda>x h.
       let ta = views h ! v in
       if idx \<ge> ta_count ta then return () h
       else do { h \<leftarrow> store_elem ta idx x h; return () h })"

text \<open>\<open>elem i\<close> reads element \<open>i\<close> of the source and converts it; both can run guest code.\<close>

fun js_set_elements :: "nat \<Rightarrow> nat \<Rightarrow> nat \<Rightarrow> (nat \<Rightarrow> u64 guest) \<Rightarrow> nat \<Rightarrow> unit guest" where
  "js_set_elements dst off i elem 0 h = return () h"
| "js_set_elements dst off i elem (Suc n) h =
     and_then (js_set_element dst (off + i) (elem i) h) (\<lambda>_ h. js_set_elements dst off (Suc i) elem n h)"

subsection \<open>Construction\<close>

definition typed_array_init :: "ta_class \<Rightarrow> nat \<Rightarrow> nat \<Rightarrow> nat \<Rightarrow> bool \<Rightarrow> nat guest" where
  "typed_array_init c b offset len track h =
     (case halloc h of
        (False, h) \<Rightarrow> throw AbOutOfMemory h
      | (True, h) \<Rightarrow>
          let v = length (views h) in
          return v
            (h\<lparr>buffers := (buffers h)[b := (buffers h ! b)\<lparr>array_list := array_list (buffers h ! b) @ [v]\<rparr>],
               views := views h @
                 [\<lparr>ta_class = c, ta_buffer = b, ta_offset = offset, ta_length = len * elem_size c,
                   track_rab = track, ta_count = len, ta_ptr = Some offset\<rparr>]\<rparr>))"

text \<open>
  What the first argument of the constructor is: not an object, a buffer with offset and length
  (\<open>None\<close> for \<open>undefined\<close>), a typed array, or another object with its length and elements.
\<close>

datatype ta_source =
    FromLength "int guest"
  | FromBuffer nat "int guest" "int guest option"
  | FromTyped nat
  | FromObject "nat guest" "nat \<Rightarrow> u64 guest"

definition js_typed_array_constructor_obj :: "unit guest \<Rightarrow> nat guest \<Rightarrow> (nat \<Rightarrow> u64 guest) \<Rightarrow> ta_class \<Rightarrow> nat guest" where
  "js_typed_array_constructor_obj new_target get_len elem c h =
     and_then (js_create_from_ctor new_target h) (\<lambda>_ h.
     and_then (get_len h) (\<lambda>len h.
     and_then (js_array_buffer_constructor1 no_ctor (len * elem_size c) None h) (\<lambda>b h.
     and_then (typed_array_init c b 0 len False h) (\<lambda>v h.
     and_then (js_set_elements v 0 0 elem len h) (\<lambda>_ h. return v h)))))"

text \<open>
  \<open>conv\<close> turns the value read from an element into the bits to store, or throws when one of the
  two classes holds BigInts and the other does not; no guest code runs.
\<close>

definition copy_elem :: "(ta_class \<Rightarrow> js_num option \<Rightarrow> buf_error + u64) \<Rightarrow> ta_class \<Rightarrow> nat \<Rightarrow> nat \<Rightarrow> u64 guest" where
  "copy_elem conv c src i h =
     and_then (js_get_element src i h) (\<lambda>x h. case conv c x of Inl e \<Rightarrow> throw e h | Inr bits \<Rightarrow> return bits h)"

definition js_typed_array_constructor_ta ::
    "(ta_class \<Rightarrow> js_num option \<Rightarrow> buf_error + u64) \<Rightarrow> unit guest \<Rightarrow> nat \<Rightarrow> ta_class \<Rightarrow> nat \<Rightarrow> nat guest" where
  "js_typed_array_constructor_ta conv new_target src c len h =
     and_then (js_create_from_ctor new_target h) (\<lambda>_ h.
       if typed_array_is_oob src h then throw AbTypeError h
       else and_then (js_array_buffer_constructor1 no_ctor (len * elem_size c) None h) (\<lambda>b h.
         if typed_array_is_oob src h then throw AbTypeError h
         else and_then (typed_array_init c b 0 len False h) (\<lambda>v h.
           let ta = views h ! src in
           if ta_class ta = c
             \<and> ta_offset ta + byte_length (buffers h ! b) \<le> byte_length (buffers h ! ta_buffer ta)
           then do {
             bs \<leftarrow> read_block (ta_buffer ta) (ta_offset ta) (byte_length (buffers h ! b)) h;
             h \<leftarrow> write_block b 0 bs h;
             return v h
           }
           else and_then (js_set_elements v 0 0 (copy_elem conv c src) len h) (\<lambda>_ h. return v h))))"

definition js_typed_array_constructor ::
    "(ta_class \<Rightarrow> js_num option \<Rightarrow> buf_error + u64) \<Rightarrow> unit guest \<Rightarrow> ta_source \<Rightarrow> ta_class \<Rightarrow> nat guest" where
  "js_typed_array_constructor conv new_target src c h =
     (case src of
        FromLength l \<Rightarrow>
          and_then (JS_ToIndex l h) (\<lambda>len h.
          and_then (js_create_from_ctor new_target h) (\<lambda>_ h.
          and_then (js_array_buffer_constructor1 no_ctor (len * elem_size c) None h) (\<lambda>b h.
            typed_array_init c b 0 len False h)))
      | FromBuffer b off len_arg \<Rightarrow>
          and_then (js_create_from_ctor new_target h) (\<lambda>_ h.
          and_then (JS_ToIndex off h) (\<lambda>offset h.
            if offset mod elem_size c \<noteq> 0 then throw AbRangeError h
            else case len_arg of
              None \<Rightarrow>
                let ab = buffers h ! b in
                if detached ab then throw AbTypeError h
                else if offset > byte_length ab then throw AbRangeError h
                else if \<not> array_buffer_is_resizable ab \<and> byte_length ab mod elem_size c \<noteq> 0
                then throw AbRangeError h
                else typed_array_init c b offset ((byte_length ab - offset) div elem_size c)
                       (array_buffer_is_resizable ab) h
            | Some l \<Rightarrow>
                and_then (JS_ToIndex l h) (\<lambda>len h.
                  let ab = buffers h ! b in
                  if detached ab then throw AbTypeError h
                  else if offset + len * elem_size c > byte_length ab then throw AbRangeError h
                  else typed_array_init c b offset len False h)))
      | FromTyped s \<Rightarrow> js_typed_array_constructor_ta conv new_target s c (ta_count (views h ! s)) h
      | FromObject get_len elem \<Rightarrow> js_typed_array_constructor_obj new_target get_len elem c h)"

text \<open>The numbers of the enum outside the typed arrays are no class.\<close>

definition JS_NewTypedArray ::
    "(ta_class \<Rightarrow> js_num option \<Rightarrow> buf_error + u64) \<Rightarrow> ta_source \<Rightarrow> ta_class \<Rightarrow> nat guest" where
  "JS_NewTypedArray conv src c h =
     (if c = DATAVIEW then throw AbRangeError h else js_typed_array_constructor conv no_ctor src c h)"

text \<open>\<open>ctor\<close> is the constructor that is called; the check on its result for one argument is that of the length.\<close>

definition js_typed_array_create :: "nat guest \<Rightarrow> int guest option \<Rightarrow> nat guest" where
  "js_typed_array_create ctor arg h =
     and_then (ctor h) (\<lambda>ret h.
     and_then (js_typed_array_get_length_unsafe ret h) (\<lambda>new_len h.
       case arg of
         None \<Rightarrow> return ret h
       | Some l \<Rightarrow>
           and_then (JS_ToInt64Clamp l 0 MAX_SAFE_INTEGER 0 h) (\<lambda>len h.
             if int new_len < len then throw AbTypeError h else return ret h)))"

subsection \<open>Operations on elements in bulk\<close>

datatype set_source = TypedSource nat | ObjectSource "nat guest"

definition js_typed_array_set_internal ::
    "nat \<Rightarrow> set_source \<Rightarrow> (nat \<Rightarrow> u64 guest) \<Rightarrow> int guest \<Rightarrow> unit guest" where
  "js_typed_array_set_internal dst src elem off h =
     and_then (get_typed_array dst h) (\<lambda>_ h.
     and_then (off h) (\<lambda>offset h.
       if offset < 0 then throw AbRangeError h
       else if typed_array_is_oob dst h then throw AbTypeError h
       else
         let p = views h ! dst; dst_len = int (ta_count p); shift = elem_size (ta_class p) in
         case src of
           TypedSource s \<Rightarrow>
             let src_p = views h ! s; src_len = ta_count src_p in
             if typed_array_is_oob s h then throw AbTypeError h
             else if offset > dst_len - int src_len then throw AbRangeError h
             else if ta_class src_p = ta_class p then do {
               bs \<leftarrow> read_block (ta_buffer src_p) (ta_offset src_p) (src_len * shift) h;
               h \<leftarrow> write_block (ta_buffer p) (ta_offset p + nat offset * shift) bs h;
               return () h
             }
             else js_set_elements dst (nat offset) 0 elem src_len h
         | ObjectSource get_len \<Rightarrow>
             and_then (get_len h) (\<lambda>src_len h.
               if offset > dst_len - int src_len then throw AbRangeError h
               else js_set_elements dst (nat offset) 0 elem src_len h)))"

text \<open>\<open>argc > 1\<close>; otherwise the offset converts from \<open>undefined\<close>, which is zero.\<close>

definition js_typed_array_set :: "nat \<Rightarrow> set_source \<Rightarrow> (nat \<Rightarrow> u64 guest) \<Rightarrow> int guest option \<Rightarrow> unit guest" where
  "js_typed_array_set v src elem arg1 h =
     js_typed_array_set_internal v src elem (case arg1 of Some off \<Rightarrow> off | None \<Rightarrow> return 0) h"

definition js_typed_array_at :: "nat \<Rightarrow> int guest \<Rightarrow> js_num option guest" where
  "js_typed_array_at v arg h =
     and_then (get_typed_array v h) (\<lambda>ta h.
       if typed_array_is_oob v h then throw AbTypeError h
       else and_then (arg h) (\<lambda>idx h.
         let idx = (if idx < 0 then int (ta_count ta) + idx else idx); len = int (ta_count (views h ! v)) in
         if idx < 0 \<or> idx \<ge> len then return None h
         else js_get_element v (nat idx) h))"

text \<open>\<open>prim\<close> is \<open>JS_ToPrimitive\<close> of the value, after which its conversion runs no guest code.\<close>

definition js_typed_array_with ::
    "(ta_class \<Rightarrow> js_num option \<Rightarrow> buf_error + u64) \<Rightarrow> nat \<Rightarrow> int guest \<Rightarrow> (buf_error + u64) guest \<Rightarrow> nat guest" where
  "js_typed_array_with conv v arg prim h =
     and_then (get_typed_array v h) (\<lambda>ta h.
       if typed_array_is_oob v h then throw AbTypeError h
       else
         let len = ta_count ta in
         and_then (arg h) (\<lambda>idx h.
           let idx = (if idx < 0 then int len + idx else idx) in
           and_then (prim h) (\<lambda>val h.
             if typed_array_is_oob v h \<or> idx < 0 \<or> idx \<ge> int (ta_count (views h ! v)) then throw AbRangeError h
             else and_then (js_typed_array_constructor_ta conv no_ctor v (ta_class ta) len h) (\<lambda>arr h.
               and_then (js_set_element arr (nat idx)
                   (case val of Inl e \<Rightarrow> throw e | Inr bits \<Rightarrow> return bits) h) (\<lambda>_ h. return arr h)))))"

definition js_typed_array_copyWithin :: "nat \<Rightarrow> int guest \<Rightarrow> int guest \<Rightarrow> int guest option \<Rightarrow> nat guest" where
  "js_typed_array_copyWithin v arg0 arg1 arg2 h =
     and_then (get_typed_array v h) (\<lambda>ta h.
       if typed_array_is_oob v h then throw AbTypeError h
       else
         let len = int (ta_count ta) in
         and_then (JS_ToInt32Clamp arg0 0 len len h) (\<lambda>to h.
         and_then (JS_ToInt32Clamp arg1 0 len len h) (\<lambda>from h.
         and_then (case arg2 of None \<Rightarrow> return len h | Some a \<Rightarrow> JS_ToInt32Clamp a 0 len len h) (\<lambda>final h.
           if typed_array_is_oob v h then throw AbTypeError h
           else
             let ta = views h ! v;
                 space = int (ta_count ta) - max to from;
                 count = min (min (final - from) (len - to)) space;
                 shift = elem_size (ta_class ta)
             in
             if count > 0 then do {
               p \<leftarrow> ta_ptr ta;
               bs \<leftarrow> read_block (ta_buffer ta) (p + nat from * shift) (nat count * shift) h;
               h \<leftarrow> write_block (ta_buffer ta) (p + nat to * shift) bs h;
               return v h
             }
             else return v h))))"

fun fill_elems :: "typed_array \<Rightarrow> nat \<Rightarrow> u64 \<Rightarrow> nat \<Rightarrow> js_heap \<Rightarrow> js_heap option" where
  "fill_elems ta k x 0 h = Some h"
| "fill_elems ta k x (Suc n) h = do { h \<leftarrow> store_elem ta k x h; fill_elems ta (Suc k) x n h }"

definition js_typed_array_fill :: "nat \<Rightarrow> u64 guest \<Rightarrow> int guest option \<Rightarrow> int guest option \<Rightarrow> nat guest" where
  "js_typed_array_fill v val arg1 arg2 h =
     and_then (get_typed_array v h) (\<lambda>ta h.
       if typed_array_is_oob v h then throw AbTypeError h
       else
         let len = int (ta_count ta) in
         and_then (val h) (\<lambda>v64 h.
         and_then (case arg1 of None \<Rightarrow> return 0 h | Some a \<Rightarrow> JS_ToInt32Clamp a 0 len len h) (\<lambda>k h.
         and_then (case arg2 of None \<Rightarrow> return len h | Some a \<Rightarrow> JS_ToInt32Clamp a 0 len len h) (\<lambda>final h.
           if typed_array_is_oob v h then throw AbTypeError h
           else
             let ta = views h ! v; final = min final (int (ta_count ta)) in
             do { h \<leftarrow> fill_elems ta (nat k) v64 (nat (final - k)) h; return v h }))))"

text \<open>
  \<open>species\<close> looks up the species constructor: \<open>None\<close> when there is none, otherwise its call with a
  number of arguments. Without one, the constructor of the class gets \<open>src\<close>, the whole argument
  array, however many arguments the caller counted.
\<close>

definition js_typed_array_speciesCreate ::
    "(ta_class \<Rightarrow> js_num option \<Rightarrow> buf_error + u64) \<Rightarrow> (nat \<Rightarrow> nat guest) option guest \<Rightarrow> nat \<Rightarrow> nat \<Rightarrow> ta_source \<Rightarrow> nat guest" where
  "js_typed_array_speciesCreate conv species v argc src h =
     and_then (get_typed_array v h) (\<lambda>ta h.
     and_then (species h) (\<lambda>ctor h.
       case ctor of
         None \<Rightarrow> js_typed_array_constructor conv no_ctor src (ta_class ta) h
       | Some c \<Rightarrow> js_typed_array_create (c argc) None h))"

definition js_typed_array_subarray ::
    "(ta_class \<Rightarrow> js_num option \<Rightarrow> buf_error + u64) \<Rightarrow> (nat \<Rightarrow> nat guest) option guest \<Rightarrow> nat \<Rightarrow> int guest \<Rightarrow> int guest option \<Rightarrow> nat guest" where
  "js_typed_array_subarray conv species v arg0 arg1 h =
     and_then (get_typed_array v h) (\<lambda>ta h.
       let len = int (ta_count ta) in
       and_then (JS_ToInt32Clamp arg0 0 len len h) (\<lambda>start h.
         let ta = views h ! v; offset = ta_offset ta + nat start * elem_size (ta_class ta) in
         and_then (case arg1 of None \<Rightarrow> return len h | Some a \<Rightarrow> JS_ToInt32Clamp a 0 len len h) (\<lambda>final h.
           let is_auto = (arg1 = None \<and> track_rab ta); count = max (final - start) 0 in
           and_then (js_typed_array_get_buffer v h) (\<lambda>b h.
             js_typed_array_speciesCreate conv species v (if is_auto then 2 else 3)
               (FromBuffer b (return (int offset)) (Some (return count))) h))))"

subsection \<open>DataView\<close>

definition js_dataview_constructor :: "unit guest \<Rightarrow> nat \<Rightarrow> int guest option \<Rightarrow> int guest option \<Rightarrow> nat guest" where
  "js_dataview_constructor new_target b arg1 arg2 h =
     and_then (js_get_array_buffer b h) (\<lambda>_ h.
     and_then (case arg1 of None \<Rightarrow> return 0 h | Some a \<Rightarrow> JS_ToIndex a h) (\<lambda>offset h.
       let ab = buffers h ! b in
       if detached ab then throw AbTypeError h
       else if offset > byte_length ab then throw AbRangeError h
       else
         let len = byte_length ab - offset; track = (arg2 = None \<and> array_buffer_is_resizable ab) in
         and_then (case arg2 of
             None \<Rightarrow> return len h
           | Some a \<Rightarrow> and_then (JS_ToIndex a h) (\<lambda>l h. if l > len then throw AbRangeError h else return l h))
         (\<lambda>len h.
         and_then (js_create_from_ctor new_target h) (\<lambda>_ h.
           let ab = buffers h ! b in
           if detached ab then throw AbTypeError h
           else if offset > byte_length ab \<or> arg2 \<noteq> None \<and> offset + len > byte_length ab then throw AbRangeError h
           else
             let len = (if arg2 = None then byte_length ab - offset else len) in
             case halloc h of
               (False, h) \<Rightarrow> throw AbOutOfMemory h
             | (True, h) \<Rightarrow>
                 let v = length (views h) in
                 return v
                   (h\<lparr>buffers := (buffers h)[b := (buffers h ! b)\<lparr>array_list := array_list (buffers h ! b) @ [v]\<rparr>],
                      views := views h @
                        [\<lparr>ta_class = DATAVIEW, ta_buffer = b, ta_offset = offset, ta_length = len,
                          track_rab = track, ta_count = 0, ta_ptr = None\<rparr>]\<rparr>)))))"

definition get_dataview :: "nat \<Rightarrow> typed_array guest" where
  "get_dataview v h =
     (if v < length (views h) \<and> ta_class (views h ! v) = DATAVIEW then return (views h ! v) h
      else throw AbTypeError h)"

definition dataview_is_oob :: "nat \<Rightarrow> js_heap \<Rightarrow> bool" where
  "dataview_is_oob v h =
     (let ta = views h ! v; ab = buffers h ! ta_buffer ta in
      if detached ab then True
      else if ta_offset ta > byte_length ab then True
      else if track_rab ta then False
      else ta_offset ta + ta_length ta > byte_length ab)"

definition js_dataview_get_byteLength :: "nat \<Rightarrow> nat guest" where
  "js_dataview_get_byteLength v h =
     and_then (get_dataview v h) (\<lambda>ta h.
       if dataview_is_oob v h then throw AbTypeError h
       else if track_rab ta then return (byte_length (buffers h ! ta_buffer ta) - ta_offset ta) h
       else return (ta_length ta) h)"

definition js_dataview_get_byteOffset :: "nat \<Rightarrow> nat guest" where
  "js_dataview_get_byteOffset v h =
     and_then (get_dataview v h) (\<lambda>ta h.
       if dataview_is_oob v h then throw AbTypeError h else return (ta_offset ta) h)"

text \<open>The bytes of a big-endian access are those of the little-endian one in reverse.\<close>

definition swap_bytes :: "bool \<Rightarrow> u8 list \<Rightarrow> u8 list" where
  "swap_bytes little_endian bs = (if little_endian then bs else rev bs)"

definition js_dataview_getValue :: "nat \<Rightarrow> ta_class \<Rightarrow> int guest \<Rightarrow> bool \<Rightarrow> js_num guest" where
  "js_dataview_getValue v c arg0 little_endian h =
     and_then (get_dataview v h) (\<lambda>_ h.
     and_then (JS_ToIndex arg0 h) (\<lambda>pos h.
       let ta = views h ! v; ab = buffers h ! ta_buffer ta; size = elem_size c in
       if detached ab then throw AbTypeError h
       else if pos + size > ta_length ta then throw AbRangeError h
       else if ta_offset ta + ta_length ta > byte_length ab then throw AbTypeError h
       else do {
         bs \<leftarrow> read_block (ta_buffer ta) (ta_offset ta + pos) size h;
         return (js_element_value c (word_of_nat (le_value (swap_bytes little_endian bs)))) h
       }))"

definition js_dataview_setValue :: "nat \<Rightarrow> ta_class \<Rightarrow> int guest \<Rightarrow> u64 guest \<Rightarrow> bool \<Rightarrow> unit guest" where
  "js_dataview_setValue v c arg0 val little_endian h =
     and_then (get_dataview v h) (\<lambda>_ h.
     and_then (JS_ToIndex arg0 h) (\<lambda>pos h.
     and_then (val h) (\<lambda>x h.
       let ta = views h ! v; ab = buffers h ! ta_buffer ta; size = elem_size c in
       if detached ab then throw AbTypeError h
       else if pos + size > ta_length ta then throw AbRangeError h
       else if ta_offset ta + ta_length ta > byte_length ab then throw AbTypeError h
       else do {
         h \<leftarrow> write_block (ta_buffer ta) (ta_offset ta + pos) (swap_bytes little_endian (le_bytes size (unat x))) h;
         return () h
       })))"

end
