(* ===== verification/BufferSafety.thy ===== *)
theory BufferSafety
  imports TypedArrays
begin

text \<open>
  Memory safety of \<open>ArrayBuffers\<close> and \<open>TypedArrays\<close>. The invariant \<open>heap_ok\<close> says that the cached
  window of every typed array lies in the block of its buffer; every operation keeps it and stays
  inside the blocks whatever guest code runs while its arguments are converted.
\<close>

subsection \<open>The invariant\<close>

definition buffer_ok :: "array_buffer \<Rightarrow> bool" where
  "buffer_ok ab \<longleftrightarrow>
     (detached ab = (ab_data ab = None)) \<and> (detached ab \<longrightarrow> byte_length ab = 0)
     \<and> byte_length ab \<le> INT32_MAX
     \<and> (\<forall>n. max_byte_length ab = Some n \<longrightarrow> byte_length ab \<le> n \<and> n \<le> INT32_MAX)
     \<and> (\<forall>d. ab_data ab = Some d \<longrightarrow> byte_length ab \<le> length d
           \<and> (shared ab \<longrightarrow> (\<forall>n. max_byte_length ab = Some n \<longrightarrow> n \<le> length d)))"

definition view_ok :: "array_buffer \<Rightarrow> typed_array \<Rightarrow> bool" where
  "view_ok ab ta \<longleftrightarrow>
     ta_class ta \<noteq> DATAVIEW \<longrightarrow> ta_count ta > 0 \<longrightarrow>
       ta_ptr ta = Some (ta_offset ta) \<and> ta_offset ta + ta_count ta * elem_size (ta_class ta) \<le> byte_length ab"

definition heap_ok :: "js_heap \<Rightarrow> bool" where
  "heap_ok h \<longleftrightarrow>
     (\<forall>b<length (buffers h). buffer_ok (buffers h ! b) \<and> (\<forall>v\<in>set (array_list (buffers h ! b)). v < length (views h) \<and> ta_buffer (views h ! v) = b))
     \<and> (\<forall>v<length (views h). ta_buffer (views h ! v) < length (buffers h)
           \<and> v \<in> set (array_list (buffers h ! ta_buffer (views h ! v)))
           \<and> view_ok (buffers h ! ta_buffer (views h ! v)) (views h ! v))"

text \<open>What guest code cannot change: the objects that exist and their fixed fields.\<close>

definition same_buffer :: "array_buffer \<Rightarrow> array_buffer \<Rightarrow> bool" where
  "same_buffer ab ab' \<longleftrightarrow> shared ab' = shared ab \<and> max_byte_length ab' = max_byte_length ab \<and> js_free_func ab' = js_free_func ab"

definition same_view :: "typed_array \<Rightarrow> typed_array \<Rightarrow> bool" where
  "same_view ta ta' \<longleftrightarrow> ta_class ta' = ta_class ta \<and> ta_buffer ta' = ta_buffer ta \<and> ta_offset ta' = ta_offset ta \<and> track_rab ta' = track_rab ta"

definition heap_le :: "js_heap \<Rightarrow> js_heap \<Rightarrow> bool" where
  "heap_le h h' \<longleftrightarrow>
     sab_alloc h' = sab_alloc h \<and> length (buffers h) \<le> length (buffers h') \<and> length (views h) \<le> length (views h')
     \<and> (\<forall>b<length (buffers h). same_buffer (buffers h ! b) (buffers h' ! b))
     \<and> (\<forall>v<length (views h). same_view (views h ! v) (views h' ! v))"

lemma heap_le_refl [simp]: "heap_le h h"
  by (simp add: heap_le_def same_buffer_def same_view_def)

lemma heap_le_trans: "heap_le h1 h2 \<Longrightarrow> heap_le h2 h3 \<Longrightarrow> heap_le h1 h3"
  by (auto simp: heap_le_def same_buffer_def same_view_def)

lemma heap_le_buffer: "heap_le h h' \<Longrightarrow> b < length (buffers h) \<Longrightarrow> b < length (buffers h') \<and> same_buffer (buffers h ! b) (buffers h' ! b)"
  by (auto simp: heap_le_def)

lemma heap_le_view: "heap_le h h' \<Longrightarrow> v < length (views h) \<Longrightarrow> v < length (views h') \<and> same_view (views h ! v) (views h' ! v)"
  by (auto simp: heap_le_def)

lemma elem_size_pos [simp]: "elem_size c > 0"
  by (simp add: elem_size_def)

subsection \<open>Running an operation\<close>

text \<open>The operation stays inside the blocks, keeps the invariant, and its value satisfies \<open>P\<close>.\<close>

definition runs :: "js_heap \<Rightarrow> 'a ab_result \<Rightarrow> ('a \<Rightarrow> js_heap \<Rightarrow> bool) \<Rightarrow> bool" where
  "runs h r P \<longleftrightarrow> (\<exists>x h'. r = Some (x, h') \<and> heap_ok h' \<and> heap_le h h' \<and> (\<forall>v. x = Inr v \<longrightarrow> P v h'))"

definition guest_safe :: "'a guest \<Rightarrow> ('a \<Rightarrow> js_heap \<Rightarrow> bool) \<Rightarrow> bool" where
  "guest_safe f P \<longleftrightarrow> (\<forall>h. heap_ok h \<longrightarrow> runs h (f h) P)"

lemma runs_throw [simp]: "runs h (throw e h) P = heap_ok h"
  by (simp add: runs_def throw_def)

lemma runs_return [simp]: "runs h (return v h) P = (heap_ok h \<and> P v h)"
  by (simp add: runs_def return_def)

lemma runs_and_then:
  assumes "runs h r P" "\<And>v h'. heap_ok h' \<Longrightarrow> heap_le h h' \<Longrightarrow> P v h' \<Longrightarrow> runs h' (f v h') Q"
  shows "runs h (and_then r f) Q"
proof -
  obtain x h' where r: "r = Some (x, h')" "heap_ok h'" "heap_le h h'" "\<And>v. x = Inr v \<Longrightarrow> P v h'"
    using assms(1) by (auto simp: runs_def)
  show ?thesis
  proof (cases x)
    case (Inl e)
    then show ?thesis using r by (simp add: and_then_def runs_def)
  next
    case (Inr v)
    obtain y h'' where "f v h' = Some (y, h'')" "heap_ok h''" "heap_le h' h''" "\<And>w. y = Inr w \<Longrightarrow> Q w h''"
      using assms(2)[OF r(2,3) r(4)[OF Inr]] by (auto simp: runs_def)
    then show ?thesis using r Inr heap_le_trans[OF r(3)] by (auto simp: and_then_def runs_def)
  qed
qed

lemma runs_le: "heap_le h h' \<Longrightarrow> runs h' r P \<Longrightarrow> runs h r P"
  by (auto simp: runs_def intro: heap_le_trans)

lemma runs_mono: "runs h r P \<Longrightarrow> (\<And>v h'. heap_ok h' \<Longrightarrow> heap_le h h' \<Longrightarrow> P v h' \<Longrightarrow> Q v h') \<Longrightarrow> runs h r Q"
  by (auto simp: runs_def)

lemma runs_any: "runs h r P \<Longrightarrow> runs h r (\<lambda>_ _. True)"
  by (auto simp: runs_def)

lemma runs_some [simp]: "runs h (do { x \<leftarrow> Some y; f x }) P = runs h (f y) P"
  by simp

lemma guest_runs: "guest_safe f P \<Longrightarrow> heap_ok h \<Longrightarrow> runs h (f h) P"
  by (simp add: guest_safe_def)

lemma guest_return [intro]: "(\<And>h. P v h) \<Longrightarrow> guest_safe (return v) P"
  by (auto simp: guest_safe_def)

lemma guest_throw [intro]: "guest_safe (throw e) P"
  by (auto simp: guest_safe_def)

lemma no_ctor_safe [simp]: "guest_safe no_ctor (\<lambda>_ _. True)"
  by (auto simp: guest_safe_def no_ctor_def)

text \<open>Changes that concern neither buffers nor views.\<close>

lemma heap_ok_allocs [simp]: "heap_ok (h\<lparr>allocs := a\<rparr>) = heap_ok h"
  by (simp add: heap_ok_def)

lemma heap_le_allocs [simp]: "heap_le h (h\<lparr>allocs := a\<rparr>)" "heap_le (h\<lparr>allocs := a\<rparr>) h' = heap_le h h'"
  by (simp_all add: heap_le_def same_buffer_def same_view_def)

lemma halloc_cases:
  obtains ok a where "halloc h = (ok, h\<lparr>allocs := a\<rparr>)"
proof (cases "allocs h")
  case Nil
  then have "halloc h = (True, h\<lparr>allocs := allocs h\<rparr>)" by (simp add: halloc_def)
  then show thesis by (rule that)
next
  case (Cons ok rest)
  then show thesis using that by (simp add: halloc_def)
qed

lemma runs_allocs: "runs (h\<lparr>allocs := a\<rparr>) r P = runs h r P"
  by (simp add: runs_def)

lemma runs_halloc:
  assumes "heap_ok h" "\<And>a. runs h (f (h\<lparr>allocs := a\<rparr>)) P" "\<And>a. runs h (g (h\<lparr>allocs := a\<rparr>)) P"
  shows "runs h (case halloc h of (False, h) \<Rightarrow> f h | (True, h) \<Rightarrow> g h) P"
  by (rule halloc_cases[of h]) (use assms in \<open>auto split: bool.splits\<close>)

subsection \<open>Changes of the heap\<close>

lemma heap_ok_buffer: "heap_ok h \<Longrightarrow> b < length (buffers h) \<Longrightarrow> buffer_ok (buffers h ! b)"
  by (simp add: heap_ok_def)

lemma heap_ok_view:
  "heap_ok h \<Longrightarrow> v < length (views h) \<Longrightarrow>
     ta_buffer (views h ! v) < length (buffers h) \<and> view_ok (buffers h ! ta_buffer (views h ! v)) (views h ! v)"
  by (simp add: heap_ok_def)

lemma heap_ok_list:
  "heap_ok h \<Longrightarrow> b < length (buffers h) \<Longrightarrow> v \<in> set (array_list (buffers h ! b)) \<Longrightarrow>
     v < length (views h) \<and> ta_buffer (views h ! v) = b"
  by (auto simp: heap_ok_def)

lemma heap_ok_listed:
  "heap_ok h \<Longrightarrow> v < length (views h) \<Longrightarrow> v \<in> set (array_list (buffers h ! ta_buffer (views h ! v)))"
  by (auto simp: heap_ok_def)

lemma heap_okI:
  assumes "\<And>b. b < length (buffers h) \<Longrightarrow> buffer_ok (buffers h ! b)"
    "\<And>b v. b < length (buffers h) \<Longrightarrow> v \<in> set (array_list (buffers h ! b)) \<Longrightarrow> v < length (views h) \<and> ta_buffer (views h ! v) = b"
    "\<And>v. v < length (views h) \<Longrightarrow> ta_buffer (views h ! v) < length (buffers h)
       \<and> v \<in> set (array_list (buffers h ! ta_buffer (views h ! v))) \<and> view_ok (buffers h ! ta_buffer (views h ! v)) (views h ! v)"
  shows "heap_ok h"
  using assms by (auto simp: heap_ok_def)

lemmas heap_okD = heap_ok_buffer heap_ok_view heap_ok_list heap_ok_listed

lemma heap_ok_add_buffer:
  assumes "heap_ok h" "buffer_ok ab" "array_list ab = []"
  shows "heap_ok (h\<lparr>buffers := buffers h @ [ab]\<rparr>)" "heap_le h (h\<lparr>buffers := buffers h @ [ab]\<rparr>)"
proof -
  show "heap_ok (h\<lparr>buffers := buffers h @ [ab]\<rparr>)"
    by (rule heap_okI) (use assms heap_okD[OF assms(1)] in \<open>auto simp: nth_append less_Suc_eq split: if_splits\<close>)
  show "heap_le h (h\<lparr>buffers := buffers h @ [ab]\<rparr>)"
    by (simp add: heap_le_def nth_append same_buffer_def same_view_def)
qed

lemma heap_ok_set_buffer:
  assumes "heap_ok h" "b < length (buffers h)" "buffer_ok ab" "same_buffer (buffers h ! b) ab"
    "array_list ab = array_list (buffers h ! b)" "byte_length ab = byte_length (buffers h ! b)"
  shows "heap_ok (h\<lparr>buffers := (buffers h)[b := ab]\<rparr>)" "heap_le h (h\<lparr>buffers := (buffers h)[b := ab]\<rparr>)"
proof -
  have n: "array_list ((buffers h)[b := ab] ! c) = array_list (buffers h ! c)"
    "byte_length ((buffers h)[b := ab] ! c) = byte_length (buffers h ! c)" for c
    using assms(2,5,6) by (simp_all add: nth_list_update)
  show "heap_ok (h\<lparr>buffers := (buffers h)[b := ab]\<rparr>)"
  proof (rule heap_okI)
    fix c assume "c < length (buffers (h\<lparr>buffers := (buffers h)[b := ab]\<rparr>))"
    then show "buffer_ok (buffers (h\<lparr>buffers := (buffers h)[b := ab]\<rparr>) ! c)"
      using heap_ok_buffer[OF assms(1), of c] assms(2,3) by (cases "c = b") simp_all
  qed (use heap_okD[OF assms(1)] in \<open>simp_all add: n view_ok_def\<close>)
  show "heap_le h (h\<lparr>buffers := (buffers h)[b := ab]\<rparr>)"
    using assms(2,4) by (simp add: heap_le_def nth_list_update same_buffer_def same_view_def)
qed

lemma heap_ok_add_view:
  assumes "heap_ok h" "b < length (buffers h)" "ta_buffer ta = b" "view_ok (buffers h ! b) ta"
  defines "ab \<equiv> (buffers h ! b)\<lparr>array_list := array_list (buffers h ! b) @ [length (views h)]\<rparr>"
  shows "heap_ok (h\<lparr>buffers := (buffers h)[b := ab], views := views h @ [ta]\<rparr>)"
    "heap_le h (h\<lparr>buffers := (buffers h)[b := ab], views := views h @ [ta]\<rparr>)"
proof -
  have n: "byte_length ((buffers h)[b := ab] ! c) = byte_length (buffers h ! c)"
    "array_list ((buffers h)[b := ab] ! c) = array_list (buffers h ! c) @ (if c = b then [length (views h)] else [])" for c
    using assms(2) by (simp_all add: nth_list_update ab_def)
  have ab: "buffer_ok ab" using heap_ok_buffer[OF assms(1,2)] by (simp add: ab_def buffer_ok_def)
  let ?h = "h\<lparr>buffers := (buffers h)[b := ab], views := views h @ [ta]\<rparr>"
  show "heap_ok ?h"
  proof (rule heap_okI)
    fix c assume "c < length (buffers ?h)"
    then show "buffer_ok (buffers ?h ! c)"
      using heap_ok_buffer[OF assms(1), of c] ab assms(2) by (cases "c = b") simp_all
  next
    fix c v assume "c < length (buffers ?h)" "v \<in> set (array_list (buffers ?h ! c))"
    then show "v < length (views ?h) \<and> ta_buffer (views ?h ! v) = c"
      using heap_ok_list[OF assms(1), of c v] assms(3) by (auto simp: n nth_append split: if_splits)
  next
    fix v assume v: "v < length (views ?h)"
    show "ta_buffer (views ?h ! v) < length (buffers ?h)
       \<and> v \<in> set (array_list (buffers ?h ! ta_buffer (views ?h ! v))) \<and> view_ok (buffers ?h ! ta_buffer (views ?h ! v)) (views ?h ! v)"
    proof (cases "v < length (views h)")
      case True
      then show ?thesis
        using heap_ok_view[OF assms(1) True] heap_ok_listed[OF assms(1) True] by (simp add: n nth_append view_ok_def)
    next
      case False
      then have "v = length (views h)" using v by simp
      moreover have "byte_length ab = byte_length (buffers h ! b)" "length (views h) \<in> set (array_list ab)"
        by (simp_all add: ab_def)
      ultimately show ?thesis using assms(2,3,4) by (simp add: view_ok_def)
    qed
  qed
  show "heap_le h ?h"
    using assms(2) by (simp add: heap_le_def nth_append nth_list_update same_buffer_def same_view_def ab_def)
qed

lemma update_view_idem: "update_view ab (update_view ab ta) = update_view ab ta"
  by (simp add: update_view_def Let_def)

lemma update_view_same: "same_view ta (update_view ab ta)"
  by (simp add: update_view_def same_view_def Let_def)

lemma update_view_ok: "view_ok ab (update_view ab ta)"
proof -
  have "n div elem_size c * elem_size c \<le> n" for n c by (rule div_times_less_eq_dividend)
  moreover from this[of "byte_length ab - ta_offset ta" "ta_class ta"]
  have "ta_offset ta + elem_size (ta_class ta) \<le> byte_length ab \<Longrightarrow>
      ta_offset ta + (byte_length ab - ta_offset ta) div elem_size (ta_class ta) * elem_size (ta_class ta) \<le> byte_length ab"
    by linarith
  moreover from calculation(1)[of "ta_length ta" "ta_class ta"]
  have "ta_offset ta + ta_length ta \<le> byte_length ab \<Longrightarrow>
      ta_offset ta + ta_length ta div elem_size (ta_class ta) * elem_size (ta_class ta) \<le> byte_length ab"
    by linarith
  ultimately show ?thesis by (simp add: update_view_def view_ok_def Let_def)
qed

lemma length_fold_update [simp]: "length (fold (\<lambda>v vs. vs[v := g (vs ! v)]) L vs) = length vs"
  by (induction L arbitrary: vs) auto

lemma nth_fold_update:
  assumes "\<And>x. g (g x) = g x" "i < length vs"
  shows "fold (\<lambda>v vs. vs[v := g (vs ! v)]) L vs ! i = (if i \<in> set L then g (vs ! i) else vs ! i)"
  using assms(2)
proof (induction L arbitrary: vs)
  case (Cons a L)
  have l: "i < length (vs[a := g (vs ! a)])" using Cons.prems by simp
  show ?case using Cons.IH[OF l] Cons.prems assms(1) by (cases "i = a") simp_all
qed simp

lemma update_views:
  defines "h' b h \<equiv> js_array_buffer_update_typed_arrays b h"
  shows "buffers (h' b h) = buffers h" "length (views (h' b h)) = length (views h)" "sab_alloc (h' b h) = sab_alloc h"
    "v < length (views h) \<Longrightarrow> views (h' b h) ! v =
       (if v \<in> set (array_list (buffers h ! b)) then update_view (buffers h ! b) (views h ! v) else views h ! v)"
  unfolding h'_def js_array_buffer_update_typed_arrays_def
  by (simp_all add: nth_fold_update update_view_idem)

text \<open>The one place where windows change: the buffer changes and its views are refreshed.\<close>

lemma heap_ok_resize:
  assumes "heap_ok h" "b < length (buffers h)" "buffer_ok ab" "same_buffer (buffers h ! b) ab"
    "array_list ab = array_list (buffers h ! b)"
  shows "heap_ok (js_array_buffer_update_typed_arrays b (h\<lparr>buffers := (buffers h)[b := ab]\<rparr>))"
    "heap_le h (js_array_buffer_update_typed_arrays b (h\<lparr>buffers := (buffers h)[b := ab]\<rparr>))"
proof -
  let ?h = "h\<lparr>buffers := (buffers h)[b := ab]\<rparr>"
  let ?h' = "js_array_buffer_update_typed_arrays b ?h"
  have v: "views ?h' ! v = (if v \<in> set (array_list (buffers h ! b)) then update_view ab (views h ! v) else views h ! v)"
    if "v < length (views h)" for v
    using update_views(4)[of v ?h b] that assms(2,5) by simp
  have s: "same_view (views h ! v) (views ?h' ! v)" if "v < length (views h)" for v
    using v[OF that] update_view_same by (auto simp: same_view_def)
  show "heap_le h ?h'"
    using s assms(2,4) by (auto simp: heap_le_def update_views nth_list_update same_buffer_def)
  have "buffer_ok (buffers ?h' ! c) \<and> (\<forall>v\<in>set (array_list (buffers ?h' ! c)). v < length (views ?h') \<and> ta_buffer (views ?h' ! v) = c)"
    if "c < length (buffers ?h')" for c
  proof (intro conjI ballI)
    show "buffer_ok (buffers ?h' ! c)" using that assms by (auto simp: update_views nth_list_update heap_ok_def)
    fix v assume "v \<in> set (array_list (buffers ?h' ! c))"
    then have "v \<in> set (array_list (buffers h ! c))" using assms(2,5) by (auto simp: update_views nth_list_update split: if_splits)
    then have *: "v < length (views h)" "ta_buffer (views h ! v) = c"
      using assms(1) that by (auto simp: update_views heap_ok_def)
    show "v < length (views ?h')" using *(1) by (simp add: update_views)
    show "ta_buffer (views ?h' ! v) = c" using s[OF *(1)] *(2) by (simp add: same_view_def)
  qed
  moreover have "ta_buffer (views ?h' ! v) < length (buffers ?h') \<and> v \<in> set (array_list (buffers ?h' ! ta_buffer (views ?h' ! v)))
      \<and> view_ok (buffers ?h' ! ta_buffer (views ?h' ! v)) (views ?h' ! v)" if "v < length (views ?h')" for v
  proof -
    have l: "v < length (views h)" using that by (simp add: update_views)
    have o: "ta_buffer (views h ! v) < length (buffers h)" "v \<in> set (array_list (buffers h ! ta_buffer (views h ! v)))"
      "view_ok (buffers h ! ta_buffer (views h ! v)) (views h ! v)"
      using assms(1) l by (auto simp: heap_ok_def)
    have b: "ta_buffer (views ?h' ! v) = ta_buffer (views h ! v)" using s[OF l] by (simp add: same_view_def)
    show ?thesis
    proof (cases "ta_buffer (views h ! v) = b")
      case True
      then show ?thesis using o b v[OF l] assms(2,5) update_view_ok by (auto simp: update_views)
    next
      case False
      then have "buffers ?h' ! ta_buffer (views h ! v) = buffers h ! ta_buffer (views h ! v)" by (simp add: update_views)
      moreover have "v \<notin> set (array_list (buffers h ! b))" using assms(1,2) False by (auto simp: heap_ok_def)
      ultimately show ?thesis using o b v[OF l] by (auto simp: update_views)
    qed
  qed
  ultimately show "heap_ok ?h'" by (simp add: heap_ok_def)
qed

subsection \<open>Conversions and buffers\<close>

lemma JS_ToIndex_safe:
  "guest_safe val (\<lambda>_ _. True) \<Longrightarrow> guest_safe (JS_ToIndex val) (\<lambda>v _. int v \<le> MAX_SAFE_INTEGER)"
  unfolding guest_safe_def JS_ToIndex_def by (auto intro!: runs_and_then)

lemma JS_ToInt64Clamp_safe:
  assumes "guest_safe val (\<lambda>_ _. True)" "lo \<le> hi"
  shows "guest_safe (JS_ToInt64Clamp val lo hi n) (\<lambda>v _. lo \<le> v \<and> v \<le> hi)"
  using assms unfolding guest_safe_def JS_ToInt64Clamp_def Let_def by (auto intro!: runs_and_then)

lemma JS_ToInt32Clamp_safe:
  assumes "guest_safe val (\<lambda>_ _. True)" "lo \<le> hi" "n \<le> hi - lo + 1"
  shows "guest_safe (JS_ToInt32Clamp val lo hi n) (\<lambda>v _. lo \<le> v \<and> v \<le> hi)"
  using assms unfolding guest_safe_def JS_ToInt32Clamp_def Let_def by (auto intro!: runs_and_then)

lemma js_create_from_ctor_safe:
  assumes "guest_safe f (\<lambda>_ _. True)"
  shows "guest_safe (js_create_from_ctor f) (\<lambda>_ _. True)"
  unfolding guest_safe_def js_create_from_ctor_def
proof (intro allI impI)
  fix h assume "heap_ok h"
  then show "runs h (and_then (f h) (\<lambda>_ h. case halloc h of (False, h) \<Rightarrow> throw AbOutOfMemory h | (True, h) \<Rightarrow> return () h)) (\<lambda>_ _. True)"
  proof (rule runs_and_then[OF guest_runs[OF assms]], goal_cases)
    case (1 v h')
    then show ?case by (intro runs_halloc) (auto simp: runs_def throw_def return_def)
  qed
qed

definition new_buffer :: "js_heap \<Rightarrow> nat \<Rightarrow> nat option \<Rightarrow> bool \<Rightarrow> bool \<Rightarrow> nat \<Rightarrow> js_heap \<Rightarrow> bool" where
  "new_buffer h len max_len sh free r h' \<longleftrightarrow>
     length (buffers h) \<le> r \<and> r < length (buffers h')
     \<and> (let ab = buffers h' ! r in \<not> detached ab \<and> byte_length ab = len \<and> max_byte_length ab = max_len
           \<and> shared ab = sh \<and> js_free_func ab = free \<and> array_list ab = [])"

lemma constructor3_safe:
  assumes "heap_ok h" "guest_safe f (\<lambda>_ _. True)" "sh \<longrightarrow> max_len \<noteq> None \<longrightarrow> alloc_flag \<and> sab_alloc h"
    "\<And>n. max_len = Some n \<Longrightarrow> len \<le> n" "\<And>b. buf = Some b \<Longrightarrow> len \<le> length b" "\<not> alloc_flag \<longrightarrow> buf \<noteq> None"
  shows "runs h (js_array_buffer_constructor3 f len max_len sh buf free_func alloc_flag h)
           (new_buffer h len max_len sh free_func)"
proof (cases "\<not> alloc_flag \<and> buf \<noteq> None \<and> max_len \<noteq> None \<and> \<not> free_func")
  case True
  then show ?thesis using assms(1) by (auto simp: js_array_buffer_constructor3_def)
next
  case False
  show ?thesis
    unfolding js_array_buffer_constructor3_def if_not_P[OF False]
  proof (rule runs_and_then[OF guest_runs[OF js_create_from_ctor_safe[OF assms(2)] assms(1)]], goal_cases)
    case (1 v h')
    note h' = 1
    show ?case
    proof (cases "len > INT32_MAX \<or> (case max_len of Some n \<Rightarrow> n > INT32_MAX | None \<Rightarrow> False)")
      case True
      then show ?thesis using h'(1) by (auto split: option.splits)
    next
      case False
      have add: "runs h' (return (length (buffers h')) (h'\<lparr>allocs := a, buffers := buffers h' @
            [\<lparr>byte_length = len, max_byte_length = max_len, detached = False, shared = sh, ab_data = Some d,
              js_free_func = free_func, array_list = []\<rparr>]\<rparr>)) (new_buffer h len max_len sh free_func)"
        if "len \<le> length d" "sh \<longrightarrow> (\<forall>n. max_len = Some n \<longrightarrow> n \<le> length d)" for a d
      proof -
        let ?ab = "\<lparr>byte_length = len, max_byte_length = max_len, detached = False, shared = sh, ab_data = Some d,
              js_free_func = free_func, array_list = []\<rparr>"
        have "buffer_ok ?ab" using that False assms(4) by (auto simp: buffer_ok_def split: option.splits)
        from heap_ok_add_buffer[of "h'\<lparr>allocs := a\<rparr>" ?ab, OF _ this]
        show ?thesis using h' by (auto simp: runs_def return_def new_buffer_def heap_le_def nth_append)
      qed
      have throw: "runs h' (throw e (h'\<lparr>allocs := a\<rparr>)) Q" for e a Q
        using h'(1) by (simp add: runs_def throw_def)
      obtain ok1 a1 where 1: "halloc h' = (ok1, h'\<lparr>allocs := a1\<rparr>)" by (rule halloc_cases)
      obtain ok2 a2 where 2: "halloc (h'\<lparr>allocs := a1\<rparr>) = (ok2, h'\<lparr>allocs := a2\<rparr>)"
        by (rule halloc_cases[of "h'\<lparr>allocs := a1\<rparr>"]) auto
      show ?thesis
      proof (cases "ok1 \<and> (alloc_flag \<longrightarrow> ok2)")
        case f: False
        show ?thesis
        proof (cases ok1)
          case True
          then show ?thesis using f False throw 1 2 by (simp add: Let_def split: option.splits)
        next
          case False
          then show ?thesis using \<open>\<not> (len > INT32_MAX \<or> _)\<close> throw 1 by (simp split: option.splits)
        qed
      next
        case True
        let ?sz = "if sh \<and> sab_alloc h' then (case max_len of Some n \<Rightarrow> n | None \<Rightarrow> len) else len"
        let ?d = "replicate (max ?sz 1) 0 :: u8 list"
        have sab: "sab_alloc h' = sab_alloc h" using h'(2) by (simp add: heap_le_def)
        have sz: "len \<le> length ?d" "sh \<longrightarrow> (\<forall>n. max_len = Some n \<longrightarrow> n \<le> length ?d)"
          using assms(3,4) sab by (auto split: option.splits)
        show ?thesis
        proof (cases alloc_flag)
          case False
          then obtain d where d: "buf = Some d" "len \<le> length d" using assms(5,6) by auto
          then show ?thesis using False True 1 \<open>\<not> (len > INT32_MAX \<or> _)\<close> add[OF d(2), of a1] assms(3)
            by (auto split: option.splits)
        next
          case flag: True
          show ?thesis
          proof (cases buf)
            case None
            then show ?thesis using flag True 1 2 \<open>\<not> (len > INT32_MAX \<or> _)\<close> add[OF sz, of a2] sab
              by (auto simp: Let_def split: option.splits)
          next
            case (Some b)
            let ?d' = "take len b @ drop len ?d"
            have "copy_to ?d 0 (take len b) = Some ?d'" "length ?d' = length ?d" using sz(1) assms(5)[OF Some] by simp_all
            then show ?thesis using flag Some True 1 2 \<open>\<not> (len > INT32_MAX \<or> _)\<close> add[of ?d' a2] sz sab assms(5)[OF Some]
              by (auto simp: Let_def split: option.splits)
          qed
        qed
      qed
    qed
  qed
qed

lemma get_opaque2_runs:
  "heap_ok h \<Longrightarrow> runs h (get_opaque2 b sh h) (\<lambda>ab h'. h' = h \<and> b < length (buffers h) \<and> shared (buffers h ! b) = sh \<and> ab = buffers h ! b)"
  by (auto simp: get_opaque2_def)

lemma js_get_array_buffer_runs:
  "heap_ok h \<Longrightarrow> runs h (js_get_array_buffer b h) (\<lambda>ab h'. h' = h \<and> b < length (buffers h) \<and> ab = buffers h ! b)"
  by (auto simp: js_get_array_buffer_def)

text \<open>Shared growable buffers need the allocator of the embedder.\<close>

lemma js_array_buffer_constructor0_safe:
  assumes "guest_safe f (\<lambda>_ _. True)" "guest_safe len (\<lambda>_ _. True)" "\<And>g. opt = Some g \<Longrightarrow> guest_safe g (\<lambda>v _. \<forall>i. v = Some i \<longrightarrow> - (2 ^ 63) \<le> i)"
    "heap_ok h" "sh \<longrightarrow> opt \<noteq> None \<longrightarrow> sab_alloc h"
  shows "runs h (js_array_buffer_constructor0 f len opt sh h) (\<lambda>_ _. True)"
  unfolding js_array_buffer_constructor0_def js_array_buffer_constructor2_def
proof (rule runs_and_then[OF guest_runs[OF JS_ToIndex_safe[OF assms(2)] assms(4)]], goal_cases)
  case (1 n h1)
  have fixed: "runs h2 (js_array_buffer_constructor3 f n None sh None True True h2) (\<lambda>_ _. True)" if "heap_ok h2" for h2
    by (rule runs_mono[OF constructor3_safe[OF that assms(1)]]) auto
  show ?case
  proof (cases opt)
    case None
    then show ?thesis using fixed[OF 1(1)] by simp
  next
    case (Some g)
    have "runs h1 (and_then (g h1) (\<lambda>v h. case v of
          None \<Rightarrow> js_array_buffer_constructor3 f n None sh None True True h
        | Some i \<Rightarrow> if (i \<ge> 0 \<and> int n > i) \<or> i > MAX_SAFE_INTEGER then throw AbRangeError h
            else js_array_buffer_constructor3 f n (Some (if i < 0 then nat (i + 2 ^ 64) else nat i)) sh None True True h))
       (\<lambda>_ _. True)"
    proof (rule runs_and_then[OF guest_runs[OF assms(3)[OF Some] 1(1)]], goal_cases)
      case (1 v h2)
      have sab: "sh \<longrightarrow> sab_alloc h2" using assms(5) Some 1(2) \<open>heap_le h h1\<close> by (simp add: heap_le_def)
      have n: "int n \<le> 9007199254740991" using \<open>int n \<le> _\<close> by (simp add: MAX_SAFE_INTEGER_def)
      show ?case
      proof (cases v)
        case None
        then show ?thesis using fixed[OF 1(1)] by simp
      next
        case (Some i)
        let ?m = "if i < 0 then nat (i + 2 ^ 64) else nat i"
        show ?thesis
        proof (cases "(i \<ge> 0 \<and> int n > i) \<or> i > MAX_SAFE_INTEGER")
          case True
          then show ?thesis using 1(1) Some by simp
        next
          case False
          have "- 9223372036854775808 \<le> i" using 1(3) Some by simp
          then have "n \<le> ?m" using False n by auto
          then have "runs h2 (js_array_buffer_constructor3 f n (Some ?m) sh None True True h2) (\<lambda>_ _. True)"
            by (intro runs_mono[OF constructor3_safe[OF 1(1) assms(1)]]) (use sab in auto)
          then show ?thesis using False Some by (simp del: power_numeral cong: if_cong) (use False in auto)
        qed
      qed
    qed
    then show ?thesis using Some by simp
  qed
qed

lemma neuter_safe:
  assumes "heap_ok h" "b < length (buffers h)"
  shows "heap_ok (neuter b h)" "heap_le h (neuter b h)" "length (buffers (neuter b h)) = length (buffers h)"
proof -
  let ?ab = "(buffers h ! b)\<lparr>ab_data := None, byte_length := 0, detached := True\<rparr>"
  have "buffer_ok ?ab" "same_buffer (buffers h ! b) ?ab"
    using heap_ok_buffer[OF assms] by (auto simp: buffer_ok_def same_buffer_def)
  then show "heap_ok (neuter b h)" "heap_le h (neuter b h)" "length (buffers (neuter b h)) = length (buffers h)"
    using heap_ok_resize[OF assms, of ?ab] by (simp_all add: neuter_def update_views)
qed

lemma JS_DetachArrayBuffer_safe:
  "heap_ok h \<Longrightarrow> heap_ok (JS_DetachArrayBuffer b h) \<and> heap_le h (JS_DetachArrayBuffer b h)"
  using neuter_safe[of h b] by (auto simp: JS_DetachArrayBuffer_def)

lemma resize_block_spec:
  assumes "new_len \<le> sz"
  shows "\<exists>bs. resize_block old_len new_len sz d = Some bs \<and> length bs = sz"
  using assms by (auto simp: resize_block_def Let_def)

lemma js_array_buffer_resize_safe:
  assumes "guest_safe val (\<lambda>_ _. True)"
  shows "guest_safe (js_array_buffer_resize b val sh) (\<lambda>_ _. True)"
  unfolding guest_safe_def js_array_buffer_resize_def
proof (intro allI impI, rule runs_and_then[OF get_opaque2_runs], assumption, goal_cases)
  case (1 h ab h')
  then have b: "b < length (buffers h')" "shared (buffers h' ! b) = sh" by auto
  show ?case
  proof (rule runs_and_then[OF guest_runs[OF assms 1(2)]], goal_cases)
    case (1 len h2)
    have b2: "b < length (buffers h2)" using heap_le_buffer[OF 1(2) b(1)] by simp
    let ?ab = "buffers h2 ! b"
    note ok = heap_ok_buffer[OF 1(1) b2]
    have upd: "runs h2 (return () (js_array_buffer_update_typed_arrays b (h2\<lparr>allocs := a, buffers := (buffers h2)[b := ab]\<rparr>))) (\<lambda>_ _. True)"
      if "buffer_ok ab" "same_buffer ?ab ab" "array_list ab = array_list ?ab" for ab a
      using heap_ok_resize[of "h2\<lparr>allocs := a\<rparr>" b ab] that 1(1) b2 by (simp add: runs_def return_def)
    have thr: "runs h2 (throw e (h2\<lparr>allocs := a\<rparr>)) (\<lambda>_ _. True)" for e a using 1(1) by (simp add: runs_def throw_def)
    show ?case
    proof (cases "detached ?ab \<or> max_byte_length ?ab = None \<or> \<not> js_free_func ?ab")
      case True
      then show ?thesis using 1(1) by (auto simp: Let_def split: option.splits)
    next
      case False
      then obtain m where m: "max_byte_length ?ab = Some m" by auto
      show ?thesis
      proof (cases "len < 0 \<or> len > int m")
        case True
        then show ?thesis using False m 1(1) by auto
      next
        case len: False
        then have lm: "nat len \<le> m" by linarith
        obtain d where d: "ab_data ?ab = Some d" using ok False by (auto simp: buffer_ok_def)
        show ?thesis
        proof (cases "shared ?ab")
          case True
          have "buffer_ok (?ab\<lparr>byte_length := nat len\<rparr>)"
            using ok True m lm d False by (auto simp: buffer_ok_def)
          from upd[OF this, of "allocs h2"] show ?thesis using True False len m 1(1)
            by (auto simp: same_buffer_def Let_def)
        next
          case sh: False
          obtain ok1 a1 where h: "halloc h2 = (ok1, h2\<lparr>allocs := a1\<rparr>)" by (rule halloc_cases)
          obtain bs where bs: "resize_block (byte_length ?ab) (nat len) (max (nat len) 1) d = Some bs" "length bs = max (nat len) 1"
            using resize_block_spec[of "nat len" "max (nat len) 1"] by auto
          have "buffer_ok (?ab\<lparr>byte_length := nat len, ab_data := Some bs\<rparr>)"
            using ok sh m lm bs(2) False by (auto simp: buffer_ok_def)
          from upd[OF this, of a1] show ?thesis using sh False len m h d bs(1) thr[of _ a1]
            by (cases ok1) (auto simp: same_buffer_def)
        qed
      qed
    qed
  qed
qed

lemma constructor2_fixed_safe:
  assumes "heap_ok h" "\<And>n. max_len = Some n \<Longrightarrow> len \<le> n"
  shows "runs h (js_array_buffer_constructor2 no_ctor len max_len False h) (new_buffer h len max_len False True)"
  unfolding js_array_buffer_constructor2_def by (rule constructor3_safe) (use assms in auto)

text \<open>Giving a buffer its block while another one loses its own.\<close>

lemma give_and_neuter:
  assumes "heap_ok h" "b < length (buffers h)" "res < length (buffers h)" "res \<noteq> b"
    "array_list ab = []" "array_list (buffers h ! res) = []" "buffer_ok ab" "same_buffer (buffers h ! res) ab"
  shows "runs h (return res (neuter b (h\<lparr>buffers := (buffers h)[res := ab]\<rparr>))) (\<lambda>r h'. r < length (buffers h'))"
proof -
  let ?h = "h\<lparr>buffers := (buffers h)[res := ab]\<rparr>"
  have "js_array_buffer_update_typed_arrays res ?h = ?h"
    using assms(3,5) by (simp add: js_array_buffer_update_typed_arrays_def)
  then have "heap_ok ?h" "heap_le h ?h"
    using heap_ok_resize[OF assms(1,3,7,8)] assms(5,6) by simp_all
  then show ?thesis
    using neuter_safe[of ?h b] assms(2,3) heap_le_trans by (auto simp: runs_def return_def)
qed

lemma js_array_buffer_transfer_safe:
  assumes "\<And>val. arg = Some val \<Longrightarrow> guest_safe val (\<lambda>_ _. True)"
  shows "guest_safe (js_array_buffer_transfer b arg fx) (\<lambda>r h. r < length (buffers h))"
  unfolding guest_safe_def js_array_buffer_transfer_def
proof (intro allI impI, rule runs_and_then[OF get_opaque2_runs], assumption, goal_cases)
  case (1 h ab0 h0)
  then have b0: "b < length (buffers h0)" by auto
  have arg: "runs h0 (case arg of None \<Rightarrow> return (byte_length ab0) h0 | Some val \<Rightarrow> JS_ToIndex val h0)
      (\<lambda>n h'. arg = None \<longrightarrow> h' = h0 \<and> n = byte_length ab0)"
  proof (cases arg)
    case (Some val)
    then show ?thesis using guest_runs[OF JS_ToIndex_safe[OF assms[OF Some]] 1(2)] by (auto intro: runs_mono)
  qed (use 1 in auto)
  show ?case
  proof (rule runs_and_then[OF arg], goal_cases)
    case (1 new_len h1)
    have b: "b < length (buffers h1)" using heap_le_buffer[OF 1(2) b0] by simp
    define ab where "ab = buffers h1 ! b"
    note ok = heap_ok_buffer[OF 1(1) b, folded ab_def]
    define pmax where "pmax = (if \<not> fx \<and> array_buffer_is_resizable ab \<and> js_free_func ab then max_byte_length ab else None)"
    show ?case
    proof (cases "detached ab \<or> \<not> fx \<and> (case max_byte_length ab of Some n \<Rightarrow> new_len > n | None \<Rightarrow> False)")
      case True
      then show ?thesis using 1(1) by (auto simp: Let_def ab_def)
    next
      case False
      then have pm: "pmax = Some n \<Longrightarrow> new_len \<le> n" for n
        by (auto simp: pmax_def split: if_splits)
      obtain d where d: "ab_data ab = Some d" "byte_length ab \<le> length d" using ok False by (auto simp: buffer_ok_def)
      consider "new_len = 0" | "new_len \<noteq> 0" "new_len \<noteq> byte_length ab" "new_len > INT32_MAX"
        | "new_len \<noteq> 0" "new_len \<noteq> byte_length ab" "\<not> new_len > INT32_MAX" "\<not> js_free_func ab"
        | "new_len \<noteq> 0" "new_len \<noteq> byte_length ab" "\<not> new_len > INT32_MAX" "js_free_func ab"
        | "new_len \<noteq> 0" "new_len = byte_length ab"
        by blast
      then show ?thesis
      proof cases
        case 1
        have "runs h1 (and_then (js_array_buffer_constructor2 no_ctor 0 pmax False h1)
            (\<lambda>res h. return res (JS_DetachArrayBuffer b h))) (\<lambda>r h. r < length (buffers h))"
        proof (rule runs_and_then[OF constructor2_fixed_safe[OF \<open>heap_ok h1\<close>]], goal_cases)
          case (2 v h')
          then show ?case using JS_DetachArrayBuffer_safe[of h' b]
            by (auto simp: runs_def return_def new_buffer_def heap_le_def)
        qed simp
        then show ?thesis using False 1 \<open>heap_ok h1\<close> by (simp add: Let_def ab_def[symmetric] pmax_def)
      next
        case 2
        then show ?thesis using False \<open>heap_ok h1\<close> by (simp add: Let_def ab_def[symmetric])
      next
        case 3
        have "runs h1 (and_then (js_array_buffer_constructor2 no_ctor new_len pmax False h1) (\<lambda>res h. do {
               d \<leftarrow> ab_data ab;
               nd \<leftarrow> ab_data (buffers h ! res);
               nd' \<leftarrow> (if min (byte_length ab) new_len \<le> length d then copy_to nd 0 (take (min (byte_length ab) new_len) d) else None);
               return res (neuter b (h\<lparr>buffers := (buffers h)[res := (buffers h ! res)\<lparr>ab_data := Some nd'\<rparr>]\<rparr>))
             })) (\<lambda>r h. r < length (buffers h))"
        proof (rule runs_and_then[OF constructor2_fixed_safe[OF \<open>heap_ok h1\<close> pm]], assumption, goal_cases)
          case (1 res h2)
          have r: "res < length (buffers h2)" "res \<noteq> b" "b < length (buffers h2)" "array_list (buffers h2 ! res) = []"
            "byte_length (buffers h2 ! res) = new_len" "\<not> detached (buffers h2 ! res)" "\<not> shared (buffers h2 ! res)"
            using 1(2,3) b by (auto simp: new_buffer_def heap_le_def Let_def)
          note ok2 = heap_ok_buffer[OF 1(1) r(1)]
          obtain nd where nd: "ab_data (buffers h2 ! res) = Some nd" "new_len \<le> length nd"
            using ok2 r(5,6) by (auto simp: buffer_ok_def)
          let ?nd = "take (min (byte_length ab) new_len) d @ drop (min (byte_length ab) new_len) nd"
          have cp: "copy_to nd 0 (take (min (byte_length ab) new_len) d) = Some ?nd"
            using d(2) nd(2) by (simp add: min.absorb2)
          have "buffer_ok ((buffers h2 ! res)\<lparr>ab_data := Some ?nd\<rparr>)"
            using ok2 r nd d(2) by (auto simp: buffer_ok_def)
          moreover have "min (byte_length ab) new_len \<le> length d" using d(2) by linarith
          ultimately show ?case
            using give_and_neuter[OF 1(1) r(3,1,2) _ r(4)] d nd cp r(4) by (simp add: same_buffer_def)
        qed
        then show ?thesis using False 3 \<open>heap_ok h1\<close> by (simp add: Let_def ab_def[symmetric] pmax_def)
      next
        case 4
        have "runs h1 (and_then (js_array_buffer_constructor2 no_ctor 0 pmax False h1) (\<lambda>res h.
               case halloc h of
                 (False, h) \<Rightarrow> throw AbOutOfMemory h
               | (True, h) \<Rightarrow> do {
                   d \<leftarrow> ab_data ab;
                   bs \<leftarrow> resize_block (byte_length ab) new_len new_len d;
                   return res (neuter b (h\<lparr>buffers := (buffers h)[res := (buffers h ! res)\<lparr>ab_data := Some bs, byte_length := new_len\<rparr>]\<rparr>))
                 })) (\<lambda>r h. r < length (buffers h))"
        proof (rule runs_and_then[OF constructor2_fixed_safe[OF \<open>heap_ok h1\<close>]], simp, goal_cases)
          case (1 res h2)
          have r: "res < length (buffers h2)" "res \<noteq> b" "b < length (buffers h2)" "array_list (buffers h2 ! res) = []"
            "max_byte_length (buffers h2 ! res) = pmax" "\<not> detached (buffers h2 ! res)" "\<not> shared (buffers h2 ! res)"
            using 1(2,3) b by (auto simp: new_buffer_def heap_le_def Let_def)
          note ok2 = heap_ok_buffer[OF 1(1) r(1)]
          obtain bs where bs: "resize_block (byte_length ab) new_len new_len d = Some bs" "length bs = new_len"
            using resize_block_spec[of new_len new_len] by auto
          have bo: "buffer_ok ((buffers h2 ! res)\<lparr>ab_data := Some bs, byte_length := new_len\<rparr>)"
            using ok2 r bs(2) 4 pm by (auto simp: buffer_ok_def)
          obtain ok1 a1 where h: "halloc h2 = (ok1, h2\<lparr>allocs := a1\<rparr>)" by (rule halloc_cases)
          show ?case
            using give_and_neuter[of "h2\<lparr>allocs := a1\<rparr>" b res "(buffers h2 ! res)\<lparr>ab_data := Some bs, byte_length := new_len\<rparr>"]
              bo 1(1) r h d bs by (cases ok1) (simp_all add: runs_allocs same_buffer_def runs_def throw_def)
        qed
        then show ?thesis using False 4 \<open>heap_ok h1\<close> by (simp add: Let_def ab_def[symmetric] pmax_def)
      next
        case 5
        have "runs h1 (and_then (js_array_buffer_constructor3 no_ctor new_len pmax False (ab_data ab) (js_free_func ab) False h1)
             (\<lambda>res h. return res (neuter b h))) (\<lambda>r h. r < length (buffers h))"
        proof (rule runs_and_then[OF constructor3_safe[OF \<open>heap_ok h1\<close>]], goal_cases)
          case (6 res h2)
          then have r: "res < length (buffers h2)" "b < length (buffers h2)"
            using b by (auto simp: new_buffer_def heap_le_def)
          show ?case using neuter_safe[OF 6(1) r(2)] r(1) by (auto simp: runs_def return_def)
        qed (use pm d 5 in auto)
        then show ?thesis using False 5 \<open>heap_ok h1\<close> by (simp add: Let_def ab_def[symmetric] pmax_def)
      qed
    qed
  qed
qed

lemma js_array_buffer_slice_safe:
  assumes "guest_safe arg0 (\<lambda>_ _. True)" "\<And>a. arg1 = Some a \<Longrightarrow> guest_safe a (\<lambda>_ _. True)"
    "\<And>n. guest_safe (species n) (\<lambda>_ _. True)"
  shows "guest_safe (js_array_buffer_slice b arg0 arg1 species sh) (\<lambda>r h. r < length (buffers h))"
  unfolding guest_safe_def js_array_buffer_slice_def
proof (intro allI impI, rule runs_and_then[OF get_opaque2_runs], assumption, goal_cases)
  case (1 h ab0 h0)
  then have b0: "b < length (buffers h0)" "ab0 = buffers h0 ! b" by auto
  let ?len = "int (byte_length ab0)"
  show ?case
  proof (cases "detached ab0")
    case True
    then show ?thesis using 1(2) by simp
  next
    case False
    have e: "runs h1 (case arg1 of None \<Rightarrow> return ?len h1 | Some v \<Rightarrow> JS_ToInt64Clamp v 0 ?len ?len h1) (\<lambda>_ _. True)"
      if "heap_ok h1" for h1
      using that runs_any[OF guest_runs[OF JS_ToInt64Clamp_safe[OF assms(2)] that]] by (auto split: option.splits)
    show ?thesis
      unfolding if_not_P[OF False] Let_def
    proof (rule runs_and_then[OF guest_runs[OF JS_ToInt64Clamp_safe[OF assms(1)] 1(2)]], simp,
        rule runs_and_then[OF e], assumption, rule runs_and_then[OF guest_runs[OF assms(3)]], assumption, goal_cases)
      case (1 start h1 fin h2 ctor h3)
      let ?n = "nat (max (fin - start) 0)"
      have b3: "b < length (buffers h3)" using 1 b0(1) by (auto simp: heap_le_def)
      have new: "runs h3 (case ctor of None \<Rightarrow> js_array_buffer_constructor2 no_ctor ?n None sh h3 | Some r \<Rightarrow> return r h3) (\<lambda>_ _. True)"
      proof (cases ctor)
        case None
        then show ?thesis unfolding js_array_buffer_constructor2_def
          using runs_mono[OF constructor3_safe[OF 1(7) no_ctor_safe, where len = ?n and max_len = None and sh = sh and buf = None
                and alloc_flag = True and free_func = True]] by auto
      qed (use 1 in auto)
      show ?case
      proof (rule runs_and_then[OF new], rule runs_and_then[OF get_opaque2_runs], assumption, goal_cases)
        case (1 r h4 new_ab h5)
        then have h5: "h5 = h4" "r < length (buffers h4)" "new_ab = buffers h4 ! r" by auto
        have b: "b < length (buffers h4)" using b3 1 by (auto simp: heap_le_def)
        note ok = heap_ok_buffer[OF 1(1) b] heap_ok_buffer[OF 1(1) h5(2)]
        show ?case
        proof (cases "r = b \<or> detached new_ab \<or> byte_length new_ab < ?n \<or> detached (buffers h4 ! b) \<or> byte_length (buffers h4 ! b) < nat start + ?n")
          case True
          then show ?thesis using 1(1) h5 by auto
        next
          case False
          then obtain d nd where d: "ab_data (buffers h4 ! b) = Some d" "byte_length (buffers h4 ! b) \<le> length d"
            "ab_data new_ab = Some nd" "byte_length new_ab \<le> length nd"
            using ok h5(3) by (auto simp: buffer_ok_def)
          let ?nd = "take ?n (drop (nat start) d) @ drop ?n nd"
          have l: "length (take ?n (drop (nat start) d)) = ?n" "nat start + ?n \<le> length d" using False d by auto
          then have cp: "copy_to nd 0 (take ?n (drop (nat start) d)) = Some ?nd" using False d(4) by simp
          have "buffer_ok (new_ab\<lparr>ab_data := Some ?nd\<rparr>)"
            using ok(2) h5(3) d l False by (auto simp: buffer_ok_def)
          from heap_ok_set_buffer[OF 1(1) h5(2) this] h5(2,3)
          have "runs h4 (return r (h4\<lparr>buffers := (buffers h4)[r := new_ab\<lparr>ab_data := Some ?nd\<rparr>]\<rparr>)) (\<lambda>r h. r < length (buffers h))"
            by (auto simp: runs_def return_def same_buffer_def)
          then show ?thesis using False d cp l h5(1) by simp
        qed
      qed
    qed
  qed
qed

lemma JS_GetArrayBuffer_runs:
  "heap_ok h \<Longrightarrow> runs h (JS_GetArrayBuffer b h) (\<lambda>(d, n) h'. h' = h \<and> (\<exists>bs. d = Some bs \<and> n \<le> length bs))"
  unfolding JS_GetArrayBuffer_def
  by (rule runs_and_then[OF js_get_array_buffer_runs]) (auto dest!: heap_ok_buffer simp: buffer_ok_def)

subsection \<open>Views\<close>

lemma get_typed_array_runs:
  "heap_ok h \<Longrightarrow> runs h (get_typed_array v h) (\<lambda>ta h'. h' = h \<and> v < length (views h) \<and> ta = views h ! v \<and> ta_class ta \<noteq> DATAVIEW)"
  by (simp add: get_typed_array_def)

lemma get_dataview_runs:
  "heap_ok h \<Longrightarrow> runs h (get_dataview v h) (\<lambda>ta h'. h' = h \<and> v < length (views h) \<and> ta = views h ! v)"
  by (simp add: get_dataview_def)

lemma block_bounds:
  assumes "heap_ok h" "b < length (buffers h)" "\<not> detached (buffers h ! b)"
  obtains d where "ab_data (buffers h ! b) = Some d" "byte_length (buffers h ! b) \<le> length d"
  using heap_ok_buffer[OF assms(1,2)] assms(3) by (auto simp: buffer_ok_def)

text \<open>The window of a view that is not out of bounds.\<close>

lemma view_bounds:
  assumes "heap_ok h" "v < length (views h)" "ta_class (views h ! v) \<noteq> DATAVIEW"
  defines "ta \<equiv> views h ! v"
  shows "ta_buffer ta < length (buffers h)"
    "ta_count ta > 0 \<Longrightarrow> ta_ptr ta = Some (ta_offset ta)
       \<and> ta_offset ta + ta_count ta * elem_size (ta_class ta) \<le> byte_length (buffers h ! ta_buffer ta)
       \<and> \<not> detached (buffers h ! ta_buffer ta)"
    "\<not> typed_array_is_oob v h \<Longrightarrow> \<not> detached (buffers h ! ta_buffer ta)
       \<and> ta_offset ta + ta_count ta * elem_size (ta_class ta) \<le> byte_length (buffers h ! ta_buffer ta)
       \<and> (\<not> track_rab ta \<longrightarrow> ta_offset ta + ta_length ta \<le> byte_length (buffers h ! ta_buffer ta))"
proof -
  note v = heap_ok_view[OF assms(1,2), folded ta_def]
  show b: "ta_buffer ta < length (buffers h)" using v by simp
  note ok = heap_ok_buffer[OF assms(1) b]
  have *: "ta_count ta > 0 \<Longrightarrow> ta_ptr ta = Some (ta_offset ta)
       \<and> ta_offset ta + ta_count ta * elem_size (ta_class ta) \<le> byte_length (buffers h ! ta_buffer ta)"
    using v assms(3) by (simp add: view_ok_def ta_def)
  have "ta_count ta > 0 \<Longrightarrow> 0 < ta_count ta * elem_size (ta_class ta)" by simp
  with * have "ta_count ta > 0 \<Longrightarrow> 0 < byte_length (buffers h ! ta_buffer ta)" by linarith
  then have "ta_count ta > 0 \<Longrightarrow> \<not> detached (buffers h ! ta_buffer ta)" using ok by (auto simp: buffer_ok_def)
  with * show "ta_count ta > 0 \<Longrightarrow> ta_ptr ta = Some (ta_offset ta)
       \<and> ta_offset ta + ta_count ta * elem_size (ta_class ta) \<le> byte_length (buffers h ! ta_buffer ta)
       \<and> \<not> detached (buffers h ! ta_buffer ta)" by simp
  show "\<not> typed_array_is_oob v h \<Longrightarrow> \<not> detached (buffers h ! ta_buffer ta)
       \<and> ta_offset ta + ta_count ta * elem_size (ta_class ta) \<le> byte_length (buffers h ! ta_buffer ta)
       \<and> (\<not> track_rab ta \<longrightarrow> ta_offset ta + ta_length ta \<le> byte_length (buffers h ! ta_buffer ta))"
    using * by (cases "ta_count ta = 0") (auto simp: typed_array_is_oob_def Let_def ta_def[symmetric] split: if_splits)
qed

lemma read_block_ok:
  assumes "heap_ok h" "b < length (buffers h)" "\<not> detached (buffers h ! b)" "p + n \<le> byte_length (buffers h ! b)"
  shows "\<exists>bs. read_block b p n h = Some bs \<and> length bs = n"
  by (rule block_bounds[OF assms(1-3)]) (use assms(4) in \<open>auto simp: read_block_def\<close>)

lemma write_block_ok:
  assumes "heap_ok h" "b < length (buffers h)" "\<not> detached (buffers h ! b)" "p + length bs \<le> byte_length (buffers h ! b)"
  obtains h' where "write_block b p bs h = Some h'" "heap_ok h'" "heap_le h h'" "views h' = views h"
    "\<And>c. byte_length (buffers h' ! c) = byte_length (buffers h ! c) \<and> detached (buffers h' ! c) = detached (buffers h ! c)"
proof (rule block_bounds[OF assms(1-3)])
  fix d assume d: "ab_data (buffers h ! b) = Some d" "byte_length (buffers h ! b) \<le> length d"
  let ?d = "take p d @ bs @ drop (p + length bs) d"
  have l: "length ?d = length d" using d assms(4) by auto
  let ?ab = "(buffers h ! b)\<lparr>ab_data := Some ?d\<rparr>"
  have "buffer_ok ?ab" "same_buffer (buffers h ! b) ?ab"
    using heap_ok_buffer[OF assms(1,2)] d(1) l by (auto simp: buffer_ok_def same_buffer_def)
  from heap_ok_set_buffer[OF assms(1,2) this]
  show thesis by (intro that[of "h\<lparr>buffers := (buffers h)[b := ?ab]\<rparr>"]) (use d assms(2,4) in \<open>auto simp: write_block_def nth_list_update\<close>)
qed

lemma elem_window: "i < n \<Longrightarrow> off + n * s \<le> (len :: nat) \<Longrightarrow> off + i * s + s \<le> len"
  using mult_le_mono1[of "Suc i" n s] by simp

lemma load_elem_ok:
  assumes "heap_ok h" "v < length (views h)" "ta_class (views h ! v) \<noteq> DATAVIEW" "i < ta_count (views h ! v)"
  shows "\<exists>x. load_elem (views h ! v) i h = Some x"
proof -
  note b = view_bounds[OF assms(1-3)]
  have "ta_count (views h ! v) > 0" using assms(4) by simp
  note b2 = b(2)[OF this]
  obtain bs where "read_block (ta_buffer (views h ! v)) (ta_offset (views h ! v) + i * elem_size (ta_class (views h ! v)))
      (elem_size (ta_class (views h ! v))) h = Some bs"
    using read_block_ok[OF assms(1) b(1), of _ "elem_size (ta_class (views h ! v))"] b2 elem_window[OF assms(4)] by blast
  then show ?thesis using b2 by (simp add: load_elem_def)
qed

lemma store_elem_ok:
  assumes "heap_ok h" "v < length (views h)" "ta_class (views h ! v) \<noteq> DATAVIEW" "i < ta_count (views h ! v)"
  obtains h' where "store_elem (views h ! v) i x h = Some h'" "heap_ok h'" "heap_le h h'" "views h' = views h"
proof -
  note b = view_bounds[OF assms(1-3)]
  have "ta_count (views h ! v) > 0" using assms(4) by simp
  note b2 = b(2)[OF this]
  let ?p = "ta_offset (views h ! v) + i * elem_size (ta_class (views h ! v))"
  have "?p + length (le_bytes (elem_size (ta_class (views h ! v))) (unat x)) \<le> byte_length (buffers h ! ta_buffer (views h ! v))"
    using b2 elem_window[OF assms(4)] by simp
  then obtain h' where "write_block (ta_buffer (views h ! v)) ?p (le_bytes (elem_size (ta_class (views h ! v))) (unat x)) h = Some h'"
    "heap_ok h'" "heap_le h h'" "views h' = views h"
    using b2 by (elim write_block_ok[OF assms(1) b(1), rotated]) auto
  then show thesis using that b2 by (simp add: store_elem_def)
qed

lemma js_set_element_safe:
  assumes "guest_safe val (\<lambda>_ _. True)" "heap_ok h" "v < length (views h)" "ta_class (views h ! v) \<noteq> DATAVIEW"
  shows "runs h (js_set_element v i val h) (\<lambda>_ _. True)"
  unfolding js_set_element_def
proof (rule runs_and_then[OF guest_runs[OF assms(1,2)]], goal_cases)
  case (1 x h1)
  have v: "v < length (views h1)" "ta_class (views h1 ! v) \<noteq> DATAVIEW"
    using heap_le_view[OF 1(2) assms(3)] assms(4) by (auto simp: same_view_def)
  show ?case
  proof (cases "i \<ge> ta_count (views h1 ! v)")
    case False
    then obtain h2 where "store_elem (views h1 ! v) i x h1 = Some h2" "heap_ok h2" "heap_le h1 h2"
      using store_elem_ok[OF 1(1) v, of i x] by auto
    then show ?thesis using False by (simp add: runs_def return_def)
  qed (use 1(1) in simp)
qed

lemma js_get_element_safe:
  assumes "heap_ok h" "v < length (views h)" "ta_class (views h ! v) \<noteq> DATAVIEW"
  shows "runs h (js_get_element v i h) (\<lambda>_ h'. h' = h)"
  using load_elem_ok[OF assms, of i] assms(1) by (auto simp: js_get_element_def Let_def)

lemma js_set_elements_safe:
  assumes "\<And>i. guest_safe (elem i) (\<lambda>_ _. True)" "heap_ok h" "v < length (views h)" "ta_class (views h ! v) \<noteq> DATAVIEW"
  shows "runs h (js_set_elements v off i elem n h) (\<lambda>_ _. True)"
  using assms(2-)
proof (induction n arbitrary: i h)
  case (Suc n)
  show ?case
    by (simp only: js_set_elements.simps, rule runs_and_then[OF js_set_element_safe[OF assms(1) Suc.prems]])
      (use Suc.IH heap_le_view Suc.prems in \<open>auto simp: same_view_def\<close>)
qed simp

definition new_view :: "js_heap \<Rightarrow> ta_class \<Rightarrow> nat \<Rightarrow> js_heap \<Rightarrow> bool" where
  "new_view h c v h' \<longleftrightarrow> length (views h) \<le> v \<and> v < length (views h') \<and> ta_class (views h' ! v) = c"

definition same_lengths :: "js_heap \<Rightarrow> js_heap \<Rightarrow> bool" where
  "same_lengths h h' \<longleftrightarrow> (\<forall>c. byte_length (buffers h' ! c) = byte_length (buffers h ! c) \<and> detached (buffers h' ! c) = detached (buffers h ! c))"

lemma typed_array_init_safe:
  assumes "heap_ok h" "b < length (buffers h)" "offset + len * elem_size c \<le> byte_length (buffers h ! b)"
  shows "runs h (typed_array_init c b offset len track h) (\<lambda>v h'. new_view h c v h' \<and> same_lengths h h')"
proof -
  obtain ok a where h: "halloc h = (ok, h\<lparr>allocs := a\<rparr>)" by (rule halloc_cases)
  let ?ta = "\<lparr>ta_class = c, ta_buffer = b, ta_offset = offset, ta_length = len * elem_size c,
     track_rab = track, ta_count = len, ta_ptr = Some offset\<rparr>"
  have "view_ok (buffers h ! b) ?ta" using assms(3) by (simp add: view_ok_def)
  from heap_ok_add_view[of "h\<lparr>allocs := a\<rparr>" b ?ta] this assms(1,2)
  show ?thesis using h
    by (cases ok) (auto simp: typed_array_init_def Let_def runs_def return_def throw_def new_view_def nth_append same_lengths_def nth_list_update)
qed

text \<open>A fresh buffer for \<open>len\<close> elements and the view on it.\<close>

lemma constructor1_safe:
  "heap_ok h \<Longrightarrow> runs h (js_array_buffer_constructor1 no_ctor len None h) (new_buffer h len None False True)"
  unfolding js_array_buffer_constructor1_def by (rule constructor2_fixed_safe) auto

lemma new_bufferD:
  "new_buffer h len max_len sh free b h' \<Longrightarrow> b < length (buffers h') \<and> byte_length (buffers h' ! b) = len \<and> \<not> detached (buffers h' ! b)"
  by (simp add: new_buffer_def Let_def)

lemma fresh_view_safe:
  assumes "heap_ok h" "b < length (buffers h)" "byte_length (buffers h ! b) = len * elem_size c" "\<not> detached (buffers h ! b)"
    "\<And>v h'. \<lbrakk>heap_ok h'; heap_le h h'; v < length (views h'); ta_class (views h' ! v) = c; b < length (buffers h');
        byte_length (buffers h' ! b) = len * elem_size c; \<not> detached (buffers h' ! b); same_lengths h h'\<rbrakk> \<Longrightarrow> runs h' (k v h') P"
  shows "runs h (and_then (typed_array_init c b 0 len False h) k) P"
proof (rule runs_and_then[OF typed_array_init_safe[OF assms(1,2)]], goal_cases)
  case (2 v h')
  then show ?case using assms heap_le_buffer[OF 2(2) assms(2)] by (auto simp: new_view_def same_lengths_def intro!: assms(5))
qed (use assms in simp)

lemma js_typed_array_constructor_obj_safe:
  assumes "guest_safe f (\<lambda>_ _. True)" "guest_safe get_len (\<lambda>_ _. True)" "\<And>i. guest_safe (elem i) (\<lambda>_ _. True)" "c \<noteq> DATAVIEW" "heap_ok h"
  shows "runs h (js_typed_array_constructor_obj f get_len elem c h) (\<lambda>_ _. True)"
  unfolding js_typed_array_constructor_obj_def
proof (rule runs_and_then[OF guest_runs[OF js_create_from_ctor_safe[OF assms(1)] assms(5)]],
    rule runs_and_then[OF guest_runs[OF assms(2)]], assumption, rule runs_and_then[OF constructor1_safe], assumption, goal_cases)
  case (1 _ h1 len h2 b h3)
  show ?case
    by (rule fresh_view_safe[OF 1(7)], insert new_bufferD[OF 1(9)], simp_all)
      (rule runs_and_then[OF js_set_elements_safe[OF assms(3)]], use assms(4) in auto)
qed

lemma copy_elem_safe:
  assumes "heap_ok h" "v < length (views h)" "ta_class (views h ! v) \<noteq> DATAVIEW"
  shows "runs h (copy_elem conv c v i h) (\<lambda>_ h'. h' = h)"
  unfolding copy_elem_def
  by (rule runs_and_then[OF js_get_element_safe[OF assms]]) (auto split: sum.splits)

text \<open>Elements whose conversion runs no guest code are copied one by one.\<close>

lemma js_set_elements_copy:
  assumes "heap_ok h" "v < length (views h)" "ta_class (views h ! v) \<noteq> DATAVIEW" "s < length (views h)" "ta_class (views h ! s) \<noteq> DATAVIEW"
  shows "runs h (js_set_elements v off i (copy_elem conv c s) n h) (\<lambda>_ _. True)"
  using assms
proof (induction n arbitrary: i h)
  case (Suc n)
  have "runs h (js_set_element v (off + i) (copy_elem conv c s i) h) (\<lambda>_ _. True)"
    unfolding js_set_element_def
  proof (rule runs_and_then[OF copy_elem_safe[OF Suc.prems(1,4,5)]], goal_cases)
    case (1 x h1)
    show ?case
    proof (cases "off + i \<ge> ta_count (views h1 ! v)")
      case False
      then obtain h2 where "store_elem (views h1 ! v) (off + i) x h1 = Some h2" "heap_ok h2" "heap_le h1 h2"
        using store_elem_ok[OF Suc.prems(1-3), of "off + i" x] 1(3) by auto
      then show ?thesis using False by (simp add: runs_def return_def)
    qed (use 1(1) in simp)
  qed
  then show ?case
    by (simp only: js_set_elements.simps, elim runs_and_then)
      (use Suc.IH heap_le_view Suc.prems in \<open>auto simp: same_view_def\<close>)
qed simp

lemma js_typed_array_constructor_ta_safe:
  assumes "guest_safe f (\<lambda>_ _. True)" "c \<noteq> DATAVIEW" "heap_ok h" "s < length (views h)" "ta_class (views h ! s) \<noteq> DATAVIEW"
  shows "runs h (js_typed_array_constructor_ta conv f s c len h) (\<lambda>v h'. v < length (views h') \<and> ta_class (views h' ! v) = c)"
  unfolding js_typed_array_constructor_ta_def
proof (rule runs_and_then[OF guest_runs[OF js_create_from_ctor_safe[OF assms(1)] assms(3)]], goal_cases)
  case (1 _ h1)
  have s1: "s < length (views h1)" "ta_class (views h1 ! s) \<noteq> DATAVIEW"
    using heap_le_view[OF 1(2) assms(4)] assms(5) by (auto simp: same_view_def)
  show ?case
  proof (cases "typed_array_is_oob s h1")
    case True
    then show ?thesis using 1(1) by simp
  next
    case False
    show ?thesis unfolding if_not_P[OF False]
    proof (rule runs_and_then[OF constructor1_safe[OF 1(1)]], goal_cases)
      case (1 b h2)
      have s2: "s < length (views h2)" "ta_class (views h2 ! s) \<noteq> DATAVIEW"
        using heap_le_view[OF 1(2) s1(1)] s1(2) by (auto simp: same_view_def)
      note nb = new_bufferD[OF 1(3)]
      show ?case
      proof (cases "typed_array_is_oob s h2")
        case True
        then show ?thesis using 1(1) by simp
      next
        case oob: False
        show ?thesis unfolding if_not_P[OF oob] Let_def
        proof (rule fresh_view_safe[OF 1(1)], goal_cases)
          case (4 v h3)
          have s3: "s < length (views h3)" "ta_class (views h3 ! s) \<noteq> DATAVIEW" "ta_offset (views h3 ! s) = ta_offset (views h2 ! s)"
            "ta_buffer (views h3 ! s) = ta_buffer (views h2 ! s)"
            using heap_le_view[OF 4(2) s2(1)] s2(2) by (auto simp: same_view_def)
          let ?ta = "views h3 ! s"
          have d3: "ta_buffer ?ta < length (buffers h3)" "\<not> detached (buffers h3 ! ta_buffer ?ta)"
            using view_bounds(1)[OF 4(1) s3(1,2)] view_bounds(3)[OF 1(1) s2] oob 4(8) s3(4) by (auto simp: same_lengths_def)
          show ?case
          proof (cases "ta_class ?ta = c \<and> ta_offset ?ta + byte_length (buffers h3 ! b) \<le> byte_length (buffers h3 ! ta_buffer ?ta)")
            case True
            obtain bs where bs: "read_block (ta_buffer ?ta) (ta_offset ?ta) (byte_length (buffers h3 ! b)) h3 = Some bs"
              "length bs = byte_length (buffers h3 ! b)"
              using read_block_ok[OF 4(1) d3] True by blast
            obtain h4 where "write_block b 0 bs h3 = Some h4" "heap_ok h4" "heap_le h3 h4" "views h4 = views h3"
              by (rule write_block_ok[OF 4(1,5,7), of 0 bs]) (use bs(2) in auto)
            then show ?thesis using True bs(1) 4 by (simp add: runs_def return_def)
          next
            case False
            have "v < length (views h3)" "ta_class (views h3 ! v) \<noteq> DATAVIEW" using 4(3,4) assms(2) by auto
            note l = runs_and_then[OF js_set_elements_copy[OF 4(1) this s3(1,2)]]
            show ?thesis unfolding if_not_P[OF False]
              by (rule l) (use heap_le_view 4(3,4) in \<open>auto simp: same_view_def\<close>)
          qed
        qed (use nb in auto)
      qed
    qed
  qed
qed

definition source_safe :: "ta_source \<Rightarrow> js_heap \<Rightarrow> bool" where
  "source_safe src h = (case src of
     FromLength l \<Rightarrow> guest_safe l (\<lambda>_ _. True)
   | FromBuffer b off len \<Rightarrow> b < length (buffers h) \<and> guest_safe off (\<lambda>_ _. True) \<and> (\<forall>l. len = Some l \<longrightarrow> guest_safe l (\<lambda>_ _. True))
   | FromTyped s \<Rightarrow> s < length (views h) \<and> ta_class (views h ! s) \<noteq> DATAVIEW
   | FromObject g e \<Rightarrow> guest_safe g (\<lambda>_ _. True) \<and> (\<forall>i. guest_safe (e i) (\<lambda>_ _. True)))"

lemma div_window: "off \<le> (len :: nat) \<Longrightarrow> off + (len - off) div s * s \<le> len"
  using div_times_less_eq_dividend[of "len - off" s] by linarith

lemma js_typed_array_constructor_safe:
  assumes "guest_safe f (\<lambda>_ _. True)" "c \<noteq> DATAVIEW" "heap_ok h" "source_safe src h"
  shows "runs h (js_typed_array_constructor conv f src c h) (\<lambda>_ _. True)"
proof (cases src)
  case (FromLength l)
  have g: "guest_safe l (\<lambda>_ _. True)" using assms(4) FromLength by (simp add: source_safe_def)
  show ?thesis unfolding js_typed_array_constructor_def FromLength ta_source.case
  proof (rule runs_and_then[OF guest_runs[OF JS_ToIndex_safe[OF g] assms(3)]],
      rule runs_and_then[OF guest_runs[OF js_create_from_ctor_safe[OF assms(1)]]], assumption,
      rule runs_and_then[OF constructor1_safe], assumption, goal_cases)
    case (1 n h1 _ h2 b h3)
    show ?case by (rule runs_any[OF typed_array_init_safe[OF 1(7)]]) (use new_bufferD[OF 1(9)] in auto)
  qed
next
  case (FromBuffer b off len)
  have g: "b < length (buffers h)" "guest_safe off (\<lambda>_ _. True)" "\<And>l. len = Some l \<Longrightarrow> guest_safe l (\<lambda>_ _. True)"
    using assms(4) FromBuffer by (auto simp: source_safe_def)
  show ?thesis unfolding js_typed_array_constructor_def FromBuffer ta_source.case
  proof (rule runs_and_then[OF guest_runs[OF js_create_from_ctor_safe[OF assms(1)] assms(3)]],
      rule runs_and_then[OF guest_runs[OF JS_ToIndex_safe[OF g(2)]]], assumption, goal_cases)
    case (1 _ h1 offset h2)
    have b: "b < length (buffers h2)" using g(1) 1 by (auto simp: heap_le_def)
    show ?case
    proof (cases len)
      case None
      then show ?thesis using 1(4) runs_any[OF typed_array_init_safe[OF 1(4) b]] div_window
        by (auto simp: Let_def)
    next
      case (Some l)
      have "runs h2 (and_then (JS_ToIndex l h2) (\<lambda>len h.
                  let ab = buffers h ! b in
                  if detached ab then throw AbTypeError h
                  else if offset + len * elem_size c > byte_length ab then throw AbRangeError h
                  else typed_array_init c b offset len False h)) (\<lambda>_ _. True)"
      proof (rule runs_and_then[OF guest_runs[OF JS_ToIndex_safe[OF g(3)[OF Some]] 1(4)]], goal_cases)
        case (1 n h3)
        have "b < length (buffers h3)" using b 1(2) by (auto simp: heap_le_def)
        then show ?case using 1(1) runs_any[OF typed_array_init_safe[OF 1(1)]] by (auto simp: Let_def)
      qed
      then show ?thesis using Some 1(4) by simp
    qed
  qed
next
  case (FromTyped s)
  then show ?thesis using assms runs_any[OF js_typed_array_constructor_ta_safe[OF assms(1-3)]]
    by (simp add: js_typed_array_constructor_def source_safe_def)
next
  case (FromObject g e)
  then show ?thesis using assms js_typed_array_constructor_obj_safe[OF assms(1)]
    by (simp add: js_typed_array_constructor_def source_safe_def)
qed

end
