(* ===== verification/BufferOps.thy ===== *)
theory BufferOps
  imports BufferSafety
begin

text \<open>
  Memory safety of the operations on typed arrays and \<open>DataView\<close> objects, and of every program that
  a guest can write with them.
\<close>

subsection \<open>Bulk operations\<close>

abbreviation any_guest :: "'a guest \<Rightarrow> bool" where
  "any_guest f \<equiv> guest_safe f (\<lambda>_ _. True)"

text \<open>Writing inside the window of a view after reading from another one.\<close>

lemma move_block_safe:
  assumes "heap_ok h" "b < length (buffers h)" "\<not> detached (buffers h ! b)" "p + length bs \<le> byte_length (buffers h ! b)" "Q"
  shows "runs h (do { h \<leftarrow> write_block b p bs h; return v h }) (\<lambda>_ _. Q)"
  by (rule write_block_ok[OF assms(1-4)]) (use assms(5) in \<open>auto simp: runs_def return_def\<close>)

definition set_source_safe :: "set_source \<Rightarrow> js_heap \<Rightarrow> bool" where
  "set_source_safe src h = (case src of
     TypedSource s \<Rightarrow> s < length (views h) \<and> ta_class (views h ! s) \<noteq> DATAVIEW
   | ObjectSource g \<Rightarrow> any_guest g)"

lemma js_typed_array_set_internal_safe:
  assumes "set_source_safe src h" "\<And>i. any_guest (elem i)" "any_guest off" "heap_ok h"
  shows "runs h (js_typed_array_set_internal dst src elem off h) (\<lambda>_ _. True)"
  unfolding js_typed_array_set_internal_def
proof (rule runs_and_then[OF get_typed_array_runs[OF assms(4)]],
    rule runs_and_then[OF guest_runs[OF assms(3)]], assumption, goal_cases)
  case (1 ta h0 offset h1)
  have d: "dst < length (views h1)" "ta_class (views h1 ! dst) \<noteq> DATAVIEW"
    using 1(3,5) heap_le_view[OF 1(5), of dst] by (auto simp: same_view_def)
  have slow: "runs h (js_set_elements dst o' 0 elem n h) (\<lambda>_ _. True)"
    if "heap_ok h" "heap_le h1 h" for h o' n
    using js_set_elements_safe[OF assms(2) that(1)] heap_le_view[OF that(2) d(1)] d(2) by (auto simp: same_view_def)
  show ?case
  proof (cases "offset < 0 \<or> typed_array_is_oob dst h1")
    case True
    then show ?thesis using 1(4) by auto
  next
    case False
    note D = view_bounds[OF 1(4) d]
    show ?thesis
    proof (cases src)
      case (ObjectSource g)
      have "any_guest g" using assms(1) ObjectSource by (simp add: set_source_safe_def)
      from runs_and_then[OF guest_runs[OF this 1(4)], of "\<lambda>n h. if offset > int (ta_count (views h1 ! dst)) - int n then throw AbRangeError h
               else js_set_elements dst (nat offset) 0 elem n h"]
      show ?thesis using False ObjectSource slow by (simp add: Let_def)
    next
      case (TypedSource s)
      have s: "s < length (views h1)" "ta_class (views h1 ! s) \<noteq> DATAVIEW"
        using assms(1) TypedSource 1(3) heap_le_view[OF 1(5), of s] by (auto simp: set_source_safe_def same_view_def)
      let ?p = "views h1 ! dst" and ?s = "views h1 ! s"
      show ?thesis
      proof (cases "typed_array_is_oob s h1 \<or> offset > int (ta_count ?p) - int (ta_count ?s) \<or> ta_class ?s \<noteq> ta_class ?p")
        case True
        then show ?thesis using False TypedSource slow 1(4) by (auto simp: Let_def)
      next
        case ok: False
        note S = view_bounds[OF 1(4) s]
        let ?z = "elem_size (ta_class ?p)"
        obtain bs where bs: "read_block (ta_buffer ?s) (ta_offset ?s) (ta_count ?s * ?z) h1 = Some bs" "length bs = ta_count ?s * ?z"
          using read_block_ok[OF 1(4) S(1)] S(3) ok by (metis (no_types, lifting))
        have "nat offset + ta_count ?s \<le> ta_count ?p" using ok False by linarith
        then have "(nat offset + ta_count ?s) * ?z \<le> ta_count ?p * ?z" by (rule mult_le_mono1)
        then have "ta_offset ?p + nat offset * ?z + length bs \<le> byte_length (buffers h1 ! ta_buffer ?p)"
          using D(3) False bs(2) by (auto simp: algebra_simps)
        from move_block_safe[OF 1(4) D(1) _ this TrueI] D(3) False
        show ?thesis using TypedSource ok bs(1) by (simp add: Let_def)
      qed
    qed
  qed
qed

lemma clamp_runs:
  "any_guest a \<Longrightarrow> heap_ok h \<Longrightarrow> runs h (JS_ToInt32Clamp a 0 (int n) (int n) h) (\<lambda>v _. 0 \<le> v \<and> v \<le> int n)"
  by (rule guest_runs[OF JS_ToInt32Clamp_safe]) auto

lemma clamp_opt_runs:
  "\<lbrakk>\<And>a. arg = Some a \<Longrightarrow> any_guest a; heap_ok h; 0 \<le> d; d \<le> int n\<rbrakk> \<Longrightarrow>
     runs h (case arg of None \<Rightarrow> return d h | Some a \<Rightarrow> JS_ToInt32Clamp a 0 (int n) (int n) h) (\<lambda>v _. 0 \<le> v \<and> v \<le> int n)"
  by (cases arg) (simp_all add: clamp_runs)

text \<open>The count is clamped again after the conversions, since they may have resized the buffer.\<close>

lemma js_typed_array_copyWithin_safe:
  assumes "any_guest a0" "any_guest a1" "\<And>a. a2 = Some a \<Longrightarrow> any_guest a" "heap_ok h"
  shows "runs h (js_typed_array_copyWithin v a0 a1 a2 h) (\<lambda>_ _. True)"
  unfolding js_typed_array_copyWithin_def
proof (rule runs_and_then[OF get_typed_array_runs[OF assms(4)]], goal_cases)
  case (1 ta h0)
  show ?case
  proof (cases "typed_array_is_oob v h0")
    case True
    then show ?thesis using 1(1) by simp
  next
    case False
    show ?thesis
      unfolding if_not_P[OF False] Let_def
    proof (rule runs_and_then[OF clamp_runs[OF assms(1) 1(1)]], rule runs_and_then[OF clamp_runs[OF assms(2)]], assumption,
        rule runs_and_then[OF clamp_opt_runs[OF assms(3)]], assumption, assumption, simp, simp, goal_cases)
      case (1 to h1 fr h2 fin h3)
      have v: "v < length (views h3)" "ta_class (views h3 ! v) \<noteq> DATAVIEW"
        using \<open>heap_le h h0\<close> \<open>h0 = h \<and> _\<close> 1 heap_le_trans[OF 1(2) heap_le_trans[OF 1(5,8)]] heap_le_view[of h0 h3 v]
        by (auto simp: same_view_def)
      let ?ta = "views h3 ! v"
      define count where "count = min (min (fin - fr) (int (ta_count ta) - to)) (int (ta_count ?ta) - max to fr)"
      show ?case
      proof (cases "typed_array_is_oob v h3 \<or> count \<le> 0")
        case True
        then show ?thesis using 1(7) by (auto simp: count_def[symmetric])
      next
        case ok: False
        note B = view_bounds[OF 1(7) v]
        have le: "nat count + nat fr \<le> ta_count ?ta" "nat count + nat to \<le> ta_count ?ta" "ta_count ?ta > 0"
          using ok 1(3,6) by (auto simp: count_def)
        let ?z = "elem_size (ta_class ?ta)"
        have w: "ta_offset ?ta + nat x * ?z + nat count * ?z \<le> byte_length (buffers h3 ! ta_buffer ?ta)"
          if "nat count + nat x \<le> ta_count ?ta" for x
          using mult_le_mono1[OF that, of ?z] B(2)[OF le(3)] by (simp add: algebra_simps)
        have nd: "\<not> detached (buffers h3 ! ta_buffer ?ta)" using B(2)[OF le(3)] by simp
        obtain bs where bs: "read_block (ta_buffer ?ta) (ta_offset ?ta + nat fr * ?z) (nat count * ?z) h3 = Some bs" "length bs = nat count * ?z"
          using read_block_ok[OF 1(7) B(1) nd w[OF le(1)]] by blast
        have "ta_offset ?ta + nat to * ?z + length bs \<le> byte_length (buffers h3 ! ta_buffer ?ta)" using w[OF le(2)] bs(2) by simp
        from move_block_safe[OF 1(7) B(1) nd this TrueI]
        show ?thesis using ok bs(1) B(2)[OF le(3)] by (simp add: count_def[symmetric])
      qed
    qed
  qed
qed

lemma fill_elems_safe:
  assumes "heap_ok h" "v < length (views h)" "ta_class (views h ! v) \<noteq> DATAVIEW" "k + n \<le> ta_count (views h ! v)"
  shows "\<exists>h'. fill_elems (views h ! v) k x n h = Some h' \<and> heap_ok h' \<and> heap_le h h'"
  using assms
proof (induction n arbitrary: k h)
  case (Suc n)
  obtain h1 where 1: "store_elem (views h ! v) k x h = Some h1" "heap_ok h1" "heap_le h h1" "views h1 = views h"
    by (rule store_elem_ok[OF Suc.prems(1-3), of k x]) (use Suc.prems(4) in auto)
  from Suc.IH[OF 1(2), of "Suc k"] 1 Suc.prems heap_le_trans[OF 1(3)] show ?case by auto
qed simp

lemma js_typed_array_fill_safe:
  assumes "any_guest val" "\<And>a. a1 = Some a \<Longrightarrow> any_guest a" "\<And>a. a2 = Some a \<Longrightarrow> any_guest a" "heap_ok h"
  shows "runs h (js_typed_array_fill v val a1 a2 h) (\<lambda>_ _. True)"
  unfolding js_typed_array_fill_def
proof (rule runs_and_then[OF get_typed_array_runs[OF assms(4)]], goal_cases)
  case (1 ta h0)
  show ?case
  proof (cases "typed_array_is_oob v h0")
    case True
    then show ?thesis using 1(1) by simp
  next
    case False
    show ?thesis
      unfolding if_not_P[OF False] Let_def
    proof (rule runs_and_then[OF guest_runs[OF assms(1) 1(1)]], rule runs_and_then[OF clamp_opt_runs[OF assms(2)]], assumption, assumption, simp, simp,
        rule runs_and_then[OF clamp_opt_runs[OF assms(3)]], assumption, assumption, simp, simp, goal_cases)
      case (1 x h1 k h2 fin h3)
      have v: "v < length (views h3)" "ta_class (views h3 ! v) \<noteq> DATAVIEW"
        using \<open>h0 = h \<and> _\<close> 1 heap_le_trans[OF 1(2) heap_le_trans[OF 1(5,8)]] heap_le_view[of h0 h3 v]
        by (auto simp: same_view_def)
      show ?case
      proof (cases "typed_array_is_oob v h3 \<or> nat (min fin (int (ta_count (views h3 ! v))) - k) = 0")
        case True
        then show ?thesis using 1(7) by auto
      next
        case ok: False
        then have "nat k + nat (min fin (int (ta_count (views h3 ! v))) - k) \<le> ta_count (views h3 ! v)" using 1(6) by linarith
        from fill_elems_safe[OF 1(7) v this, of x] ok show ?thesis by (auto simp: runs_def return_def)
      qed
    qed
  qed
qed

lemma js_typed_array_at_safe:
  assumes "any_guest a" "heap_ok h"
  shows "runs h (js_typed_array_at v a h) (\<lambda>_ _. True)"
  unfolding js_typed_array_at_def
proof (rule runs_and_then[OF get_typed_array_runs[OF assms(2)]], goal_cases)
  case (1 ta h0)
  show ?case
  proof (cases "typed_array_is_oob v h0")
    case True
    then show ?thesis using 1(1) by simp
  next
    case False
    show ?thesis
      unfolding if_not_P[OF False]
    proof (rule runs_and_then[OF guest_runs[OF assms(1) 1(1)]], goal_cases)
      case (1 idx h1)
      have "v < length (views h1)" "ta_class (views h1 ! v) \<noteq> DATAVIEW"
        using \<open>h0 = h \<and> _\<close> 1(2) heap_le_view[of h0 h1 v] by (auto simp: same_view_def)
      from runs_any[OF js_get_element_safe[OF 1(1) this]] 1(1) show ?case by (simp add: Let_def)
    qed
  qed
qed

lemma js_typed_array_with_safe:
  assumes "any_guest a" "any_guest prim" "heap_ok h"
  shows "runs h (js_typed_array_with conv v a prim h) (\<lambda>_ _. True)"
  unfolding js_typed_array_with_def
proof (rule runs_and_then[OF get_typed_array_runs[OF assms(3)]], goal_cases)
  case (1 ta h0)
  show ?case
  proof (cases "typed_array_is_oob v h0")
    case True
    then show ?thesis using 1(1) by simp
  next
    case False
    show ?thesis
      unfolding if_not_P[OF False] Let_def
    proof (rule runs_and_then[OF guest_runs[OF assms(1) 1(1)]], rule runs_and_then[OF guest_runs[OF assms(2)]], assumption, goal_cases)
      case (1 idx h1 val h2)
      have v: "v < length (views h2)" "ta_class (views h2 ! v) \<noteq> DATAVIEW" "ta_class ta \<noteq> DATAVIEW"
        using \<open>h0 = h \<and> _\<close> heap_le_trans[OF 1(2) 1(5)] heap_le_view[of h0 h2 v] by (auto simp: same_view_def)
      let ?idx = "if idx < 0 then int (ta_count ta) + idx else idx"
      show ?case
      proof (cases "typed_array_is_oob v h2 \<or> ?idx < 0 \<or> ?idx \<ge> int (ta_count (views h2 ! v))")
        case True
        then show ?thesis using 1(4) by (simp only: if_True runs_throw)
      next
        case False
        show ?thesis
          unfolding if_not_P[OF False]
        proof (rule runs_and_then[OF js_typed_array_constructor_ta_safe[OF no_ctor_safe v(3) 1(4) v(1,2)]], goal_cases)
          case (1 arr h3)
          have g: "any_guest (case val of Inl e \<Rightarrow> throw e | Inr bits \<Rightarrow> return bits)"
            by (auto simp: guest_safe_def split: sum.splits)
          show ?case
            by (rule runs_and_then[OF js_set_element_safe[OF g 1(1)]]) (use 1(3) v(3) in auto)
        qed
      qed
    qed
  qed
qed

lemma js_typed_array_create_safe:
  assumes "any_guest ctor" "\<And>a. arg = Some a \<Longrightarrow> any_guest a" "heap_ok h"
  shows "runs h (js_typed_array_create ctor arg h) (\<lambda>_ _. True)"
  unfolding js_typed_array_create_def
proof (rule runs_and_then[OF guest_runs[OF assms(1,3)]], goal_cases)
  case (1 r h1)
  have "runs h1 (js_typed_array_get_length_unsafe r h1) (\<lambda>_ _. True)"
    unfolding js_typed_array_get_length_unsafe_def
    by (rule runs_and_then[OF get_typed_array_runs[OF 1(1)]]) auto
  then show ?case
  proof (rule runs_and_then, goal_cases)
    case (1 n h2)
    show ?case
    proof (cases arg)
      case (Some l)
      have "runs h2 (JS_ToInt64Clamp l 0 MAX_SAFE_INTEGER 0 h2) (\<lambda>_ _. True)"
        by (rule runs_any[OF guest_runs[OF JS_ToInt64Clamp_safe[OF assms(2)[OF Some]] 1(1)]]) (simp add: MAX_SAFE_INTEGER_def)
      then show ?thesis unfolding Some option.case by (rule runs_and_then) auto
    qed (use 1(1) in simp)
  qed
qed

definition species_safe :: "(nat \<Rightarrow> nat guest) option guest \<Rightarrow> bool" where
  "species_safe sp = guest_safe sp (\<lambda>c _. \<forall>f n. c = Some f \<longrightarrow> any_guest (f n))"

lemma js_typed_array_speciesCreate_safe:
  assumes "species_safe sp" "heap_ok h" "source_safe src h"
  shows "runs h (js_typed_array_speciesCreate conv sp v argc src h) (\<lambda>_ _. True)"
  unfolding js_typed_array_speciesCreate_def
proof (rule runs_and_then[OF get_typed_array_runs[OF assms(2)]],
    rule runs_and_then[OF guest_runs[OF assms(1)[unfolded species_safe_def]]], assumption, goal_cases)
  case (1 ta h0 c h1)
  have "source_safe src h1"
    using assms(3) 1(3) heap_le_trans[OF 1(2,5)] heap_le_buffer[OF 1(5)] heap_le_view[OF 1(5)]
    by (auto simp: source_safe_def same_view_def split: ta_source.splits)
  then show ?case
    using 1 js_typed_array_constructor_safe[OF no_ctor_safe _ 1(4)] js_typed_array_create_safe[of _ None, OF _ _ 1(4)]
    by (auto split: option.splits)
qed

lemma js_typed_array_subarray_safe:
  assumes "species_safe sp" "any_guest a0" "\<And>a. a1 = Some a \<Longrightarrow> any_guest a" "heap_ok h"
  shows "runs h (js_typed_array_subarray conv sp v a0 a1 h) (\<lambda>_ _. True)"
  unfolding js_typed_array_subarray_def Let_def js_typed_array_get_buffer_def
proof (rule runs_and_then[OF get_typed_array_runs[OF assms(4)]], rule runs_and_then[OF clamp_runs[OF assms(2)]], assumption,
    rule runs_and_then[OF clamp_opt_runs[OF assms(3)]], assumption, assumption, simp, simp, goal_cases)
  case (1 ta h0 start h1 fin h2)
  have "runs h2 (and_then (get_typed_array v h2) (\<lambda>ta. return (ta_buffer ta))) (\<lambda>b h'. h' = h2 \<and> b < length (buffers h2))"
    by (rule runs_and_then[OF get_typed_array_runs[OF 1(7)]]) (use 1(7) heap_ok_view in auto)
  then show ?case
  proof (rule runs_and_then, goal_cases)
    case (1 b h3)
    then show ?case by (intro js_typed_array_speciesCreate_safe[OF assms(1)]) (auto simp: source_safe_def)
  qed
qed

subsection \<open>DataView\<close>

lemma js_dataview_constructor_safe:
  assumes "any_guest f" "\<And>a. a1 = Some a \<Longrightarrow> any_guest a" "\<And>a. a2 = Some a \<Longrightarrow> any_guest a" "heap_ok h"
  shows "runs h (js_dataview_constructor f b a1 a2 h) (\<lambda>_ _. True)"
  unfolding js_dataview_constructor_def
proof (rule runs_and_then[OF js_get_array_buffer_runs[OF assms(4)]], goal_cases)
  case (1 ab h0)
  have "runs h0 (case a1 of None \<Rightarrow> return 0 h0 | Some a \<Rightarrow> JS_ToIndex a h0) (\<lambda>_ _. True)"
    using 1(1) runs_any[OF guest_runs[OF JS_ToIndex_safe[OF assms(2)] 1(1)]] by (auto split: option.splits)
  then show ?case
  proof (rule runs_and_then, goal_cases)
    case (1 offset h1)
    show ?case
    proof (cases "detached (buffers h1 ! b) \<or> offset > byte_length (buffers h1 ! b)")
      case True
      then show ?thesis using 1(1) by (auto simp: Let_def)
    next
      case False
      let ?len = "byte_length (buffers h1 ! b) - offset"
      have len: "runs h1 (case a2 of None \<Rightarrow> return ?len h1
           | Some a \<Rightarrow> and_then (JS_ToIndex a h1) (\<lambda>l h. if l > ?len then throw AbRangeError h else return l h)) (\<lambda>_ _. True)"
      proof (cases a2)
        case (Some a)
        show ?thesis unfolding Some option.case
          by (rule runs_and_then[OF guest_runs[OF JS_ToIndex_safe[OF assms(3)[OF Some]] 1(1)]]) auto
      qed (use 1(1) in simp)
      have "runs h1 (and_then (case a2 of None \<Rightarrow> return ?len h1
           | Some a \<Rightarrow> and_then (JS_ToIndex a h1) (\<lambda>l h. if l > ?len then throw AbRangeError h else return l h))
         (\<lambda>len h. and_then (js_create_from_ctor f h) (\<lambda>_ h.
           let ab = buffers h ! b in
           if detached ab then throw AbTypeError h
           else if offset > byte_length ab \<or> a2 \<noteq> None \<and> offset + len > byte_length ab then throw AbRangeError h
           else
             let len = (if a2 = None then byte_length ab - offset else len) in
             case halloc h of
               (False, h) \<Rightarrow> throw AbOutOfMemory h
             | (True, h) \<Rightarrow>
                 let v = length (views h) in
                 return v
                   (h\<lparr>buffers := (buffers h)[b := (buffers h ! b)\<lparr>array_list := array_list (buffers h ! b) @ [v]\<rparr>],
                      views := views h @
                        [\<lparr>ta_class = DATAVIEW, ta_buffer = b, ta_offset = offset, ta_length = len,
                          track_rab = (a2 = None \<and> array_buffer_is_resizable (buffers h1 ! b)), ta_count = 0, ta_ptr = None\<rparr>]\<rparr>))))
         (\<lambda>_ _. True)"
      proof (rule runs_and_then[OF len], rule runs_and_then[OF guest_runs[OF js_create_from_ctor_safe[OF assms(1)]]], assumption, goal_cases)
        case (1 len h2 _ h3)
        have b: "b < length (buffers h3)"
          using \<open>h0 = h \<and> _\<close> \<open>heap_le h0 h1\<close> 1(2,5) by (auto simp: heap_le_def)
        obtain ok a where h: "halloc h3 = (ok, h3\<lparr>allocs := a\<rparr>)" by (rule halloc_cases)
        have "view_ok ab ta" if "ta_class ta = DATAVIEW" for ab ta using that by (simp add: view_ok_def)
        from heap_ok_add_view[of "h3\<lparr>allocs := a\<rparr>" b, OF _ _ _ this] 1(4) b
        show ?case using h by (cases ok) (auto simp: Let_def runs_def return_def throw_def)
      qed
      then show ?thesis using False by (simp add: Let_def)
    qed
  qed
qed

lemma js_dataview_getValue_safe:
  assumes "any_guest a" "heap_ok h"
  shows "runs h (js_dataview_getValue v c a le h) (\<lambda>_ _. True)"
  unfolding js_dataview_getValue_def
proof (rule runs_and_then[OF get_dataview_runs[OF assms(2)]], rule runs_and_then[OF guest_runs[OF JS_ToIndex_safe[OF assms(1)]]], assumption, goal_cases)
  case (1 ta h0 pos h1)
  have v: "v < length (views h1)" using 1(3) heap_le_view[OF 1(5)] by auto
  note b = heap_ok_view[OF 1(4) v]
  let ?ta = "views h1 ! v"
  show ?case
  proof (cases "detached (buffers h1 ! ta_buffer ?ta) \<or> pos + elem_size c > ta_length ?ta \<or> ta_offset ?ta + ta_length ?ta > byte_length (buffers h1 ! ta_buffer ?ta)")
    case True
    then show ?thesis using 1(4) by (auto simp: Let_def)
  next
    case False
    then obtain bs where "read_block (ta_buffer ?ta) (ta_offset ?ta + pos) (elem_size c) h1 = Some bs"
      using read_block_ok[OF 1(4), of "ta_buffer ?ta" "ta_offset ?ta + pos" "elem_size c"] b by auto
    then show ?thesis using False 1(4) by (simp add: Let_def)
  qed
qed

lemma js_dataview_setValue_safe:
  assumes "any_guest a" "any_guest val" "heap_ok h"
  shows "runs h (js_dataview_setValue v c a val le h) (\<lambda>_ _. True)"
  unfolding js_dataview_setValue_def
proof (rule runs_and_then[OF get_dataview_runs[OF assms(3)]], rule runs_and_then[OF guest_runs[OF JS_ToIndex_safe[OF assms(1)]]], assumption,
    rule runs_and_then[OF guest_runs[OF assms(2)]], assumption, goal_cases)
  case (1 ta h0 pos h1 x h2)
  have v: "v < length (views h2)" using 1(3) heap_le_view[OF heap_le_trans[OF 1(5,8)]] by auto
  note b = heap_ok_view[OF 1(7) v]
  let ?ta = "views h2 ! v"
  show ?case
  proof (cases "detached (buffers h2 ! ta_buffer ?ta) \<or> pos + elem_size c > ta_length ?ta \<or> ta_offset ?ta + ta_length ?ta > byte_length (buffers h2 ! ta_buffer ?ta)")
    case True
    then show ?thesis using 1(7) by (auto simp: Let_def)
  next
    case False
    have "ta_offset ?ta + pos + length (swap_bytes le (le_bytes (elem_size c) (unat x))) \<le> byte_length (buffers h2 ! ta_buffer ?ta)"
      using False by (auto simp: swap_bytes_def)
    from move_block_safe[OF 1(7) _ _ this TrueI] False b show ?thesis by (simp add: Let_def)
  qed
qed

end
