(* ===== verification/GuestScripts.thy ===== *)
theory GuestScripts
  imports BufferOps
begin

text \<open>
  Programs that a guest can write with the operations of \<open>ArrayBuffers\<close> and \<open>TypedArrays\<close>. Wherever
  an operation converts an argument, reads an element of an object or calls a constructor, the
  guest can run another program, so that conversions and programs are defined together. The
  guest catches every exception. \<open>run_op\<close> is \<open>None\<close> when the engine leaves the blocks of its buffers.
\<close>

datatype gop =
    NewBuffer bool gconv gconv "gconv option" bool
  | DetachBuffer nat
  | TransferBuffer nat "gconv option" bool
  | ResizeBuffer nat gconv bool
  | SliceBuffer nat gconv "gconv option" gconv bool bool
  | NewTypedLength ta_class gconv gconv
  | NewTypedBuffer ta_class gconv nat gconv "gconv option"
  | NewTypedCopy ta_class gconv nat
  | NewTypedObject ta_class gconv gconv "gconv list"
  | GetElement nat nat
  | SetElement nat nat gconv
  | SetFromTyped nat nat "gconv list" "gconv option"
  | SetFromObject nat gconv "gconv list" "gconv option"
  | AtIndex nat gconv
  | WithElement nat gconv gconv
  | CopyWithin nat gconv gconv "gconv option"
  | FillElements nat gconv "gconv option" "gconv option"
  | Subarray nat gconv "gconv option" gconv "gconv option"
  | NewDataView gconv nat "gconv option" "gconv option"
  | GetValue nat ta_class gconv bool
  | SetValue nat ta_class gconv gconv bool
and gconv = GConv "gop list" "buf_error + u64"

subsection \<open>Running a program\<close>

definition ignore :: "'a ab_result \<Rightarrow> unit ab_result" where
  "ignore r = do { (_, h) \<leftarrow> r; return () h }"

fun run_all :: "unit guest list \<Rightarrow> unit guest" where
  "run_all [] h = return () h"
| "run_all (f # fs) h = do { (_, h) \<leftarrow> f h; run_all fs h }"

definition as_guest :: "(u64 \<Rightarrow> 'a) \<Rightarrow> u64 guest \<Rightarrow> 'a guest" where
  "as_guest g f h = and_then (f h) (\<lambda>x h. return (g x) h)"

abbreviation as_int :: "u64 guest \<Rightarrow> int guest" where
  "as_int \<equiv> as_guest sint"

definition elem_of :: "u64 guest list \<Rightarrow> nat \<Rightarrow> u64 guest" where
  "elem_of fs i = (if i < length fs then fs ! i else return 0)"

definition is_typed :: "nat \<Rightarrow> js_heap \<Rightarrow> bool" where
  "is_typed v h \<longleftrightarrow> v < length (views h) \<and> ta_class (views h ! v) \<noteq> DATAVIEW"

text \<open>
  The conversion between element types is an argument; a value that is not an object of the
  kind that an operation dispatches on takes another path of the engine, here none.
\<close>

primrec run_op :: "(ta_class \<Rightarrow> js_num option \<Rightarrow> buf_error + u64) \<Rightarrow> gop \<Rightarrow> unit guest"
  and run_conv :: "(ta_class \<Rightarrow> js_num option \<Rightarrow> buf_error + u64) \<Rightarrow> gconv \<Rightarrow> u64 guest" where
  "run_op cv (NewBuffer sh ctor len opt undef) = (\<lambda>h. ignore
     (js_array_buffer_constructor0 (as_guest (\<lambda>_. ()) (run_conv cv ctor)) (as_int (run_conv cv len))
       (map_option (as_guest (\<lambda>x. if undef then None else Some (sint x))) (map_option (run_conv cv) opt)) sh h))"
| "run_op cv (DetachBuffer b) = (\<lambda>h. return () (JS_DetachArrayBuffer b h))"
| "run_op cv (TransferBuffer b len fx) = (\<lambda>h. ignore
     (js_array_buffer_transfer b (map_option as_int (map_option (run_conv cv) len)) fx h))"
| "run_op cv (ResizeBuffer b len sh) = (\<lambda>h. js_array_buffer_resize b (as_int (run_conv cv len)) sh h)"
| "run_op cv (SliceBuffer b a0 a1 sp undef sh) = (\<lambda>h. ignore
     (js_array_buffer_slice b (as_int (run_conv cv a0)) (map_option as_int (map_option (run_conv cv) a1))
       (\<lambda>_. as_guest (\<lambda>x. if undef then None else Some (unat x)) (run_conv cv sp)) sh h))"
| "run_op cv (NewTypedLength c ctor len) = (\<lambda>h.
     if c = DATAVIEW then return () h
     else ignore (js_typed_array_constructor cv (as_guest (\<lambda>_. ()) (run_conv cv ctor)) (FromLength (as_int (run_conv cv len))) c h))"
| "run_op cv (NewTypedBuffer c ctor b off len) = (\<lambda>h.
     if c = DATAVIEW \<or> b \<ge> length (buffers h) then return () h
     else ignore (js_typed_array_constructor cv (as_guest (\<lambda>_. ()) (run_conv cv ctor))
            (FromBuffer b (as_int (run_conv cv off)) (map_option as_int (map_option (run_conv cv) len))) c h))"
| "run_op cv (NewTypedCopy c ctor v) = (\<lambda>h.
     if c = DATAVIEW \<or> \<not> is_typed v h then return () h
     else ignore (js_typed_array_constructor cv (as_guest (\<lambda>_. ()) (run_conv cv ctor)) (FromTyped v) c h))"
| "run_op cv (NewTypedObject c ctor len elems) = (\<lambda>h.
     if c = DATAVIEW then return () h
     else ignore (js_typed_array_constructor cv (as_guest (\<lambda>_. ()) (run_conv cv ctor))
            (FromObject (as_guest unat (run_conv cv len)) (elem_of (map (run_conv cv) elems))) c h))"
| "run_op cv (GetElement v i) = (\<lambda>h. if is_typed v h then ignore (js_get_element v i h) else return () h)"
| "run_op cv (SetElement v i x) = (\<lambda>h. if is_typed v h then js_set_element v i (run_conv cv x) h else return () h)"
| "run_op cv (SetFromTyped v s elems off) = (\<lambda>h.
     if is_typed s h then js_typed_array_set v (TypedSource s) (elem_of (map (run_conv cv) elems)) (map_option as_int (map_option (run_conv cv) off)) h
     else return () h)"
| "run_op cv (SetFromObject v len elems off) = (\<lambda>h.
     js_typed_array_set v (ObjectSource (as_guest unat (run_conv cv len))) (elem_of (map (run_conv cv) elems))
       (map_option as_int (map_option (run_conv cv) off)) h)"
| "run_op cv (AtIndex v i) = (\<lambda>h. ignore (js_typed_array_at v (as_int (run_conv cv i)) h))"
| "run_op cv (WithElement v i x) = (\<lambda>h.
     ignore (js_typed_array_with cv v (as_int (run_conv cv i)) (as_guest Inr (run_conv cv x)) h))"
| "run_op cv (CopyWithin v a0 a1 a2) = (\<lambda>h.
     ignore (js_typed_array_copyWithin v (as_int (run_conv cv a0)) (as_int (run_conv cv a1)) (map_option as_int (map_option (run_conv cv) a2)) h))"
| "run_op cv (FillElements v x a1 a2) = (\<lambda>h.
     ignore (js_typed_array_fill v (run_conv cv x) (map_option as_int (map_option (run_conv cv) a1)) (map_option as_int (map_option (run_conv cv) a2)) h))"
| "run_op cv (Subarray v sp ctor a0 a1) = (\<lambda>h.
     ignore (js_typed_array_subarray cv
       (\<lambda>h. and_then (run_conv cv sp h) (\<lambda>_ h. return (map_option (\<lambda>c _. as_guest unat c) (map_option (run_conv cv) ctor)) h))
       v (as_int (run_conv cv a0)) (map_option as_int (map_option (run_conv cv) a1)) h))"
| "run_op cv (NewDataView ctor b a1 a2) = (\<lambda>h.
     ignore (js_dataview_constructor (as_guest (\<lambda>_. ()) (run_conv cv ctor)) b
       (map_option as_int (map_option (run_conv cv) a1)) (map_option as_int (map_option (run_conv cv) a2)) h))"
| "run_op cv (GetValue v c a le) = (\<lambda>h. ignore (js_dataview_getValue v c (as_int (run_conv cv a)) le h))"
| "run_op cv (SetValue v c a x le) = (\<lambda>h. js_dataview_setValue v c (as_int (run_conv cv a)) (run_conv cv x) le h)"
| "run_conv cv (GConv ops r) = (\<lambda>h. do { (_, h) \<leftarrow> run_all (map (run_op cv) ops) h; Some (r, h) })"

definition run_script :: "(ta_class \<Rightarrow> js_num option \<Rightarrow> buf_error + u64) \<Rightarrow> gop list \<Rightarrow> unit guest" where
  "run_script cv ops = run_all (map (run_op cv) ops)"

text \<open>Whether a program creates a growable \<open>SharedArrayBuffer\<close> anywhere.\<close>

primrec growable_shared :: "gop \<Rightarrow> bool" and growable_shared_conv :: "gconv \<Rightarrow> bool" where
  "growable_shared (NewBuffer sh ctor len opt undef) =
     ((sh \<and> opt \<noteq> None) \<or> growable_shared_conv ctor \<or> growable_shared_conv len \<or> map_option growable_shared_conv opt = Some True)"
| "growable_shared (DetachBuffer b) = False"
| "growable_shared (TransferBuffer b len fx) = (map_option growable_shared_conv len = Some True)"
| "growable_shared (ResizeBuffer b len sh) = growable_shared_conv len"
| "growable_shared (SliceBuffer b a0 a1 sp undef sh) =
     (growable_shared_conv a0 \<or> map_option growable_shared_conv a1 = Some True \<or> growable_shared_conv sp)"
| "growable_shared (NewTypedLength c ctor len) = (growable_shared_conv ctor \<or> growable_shared_conv len)"
| "growable_shared (NewTypedBuffer c ctor b off len) =
     (growable_shared_conv ctor \<or> growable_shared_conv off \<or> map_option growable_shared_conv len = Some True)"
| "growable_shared (NewTypedCopy c ctor v) = growable_shared_conv ctor"
| "growable_shared (NewTypedObject c ctor len elems) =
     (growable_shared_conv ctor \<or> growable_shared_conv len \<or> list_ex id (map growable_shared_conv elems))"
| "growable_shared (GetElement v i) = False"
| "growable_shared (SetElement v i x) = growable_shared_conv x"
| "growable_shared (SetFromTyped v s elems off) =
     (list_ex id (map growable_shared_conv elems) \<or> map_option growable_shared_conv off = Some True)"
| "growable_shared (SetFromObject v len elems off) =
     (growable_shared_conv len \<or> list_ex id (map growable_shared_conv elems) \<or> map_option growable_shared_conv off = Some True)"
| "growable_shared (AtIndex v i) = growable_shared_conv i"
| "growable_shared (WithElement v i x) = (growable_shared_conv i \<or> growable_shared_conv x)"
| "growable_shared (CopyWithin v a0 a1 a2) =
     (growable_shared_conv a0 \<or> growable_shared_conv a1 \<or> map_option growable_shared_conv a2 = Some True)"
| "growable_shared (FillElements v x a1 a2) =
     (growable_shared_conv x \<or> map_option growable_shared_conv a1 = Some True
       \<or> map_option growable_shared_conv a2 = Some True)"
| "growable_shared (Subarray v sp ctor a0 a1) =
     (growable_shared_conv sp \<or> map_option growable_shared_conv ctor = Some True \<or> growable_shared_conv a0
       \<or> map_option growable_shared_conv a1 = Some True)"
| "growable_shared (NewDataView ctor b a1 a2) =
     (growable_shared_conv ctor \<or> map_option growable_shared_conv a1 = Some True
       \<or> map_option growable_shared_conv a2 = Some True)"
| "growable_shared (GetValue v c a le) = growable_shared_conv a"
| "growable_shared (SetValue v c a x le) = (growable_shared_conv a \<or> growable_shared_conv x)"
| "growable_shared_conv (GConv ops r) = list_ex id (map growable_shared ops)"

subsection \<open>Every program is safe\<close>

lemma runs_ignore: "runs h r P \<Longrightarrow> runs h (ignore r) (\<lambda>_ _. True)"
  by (auto simp: runs_def ignore_def return_def)

lemma run_all_safe:
  "(\<And>f. f \<in> set fs \<Longrightarrow> any_guest f) \<Longrightarrow> any_guest (run_all fs)"
proof (induction fs)
  case (Cons f fs)
  show ?case
    unfolding guest_safe_def
  proof (intro allI impI)
    fix h assume "heap_ok h"
    then obtain x h1 where 1: "f h = Some (x, h1)" "heap_ok h1" "heap_le h h1"
      using Cons.prems[of f] by (auto simp: guest_safe_def runs_def)
    then have "runs h1 (run_all fs h1) (\<lambda>_ _. True)" using Cons by (auto simp: guest_safe_def)
    then show "runs h (run_all (f # fs) h) (\<lambda>_ _. True)" using 1 runs_le by simp
  qed
qed (auto simp: guest_safe_def)

lemma as_guest_safe: "any_guest f \<Longrightarrow> (\<And>x h. P (g x) h) \<Longrightarrow> guest_safe (as_guest g f) P"
  unfolding guest_safe_def as_guest_def by (auto intro!: runs_and_then[where P = "\<lambda>_ _. True"])

lemma elem_of_safe: "(\<And>f. f \<in> set fs \<Longrightarrow> any_guest f) \<Longrightarrow> any_guest (elem_of fs i)"
  by (auto simp: elem_of_def guest_safe_def)

lemma opt_guest_safe:
  "(\<And>c. o' = Some c \<Longrightarrow> any_guest (f c)) \<Longrightarrow> map_option (as_guest g) (map_option f o') = Some a \<Longrightarrow> any_guest a"
  by (auto intro: as_guest_safe)

lemma is_typedD: "is_typed v h \<Longrightarrow> v < length (views h) \<and> ta_class (views h ! v) \<noteq> DATAVIEW"
  by (simp add: is_typed_def)

lemma js_typed_array_set_safe:
  assumes "set_source_safe src h" "\<And>i. any_guest (elem i)" "\<And>a. off = Some a \<Longrightarrow> any_guest a" "heap_ok h"
  shows "runs h (js_typed_array_set v src elem off h) (\<lambda>_ _. True)"
  unfolding js_typed_array_set_def
  by (rule js_typed_array_set_internal_safe) (use assms in \<open>auto split: option.splits\<close>)

lemma guest_safeI: "(\<And>h. heap_ok h \<Longrightarrow> runs h (f h) P) \<Longrightarrow> guest_safe f P"
  by (simp add: guest_safe_def)

lemma run_safe:
  "\<not> growable_shared p \<Longrightarrow> any_guest (run_op cv p)"
  "\<not> growable_shared_conv c \<Longrightarrow> any_guest (run_conv cv c)"
proof (induction p and c)
  case (NewBuffer sh ctor len opt undef)
  have "runs h (js_array_buffer_constructor0 (as_guest (\<lambda>_. ()) (run_conv cv ctor)) (as_int (run_conv cv len))
       (map_option (as_guest (\<lambda>x. if undef then None else Some (sint x))) (map_option (run_conv cv) opt)) sh h) (\<lambda>_ _. True)"
    if "heap_ok h" for h
  proof (rule js_array_buffer_constructor0_safe)
    fix g assume "map_option (as_guest (\<lambda>x. if undef then None else Some (sint x))) (map_option (run_conv cv) opt) = Some g"
    then obtain c where c: "opt = Some c" "g = as_guest (\<lambda>x. if undef then None else Some (sint x)) (run_conv cv c)" by auto
    have "any_guest (run_conv cv c)" using NewBuffer c(1) by auto
    then show "guest_safe g (\<lambda>v _. \<forall>i. v = Some i \<longrightarrow> - (2 ^ 63) \<le> i)"
      unfolding c(2) by (rule as_guest_safe) (use sint_ge[where 'a=64] in auto)
  qed (use that NewBuffer in \<open>auto intro: as_guest_safe\<close>)
  then show ?case by (auto simp: guest_safe_def intro: runs_ignore)
next
  case (DetachBuffer b)
  then show ?case using JS_DetachArrayBuffer_safe by (simp add: guest_safe_def runs_def return_def)
next
  case (TransferBuffer b len fx)
  have "guest_safe (js_array_buffer_transfer b (map_option as_int (map_option (run_conv cv) len)) fx) (\<lambda>r h. r < length (buffers h))"
    by (rule js_array_buffer_transfer_safe) (use TransferBuffer in \<open>auto intro: as_guest_safe\<close>)
  then show ?case by (auto simp: guest_safe_def intro: runs_ignore)
next
  case (ResizeBuffer b len sh)
  then show ?case by (auto intro!: js_array_buffer_resize_safe as_guest_safe)
next
  case (SliceBuffer b a0 a1 sp undef sh)
  have "guest_safe (js_array_buffer_slice b (as_int (run_conv cv a0)) (map_option as_int (map_option (run_conv cv) a1))
       (\<lambda>_. as_guest (\<lambda>x. if undef then None else Some (unat x)) (run_conv cv sp)) sh) (\<lambda>r h. r < length (buffers h))"
    by (rule js_array_buffer_slice_safe) (use SliceBuffer in \<open>auto intro: as_guest_safe\<close>)
  then show ?case by (auto simp: guest_safe_def intro: runs_ignore)
next
  case (NewTypedLength c ctor len)
  then show ?case
    by (simp, intro guest_safeI) (auto simp: source_safe_def intro!: runs_ignore js_typed_array_constructor_safe as_guest_safe)
next
  case (NewTypedBuffer c ctor b off len)
  have "any_guest a" if "map_option as_int (map_option (run_conv cv) len) = Some a" for a
    using that NewTypedBuffer by (auto intro: as_guest_safe)
  then show ?case using NewTypedBuffer
    by (simp, intro guest_safeI) (auto simp: source_safe_def intro!: runs_ignore js_typed_array_constructor_safe as_guest_safe)
next
  case (NewTypedCopy c ctor v)
  then show ?case
    by (simp, intro guest_safeI) (auto simp: source_safe_def is_typed_def intro!: runs_ignore js_typed_array_constructor_safe as_guest_safe)
next
  case (NewTypedObject c ctor len elems)
  have "any_guest (elem_of (map (run_conv cv) elems) i)" for i
    by (rule elem_of_safe) (use NewTypedObject in \<open>auto simp: list_ex_iff\<close>)
  then show ?case using NewTypedObject
    by (simp, intro guest_safeI) (auto simp: source_safe_def intro!: runs_ignore js_typed_array_constructor_safe as_guest_safe)
next
  case (GetElement v i)
  then show ?case by (simp, intro guest_safeI) (auto dest!: is_typedD intro!: runs_ignore js_get_element_safe)
next
  case (SetElement v i x)
  then show ?case by (simp, intro guest_safeI) (auto dest!: is_typedD intro!: js_set_element_safe)
next
  case (SetFromTyped v s elems off)
  have "any_guest (elem_of (map (run_conv cv) elems) i)" for i
    by (rule elem_of_safe) (use SetFromTyped in \<open>auto simp: list_ex_iff\<close>)
  moreover have "any_guest a" if "map_option as_int (map_option (run_conv cv) off) = Some a" for a
    using that SetFromTyped by (auto intro: as_guest_safe)
  ultimately show ?case
    by (simp, intro guest_safeI) (auto simp: set_source_safe_def dest!: is_typedD intro!: js_typed_array_set_safe)
next
  case (SetFromObject v len elems off)
  have "any_guest (elem_of (map (run_conv cv) elems) i)" for i
    by (rule elem_of_safe) (use SetFromObject in \<open>auto simp: list_ex_iff\<close>)
  moreover have "any_guest a" if "map_option as_int (map_option (run_conv cv) off) = Some a" for a
    using that SetFromObject by (auto intro: as_guest_safe)
  ultimately show ?case using SetFromObject
    by (simp, intro guest_safeI) (auto simp: set_source_safe_def intro!: js_typed_array_set_safe as_guest_safe)
next
  case (AtIndex v i)
  then show ?case by (simp, intro guest_safeI) (auto intro!: runs_ignore js_typed_array_at_safe as_guest_safe)
next
  case (WithElement v i x)
  then show ?case by (simp, intro guest_safeI) (auto intro!: runs_ignore js_typed_array_with_safe as_guest_safe)
next
  case (CopyWithin v a0 a1 a2)
  have "any_guest a" if "map_option as_int (map_option (run_conv cv) a2) = Some a" for a
    using that CopyWithin by (auto intro: as_guest_safe)
  then show ?case using CopyWithin
    by (simp, intro guest_safeI) (auto intro!: runs_ignore js_typed_array_copyWithin_safe as_guest_safe)
next
  case (FillElements v x a1 a2)
  have "any_guest a" if "map_option as_int (map_option (run_conv cv) a1) = Some a \<or> map_option as_int (map_option (run_conv cv) a2) = Some a" for a
    using that FillElements by (auto intro: as_guest_safe)
  then show ?case using FillElements
    by (simp, intro guest_safeI) (auto intro!: runs_ignore js_typed_array_fill_safe)
next
  case (Subarray v sp ctor a0 a1)
  have "any_guest a" if "map_option as_int (map_option (run_conv cv) a1) = Some a" for a
    using that Subarray by (auto intro: as_guest_safe)
  moreover have "species_safe (\<lambda>h. and_then (run_conv cv sp h)
       (\<lambda>_ h. return (map_option (\<lambda>c _. as_guest unat c) (map_option (run_conv cv) ctor)) h))"
  proof -
    have c: "any_guest (f n)" if "map_option (\<lambda>c _. as_guest unat c) (map_option (run_conv cv) ctor) = Some f" for f n
      using that Subarray by (auto intro: as_guest_safe)
    have sp: "any_guest (run_conv cv sp)" using Subarray by simp
    show ?thesis
      unfolding species_safe_def
      by (rule guest_safeI, rule runs_and_then[OF guest_runs[OF sp]]) (use c in \<open>simp_all only: runs_return, blast+\<close>)
  qed
  ultimately show ?case using Subarray
    by (simp, intro guest_safeI) (auto intro!: runs_ignore js_typed_array_subarray_safe as_guest_safe)
next
  case (NewDataView ctor b a1 a2)
  have "any_guest a" if "map_option as_int (map_option (run_conv cv) a1) = Some a \<or> map_option as_int (map_option (run_conv cv) a2) = Some a" for a
    using that NewDataView by (auto intro: as_guest_safe)
  then show ?case using NewDataView
    by (simp, intro guest_safeI) (auto intro!: runs_ignore js_dataview_constructor_safe as_guest_safe)
next
  case (GetValue v c a le)
  then show ?case by (simp, intro guest_safeI) (auto intro!: runs_ignore js_dataview_getValue_safe as_guest_safe)
next
  case (SetValue v c a x le)
  then show ?case by (simp, intro guest_safeI) (auto intro!: js_dataview_setValue_safe as_guest_safe)
next
  case (GConv ops r)
  have "any_guest (run_all (map (run_op cv) ops))"
    by (rule run_all_safe) (use GConv in \<open>auto simp: list_ex_iff\<close>)
  then show ?case by (fastforce simp: guest_safe_def runs_def)
qed

end
