(* ===== verification/BufferProps.thy ===== *)
theory BufferProps
  imports GuestScripts
begin

text \<open>
  The properties of buffers, typed arrays and \<open>DataView\<close>: guest programs stay inside the blocks
  and keep the heap well-formed, what the embedder is told about a view, and the two places where
  the engine does leave a block or lets the embedder leave it.
\<close>

text \<open>C3: A guest program over buffers, typed arrays and views, of any length and with guest code
  running inside every conversion, runs to its end without touching memory outside the blocks and
  leaves a well-formed heap, as long as it creates no growable \<open>SharedArrayBuffer\<close>.\<close>

theorem guest_buffers_safe:
  assumes "heap_ok h" "\<forall>p\<in>set ops. \<not> growable_shared p"
  shows "\<exists>h'. run_script cv ops h = Some (Inr (), h') \<and> heap_ok h'"
proof -
  have "any_guest (run_script cv ops)"
    unfolding run_script_def by (rule run_all_safe) (use assms(2) run_safe(1) in auto)
  then obtain r h' where r: "run_script cv ops h = Some (r, h')" "heap_ok h'"
    using assms(1) by (auto simp: guest_safe_def runs_def)
  have "run_all fs h = Some (r, h') \<Longrightarrow> r = Inr ()" for fs h
    by (induction fs arbitrary: h) (auto simp: return_def split: bind_splits)
  then show ?thesis using r by (auto simp: run_script_def)
qed

text \<open>A heap without objects, and a conversion that runs no guest code.\<close>

definition empty_heap :: js_heap where
  "empty_heap = \<lparr>buffers = [], views = [], sab_alloc = False, allocs = []\<rparr>"

abbreviation const :: "nat \<Rightarrow> gconv" where
  "const n \<equiv> GConv [] (Inr (of_nat n))"

lemma empty_heap_ok [simp]: "heap_ok empty_heap"
  by (simp add: heap_ok_def empty_heap_def)

text \<open>The guest shrinks the buffer while the value of an element is converted.\<close>

theorem guest_buffers_safe_witness:
  "\<exists>h'. run_script (\<lambda>_ _. Inr 0)
     [NewBuffer False (const 0) (const 8) (Some (const 16)) False, NewTypedBuffer INT8_ARRAY (const 0) 0 (const 0) None,
      SetElement 0 7 (GConv [ResizeBuffer 0 (const 4) False] (Inr 1)), CopyWithin 0 (const 0) (const 2) None]
     empty_heap = Some (Inr (), h') \<and> heap_ok h'"
  by (rule guest_buffers_safe) simp_all

text \<open>C28: What \<open>JS_GetTypedArrayBuffer\<close> tells the embedder about a typed array that does not track
  the length of its buffer lies inside the bytes that \<open>JS_GetArrayBuffer\<close> gives.\<close>

theorem typed_array_buffer_window:
  assumes "heap_ok h" "JS_GetTypedArrayBuffer v h = Some (Inr (b, off, len, bpe), h')" "\<not> track_rab (views h ! v)"
  shows "\<exists>bs size. JS_GetArrayBuffer b h' = Some (Inr (Some bs, size), h') \<and> off + len \<le> size \<and> size \<le> length bs"
proof -
  have v: "v < length (views h)" "ta_class (views h ! v) \<noteq> DATAVIEW" "\<not> typed_array_is_oob v h" "h' = h"
    "b = ta_buffer (views h ! v)" "off = ta_offset (views h ! v)" "len = ta_length (views h ! v)"
    using assms(2) by (auto simp: JS_GetTypedArrayBuffer_def get_typed_array_def and_then_def return_def throw_def split: if_splits)
  note w = view_bounds(1)[OF assms(1) v(1,2)] view_bounds(3)[OF assms(1) v(1-3)]
  obtain d where "ab_data (buffers h ! b) = Some d" "byte_length (buffers h ! b) \<le> length d"
    using block_bounds[OF assms(1) w(1)] w(2) v(5) by metis
  then show ?thesis using w v assms(3)
    by (auto simp: JS_GetArrayBuffer_def js_get_array_buffer_def and_then_def return_def)
qed

text \<open>Scripts of four operations, evaluated step by step.\<close>

lemmas script_eval = run_script_def run_all.simps ignore_def as_guest_def and_then_def return_def throw_def
  JS_ToIndex_def MAX_SAFE_INTEGER_def js_array_buffer_constructor0_def js_array_buffer_constructor1_def
  js_array_buffer_constructor2_def js_array_buffer_constructor3_def js_create_from_ctor_def no_ctor_def halloc_def INT32_MAX_def
  js_typed_array_constructor_def typed_array_init_def elem_size_def array_buffer_is_resizable_def
  js_array_buffer_resize_def get_opaque2_def resize_block_def js_array_buffer_update_typed_arrays_def update_view_def
  js_set_element_def store_elem_def write_block_def read_block_def is_typed_def Let_def

definition fixed_view_heap :: js_heap where
  "fixed_view_heap = \<lparr>buffers = [\<lparr>byte_length = 4, max_byte_length = None, detached = False, shared = False,
       ab_data = Some [1, 2, 3, 4], js_free_func = True, array_list = [0]\<rparr>],
     views = [\<lparr>ta_class = INT8_ARRAY, ta_buffer = 0, ta_offset = 1, ta_length = 2, track_rab = False, ta_count = 2, ta_ptr = Some 1\<rparr>],
     sab_alloc = False, allocs = []\<rparr>"

theorem typed_array_buffer_window_witness:
  "\<exists>bs size. JS_GetArrayBuffer 0 fixed_view_heap = Some (Inr (Some bs, size), fixed_view_heap) \<and> 1 + 2 \<le> size \<and> size \<le> length bs"
proof (rule typed_array_buffer_window)
  show "heap_ok fixed_view_heap"
    by (simp add: fixed_view_heap_def heap_ok_def buffer_ok_def view_ok_def INT32_MAX_def elem_size_def)
  show "JS_GetTypedArrayBuffer 0 fixed_view_heap = Some (Inr (0, 1, 2, 1), fixed_view_heap)"
    by (simp add: fixed_view_heap_def JS_GetTypedArrayBuffer_def get_typed_array_def typed_array_is_oob_def script_eval)
  show "\<not> track_rab (views fixed_view_heap ! 0)" by (simp add: fixed_view_heap_def)
qed






text \<open>C26: Without an allocator for shared buffers, which this program never installs, a growable
  \<open>SharedArrayBuffer\<close> has only the block of its first length: after it has grown, a typed array over it accepts every
  index up to the new length, and writing an element behind the first length leaves the block.\<close>

theorem shared_grow_overflow:
  assumes "\<not> sab_alloc h0" "js_array_buffer_constructor2 no_ctor len (Some max_len) True h0 = Some (Inr b, h1)"
    "js_array_buffer_resize b (return (int n)) True h1 = Some (Inr (), h2)"
    "js_typed_array_constructor conv no_ctor (FromBuffer b (return 0) None) UINT8_ARRAY h2 = Some (Inr v, h3)"
    "max len 1 \<le> i" "i < n"
  shows "(\<exists>d. ab_data (buffers h3 ! b) = Some d \<and> length d = max len 1) \<and> i < ta_count (views h3 ! v)
    \<and> js_set_element v i (return x) h3 = None"
proof -
  have c1: "b = length (buffers h0) \<and> h1 = h0\<lparr>allocs := allocs h1, buffers := buffers h0 @
      [\<lparr>byte_length = len, max_byte_length = Some max_len, detached = False, shared = True,
        ab_data = Some (replicate (max len 1) 0), js_free_func = True, array_list = []\<rparr>]\<rparr>"
    using assms(2) assms(1)
    by (cases h0; auto simp: js_array_buffer_constructor2_def js_array_buffer_constructor3_def js_create_from_ctor_def no_ctor_def halloc_def
        and_then_def return_def throw_def Let_def split: if_splits list.splits bool.splits)
  note 1 = conjunct1[OF c1] conjunct2[OF c1]
  have 2: "h2 = h0\<lparr>allocs := allocs h1, buffers := buffers h0 @
      [\<lparr>byte_length = n, max_byte_length = Some max_len, detached = False, shared = True,
        ab_data = Some (replicate (max len 1) 0), js_free_func = True, array_list = []\<rparr>]\<rparr>"
    using assms(3) unfolding 1(1) by (subst (asm) 1(2))
    (auto simp: js_array_buffer_resize_def get_opaque2_def and_then_def return_def throw_def js_array_buffer_update_typed_arrays_def
        nth_append list_update_append Let_def split: if_splits)
  have c3: "v = length (views h0) \<and> h3 = h0\<lparr>allocs := allocs h3, buffers := buffers h0 @
      [\<lparr>byte_length = n, max_byte_length = Some max_len, detached = False, shared = True,
        ab_data = Some (replicate (max len 1) 0), js_free_func = True, array_list = [v]\<rparr>],
      views := views h0 @ [\<lparr>ta_class = UINT8_ARRAY, ta_buffer = b, ta_offset = 0, ta_length = n,
        track_rab = True, ta_count = n, ta_ptr = Some 0\<rparr>]\<rparr>"
    using assms(4) unfolding 2 1(1)
    by (cases h0; auto simp: js_typed_array_constructor_def typed_array_init_def js_create_from_ctor_def no_ctor_def halloc_def elem_size_def
        JS_ToIndex_def MAX_SAFE_INTEGER_def array_buffer_is_resizable_def and_then_def return_def throw_def Let_def nth_append
        split: if_splits list.splits bool.splits)
  note 3 = conjunct1[OF c3] conjunct2[OF c3]
  have "buffers h3 ! b = \<lparr>byte_length = n, max_byte_length = Some max_len, detached = False, shared = True,
        ab_data = Some (replicate (max len 1) 0), js_free_func = True, array_list = [v]\<rparr>"
    by (subst 3(2)) (simp add: 1(1) nth_append)
  moreover have "views h3 ! v = \<lparr>ta_class = UINT8_ARRAY, ta_buffer = b, ta_offset = 0, ta_length = n,
        track_rab = True, ta_count = n, ta_ptr = Some 0\<rparr>"
    by (subst 3(2)) (simp add: 3(1) nth_append)
  moreover have "\<not> Suc i \<le> max len 1" using assms(5) by linarith
  ultimately show ?thesis using assms(6)
    by (simp add: js_set_element_def store_elem_def write_block_def copy_to_def elem_size_def and_then_def return_def Let_def)
qed

theorem shared_grow_overflow_witness:
  "\<exists>h1 h2 h3. js_array_buffer_constructor2 no_ctor 1 (Some 64) True empty_heap = Some (Inr 0, h1)
     \<and> js_array_buffer_resize 0 (return (int 64)) True h1 = Some (Inr (), h2)
     \<and> js_typed_array_constructor (\<lambda>_ _. Inr 0) no_ctor (FromBuffer 0 (return 0) None) UINT8_ARRAY h2 = Some (Inr 0, h3)
     \<and> js_set_element 0 63 (return 65) h3 = None"
proof -
  obtain h1 h2 h3 where h: "js_array_buffer_constructor2 no_ctor 1 (Some 64) True empty_heap = Some (Inr 0, h1)"
    "js_array_buffer_resize 0 (return (int 64)) True h1 = Some (Inr (), h2)"
    "js_typed_array_constructor (\<lambda>_ _. Inr 0) no_ctor (FromBuffer 0 (return 0) None) UINT8_ARRAY h2 = Some (Inr 0, h3)"
    by (simp add: empty_heap_def script_eval)
  have "\<not> sab_alloc empty_heap" by (simp add: empty_heap_def)
  from shared_grow_overflow[OF this h, of 63 65] h show ?thesis by auto
qed

lemma ucast_low: "ucast (word_of_nat (unat x mod 2 ^ LENGTH('a)) :: u64) = (ucast (x :: u64) :: 'a::len word)"
proof -
  have "unat x < 2 ^ 64" using unat_lt_pow[of x] by simp
  then have "unat x mod 2 ^ LENGTH('a) < 2 ^ 64" using mod_less_eq_dividend[of "unat x" "2 ^ LENGTH('a)"] by linarith
  then show ?thesis by (simp add: word_unat_eq_iff unat_ucast_mod unsigned_of_nat take_bit_nat_def)
qed

lemma element_value_low:
  assumes "c \<noteq> DATAVIEW"
  shows "js_element_value c (word_of_nat (unat x mod 256 ^ elem_size c)) = js_element_value c x"
proof -
  have "unat x mod 18446744073709551616 = unat x" using unat_lt_pow[of x] by simp
  then show ?thesis
    using assms ucast_low[where 'a=8, of x] ucast_low[where 'a=16, of x] ucast_low[where 'a=32, of x]
    by (cases c) (simp_all add: elem_size_def)
qed

lemma write_read_block:
  assumes "write_block b p bs h = Some h'" "b < length (buffers h)"
  shows "read_block b p (length bs) h' = Some bs" "views h' = views h" "length (buffers h') = length (buffers h)"
    "detached (buffers h' ! b) = detached (buffers h ! b)" "byte_length (buffers h' ! b) = byte_length (buffers h ! b)"
proof -
  obtain d where d: "ab_data (buffers h ! b) = Some d" using assms(1) by (cases "ab_data (buffers h ! b)") (auto simp: write_block_def)
  have l: "p + length bs \<le> length d" using assms(1) d by (auto simp: write_block_def copy_to_def split: if_splits)
  have h': "h' = h\<lparr>buffers := (buffers h)[b := (buffers h ! b)\<lparr>ab_data := Some (take p d @ bs @ drop (p + length bs) d)\<rparr>]\<rparr>"
    using assms(1) d l by (simp add: write_block_def)
  show "views h' = views h" "length (buffers h') = length (buffers h)" using h' by simp_all
  show "detached (buffers h' ! b) = detached (buffers h ! b)" "byte_length (buffers h' ! b) = byte_length (buffers h ! b)"
    using h' assms(2) by simp_all
  show "read_block b p (length bs) h' = Some bs" using h' assms(2) l by (simp add: read_block_def)
qed

lemma swap_bytes_twice [simp]: "swap_bytes le (swap_bytes le bs) = bs" "length (swap_bytes le bs) = length bs"
  by (simp_all add: swap_bytes_def)

text \<open>C29: The number read through a \<open>DataView\<close> is the one that was written there, for every type of
  element and both byte orders.\<close>

theorem dataview_roundtrip:
  assumes "c \<noteq> DATAVIEW" "heap_ok h" "js_dataview_setValue v c (return pos) (return x) le h = Some (Inr (), h')"
  shows "js_dataview_getValue v c (return pos) le h' = Some (Inr (js_element_value c x), h')"
proof -
  let ?ta = "views h ! v"
  let ?bs = "swap_bytes le (le_bytes (elem_size c) (unat x))"
  have v: "v < length (views h)" "ta_class ?ta = DATAVIEW"
    using assms(3) by (auto simp: js_dataview_setValue_def get_dataview_def and_then_def throw_def split: if_splits)
  have p: "0 \<le> pos" "pos \<le> MAX_SAFE_INTEGER"
    using assms(3) v by (auto simp: js_dataview_setValue_def get_dataview_def JS_ToIndex_def and_then_def return_def throw_def split: if_splits)
  have 1: "\<not> detached (buffers h ! ta_buffer ?ta)" "nat pos + elem_size c \<le> ta_length ?ta"
    "ta_offset ?ta + ta_length ?ta \<le> byte_length (buffers h ! ta_buffer ?ta)"
    using assms(3) v p
    by (auto simp: js_dataview_setValue_def get_dataview_def JS_ToIndex_def and_then_def return_def throw_def Let_def split: if_splits)
  have wr: "write_block (ta_buffer ?ta) (ta_offset ?ta + nat pos) ?bs h = Some h'"
    using assms(3) v p 1
    by (cases "write_block (ta_buffer ?ta) (ta_offset ?ta + nat pos) ?bs h")
      (simp_all add: js_dataview_setValue_def get_dataview_def JS_ToIndex_def and_then_def return_def Let_def)
  have "ta_buffer ?ta < length (buffers h)" using heap_ok_view[OF assms(2) v(1)] by simp
  note w = write_read_block[OF wr this]
  have "word_of_nat (le_value (swap_bytes le ?bs)) = (word_of_nat (unat x mod 256 ^ elem_size c) :: u64)"
    by (simp add: le_value_le_bytes)
  then show ?thesis
    using v p 1 w element_value_low[OF assms(1), of x]
    by (simp add: js_dataview_getValue_def get_dataview_def JS_ToIndex_def and_then_def return_def Let_def)
qed

definition view_heap :: js_heap where
  "view_heap = \<lparr>buffers = [\<lparr>byte_length = 4, max_byte_length = None, detached = False, shared = False,
       ab_data = Some [1, 2, 3, 4], js_free_func = True, array_list = [0]\<rparr>],
     views = [\<lparr>ta_class = DATAVIEW, ta_buffer = 0, ta_offset = 1, ta_length = 3, track_rab = False, ta_count = 0, ta_ptr = None\<rparr>],
     sab_alloc = False, allocs = []\<rparr>"

theorem dataview_roundtrip_witness:
  "js_dataview_getValue 0 INT8_ARRAY (return 1) False (view_heap\<lparr>buffers := [(buffers view_heap ! 0)\<lparr>ab_data := Some [1, 2, 0xFE, 4]\<rparr>]\<rparr>)
     = Some (Inr (js_element_value INT8_ARRAY 0xFE), view_heap\<lparr>buffers := [(buffers view_heap ! 0)\<lparr>ab_data := Some [1, 2, 0xFE, 4]\<rparr>]\<rparr>)"
proof (rule dataview_roundtrip)
  show "heap_ok view_heap" by (simp add: view_heap_def heap_ok_def buffer_ok_def view_ok_def INT32_MAX_def)
  show "js_dataview_setValue 0 INT8_ARRAY (return 1) (return 0xFE) False view_heap =
     Some (Inr (), view_heap\<lparr>buffers := [(buffers view_heap ! 0)\<lparr>ab_data := Some [1, 2, 0xFE, 4]\<rparr>]\<rparr>)"
    by (simp add: view_heap_def js_dataview_setValue_def get_dataview_def script_eval swap_bytes_def)
qed simp

end
