(* ===== verification/Host.thy ===== *)
theory Host
  imports Ropes TypedArrays "HOL-Library.Multiset"
begin

text \<open>
  The two sides of the bridge of \<open>zipline/native\<close>: the values and the state of the JavaScript
  engine that the C++ code reads and changes through \<open>quickjs.h\<close>, and the Java objects and the
  state of a JNI environment. Interpreted JavaScript and Java methods are parameters (\<open>vm\<close>):
  actions that may change the world in any way. The functions of \<open>quickjs.c\<close> that the bridge
  calls and that do not run guest code are definitions.

  An action is \<open>None\<close> when the process crashes, has undefined behaviour or does not return: a value
  is freed that the C++ code does not own, a JNI function is called while a Java exception is
  pending, a null pointer is read. Allocation failures of the Java heap are left out.
\<close>

subsection \<open>Values\<close>

datatype jsref = RArray nat | RBuffer nat | RTyped nat | RError nat | RChannel nat | ROther nat

datatype jsval =
    JException | JUninitialized | JUndefined | JNull | JBool bool | JInt u32 | JFloat64 u64
  | JString jsstr | JRope rope | JSymbol nat | JBigInt int | JObject jsref

datatype jobj =
    JvString "u16 list" | JvBoolean bool | JvInteger u32 | JvDouble u64 | JvBytes "u8 list"
  | JvArray "jobj option list" | JvException string string | JvQuickJsException "jobj option" "jobj option"
  | JvObject nat

text \<open>The tagged integers of \<open>JSAtom\<close>, and the other names.\<close>

datatype atom = AInt nat | AName string

datatype native_error = JS_SYNTAX_ERROR | JS_TYPE_ERROR | JS_RANGE_ERROR | JS_REFERENCE_ERROR | JS_INTERNAL_ERROR

fun JS_VALUE_HAS_REF_COUNT :: "jsval \<Rightarrow> bool" where
  "JS_VALUE_HAS_REF_COUNT (JString _) = True"
| "JS_VALUE_HAS_REF_COUNT (JRope _) = True"
| "JS_VALUE_HAS_REF_COUNT (JSymbol _) = True"
| "JS_VALUE_HAS_REF_COUNT (JBigInt _) = True"
| "JS_VALUE_HAS_REF_COUNT (JObject _) = True"
| "JS_VALUE_HAS_REF_COUNT _ = False"

text \<open>
  An array object: the elements of its fast part (none when it is slow) and its \<open>length\<close>.
  An error object: the own data properties \<open>message\<close> and \<open>stack\<close>; \<open>None\<close> when the guest deleted one
  or made it an accessor.
\<close>

record js_array =
  fast_values :: "jsval list"
  array_length :: nat

record js_error =
  error_num :: native_error
  error_message :: "jsval option"
  error_stack :: "jsval option"

subsection \<open>The world\<close>

text \<open>
  \<open>owned\<close> are the references that the C++ code holds and has to free, \<open>c_strings\<close> counts the results
  of \<open>JS_ToCString\<close> that are not freed, \<open>elements\<close> the arrays of \<open>GetByteArrayElements\<close> that are not
  released, \<open>local_frames\<close> the frames that are not popped; \<open>atoms\<close> and \<open>global_refs\<close> are the atoms and
  the global references of JNI that are held. \<open>js_stacks\<close> logs the calls of \<open>addJavaScriptStack\<close>.
  \<open>runtime_opaque\<close> tells that the runtime points to the \<open>Context\<close>; \<open>poll_installed\<close> that its
  interrupt handler is \<open>jsInterruptHandlerPoll\<close>. \<open>host\<close> is all the rest of both heaps.
\<close>

record 'h world =
  current_exception :: jsval
  uncatchable :: bool
  in_out_of_memory :: bool
  user_opaque :: "jobj option"
  owned :: "jsval multiset"
  heap :: js_heap
  arrays :: "js_array list"
  errors :: "js_error list"
  channels :: "(jobj \<times> string) option list"
  job_list :: "(nat \<times> jsval list) list"
  atoms :: "atom multiset"
  c_strings :: nat
  elements :: nat
  local_frames :: nat
  java_exception :: "jobj option"
  global_refs :: "jobj multiset"
  js_stacks :: "(jobj \<times> jobj option) list"
  runtime_opaque :: bool
  channel_class :: bool
  poll_installed :: bool
  interrupt_handler :: "jobj option"
  call_channels :: "string list"
  mem :: memstate
  host :: 'h

type_synonym ('a, 'h) action = "'h world \<Rightarrow> ('a \<times> 'h world) option"

text \<open>
  The parameters: property lookup, assignment and membership beyond the cases of \<open>EngineApi\<close>, the
  definition of native functions on an object, calls of functions, conversions of objects, the texts of doubles and BigInts and of a backtrace, the slack
  of the allocator, compilation and bytecode; conversions between Java strings and UTF-8 and
  the methods of Java objects that the bridge calls.
\<close>

record 'h vm =
  vm_get :: "jsval \<Rightarrow> atom \<Rightarrow> (jsval, 'h) action"
  vm_put :: "jsval \<Rightarrow> atom \<Rightarrow> jsval \<Rightarrow> (int, 'h) action"
  vm_has :: "jsval \<Rightarrow> atom \<Rightarrow> (int, 'h) action"
  vm_set_functions :: "jsval \<Rightarrow> (string \<times> nat) list \<Rightarrow> (int, 'h) action"
  vm_call :: "jsval \<Rightarrow> jsval \<Rightarrow> jsval list \<Rightarrow> (jsval, 'h) action"
  vm_job :: "nat \<Rightarrow> jsval list \<Rightarrow> (jsval, 'h) action"
  vm_to_primitive :: "jsval \<Rightarrow> (jsval, 'h) action"
  vm_to_number :: "jsval \<Rightarrow> (jsval, 'h) action"
  vm_is_array :: "nat \<Rightarrow> (int, 'h) action"
  vm_number_text :: "jsval \<Rightarrow> u8 list"
  vm_double_of :: "nat \<Rightarrow> u64"
  vm_int_of_double :: "u64 \<Rightarrow> u32"
  vm_backtrace :: "'h \<Rightarrow> u8 list"
  vm_slack :: "nat \<Rightarrow> nat"
  vm_extensible :: "nat \<Rightarrow> 'h \<Rightarrow> bool"
  vm_eval :: "u8 list \<Rightarrow> u8 list \<Rightarrow> (jsval, 'h) action"
  vm_write_object :: "jsval \<Rightarrow> (u8 list option, 'h) action"
  vm_read_object :: "u8 list \<Rightarrow> (jsval, 'h) action"
  vm_resolve_module :: "jsval \<Rightarrow> (int, 'h) action"
  vm_eval_function :: "jsval \<Rightarrow> (jsval, 'h) action"
  jvm_get_bytes :: "u16 list \<Rightarrow> u8 list"
  jvm_new_string :: "u8 list \<Rightarrow> u16 list"
  jvm_utf_chars :: "u16 list \<Rightarrow> u8 list"
  jvm_call :: "jobj \<Rightarrow> string \<Rightarrow> jobj option list \<Rightarrow> (jobj option, 'h) action"
  jvm_call_boolean :: "jobj \<Rightarrow> string \<Rightarrow> jobj option list \<Rightarrow> (bool, 'h) action"

subsection \<open>References of the engine\<close>

definition own :: "jsval \<Rightarrow> 'h world \<Rightarrow> 'h world" where
  "own v w = (if JS_VALUE_HAS_REF_COUNT v then w\<lparr>owned := owned w + {#v#}\<rparr> else w)"

definition JS_DupValue :: "jsval \<Rightarrow> (jsval, 'h) action" where
  "JS_DupValue v w = Some (v, own v w)"

text \<open>Giving up a reference, by freeing it or by handing it to the engine.\<close>

definition JS_FreeValue :: "jsval \<Rightarrow> 'h world \<Rightarrow> 'h world option" where
  "JS_FreeValue v w =
     (if \<not> JS_VALUE_HAS_REF_COUNT v then Some w
      else if v \<in># owned w then Some (w\<lparr>owned := owned w - {#v#}\<rparr>)
      else None)"

definition JS_IsObject :: "jsval \<Rightarrow> bool" where
  "JS_IsObject v = (case v of JObject _ \<Rightarrow> True | _ \<Rightarrow> False)"

subsection \<open>Exceptions of the engine\<close>

definition JS_Throw :: "jsval \<Rightarrow> (jsval, 'h) action" where
  "JS_Throw obj w =
     do { w \<leftarrow> JS_FreeValue obj w; Some (JException, w\<lparr>current_exception := obj, uncatchable := False\<rparr>) }"

definition JS_GetException :: "(jsval, 'h) action" where
  "JS_GetException w =
     (let val = current_exception w in Some (val, own val (w\<lparr>current_exception := JUninitialized\<rparr>)))"

definition JS_HasException :: "'h world \<Rightarrow> bool" where
  "JS_HasException w \<longleftrightarrow> current_exception w \<noteq> JUninitialized"

definition bytes_of :: "string \<Rightarrow> u8 list" where
  "bytes_of s = map of_char s"

definition chars_of :: "u8 list \<Rightarrow> string" where
  "chars_of bs = map (\<lambda>b. char_of (unat b)) bs"

text \<open>
  The text is cut as \<open>vsnprintf\<close> does. The two strings of a new error are taken to be
  allocated; the backtrace belongs to the frames of the interpreter.
\<close>

definition error_string :: "'h vm \<Rightarrow> u8 list \<Rightarrow> jsval" where
  "error_string vm bs =
     (case JsString.JS_NewString (vm_slack vm) (bs @ [0]) \<lparr>outcomes = [], junk = 0, live = 0\<rparr> of
        Some (Inr s, _) \<Rightarrow> JString s
      | _ \<Rightarrow> JException)"

definition JS_ThrowError2 :: "'h vm \<Rightarrow> native_error \<Rightarrow> string \<Rightarrow> bool \<Rightarrow> (jsval, 'h) action" where
  "JS_ThrowError2 vm num text add_backtrace w =
     (let (ok, m) = js_malloc (mem w); w = w\<lparr>mem := m\<rparr>; buf = cstr (bytes_of (take 255 text)) in
      if \<not> ok then JS_Throw JNull w
      else
        let obj = JObject (RError (length (errors w)));
            e = \<lparr>error_num = num, error_message = Some (error_string vm buf),
                 error_stack = (if add_backtrace then Some (error_string vm (cstr (vm_backtrace vm (host w)))) else None)\<rparr> in
        JS_Throw obj (own obj (w\<lparr>errors := errors w @ [e]\<rparr>)))"

text \<open>The frame that calls is none or that of a C function, never one of bytecode.\<close>

definition JS_ThrowError :: "'h vm \<Rightarrow> native_error \<Rightarrow> string \<Rightarrow> (jsval, 'h) action" where
  "JS_ThrowError vm num text w = JS_ThrowError2 vm num text (\<not> in_out_of_memory w) w"

definition JS_ThrowTypeError :: "'h vm \<Rightarrow> string \<Rightarrow> (jsval, 'h) action" where
  "JS_ThrowTypeError vm = JS_ThrowError vm JS_TYPE_ERROR"

definition JS_ThrowReferenceError :: "'h vm \<Rightarrow> string \<Rightarrow> (jsval, 'h) action" where
  "JS_ThrowReferenceError vm = JS_ThrowError vm JS_REFERENCE_ERROR"

definition JS_ThrowInternalError :: "'h vm \<Rightarrow> string \<Rightarrow> (jsval, 'h) action" where
  "JS_ThrowInternalError vm = JS_ThrowError vm JS_INTERNAL_ERROR"

definition JS_ThrowOutOfMemory :: "'h vm \<Rightarrow> (jsval, 'h) action" where
  "JS_ThrowOutOfMemory vm w =
     (if in_out_of_memory w then Some (JException, w)
      else do {
        (_, w) \<leftarrow> JS_ThrowInternalError vm ''out of memory'' (w\<lparr>in_out_of_memory := True\<rparr>);
        Some (JException, w\<lparr>in_out_of_memory := False\<rparr>)
      })"

text \<open>Failures of the buffer operations, thrown with the given text when they are type errors.\<close>

definition throw_buf_error :: "'h vm \<Rightarrow> string \<Rightarrow> buf_error \<Rightarrow> (jsval, 'h) action" where
  "throw_buf_error vm text e =
     (case e of
        AbTypeError \<Rightarrow> JS_ThrowTypeError vm text
      | AbRangeError \<Rightarrow> JS_ThrowError vm JS_RANGE_ERROR text
      | AbInternalError \<Rightarrow> JS_ThrowInternalError vm text
      | AbOutOfMemory \<Rightarrow> JS_ThrowOutOfMemory vm
      | AbGuest _ \<Rightarrow> (\<lambda>w. Some (JException, w)))"

definition JS_GetContextOpaque :: "'h world \<Rightarrow> jobj option" where
  "JS_GetContextOpaque w = user_opaque w"

definition JS_SetContextOpaque :: "jobj option \<Rightarrow> 'h world \<Rightarrow> 'h world" where
  "JS_SetContextOpaque p w = w\<lparr>user_opaque := p\<rparr>"

end
