(* ===== verification/EngineApi.thy ===== *)
theory EngineApi
  imports Host
begin

text \<open>
  The part of the engine's interface that the bridge uses: atoms, property access, conversion
  to strings, arrays, the interrupt handler and the job queue, as \<open>quickjs.c\<close> has them up to the points
  where they reach guest code or the property tables, which are parameters.
\<close>

subsection \<open>Decimal numbers\<close>

fun decimal_digits :: "nat \<Rightarrow> string" where
  "decimal_digits n = (if n < 10 then [char_of (48 + n)] else decimal_digits (n div 10) @ [char_of (48 + n mod 10)])"

declare decimal_digits.simps [simp del]

definition decimal :: "int \<Rightarrow> string" where
  "decimal i = (if i < 0 then CHR ''-'' # decimal_digits (nat (- i)) else decimal_digits (nat i))"

subsection \<open>Atoms\<close>

definition JS_ATOM_MAX_INT :: nat where
  "JS_ATOM_MAX_INT = 2147483647"

definition is_digit :: "char \<Rightarrow> bool" where
  "is_digit c \<longleftrightarrow> 48 \<le> (of_char c :: nat) \<and> (of_char c :: nat) \<le> 57"

definition digits_value :: "string \<Rightarrow> nat" where
  "digits_value s = foldl (\<lambda>n c. 10 * n + (of_char c - 48)) 0 s"

text \<open>A canonical decimal that fits a tagged integer, and any other name.\<close>

definition JS_NewAtomStr :: "string \<Rightarrow> atom" where
  "JS_NewAtomStr s =
     (if s \<noteq> [] \<and> list_all is_digit s \<and> (hd s = CHR ''0'' \<longrightarrow> length s = 1) \<and> digits_value s \<le> JS_ATOM_MAX_INT
      then AInt (digits_value s) else AName s)"

text \<open>
  The atom exists already, or the allocation of its string succeeds: without memory the code returns \<open>JS_ATOM_NULL\<close>,
  which \<open>JS_FreeAtom\<close> ignores and for which \<open>JS_GetPropertyStr\<close> gives \<open>JS_EXCEPTION\<close>. Atoms are not part of the
  allocator of the model.
\<close>

definition JS_NewAtom :: "string \<Rightarrow> (atom, 'h) action" where
  "JS_NewAtom s w = (let a = JS_NewAtomStr s in Some (a, w\<lparr>atoms := atoms w + {#a#}\<rparr>))"

definition JS_FreeAtom :: "atom \<Rightarrow> 'h world \<Rightarrow> 'h world option" where
  "JS_FreeAtom a w = (if a \<in># atoms w then Some (w\<lparr>atoms := atoms w - {#a#}\<rparr>) else None)"

definition atom_text :: "atom \<Rightarrow> string" where
  "atom_text a = (case a of AInt n \<Rightarrow> decimal_digits n | AName s \<Rightarrow> take 63 s)"

subsection \<open>Reading properties\<close>

definition js_string_value :: "'h vm \<Rightarrow> jsstr strresult \<Rightarrow> (jsval, 'h) action" where
  "js_string_value vm r w =
     (let w = w\<lparr>mem := snd r\<rparr> in
      case fst r of
        Inr s \<Rightarrow> Some (JString s, own (JString s) w)
      | Inl StringTooLong \<Rightarrow> JS_ThrowInternalError vm ''string too long'' w
      | Inl StrOutOfMemory \<Rightarrow> JS_ThrowOutOfMemory vm w)"

text \<open>A number as \<open>JS_NewUint32\<close> makes it.\<close>

definition JS_NewUint32 :: "'h vm \<Rightarrow> nat \<Rightarrow> jsval" where
  "JS_NewUint32 vm n = (if n \<le> INT32_MAX then JInt (word_of_nat n) else JFloat64 (vm_double_of vm n))"

text \<open>
  Own data properties of the objects that the model knows, the first thing that the lookup of
  \<open>JS_GetPropertyInternal\<close> finds.
\<close>

definition find_own_property :: "'h vm \<Rightarrow> jsref \<Rightarrow> atom \<Rightarrow> 'h world \<Rightarrow> jsval option" where
  "find_own_property vm r prop w =
     (case (r, prop) of
        (RArray a, AInt i) \<Rightarrow>
          (if a < length (arrays w) \<and> i < length (fast_values (arrays w ! a)) then Some (fast_values (arrays w ! a) ! i) else None)
      | (RArray a, AName s) \<Rightarrow>
          (if a < length (arrays w) \<and> s = ''length'' then Some (JS_NewUint32 vm (array_length (arrays w ! a))) else None)
      | (RError e, AName s) \<Rightarrow>
          (if e < length (errors w) then
             (if s = ''message'' then error_message (errors w ! e)
              else if s = ''stack'' then error_stack (errors w ! e) else None)
           else None)
      | _ \<Rightarrow> None)"

definition JS_ThrowTypeErrorAtom :: "'h vm \<Rightarrow> string \<Rightarrow> atom \<Rightarrow> string \<Rightarrow> (jsval, 'h) action" where
  "JS_ThrowTypeErrorAtom vm before prop after =
     JS_ThrowTypeError vm (before @ [CHR 0x27] @ atom_text prop @ [CHR 0x27] @ after)"

definition JS_GetPropertyInternal :: "'h vm \<Rightarrow> jsval \<Rightarrow> atom \<Rightarrow> (jsval, 'h) action" where
  "JS_GetPropertyInternal vm obj prop w =
     (case obj of
        JNull \<Rightarrow> JS_ThrowTypeErrorAtom vm ''cannot read property '' prop '' of null'' w
      | JUndefined \<Rightarrow> JS_ThrowTypeErrorAtom vm ''cannot read property '' prop '' of undefined'' w
      | JException \<Rightarrow> Some (JException, w)
      | JString s \<Rightarrow>
          (case prop of
             AInt i \<Rightarrow>
               (if i < str_length s then js_string_value vm (js_new_string_char (str_units s ! i) (mem w)) w
                else vm_get vm obj prop w)
           | AName p \<Rightarrow> if p = ''length'' then Some (JInt (word_of_nat (str_length s)), w) else vm_get vm obj prop w)
      | JRope r \<Rightarrow>
          (case prop of
             AInt i \<Rightarrow>
               (if i < string_rope_get_len r
                then do { c \<leftarrow> string_rope_get r i; js_string_value vm (js_new_string_char c (mem w)) w }
                else vm_get vm obj prop w)
           | AName p \<Rightarrow> if p = ''length'' then Some (JInt (word_of_nat (string_rope_get_len r)), w) else vm_get vm obj prop w)
      | JUninitialized \<Rightarrow> Some (JUndefined, w)
      | JObject r \<Rightarrow>
          (case find_own_property vm r prop w of Some v \<Rightarrow> JS_DupValue v w | None \<Rightarrow> vm_get vm obj prop w)
      | _ \<Rightarrow> vm_get vm obj prop w)"

definition JS_GetProperty :: "'h vm \<Rightarrow> jsval \<Rightarrow> atom \<Rightarrow> (jsval, 'h) action" where
  "JS_GetProperty vm = JS_GetPropertyInternal vm"

text \<open>The name becomes an atom, as above; the test for \<open>JS_ATOM_NULL\<close> is left out.\<close>

definition JS_GetPropertyStr :: "'h vm \<Rightarrow> jsval \<Rightarrow> string \<Rightarrow> (jsval, 'h) action" where
  "JS_GetPropertyStr vm obj name w =
     do {
       (a, w) \<leftarrow> JS_NewAtom name w;
       (v, w) \<leftarrow> JS_GetProperty vm obj a w;
       w \<leftarrow> JS_FreeAtom a w;
       Some (v, w)
     }"

text \<open>
  \<open>JS_GetPropertyValue\<close> with an integer: the elements of a fast array, those of a typed array
  (through \<open>vm_get\<close>), and otherwise a property; indices beyond \<open>JS_ATOM_MAX_INT\<close> are names.
\<close>

definition JS_GetPropertyUint32 :: "'h vm \<Rightarrow> jsval \<Rightarrow> nat \<Rightarrow> (jsval, 'h) action" where
  "JS_GetPropertyUint32 vm obj i w =
     (case obj of
        JNull \<Rightarrow> JS_ThrowTypeError vm ''cannot read property of null'' w
      | JUndefined \<Rightarrow> JS_ThrowTypeError vm ''cannot read property of undefined'' w
      | _ \<Rightarrow> JS_GetProperty vm obj (if i \<le> JS_ATOM_MAX_INT then AInt i else AName (decimal_digits i)) w)"

definition JS_Invoke :: "'h vm \<Rightarrow> jsval \<Rightarrow> atom \<Rightarrow> jsval list \<Rightarrow> (jsval, 'h) action" where
  "JS_Invoke vm this a args w =
     do {
       (func, w) \<leftarrow> JS_GetProperty vm this a w;
       if func = JException then Some (func, w)
       else do {
         (r, w) \<leftarrow> vm_call vm func this args w;
         w \<leftarrow> JS_FreeValue func w;
         Some (r, w)
       }
     }"

definition JS_GetGlobalObject :: "(jsval, 'h) action" where
  "JS_GetGlobalObject = JS_DupValue (JObject (ROther 0))"

subsection \<open>Conversions\<close>

text \<open>\<open>JS_ToPrimitive\<close> never gives an object.\<close>

definition js_primitive_to_string :: "'h vm \<Rightarrow> jsval \<Rightarrow> (jsval, 'h) action" where
  "js_primitive_to_string vm v w =
     (case v of
        JString _ \<Rightarrow> JS_DupValue v w
      | JRope r \<Rightarrow>
          do {
            (res, m) \<leftarrow> js_linearize_string_rope (vm_slack vm) r (mem w);
            js_string_value vm (case res of Inr (Leaf s, _) \<Rightarrow> Inr s | Inr _ \<Rightarrow> Inl StrOutOfMemory | Inl e \<Rightarrow> Inl e, m) w
          }
      | JInt i \<Rightarrow> js_string_value vm (js_new_string8_len (bytes_of (decimal (sint i))) (mem w)) w
      | JBool b \<Rightarrow> Some (JString (Str8 (bytes_of (if b then ''true'' else ''false''))),
                      own (JString (Str8 (bytes_of (if b then ''true'' else ''false'')))) w)
      | JNull \<Rightarrow> Some (JString (Str8 (bytes_of ''null'')), own (JString (Str8 (bytes_of ''null''))) w)
      | JUndefined \<Rightarrow> Some (JString (Str8 (bytes_of ''undefined'')), own (JString (Str8 (bytes_of ''undefined''))) w)
      | JException \<Rightarrow> Some (JException, w)
      | JSymbol _ \<Rightarrow> JS_ThrowTypeError vm ''cannot convert symbol to string'' w
      | JFloat64 _ \<Rightarrow> js_string_value vm (js_new_string8_len (vm_number_text vm v) (mem w)) w
      | JBigInt _ \<Rightarrow> js_string_value vm (js_new_string8_len (vm_number_text vm v) (mem w)) w
      | JUninitialized \<Rightarrow> js_string_value vm (js_new_string8_len (bytes_of ''[unsupported type]'') (mem w)) w
      | JObject _ \<Rightarrow> None)"

definition JS_ToStringInternal :: "'h vm \<Rightarrow> jsval \<Rightarrow> (jsval, 'h) action" where
  "JS_ToStringInternal vm v w =
     (if JS_IsObject v then do {
        (p, w) \<leftarrow> vm_to_primitive vm v w;
        if p = JException then Some (p, w)
        else do {
          (r, w) \<leftarrow> js_primitive_to_string vm p w;
          w \<leftarrow> JS_FreeValue p w;
          Some (r, w)
        }
      }
      else js_primitive_to_string vm v w)"

text \<open>
  A C string, which may hold zero bytes, or \<open>NULL\<close> with an exception. The string that the result
  points into is counted by \<open>c_strings\<close>; when its conversion fails it stays owned, since that path
  does not free it.
\<close>

definition JS_ToCString :: "'h vm \<Rightarrow> jsval \<Rightarrow> (u8 list option, 'h) action" where
  "JS_ToCString vm v w =
     do {
       (s, w) \<leftarrow> JS_ToStringInternal vm v w;
       case s of
         JString str \<Rightarrow>
           (case JS_ToCStringLen2 str False (mem w) of
              (Inr bytes, m) \<Rightarrow>
                do { w \<leftarrow> JS_FreeValue s (w\<lparr>mem := m\<rparr>); Some (Some bytes, w\<lparr>c_strings := c_strings w + 1\<rparr>) }
            | (Inl e, m) \<Rightarrow> do { (_, w) \<leftarrow> JS_ThrowOutOfMemory vm (w\<lparr>mem := m\<rparr>); Some (None, w) })
       | _ \<Rightarrow> Some (None, w)
     }"

definition JS_FreeCString :: "u8 list option \<Rightarrow> 'h world \<Rightarrow> 'h world option" where
  "JS_FreeCString s w =
     (case s of
        None \<Rightarrow> Some w
      | Some _ \<Rightarrow> if c_strings w = 0 then None else Some (w\<lparr>c_strings := c_strings w - 1\<rparr>))"

text \<open>
  Modular conversion to 32 bits. The value is duplicated and freed; \<open>vm_to_number\<close> stands for
  \<open>JS_ToNumber\<close>, whose result is a number or an exception.
\<close>

definition JS_ToUint32 :: "'h vm \<Rightarrow> jsval \<Rightarrow> (u32 option, 'h) action" where
  "JS_ToUint32 vm v w =
     (let int_of = (\<lambda>v. case v of JInt i \<Rightarrow> Some i | JBool b \<Rightarrow> Some (if b then 1 else 0)
                        | JNull \<Rightarrow> Some 0 | JUndefined \<Rightarrow> Some 0
                        | JFloat64 d \<Rightarrow> Some (vm_int_of_double vm d) | _ \<Rightarrow> None) in
      case int_of v of
        Some i \<Rightarrow> Some (Some i, w)
      | None \<Rightarrow>
          if v = JException then Some (None, w)
          else do {
            (n, w) \<leftarrow> vm_to_number vm v w;
            if n = JException then Some (None, w)
            else case int_of n of Some i \<Rightarrow> Some (Some i, w) | None \<Rightarrow> None
          })"

definition ctx_new_string :: "'h vm \<Rightarrow> u8 list \<Rightarrow> (jsval, 'h) action" where
  "ctx_new_string vm str w = do { r \<leftarrow> JsString.JS_NewString (vm_slack vm) str (mem w); js_string_value vm r w }"

subsection \<open>Arrays\<close>

text \<open>The allocations of an object count as one.\<close>

definition JS_NewArray :: "'h vm \<Rightarrow> (jsval, 'h) action" where
  "JS_NewArray vm w =
     (let (ok, m) = js_malloc (mem w); w = w\<lparr>mem := m\<rparr>; v = JObject (RArray (length (arrays w))) in
      if ok then Some (v, own v (w\<lparr>arrays := arrays w @ [\<lparr>fast_values = [], array_length = 0\<rparr>]\<rparr>))
      else JS_ThrowOutOfMemory vm w)"

text \<open>
  The slot is written, or appended when the array can be extended and its length changed; each
  append may reallocate, and the length is already updated when that fails.
\<close>

definition JS_SetPropertyUint32 :: "'h vm \<Rightarrow> jsval \<Rightarrow> nat \<Rightarrow> jsval \<Rightarrow> (int, 'h) action" where
  "JS_SetPropertyUint32 vm obj i v w =
     (case obj of
        JObject (RArray a) \<Rightarrow>
          (let arr = arrays w ! a; count = length (fast_values arr) in
           if a < length (arrays w) \<and> i < count then
             do { w \<leftarrow> JS_FreeValue v w;
                  Some (1, w\<lparr>arrays := (arrays w)[a := arr\<lparr>fast_values := (fast_values arr)[i := v]\<rparr>]\<rparr>) }
           else if a < length (arrays w) \<and> i = count \<and> vm_extensible vm a (host w) then
             let arr = (if count + 1 > array_length arr then arr\<lparr>array_length := count + 1\<rparr> else arr);
                 w = w\<lparr>arrays := (arrays w)[a := arr]\<rparr>;
                 (ok, m) = js_realloc (mem w); w = w\<lparr>mem := m\<rparr> in
             if ok then
               do { w \<leftarrow> JS_FreeValue v w;
                    Some (1, w\<lparr>arrays := (arrays w)[a := arr\<lparr>fast_values := fast_values arr @ [v]\<rparr>]\<rparr>) }
             else do { (_, w) \<leftarrow> JS_ThrowOutOfMemory vm w; w \<leftarrow> JS_FreeValue v w; Some (- 1, w) }
           else vm_put vm obj (AInt i) v w)
      | JObject _ \<Rightarrow> vm_put vm obj (AInt i) v w
      | JException \<Rightarrow> do { (_, w) \<leftarrow> JS_ThrowTypeError vm ''not an object'' w; w \<leftarrow> JS_FreeValue v w; Some (- 1, w) }
      | _ \<Rightarrow> vm_put vm obj (AInt i) v w)"

text \<open>A proxy is resolved by \<open>vm_is_array\<close>, which throws when it is revoked.\<close>

definition JS_IsArray :: "'h vm \<Rightarrow> jsval \<Rightarrow> (int, 'h) action" where
  "JS_IsArray vm v w =
     (case v of
        JObject (RArray _) \<Rightarrow> Some (1, w)
      | JObject (ROther n) \<Rightarrow> vm_is_array vm n w
      | _ \<Rightarrow> Some (0, w))"

subsection \<open>Classes and the interrupt handler\<close>

text \<open>The opaque pointer of an outbound channel object: the Java object and the name.\<close>

definition JS_GetOpaque :: "jsval \<Rightarrow> 'h world \<Rightarrow> (jobj \<times> string) option" where
  "JS_GetOpaque v w =
     (case v of
        JObject (RChannel n) \<Rightarrow> if n < length (channels w) then channels w ! n else None
      | _ \<Rightarrow> None)"

definition JS_SetOpaque :: "jsval \<Rightarrow> (jobj \<times> string) option \<Rightarrow> 'h world \<Rightarrow> 'h world" where
  "JS_SetOpaque v p w =
     (case v of JObject (RChannel n) \<Rightarrow> w\<lparr>channels := (channels w)[n := p]\<rparr> | _ \<Rightarrow> w)"

definition JS_NewObjectClass :: "'h vm \<Rightarrow> (jsval, 'h) action" where
  "JS_NewObjectClass vm w =
     (let (ok, m) = js_malloc (mem w); w = w\<lparr>mem := m\<rparr>; v = JObject (RChannel (length (channels w))) in
      if ok then Some (v, own v (w\<lparr>channels := channels w @ [None]\<rparr>)) else JS_ThrowOutOfMemory vm w)"

definition JS_SetInterruptHandler :: "bool \<Rightarrow> 'h world \<Rightarrow> 'h world" where
  "JS_SetInterruptHandler installed w = w\<lparr>poll_installed := installed\<rparr>"

definition JS_ThrowInterrupted :: "'h vm \<Rightarrow> 'h world \<Rightarrow> 'h world option" where
  "JS_ThrowInterrupted vm w = do { (_, w) \<leftarrow> JS_ThrowInternalError vm ''interrupted'' w; Some (w\<lparr>uncatchable := True\<rparr>) }"

subsection \<open>The job queue\<close>

text \<open>Entries hold references to their arguments; those belong to the engine.\<close>

definition JS_EnqueueJob2 :: "'h vm \<Rightarrow> nat \<Rightarrow> jsval list \<Rightarrow> bool \<Rightarrow> (int, 'h) action" where
  "JS_EnqueueJob2 vm job_func args no_exception w =
     (let (ok, m) = js_malloc (mem w); w = w\<lparr>mem := m\<rparr> in
      if ok then Some (0, w\<lparr>job_list := job_list w @ [(job_func, args)]\<rparr>)
      else if no_exception then Some (- 1, w)
      else do { (_, w) \<leftarrow> JS_ThrowOutOfMemory vm w; Some (- 1, w) })"

definition JS_EnqueueJob :: "'h vm \<Rightarrow> nat \<Rightarrow> jsval list \<Rightarrow> (int, 'h) action" where
  "JS_EnqueueJob vm job_func args = JS_EnqueueJob2 vm job_func args False"

definition JS_IsJobPending :: "'h world \<Rightarrow> bool" where
  "JS_IsJobPending w \<longleftrightarrow> job_list w \<noteq> []"

text \<open>
  The first entry leaves the queue before its function runs. The context is alive, so that the
  second result is set exactly when a job ran.
\<close>

definition JS_ExecutePendingJob :: "'h vm \<Rightarrow> (int \<times> bool, 'h) action" where
  "JS_ExecutePendingJob vm w =
     (case job_list w of
        [] \<Rightarrow> Some ((0, False), w)
      | (job_func, args) # rest \<Rightarrow>
          do {
            (res, w) \<leftarrow> vm_job vm job_func args (w\<lparr>job_list := rest\<rparr>);
            w \<leftarrow> JS_FreeValue res w;
            Some ((if res = JException then - 1 else 1, True), w)
          })"

end
