(* ===== verification/Jni.thy ===== *)
theory Jni
  imports EngineApi
begin

text \<open>
  The functions of the JNI that the bridge calls, as the JNI specification describes them, and
  \<open>ExceptionThrowers.cpp\<close>. A function that must not be called while an exception is pending is \<open>None\<close>
  then, as it is for a null object.
\<close>

definition jni :: "'h world \<Rightarrow> unit option" where
  "jni w = (if java_exception w = None then Some () else None)"

definition ExceptionCheck :: "'h world \<Rightarrow> bool" where
  "ExceptionCheck w \<longleftrightarrow> java_exception w \<noteq> None"

definition ExceptionClear :: "'h world \<Rightarrow> 'h world" where
  "ExceptionClear w = w\<lparr>java_exception := None\<rparr>"

definition Throw :: "jobj \<Rightarrow> 'h world \<Rightarrow> 'h world option" where
  "Throw e w = do { jni w; Some (w\<lparr>java_exception := Some e\<rparr>) }"

text \<open>A null object gives a null reference.\<close>

definition NewGlobalRef :: "jobj option \<Rightarrow> (jobj option, 'h) action" where
  "NewGlobalRef obj w =
     do { jni w;
          Some (obj, case obj of None \<Rightarrow> w | Some p \<Rightarrow> w\<lparr>global_refs := global_refs w + {#p#}\<rparr>) }"

definition DeleteGlobalRef :: "jobj \<Rightarrow> 'h world \<Rightarrow> 'h world option" where
  "DeleteGlobalRef p w =
     (if p \<in># global_refs w then Some (w\<lparr>global_refs := global_refs w - {#p#}\<rparr>) else None)"

definition PushLocalFrame :: "'h world \<Rightarrow> 'h world option" where
  "PushLocalFrame w = do { jni w; Some (w\<lparr>local_frames := local_frames w + 1\<rparr>) }"

definition PopLocalFrame :: "'h world \<Rightarrow> 'h world option" where
  "PopLocalFrame w = (if local_frames w = 0 then None else Some (w\<lparr>local_frames := local_frames w - 1\<rparr>))"

text \<open>Arrays of bytes; \<open>jsize\<close> is a signed 32-bit number.\<close>

definition NewByteArray :: "nat \<Rightarrow> (u8 list, 'h) action" where
  "NewByteArray n w = do { jni w; if n > INT32_MAX then None else Some (replicate n 0, w) }"

definition GetByteArrayElements :: "u8 list \<Rightarrow> (u8 list, 'h) action" where
  "GetByteArrayElements arr w = do { jni w; Some (arr, w\<lparr>elements := elements w + 1\<rparr>) }"

text \<open>
  \<open>JNI_ABORT\<close> drops the elements, \<open>JNI_COMMIT\<close> copies them back and keeps the buffer; the
  result is the new content of the array.
\<close>

datatype release_mode = JNI_ABORT | JNI_COMMIT

definition ReleaseByteArrayElements :: "u8 list \<Rightarrow> u8 list \<Rightarrow> release_mode \<Rightarrow> (u8 list, 'h) action" where
  "ReleaseByteArrayElements arr elems mode w =
     (case mode of
        JNI_ABORT \<Rightarrow> if elements w = 0 then None else Some (arr, w\<lparr>elements := elements w - 1\<rparr>)
      | JNI_COMMIT \<Rightarrow> Some (elems, w))"

definition SetByteArrayRegion :: "u8 list \<Rightarrow> nat \<Rightarrow> u8 list \<Rightarrow> (u8 list, 'h) action" where
  "SetByteArrayRegion arr start bs w = do { jni w; arr \<leftarrow> copy_to arr start bs; Some (arr, w) }"

text \<open>A negative length throws \<open>NegativeArraySizeException\<close> and gives null.\<close>

definition NewObjectArray :: "int \<Rightarrow> (jobj option list option, 'h) action" where
  "NewObjectArray n w =
     do {
       jni w;
       if n < 0 then Some (None, w\<lparr>java_exception := Some (JvException ''java/lang/NegativeArraySizeException'' (decimal n))\<rparr>)
       else Some (Some (replicate (nat n) None), w)
     }"

definition SetObjectArrayElement :: "jobj option list option \<Rightarrow> nat \<Rightarrow> jobj option \<Rightarrow> (jobj option list option, 'h) action" where
  "SetObjectArrayElement arr i x w =
     do { jni w; xs \<leftarrow> arr; xs \<leftarrow> wr xs i x; Some (Some xs, w) }"

text \<open>\<open>new String(bytes, "UTF-8")\<close> and \<open>string.getBytes("UTF-8")\<close>.\<close>

definition new_java_string :: "'h vm \<Rightarrow> u8 list \<Rightarrow> (jobj option, 'h) action" where
  "new_java_string vm bs w = do { jni w; Some (Some (JvString (jvm_new_string vm bs)), w) }"

definition call_get_bytes :: "'h vm \<Rightarrow> jobj option \<Rightarrow> (u8 list, 'h) action" where
  "call_get_bytes vm s w =
     do { jni w; case s of Some (JvString u) \<Rightarrow> Some (jvm_get_bytes vm u, w) | _ \<Rightarrow> None }"

definition CallObjectMethod :: "'h vm \<Rightarrow> jobj \<Rightarrow> string \<Rightarrow> jobj option list \<Rightarrow> (jobj option, 'h) action" where
  "CallObjectMethod vm obj method args w = do { jni w; jvm_call vm obj method args w }"

definition CallBooleanMethod :: "'h vm \<Rightarrow> jobj \<Rightarrow> string \<Rightarrow> jobj option list \<Rightarrow> (bool, 'h) action" where
  "CallBooleanMethod vm obj method args w = do { jni w; jvm_call_boolean vm obj method args w }"

subsection \<open>\<open>ExceptionThrowers.cpp\<close>\<close>

text \<open>The message is the expanded format, cut to the buffer by \<open>vsnprintf\<close>.\<close>

definition throwJavaException :: "string \<Rightarrow> string \<Rightarrow> 'h world \<Rightarrow> 'h world option" where
  "throwJavaException exceptionClass text w =
     do { jni w; Throw (JvException exceptionClass (take 511 text)) w }"

definition throwJsExceptionFmt :: "string \<Rightarrow> 'h world \<Rightarrow> 'h world option" where
  "throwJsExceptionFmt text w =
     do { jni w;
          Throw (JvQuickJsException (Some (JvString (map (\<lambda>c. of_char c) (take 511 text)))) None) w }"

end
