(* ===== verification/Convert.thy ===== *)
theory Convert
  imports Jni
begin

text \<open>
  Conversions between JavaScript and Java values and the exchange of exceptions, from
  \<open>zipline/native/Context.cpp\<close>. Assertions are off, as in the builds of the project
  (\<open>NDEBUG\<close>); what a failed one would have stopped goes on here, or is \<open>None\<close> when it is undefined.
\<close>

subsection \<open>Strings\<close>

definition toCppString :: "'h vm \<Rightarrow> jobj option \<Rightarrow> (u8 list, 'h) action" where
  "toCppString vm string w =
     do {
       (utf8BytesObject, w) \<leftarrow> call_get_bytes vm string w;
       (utf8Bytes, w) \<leftarrow> GetByteArrayElements utf8BytesObject w;
       (_, w) \<leftarrow> ReleaseByteArrayElements utf8BytesObject utf8Bytes JNI_ABORT w;
       Some (utf8Bytes, w)
     }"

definition toJsString :: "'h vm \<Rightarrow> jobj option \<Rightarrow> (jsval, 'h) action" where
  "toJsString vm javaString w =
     do {
       (cppString, w) \<leftarrow> toCppString vm javaString w;
       ctx_new_string vm (cppString @ [0]) w
     }"

text \<open>\<open>strlen\<close> of a null pointer is undefined.\<close>

definition toJavaString :: "'h vm \<Rightarrow> jsval \<Rightarrow> (jobj option, 'h) action" where
  "toJavaString vm value w =
     do {
       (string, w) \<leftarrow> JS_ToCString vm value w;
       chars \<leftarrow> string;
       utf8Length \<leftarrow> strlen (chars @ [0]);
       (utf8BytesObject, w) \<leftarrow> NewByteArray utf8Length w;
       (utf8Bytes, w) \<leftarrow> GetByteArrayElements utf8BytesObject w;
       utf8Bytes \<leftarrow> copy_to utf8Bytes 0 (take utf8Length chars);
       (utf8BytesObject, w) \<leftarrow> ReleaseByteArrayElements utf8BytesObject utf8Bytes JNI_COMMIT w;
       w \<leftarrow> JS_FreeCString string w;
       new_java_string vm utf8BytesObject w
     }"

subsection \<open>Exceptions\<close>

text \<open>
  The exception of the engine becomes the pending exception of Java: the Java exception that
  caused it, with the JavaScript stack added, or a new \<open>QuickJsException\<close>.
\<close>

definition throwJsException :: "'h vm \<Rightarrow> 'h world \<Rightarrow> 'h world option" where
  "throwJsException vm w =
     do {
       (exceptionValue, w) \<leftarrow> JS_GetException w;
       (messageValue, w) \<leftarrow> JS_GetPropertyStr vm exceptionValue ''message'' w;
       (stackValue, w) \<leftarrow> JS_GetPropertyStr vm exceptionValue ''stack'' w;
       (message, w) \<leftarrow> toJavaString vm (if messageValue = JUndefined then exceptionValue else messageValue) w;
       w \<leftarrow> JS_FreeValue messageValue w;
       (stack, w) \<leftarrow> toJavaString vm stackValue w;
       w \<leftarrow> JS_FreeValue stackValue w;
       w \<leftarrow> JS_FreeValue exceptionValue w;
       let cause = JS_GetContextOpaque w; w = JS_SetContextOpaque None w in
       case cause of
         Some exception \<Rightarrow>
           do {
             jni w;
             w \<leftarrow> DeleteGlobalRef exception w;
             Throw exception (w\<lparr>js_stacks := js_stacks w @ [(exception, stack)]\<rparr>)
           }
       | None \<Rightarrow> do { jni w; Throw (JvQuickJsException message stack) w }
     }"

text \<open>
  Without an exception there is nothing to take a reference of: \<open>ExceptionOccurred\<close> gives null,
  and so does \<open>NewGlobalRef\<close>.
\<close>

definition throwJavaExceptionFromJs :: "'h vm \<Rightarrow> (jsval, 'h) action" where
  "throwJavaExceptionFromJs vm w =
     (let exception = java_exception w; w = ExceptionClear w in
      do {
        (ref, w) \<leftarrow> NewGlobalRef exception w;
        JS_ThrowInternalError vm ''Java Exception'' (JS_SetContextOpaque ref w)
      })"

subsection \<open>Lists of byte buffers\<close>

text \<open>
  A buffer operation as an action: its failures throw, with the given text for a type error.
  The results of \<open>quickjs.c\<close> are objects, owned by the caller.
\<close>

definition on_heap :: "'h vm \<Rightarrow> string \<Rightarrow> 'a guest \<Rightarrow> ('a option, 'h) action" where
  "on_heap vm text f w =
     do {
       (r, h) \<leftarrow> f (heap w);
       let w = w\<lparr>heap := h\<rparr> in
       case r of
         Inl e \<Rightarrow> do { (_, w) \<leftarrow> throw_buf_error vm text e w; Some (None, w) }
       | Inr x \<Rightarrow> Some (Some x, w)
     }"

definition new_ref :: "('a \<Rightarrow> jsref) \<Rightarrow> ('a option \<times> 'h world) option \<Rightarrow> (jsval \<times> 'h world) option" where
  "new_ref f r =
     do { (x, w) \<leftarrow> r;
          case x of None \<Rightarrow> Some (JException, w) | Some x \<Rightarrow> Some (JObject (f x), own (JObject (f x)) w) }"

text \<open>
  The constructor of \<open>Int8Array\<close> with the arguments \<open>(arrayBuffer, 0, undefined)\<close>: no element is
  converted. When the buffer could not be made the first argument is \<open>JS_EXCEPTION\<close>, whose
  conversion to an index fails.
\<close>

definition new_int8_array :: "'h vm \<Rightarrow> jsval \<Rightarrow> (jsval, 'h) action" where
  "new_int8_array vm arrayBuffer w =
     (case arrayBuffer of
        JObject (RBuffer b) \<Rightarrow>
          new_ref RTyped (on_heap vm ''ArrayBuffer is detached''
            (JS_NewTypedArray (\<lambda>_ _. Inl AbTypeError) (FromBuffer b (return 0) None) INT8_ARRAY) w)
      | _ \<Rightarrow> Some (JException, w))"

definition js_buffer_copy :: "'h vm \<Rightarrow> jobj option \<Rightarrow> (jsval, 'h) action" where
  "js_buffer_copy vm element w =
     (case element of
        Some (JvBytes (b # bs)) \<Rightarrow>
          do {
            (bytes, w) \<leftarrow> GetByteArrayElements (b # bs) w;
            (arrayBuffer, w) \<leftarrow> new_ref RBuffer (on_heap vm [] (JS_NewArrayBufferCopy (Some bytes) (length (b # bs))) w);
            (_, w) \<leftarrow> ReleaseByteArrayElements (b # bs) bytes JNI_ABORT w;
            Some (arrayBuffer, w)
          }
      | Some (JvBytes []) \<Rightarrow> new_ref RBuffer (on_heap vm [] (JS_NewArrayBufferCopy None 0) w)
      | None \<Rightarrow> new_ref RBuffer (on_heap vm [] (JS_NewArrayBufferCopy None 0) w)
      | _ \<Rightarrow> None)"

fun js_int8_arrays :: "'h vm \<Rightarrow> jsval \<Rightarrow> nat \<Rightarrow> jobj option list \<Rightarrow> 'h world \<Rightarrow> 'h world option" where
  "js_int8_arrays vm result i [] w = Some w"
| "js_int8_arrays vm result i (element # rest) w =
     do {
       jni w;
       (arrayBuffer, w) \<leftarrow> js_buffer_copy vm element w;
       (int8Array, w) \<leftarrow> new_int8_array vm arrayBuffer w;
       w \<leftarrow> JS_FreeValue arrayBuffer w;
       (_, w) \<leftarrow> JS_SetPropertyUint32 vm result i int8Array w;
       js_int8_arrays vm result (Suc i) rest w
     }"

definition toJsInt8ArrayArray :: "'h vm \<Rightarrow> jobj option \<Rightarrow> (jsval, 'h) action" where
  "toJsInt8ArrayArray vm jbuffers w =
     do {
       (result, w) \<leftarrow> JS_NewArray vm w;
       case jbuffers of
         None \<Rightarrow> Some (result, w)
       | Some (JvArray elems) \<Rightarrow>
           do { jni w; w \<leftarrow> js_int8_arrays vm result 0 elems w; Some (result, w) }
       | _ \<Rightarrow> None
     }"

text \<open>
  The buffer of a typed array with the offset and the length of the view in bytes; a value
  that is no typed array and a detached buffer throw.
\<close>

definition get_typed_array_buffer :: "'h vm \<Rightarrow> jsval \<Rightarrow> ((nat \<times> nat \<times> nat) option, 'h) action" where
  "get_typed_array_buffer vm element w =
     (case element of
        JObject (RTyped v) \<Rightarrow>
          do {
            (r, w) \<leftarrow> on_heap vm (if v < length (views (heap w)) \<and> ta_class (views (heap w) ! v) \<noteq> DATAVIEW
                              then ''ArrayBuffer is detached or resized'' else ''not a TypedArray'')
                       (JS_GetTypedArrayBuffer v) w;
            case r of
              None \<Rightarrow> Some (None, w)
            | Some (b, byteOffset, byteLength, _) \<Rightarrow>
                Some (Some (b, byteOffset, byteLength), own (JObject (RBuffer b)) w)
          }
      | _ \<Rightarrow> do { (_, w) \<leftarrow> JS_ThrowTypeError vm ''not a TypedArray'' w; Some (None, w) })"

text \<open>The copy out of the block; reading behind its end is undefined.\<close>

definition read_bytes :: "u8 list option \<Rightarrow> nat \<Rightarrow> nat \<Rightarrow> u8 list option" where
  "read_bytes data byteOffset byteLength =
     (if byteLength = 0 then Some []
      else do { bs \<leftarrow> data; if byteOffset + byteLength \<le> length bs then Some (take byteLength (drop byteOffset bs)) else None })"

text \<open>The body of the loop: the new byte array, or nothing after an exception was thrown.\<close>

definition java_byte_array :: "'h vm \<Rightarrow> jsval \<Rightarrow> nat \<Rightarrow> (u8 list option, 'h) action" where
  "java_byte_array vm value i w =
     do {
       (element, w) \<leftarrow> JS_GetPropertyUint32 vm value i w;
       (view, w) \<leftarrow> get_typed_array_buffer vm element w;
       case view of
         None \<Rightarrow>
           do {
             w \<leftarrow> JS_FreeValue element w;
             w \<leftarrow> throwJavaException ''java/lang/IllegalStateException''
                   (''expected a typed array in the buffer list at index '' @ decimal (int i)) w;
             Some (None, w)
           }
       | Some (b, byteOffset, byteLength) \<Rightarrow>
           do {
             (data, w) \<leftarrow> on_heap vm ''ArrayBuffer is detached'' (JS_GetArrayBuffer b) w;
             let data = (case data of None \<Rightarrow> None | Some (d, _) \<Rightarrow> d) in
             if data = None \<and> byteLength > 0 then
               do {
                 w \<leftarrow> JS_FreeValue (JObject (RBuffer b)) w;
                 w \<leftarrow> JS_FreeValue element w;
                 w \<leftarrow> throwJavaException ''java/lang/IllegalStateException''
                       (''the guest handed back a detached ArrayBuffer at index '' @ decimal (int i)) w;
                 Some (None, w)
               }
             else
               do {
                 (bytes, w) \<leftarrow> NewByteArray byteLength w;
                 bs \<leftarrow> read_bytes data byteOffset byteLength;
                 (bytes, w) \<leftarrow> (if byteLength > 0 then SetByteArrayRegion bytes 0 bs w else Some (bytes, w));
                 jni w;
                 w \<leftarrow> JS_FreeValue (JObject (RBuffer b)) w;
                 w \<leftarrow> JS_FreeValue element w;
                 Some (Some bytes, w)
               }
           }
     }"

fun java_byte_arrays :: "'h vm \<Rightarrow> jsval \<Rightarrow> nat \<Rightarrow> nat \<Rightarrow> jobj option list \<Rightarrow> (jobj option, 'h) action" where
  "java_byte_arrays vm value i 0 result w = Some (Some (JvArray result), w)"
| "java_byte_arrays vm value i (Suc n) result w =
     do {
       (bytes, w) \<leftarrow> java_byte_array vm value i w;
       case bytes of
         None \<Rightarrow> Some (None, w)
       | Some bs \<Rightarrow> do { result \<leftarrow> wr result i (Some (JvBytes bs)); java_byte_arrays vm value (Suc i) n result w }
     }"

text \<open>
  The length is read as any property; its conversion leaves 0 when it fails. A length beyond
  \<open>INT32_MAX\<close> is a negative \<open>jsize\<close>, so that \<open>NewObjectArray\<close> throws and the loop goes on to call
  JNI functions with an exception pending, which is undefined.
\<close>

definition toJavaByteArrayArray :: "'h vm \<Rightarrow> jsval \<Rightarrow> (jobj option, 'h) action" where
  "toJavaByteArrayArray vm value w =
     do {
       (lengthValue, w) \<leftarrow> JS_GetPropertyStr vm value ''length'' w;
       (count, w) \<leftarrow> (if lengthValue = JUndefined then Some (0, w)
                      else do { (n, w) \<leftarrow> JS_ToUint32 vm lengthValue w; Some (case n of None \<Rightarrow> 0 | Some n \<Rightarrow> n, w) });
       w \<leftarrow> JS_FreeValue lengthValue w;
       jni w;
       (result, w) \<leftarrow> NewObjectArray (sint count) w;
       case result of
         None \<Rightarrow> None
       | Some elems \<Rightarrow> java_byte_arrays vm value 0 (unat count) elems w
     }"

subsection \<open>Values\<close>

text \<open>
  The low 32 bits of the value union: for a double those of its representation.
\<close>

definition JS_VALUE_GET_INT :: "jsval \<Rightarrow> u32 option" where
  "JS_VALUE_GET_INT v =
     (case v of JInt i \<Rightarrow> Some i | JBool b \<Rightarrow> Some (if b then 1 else 0) | JFloat64 d \<Rightarrow> Some (ucast d)
      | JNull \<Rightarrow> Some 0 | JUndefined \<Rightarrow> Some 0 | JException \<Rightarrow> Some 0 | JUninitialized \<Rightarrow> Some 0 | _ \<Rightarrow> None)"

text \<open>\<open>Boolean.valueOf\<close>, \<open>Integer.valueOf\<close> and \<open>Double.valueOf\<close>.\<close>

definition value_of :: "jobj \<Rightarrow> (jobj option, 'h) action" where
  "value_of x w = do { jni w; Some (Some x, w) }"

fun to_java_elements ::
    "'h vm \<Rightarrow> (jsval \<Rightarrow> (jobj option, 'h) action) \<Rightarrow> jsval \<Rightarrow> nat \<Rightarrow> nat \<Rightarrow> jobj option list option \<Rightarrow> (jobj option list option, 'h) action" where
  "to_java_elements vm conv value i 0 result w = Some (result, w)"
| "to_java_elements vm conv value i (Suc n) result w =
     (if ExceptionCheck w then Some (result, w)
      else do {
        (element, w) \<leftarrow> JS_GetPropertyUint32 vm value i w;
        (javaElement, w) \<leftarrow> conv element w;
        (result, w) \<leftarrow> (if ExceptionCheck w then Some (result, w) else SetObjectArrayElement result i javaElement w);
        w \<leftarrow> JS_FreeValue element w;
        to_java_elements vm conv value (Suc i) n result w
      })"

definition unsupported_value :: "'h vm \<Rightarrow> jsval \<Rightarrow> bool \<Rightarrow> (jobj option, 'h) action" where
  "unsupported_value vm value throwOnUnsupportedType w =
     (if throwOnUnsupportedType then do {
        (str, w) \<leftarrow> JS_ToCString vm value w;
        s \<leftarrow> str;
        w \<leftarrow> throwJsExceptionFmt (''Cannot marshal value '' @ chars_of (cstr s) @ '' to Java'') w;
        w \<leftarrow> JS_FreeCString str w;
        Some (None, w)
      }
      else Some (None, w))"

text \<open>
  The recursion follows the elements of arrays, so its depth is bounded by the first argument:
  an array that contains itself is \<open>None\<close> for every bound, and exhausts the stack of the process.
\<close>

fun toJavaObject :: "nat \<Rightarrow> 'h vm \<Rightarrow> jsval \<Rightarrow> bool \<Rightarrow> (jobj option, 'h) action" where
  "toJavaObject 0 vm value throwOnUnsupportedType w = None"
| "toJavaObject (Suc depth) vm value throwOnUnsupportedType w =
     (case value of
        JException \<Rightarrow> do { w \<leftarrow> throwJsException vm w; Some (None, w) }
      | JString _ \<Rightarrow> toJavaString vm value w
      | JBool b \<Rightarrow> value_of (JvBoolean b) w
      | JInt i \<Rightarrow> value_of (JvInteger i) w
      | JFloat64 d \<Rightarrow> value_of (JvDouble d) w
      | JNull \<Rightarrow> Some (None, w)
      | JUndefined \<Rightarrow> Some (None, w)
      | JObject _ \<Rightarrow>
          do {
            (is_array, w) \<leftarrow> JS_IsArray vm value w;
            if is_array \<noteq> 0 then do {
              (arrayLengthProperty, w) \<leftarrow> JS_GetPropertyStr vm value ''length'' w;
              arrayLength \<leftarrow> JS_VALUE_GET_INT arrayLengthProperty;
              w \<leftarrow> JS_FreeValue arrayLengthProperty w;
              (result, w) \<leftarrow> NewObjectArray (sint arrayLength) w;
              (result, w) \<leftarrow> to_java_elements vm (\<lambda>element. toJavaObject depth vm element True) value 0
                               (nat (sint arrayLength)) result w;
              Some (map_option JvArray result, w)
            }
            else unsupported_value vm value throwOnUnsupportedType w
          }
      | _ \<Rightarrow> unsupported_value vm value throwOnUnsupportedType w)"

end
