(* ===== verification/Channels.thy ===== *)
theory Channels
  imports Convert
begin

text \<open>
  The two directions of a call: \<open>InboundCallChannel.cpp\<close>, Java calling an object of the guest, and
  \<open>OutboundCallChannel.cpp\<close>, the guest calling a Java object.
\<close>

subsection \<open>Inbound\<close>

text \<open>The name of the global object is kept as an atom.\<close>

definition new_InboundCallChannel :: "string \<Rightarrow> (atom, 'h) action" where
  "new_InboundCallChannel name w = JS_NewAtom name w"

definition delete_InboundCallChannel :: "atom \<Rightarrow> 'h world \<Rightarrow> 'h world option" where
  "delete_InboundCallChannel nameAtom w = JS_FreeAtom nameAtom w"

text \<open>A result that is no exception and no string leaves the returned reference undefined.\<close>

definition Inbound_call :: "'h vm \<Rightarrow> atom \<Rightarrow> jobj option \<Rightarrow> jobj option \<Rightarrow> (jobj option, 'h) action" where
  "Inbound_call vm nameAtom callJson jbuffers w =
     do {
       (global, w) \<leftarrow> JS_GetGlobalObject w;
       (thisPointer, w) \<leftarrow> JS_GetProperty vm global nameAtom w;
       (arg0, w) \<leftarrow> toJsString vm callJson w;
       (arg1, w) \<leftarrow> toJsInt8ArrayArray vm jbuffers w;
       (jsResult, w) \<leftarrow> JS_Invoke vm thisPointer (AName ''call'') [arg0, arg1] w;
       (javaResult, w) \<leftarrow>
         (case jsResult of
            JException \<Rightarrow> do { w \<leftarrow> throwJsException vm w; Some (None, w) }
          | JString _ \<Rightarrow> toJavaString vm jsResult w
          | _ \<Rightarrow> None);
       w \<leftarrow> JS_FreeValue arg1 w;
       w \<leftarrow> JS_FreeValue arg0 w;
       w \<leftarrow> JS_FreeValue jsResult w;
       w \<leftarrow> JS_FreeValue thisPointer w;
       w \<leftarrow> JS_FreeValue global w;
       Some (javaResult, w)
     }"

definition Inbound_takeResultBuffers :: "'h vm \<Rightarrow> atom \<Rightarrow> (jobj option, 'h) action" where
  "Inbound_takeResultBuffers vm nameAtom w =
     do {
       (global, w) \<leftarrow> JS_GetGlobalObject w;
       (thisPointer, w) \<leftarrow> JS_GetProperty vm global nameAtom w;
       (jsResult, w) \<leftarrow> JS_Invoke vm thisPointer (AName ''takeResultBuffers'') [] w;
       (javaResult, w) \<leftarrow>
         (if jsResult = JException then do { w \<leftarrow> throwJsException vm w; Some (None, w) }
          else toJavaByteArrayArray vm jsResult w);
       w \<leftarrow> JS_FreeValue jsResult w;
       w \<leftarrow> JS_FreeValue thisPointer w;
       w \<leftarrow> JS_FreeValue global w;
       Some (javaResult, w)
     }"

definition Inbound_disconnect :: "'h vm \<Rightarrow> atom \<Rightarrow> jobj option \<Rightarrow> (bool, 'h) action" where
  "Inbound_disconnect vm nameAtom instanceName w =
     do {
       (global, w) \<leftarrow> JS_GetGlobalObject w;
       (thisPointer, w) \<leftarrow> JS_GetProperty vm global nameAtom w;
       (arg0, w) \<leftarrow> toJsString vm instanceName w;
       (jsResult, w) \<leftarrow> JS_Invoke vm thisPointer (AName ''disconnect'') [arg0] w;
       (javaResult, w) \<leftarrow>
         (case jsResult of
            JException \<Rightarrow> do { w \<leftarrow> throwJsException vm w; Some (False, w) }
          | JBool b \<Rightarrow> Some (b, w)
          | _ \<Rightarrow> None);
       w \<leftarrow> JS_FreeValue arg0 w;
       w \<leftarrow> JS_FreeValue thisPointer w;
       w \<leftarrow> JS_FreeValue global w;
       Some (javaResult, w)
     }"

subsection \<open>Outbound\<close>

text \<open>
  The global references of the Java object and of its class; the functions are installed on the
  JavaScript object unless a lookup threw.
\<close>

definition callChannelClass :: jobj where
  "callChannelClass = JvObject 1"

definition new_OutboundCallChannel ::
    "'h vm \<Rightarrow> string \<Rightarrow> jobj \<Rightarrow> jsval \<Rightarrow> (jobj \<times> string, 'h) action" where
  "new_OutboundCallChannel vm name obj jsOutboundCallChannel w =
     do {
       (_, w) \<leftarrow> NewGlobalRef (Some obj) w;
       (_, w) \<leftarrow> NewGlobalRef (Some callChannelClass) w;
       (_, w) \<leftarrow> (if ExceptionCheck w then Some (0, w)
                 else vm_set_functions vm jsOutboundCallChannel [(''call'', 2), (''takeResultBuffers'', 0), (''disconnect'', 1)] w);
       Some ((obj, name), w)
     }"

definition delete_OutboundCallChannel :: "jobj \<times> string \<Rightarrow> 'h world \<Rightarrow> 'h world option" where
  "delete_OutboundCallChannel channel w =
     do { w \<leftarrow> DeleteGlobalRef (fst channel) w; DeleteGlobalRef callChannelClass w }"

text \<open>\<open>js_call_c_function\<close> makes as many arguments readable as the function declares.\<close>

definition pad_arguments :: "nat \<Rightarrow> jsval list \<Rightarrow> jsval list" where
  "pad_arguments arg_count argv = argv @ replicate (arg_count - length argv) JUndefined"

text \<open>The result of a Java call, or the Java exception as a JavaScript one.\<close>

definition outbound_result :: "(jsval \<times> 'h world) option \<Rightarrow> (jsval \<times> 'h world) option" where
  "outbound_result r = do { (v, w) \<leftarrow> r; w \<leftarrow> PopLocalFrame w; Some (v, w) }"

definition Outbound_call :: "'h vm \<Rightarrow> jsval \<Rightarrow> jsval list \<Rightarrow> (jsval, 'h) action" where
  "Outbound_call vm this_val args w =
     (if \<not> runtime_opaque w then JS_ThrowReferenceError vm ''QuickJs closed'' w
      else case JS_GetOpaque this_val w of
        None \<Rightarrow> JS_ThrowReferenceError vm ''Not an OutboundCallChannel'' w
      | Some channel \<Rightarrow>
          do {
            let argv = pad_arguments 2 args;
            w \<leftarrow> PushLocalFrame w;
            (arg0, w) \<leftarrow> toJavaString vm (argv ! 0) w;
            (arg1, w) \<leftarrow> toJavaByteArrayArray vm (argv ! 1) w;
            if ExceptionCheck w \<or> arg1 = None then outbound_result (throwJavaExceptionFromJs vm w)
            else do {
              (javaResult, w) \<leftarrow> CallObjectMethod vm (fst channel) ''call'' [arg0, arg1] w;
              outbound_result
                (if \<not> ExceptionCheck w then toJsString vm javaResult w else throwJavaExceptionFromJs vm w)
            }
          })"

definition Outbound_takeResultBuffers :: "'h vm \<Rightarrow> jsval \<Rightarrow> jsval list \<Rightarrow> (jsval, 'h) action" where
  "Outbound_takeResultBuffers vm this_val args w =
     (if \<not> runtime_opaque w then JS_ThrowReferenceError vm ''QuickJs closed'' w
      else case JS_GetOpaque this_val w of
        None \<Rightarrow> JS_ThrowReferenceError vm ''Not an OutboundCallChannel'' w
      | Some channel \<Rightarrow>
          do {
            w \<leftarrow> PushLocalFrame w;
            (javaResult, w) \<leftarrow> CallObjectMethod vm (fst channel) ''takeResultBuffers'' [] w;
            outbound_result
              (if \<not> ExceptionCheck w then toJsInt8ArrayArray vm javaResult w else throwJavaExceptionFromJs vm w)
          })"

definition Outbound_disconnect :: "'h vm \<Rightarrow> jsval \<Rightarrow> jsval list \<Rightarrow> (jsval, 'h) action" where
  "Outbound_disconnect vm this_val args w =
     (if \<not> runtime_opaque w then JS_ThrowReferenceError vm ''QuickJs closed'' w
      else case JS_GetOpaque this_val w of
        None \<Rightarrow> JS_ThrowReferenceError vm ''Not an OutboundCallChannel'' w
      | Some channel \<Rightarrow>
          do {
            let argv = pad_arguments 1 args;
            w \<leftarrow> PushLocalFrame w;
            (arg0, w) \<leftarrow> toJavaString vm (argv ! 0) w;
            (javaResult, w) \<leftarrow> CallBooleanMethod vm (fst channel) ''disconnect'' [arg0] w;
            outbound_result
              (if \<not> ExceptionCheck w then Some (JBool javaResult, w) else throwJavaExceptionFromJs vm w)
          })"

end
