(* ===== verification/ContextOps.thy ===== *)
theory ContextOps
  imports Channels
begin

text \<open>
  The other operations of \<open>Context\<close> (\<open>zipline/native/Context.cpp\<close>) and the entry points of
  \<open>zipline/native/quickjs-jni.cpp\<close>.
\<close>

subsection \<open>The interrupt handler\<close>

text \<open>
  Called by the interpreter; while the Java handler runs no handler is installed. Setting a
  handler releases the previous one.
\<close>

definition jsInterruptHandlerPoll :: "'h vm \<Rightarrow> (bool, 'h) action" where
  "jsInterruptHandlerPoll vm w =
     (case interrupt_handler w of
        None \<Rightarrow> Some (False, w)
      | Some h \<Rightarrow>
          do {
            (halt, w) \<leftarrow> CallBooleanMethod vm h ''poll'' [] (JS_SetInterruptHandler False w);
            Some (halt, JS_SetInterruptHandler True w)
          })"

text \<open>Whether execution goes on.\<close>

definition js_poll_interrupts_slow :: "'h vm \<Rightarrow> (bool, 'h) action" where
  "js_poll_interrupts_slow vm w =
     (if poll_installed w then do {
        (halt, w) \<leftarrow> jsInterruptHandlerPoll vm w;
        if halt then do { w \<leftarrow> JS_ThrowInterrupted vm w; Some (False, w) } else Some (True, w)
      }
      else Some (True, w))"

definition setInterruptHandler :: "jobj option \<Rightarrow> 'h world \<Rightarrow> 'h world option" where
  "setInterruptHandler newInterruptHandler w =
     do {
       w \<leftarrow> (case interrupt_handler w of None \<Rightarrow> Some w | Some old \<Rightarrow> DeleteGlobalRef old w);
       (ref, w) \<leftarrow> NewGlobalRef newInterruptHandler w;
       Some (w\<lparr>interrupt_handler := ref\<rparr>)
     }"

subsection \<open>Running code\<close>

text \<open>\<open>JS_EvalFunction\<close> frees the function; a failed \<open>JS_ResolveModule\<close> leaves it to the caller.\<close>

definition execute :: "nat \<Rightarrow> 'h vm \<Rightarrow> u8 list \<Rightarrow> (jobj option, 'h) action" where
  "execute depth vm byteCode w =
     do {
       (buffer, w) \<leftarrow> GetByteArrayElements byteCode w;
       (obj, w) \<leftarrow> vm_read_object vm buffer w;
       (_, w) \<leftarrow> ReleaseByteArrayElements byteCode buffer JNI_ABORT w;
       if obj = JException then do { w \<leftarrow> throwJsException vm w; Some (None, w) }
       else do {
         (failed, w) \<leftarrow> vm_resolve_module vm obj w;
         if failed \<noteq> 0 then do { w \<leftarrow> throwJsExceptionFmt ''Failed to resolve JS module'' w; Some (None, w) }
         else do {
           w \<leftarrow> JS_FreeValue obj w;
           (val, w) \<leftarrow> vm_eval_function vm obj w;
           (result, w) \<leftarrow> (if val \<noteq> JException then toJavaObject depth vm val False w
                          else do { w \<leftarrow> throwJsException vm w; Some (None, w) });
           w \<leftarrow> JS_FreeValue val w;
           Some (result, w)
         }
       }
     }"

text \<open>The bytecode of the compiled source; an exception of the engine otherwise.\<close>

definition compile :: "'h vm \<Rightarrow> u16 list \<Rightarrow> u16 list \<Rightarrow> (u8 list option, 'h) action" where
  "compile vm source file w =
     do {
       jni w;
       (compiled, w) \<leftarrow> vm_eval vm (cstr (jvm_utf_chars vm source @ [0])) (cstr (jvm_utf_chars vm file @ [0])) w;
       if compiled = JException then do { w \<leftarrow> throwJsException vm w; Some (None, w) }
       else do {
         (buffer, w) \<leftarrow> vm_write_object vm compiled w;
         (result, w) \<leftarrow>
           (case buffer of
              Some (b # bs) \<Rightarrow>
                do {
                  (arr, w) \<leftarrow> NewByteArray (length (b # bs)) w;
                  (arr, w) \<leftarrow> SetByteArrayRegion arr 0 (b # bs) w;
                  Some (Some arr, w)
                }
            | _ \<Rightarrow> do { w \<leftarrow> throwJsException vm w; Some (None, w) });
         w \<leftarrow> JS_FreeValue compiled w;
         Some (result, w)
       }
     }"

text \<open>
  The loop runs jobs until the queue is empty or one throws; it need not end, since jobs add jobs,
  and is \<open>None\<close> for every bound then.
\<close>

fun executePendingJobs_loop :: "nat \<Rightarrow> 'h vm \<Rightarrow> int \<Rightarrow> (int, 'h) action" where
  "executePendingJobs_loop 0 vm executed w = None"
| "executePendingJobs_loop (Suc fuel) vm executed w =
     do {
       ((ret, ctx), w) \<leftarrow> JS_ExecutePendingJob vm w;
       if ret < 0 then
         (if ctx then do {
            (exception, w) \<leftarrow> JS_GetException w;
            w \<leftarrow> throwJsException vm w;
            w \<leftarrow> JS_FreeValue exception w;
            Some (- 1, w)
          }
          else Some (- 1, w))
       else if ret = 0 then Some (executed, w)
       else executePendingJobs_loop fuel vm (executed + 1) w
     }"

definition executePendingJobs :: "nat \<Rightarrow> 'h vm \<Rightarrow> (int, 'h) action" where
  "executePendingJobs fuel vm = executePendingJobs_loop fuel vm 0"

subsection \<open>Channels of a context\<close>

text \<open>The name of a new inbound channel, when its object exists.\<close>

definition getInboundCallChannel :: "'h vm \<Rightarrow> u16 list \<Rightarrow> (atom option, 'h) action" where
  "getInboundCallChannel vm name w =
     do {
       (global, w) \<leftarrow> JS_GetGlobalObject w;
       jni w;
       let nameStr = chars_of (cstr (jvm_utf_chars vm name @ [0]));
       (obj, w) \<leftarrow> JS_GetPropertyStr vm global nameStr w;
       (channel, w) \<leftarrow>
         (if JS_IsObject obj then do {
            (nameAtom, w) \<leftarrow> new_InboundCallChannel nameStr w;
            if \<not> ExceptionCheck w then Some (Some nameAtom, w\<lparr>call_channels := call_channels w @ [nameStr]\<rparr>)
            else do { w \<leftarrow> delete_InboundCallChannel nameAtom w; Some (None, w) }
          }
          else if obj = JException then do { w \<leftarrow> throwJsException vm w; Some (None, w) }
          else do {
            w \<leftarrow> throwJavaException ''java/lang/IllegalStateException''
                  (if obj = JUndefined
                   then ''A global JavaScript object called '' @ nameStr
                        @ '' was not found. Try confirming that Zipline.get() has been called.''
                   else ''JavaScript global called '' @ nameStr @ '' is not an object'') w;
            Some (None, w)
          });
       w \<leftarrow> JS_FreeValue obj w;
       w \<leftarrow> JS_FreeValue global w;
       Some (channel, w)
     }"

text \<open>
  \<open>JS_HasProperty\<close> answers -1 for an exception, which is taken for an existing object.
  \<open>JS_SetProperty\<close> takes over the reference to the new object.
\<close>

definition set_channel_object :: "'h vm \<Rightarrow> jsval \<Rightarrow> atom \<Rightarrow> string \<Rightarrow> jobj \<Rightarrow> 'h world \<Rightarrow> 'h world option" where
  "set_channel_object vm global objName nameStr callChannel w =
     do {
       (jsOutboundCallChannel, w) \<leftarrow> JS_NewObjectClass vm w;
       (ok, w) \<leftarrow> (if jsOutboundCallChannel = JException then Some (False, w)
                  else do { (r, w) \<leftarrow> vm_put vm global objName jsOutboundCallChannel w; Some (r > 0, w) });
       if \<not> ok then throwJsException vm w
       else do {
         (javaObject, w) \<leftarrow> new_OutboundCallChannel vm nameStr callChannel jsOutboundCallChannel w;
         if \<not> ExceptionCheck w then Some (JS_SetOpaque jsOutboundCallChannel (Some javaObject) w)
         else delete_OutboundCallChannel javaObject w
       }
     }"

definition setOutboundCallChannel :: "'h vm \<Rightarrow> u16 list \<Rightarrow> jobj \<Rightarrow> 'h world \<Rightarrow> 'h world option" where
  "setOutboundCallChannel vm name callChannel w =
     do {
       (global, w) \<leftarrow> JS_GetGlobalObject w;
       jni w;
       let nameStr = chars_of (cstr (jvm_utf_chars vm name @ [0]));
       (objName, w) \<leftarrow> JS_NewAtom nameStr w;
       (has, w) \<leftarrow> vm_has vm global objName w;
       w \<leftarrow> (if has = 0 then do {
               w \<leftarrow> (if channel_class w then Some w
                     else let (ok, m) = js_malloc (mem w); w = w\<lparr>mem := m\<rparr> in
                          if ok then Some (w\<lparr>channel_class := True\<rparr>)
                          else throwJavaException ''java/lang/NullPointerException''
                                 ''Failed to allocate JavaScript OutboundCallChannel class'' w);
               if channel_class w then set_channel_object vm global objName nameStr callChannel w else Some w
             }
             else throwJavaException ''java/lang/IllegalArgumentException''
                    (''A global object called '' @ nameStr @ '' already exists'') w);
       w \<leftarrow> JS_FreeAtom objName w;
       JS_FreeValue global w
     }"

end
