(* ===== verification/Finalizer.thy ===== *)
theory Finalizer
  imports ContextOps
begin

text \<open>
  \<open>zipline/native/common/finalization-registry.c\<close>: the native half of \<open>FinalizationRegistry\<close>, the class that its
  embedded JavaScript defines, and the installation of both. The registry has its own state:
  a registered target carries a finalizer object, and the engine calls \<open>jsFinalizerCollected\<close> when
  that object is freed, which is when the target is freed or its property is overwritten.
\<close>

subsection \<open>The registry\<close>

text \<open>
  \<open>finalizer_of\<close> is the property \<open>__app_cash_zipline_finalizer\<close> of the targets, with the \<open>id\<close> of the
  \<open>FinalizerOpaque\<close>; \<open>ran\<close> logs the callbacks that ran; \<open>pending_error\<close> tells that an exception of a
  callback was left in the runtime.
\<close>

record ('f, 'v) registry =
  next_id :: int
  id_to_function :: "int \<Rightarrow> ('f \<times> 'v) option"
  finalizer_of :: "nat \<Rightarrow> int option"
  ran :: "('f \<times> 'v) list"
  pending_error :: bool
  global_live :: bool

definition empty_registry :: "('f, 'v) registry" where
  "empty_registry = \<lparr>next_id = 1, id_to_function = \<lambda>_. None, finalizer_of = \<lambda>_. None, ran = [],
     pending_error = False, global_live = True\<rparr>"

text \<open>The argument is converted to a signed 32-bit number.\<close>

definition jsNewFinalizer :: "(u64 \<Rightarrow> u32) \<Rightarrow> jsval list \<Rightarrow> string + int" where
  "jsNewFinalizer int_of_double argv =
     (case argv of
        [JInt i] \<Rightarrow> Inr (sint i)
      | [JFloat64 d] \<Rightarrow> Inr (sint (int_of_double d))
      | [_] \<Rightarrow> Inl ''id is not an number''
      | _ \<Rightarrow> Inl ''Unexpected argument count'')"

text \<open>\<open>app_cash_zipline_enqueueFinalizer\<close>: calls the function of the id; there may be none.\<close>

definition enqueueFinalizer :: "int \<Rightarrow> ('f, 'v) registry \<Rightarrow> ('f, 'v) registry" where
  "enqueueFinalizer fid r =
     (case id_to_function r fid of
        Some f \<Rightarrow> r\<lparr>ran := ran r @ [f]\<rparr>
      | None \<Rightarrow> r\<lparr>pending_error := True\<rparr>)"

definition jsFinalizerCollected :: "int \<Rightarrow> ('f, 'v) registry \<Rightarrow> ('f, 'v) registry" where
  "jsFinalizerCollected fid r = (if global_live r then enqueueFinalizer fid r else r)"

text \<open>
  \<open>register\<close>: the id is a JavaScript number, \<open>int32_id\<close> its conversion. A target that takes no property
  throws, and the new finalizer is freed at once; the finalizer that a target had before is
  freed when the property is overwritten.
\<close>

definition int32_id :: "int \<Rightarrow> int" where
  "int32_id i = sint (word_of_int i :: u32)"

definition register :: "'f \<Rightarrow> nat \<Rightarrow> 'v \<Rightarrow> bool \<Rightarrow> ('f, 'v) registry \<Rightarrow> ('f, 'v) registry" where
  "register callback target heldValue takes_property r =
     (let fid = next_id r;
          r = r\<lparr>next_id := fid + 1, id_to_function := (id_to_function r)(fid := Some (callback, heldValue))\<rparr>;
          fin = int32_id fid in
      if takes_property then
        let old = finalizer_of r target; r = r\<lparr>finalizer_of := (finalizer_of r)(target := Some fin)\<rparr> in
        case old of None \<Rightarrow> r | Some i \<Rightarrow> jsFinalizerCollected i r
      else jsFinalizerCollected fin (r\<lparr>pending_error := True\<rparr>))"

text \<open>The engine frees a target, or is shut down.\<close>

definition collect_target :: "nat \<Rightarrow> ('f, 'v) registry \<Rightarrow> ('f, 'v) registry" where
  "collect_target target r =
     (case finalizer_of r target of
        None \<Rightarrow> r
      | Some fid \<Rightarrow> jsFinalizerCollected fid (r\<lparr>finalizer_of := (finalizer_of r)(target := None)\<rparr>))"

text \<open>
  Sequences of registrations and collections of targets that accept a new property. A callback runs to its end
  before the next step, and does not register anything itself.
\<close>

datatype ('f, 'v) registry_event = Register 'f nat 'v | Collect nat

fun registry_step :: "('f, 'v) registry_event \<Rightarrow> ('f, 'v) registry \<Rightarrow> ('f, 'v) registry" where
  "registry_step (Register f t v) r = register f t v True r"
| "registry_step (Collect t) r = collect_target t r"

definition run_registry :: "('f, 'v) registry_event list \<Rightarrow> ('f, 'v) registry \<Rightarrow> ('f, 'v) registry" where
  "run_registry es r = fold registry_step es r"

subsection \<open>Installation\<close>

text \<open>
  Compilation in one context, transfer as bytecode, execution in the other. The function that
  was read is freed by \<open>JS_EvalFunction\<close> only.
\<close>

definition compileAndExecuteJs :: "'h vm \<Rightarrow> u8 list \<Rightarrow> (int, 'h) action" where
  "compileAndExecuteJs vm sourceCode w =
     do {
       (compiledFunction, w) \<leftarrow> vm_eval vm sourceCode (bytes_of ''finalization-registry.c'') w;
       (result, w) \<leftarrow>
         (if compiledFunction = JException then Some (- 1, w)
          else do {
            (encodedFunction, w) \<leftarrow> vm_write_object vm compiledFunction w;
            (runnableFunction, w) \<leftarrow> vm_read_object vm (case encodedFunction of None \<Rightarrow> [] | Some bs \<Rightarrow> bs) w;
            (failed, w) \<leftarrow> (if runnableFunction = JException then Some (1, w) else vm_resolve_module vm runnableFunction w);
            if failed \<noteq> 0 then Some (- 1, w)
            else do {
              w \<leftarrow> JS_FreeValue runnableFunction w;
              (bootstrapResult, w) \<leftarrow> vm_eval_function vm runnableFunction w;
              w \<leftarrow> JS_FreeValue bootstrapResult w;
              Some (if bootstrapResult = JException then - 1 else 1, w)
            }
          });
       w \<leftarrow> JS_FreeValue compiledFunction w;
       Some (result, w)
     }"

text \<open>
  The global function is declared unless the property exists; the function object stays owned when
  it does. \<open>new_function\<close> makes the object.
\<close>

definition declare_newFinalizer :: "'h vm \<Rightarrow> (jsval, 'h) action \<Rightarrow> jsval \<Rightarrow> (bool, 'h) action" where
  "declare_newFinalizer vm new_function global w =
     do {
       (newFinalizerName, w) \<leftarrow> JS_NewAtom ''app_cash_zipline_newFinalizer'' w;
       (newFinalizerFunction, w) \<leftarrow> new_function w;
       (has, w) \<leftarrow> vm_has vm global newFinalizerName w;
       (failed, w) \<leftarrow> (if has \<noteq> 0 then Some (True, w)
                      else do { (r, w) \<leftarrow> vm_put vm global newFinalizerName newFinalizerFunction w; Some (r < 0, w) });
       w \<leftarrow> JS_FreeAtom newFinalizerName w;
       Some (failed, w)
     }"

text \<open>The class and the function are installed even when an earlier step failed.\<close>

definition installFinalizationRegistry :: "'h vm \<Rightarrow> u8 list \<Rightarrow> (jsval, 'h) action \<Rightarrow> (int, 'h) action" where
  "installFinalizationRegistry vm bootstrapJs new_function w =
     do {
       (bootstrap, w) \<leftarrow> compileAndExecuteJs vm bootstrapJs w;
       let result = (if bootstrap < 0 then - 1 else 1 :: int);
       let (ok, m) = js_malloc (mem w);
       let result = (if ok then result else - 1);
       (global, w) \<leftarrow> JS_GetGlobalObject (w\<lparr>mem := m\<rparr>);
       (failed, w) \<leftarrow> declare_newFinalizer vm new_function global w;
       w \<leftarrow> JS_FreeValue global w;
       Some (if failed then - 1 else result, w)
     }"

end
