(* ===== verification/Ledgers.thy ===== *)
theory Ledgers
  imports ContextOps
begin

text \<open>
  The resources that the C++ code acquires and has to release, each exactly once: references to
  JavaScript values, atoms, global references of the JNI. The interface \<open>ledger\<close> states what they
  have in common; the three resources of the model are its interpretations.
\<close>

fun release_list :: "('r \<Rightarrow> 'w \<Rightarrow> 'w option) \<Rightarrow> 'r list \<Rightarrow> 'w \<Rightarrow> 'w option" where
  "release_list release [] w = Some w"
| "release_list release (r # rs) w = do { w \<leftarrow> release r w; release_list release rs w }"

locale ledger =
  fixes level :: "'w \<Rightarrow> 'r multiset"
    and counted :: "'r \<Rightarrow> bool"
    and acquire :: "'r \<Rightarrow> 'w \<Rightarrow> 'w"
    and release :: "'r \<Rightarrow> 'w \<Rightarrow> 'w option"
    and set_level :: "'r multiset \<Rightarrow> 'w \<Rightarrow> 'w"
  assumes level_set: "level (set_level m w) = m"
    and set_set: "set_level m (set_level m' w) = set_level m w"
    and set_same: "set_level (level w) w = w"
    and acquire_eq: "acquire r w = (if counted r then set_level (level w + {#r#}) w else w)"
    and release_eq: "release r w =
      (if counted r then (if r \<in># level w then Some (set_level (level w - {#r#}) w) else None) else Some w)"
begin

lemma release_iff: "(\<exists>w'. release r w = Some w') \<longleftrightarrow> (counted r \<longrightarrow> r \<in># level w)"
  by (simp add: release_eq)

lemma release_acquire: "release r (acquire r w) = Some w"
  by (simp add: release_eq acquire_eq level_set set_set set_same)

text \<open>A group of resources is released in any order when all of them are held.\<close>

lemma release_list_held:
  assumes "filter_mset counted (mset rs) \<subseteq># level w"
  shows "release_list release rs w = Some (set_level (level w - filter_mset counted (mset rs)) w)"
  using assms
proof (induction rs arbitrary: w)
  case Nil
  then show ?case by (simp add: set_same)
next
  case (Cons r rs)
  show ?case
  proof (cases "counted r")
    case True
    then have held: "r \<in># level w" and rest: "filter_mset counted (mset rs) \<subseteq># level w - {#r#}"
      using Cons.prems by (auto simp: insert_subset_eq_iff)
    have "release_list release rs (set_level (level w - {#r#}) w)
        = Some (set_level (level w - {#r#} - filter_mset counted (mset rs)) (set_level (level w - {#r#}) w))"
      using Cons.IH[of "set_level (level w - {#r#}) w"] rest by (simp add: level_set)
    then show ?thesis using True held by (simp add: release_eq[of r] set_set)
  next
    case False
    then show ?thesis using Cons by (simp add: release_eq[of r])
  qed
qed

text \<open>What is not held cannot be released: a second release stops.\<close>

lemma release_twice:
  assumes "counted r" "level w = {#r#}" "release r w = Some w'"
  shows "release r w' = None"
  using assms by (simp add: release_eq level_set split: if_splits) (metis empty_iff level_set set_mset_empty)

end

subsection \<open>The three ledgers\<close>

definition hold_atom :: "atom \<Rightarrow> 'h world \<Rightarrow> 'h world" where
  "hold_atom a w = w\<lparr>atoms := atoms w + {#a#}\<rparr>"

definition hold_global :: "jobj \<Rightarrow> 'h world \<Rightarrow> 'h world" where
  "hold_global p w = w\<lparr>global_refs := global_refs w + {#p#}\<rparr>"

lemma JS_NewAtom_hold: "JS_NewAtom s w = Some (JS_NewAtomStr s, hold_atom (JS_NewAtomStr s) w)"
  by (simp add: JS_NewAtom_def hold_atom_def Let_def)

lemma NewGlobalRef_hold: "java_exception w = None \<Longrightarrow> NewGlobalRef (Some p) w = Some (Some p, hold_global p w)"
  by (simp add: NewGlobalRef_def jni_def hold_global_def)

interpretation js_refs: ledger owned JS_VALUE_HAS_REF_COUNT own JS_FreeValue "\<lambda>m w. w\<lparr>owned := m\<rparr>"
  by unfold_locales (auto simp: own_def JS_FreeValue_def)

interpretation js_atoms: ledger atoms "\<lambda>_. True" hold_atom JS_FreeAtom "\<lambda>m w. w\<lparr>atoms := m\<rparr>"
  by unfold_locales (auto simp: hold_atom_def JS_FreeAtom_def)

interpretation jni_refs: ledger global_refs "\<lambda>_. True" hold_global DeleteGlobalRef "\<lambda>m w. w\<lparr>global_refs := m\<rparr>"
  by unfold_locales (auto simp: hold_global_def DeleteGlobalRef_def)

end
