(* ===== verification/Lifecycle.thy ===== *)
theory Lifecycle
  imports Finalizer Ledgers
begin

text \<open>
  Creating and destroying a \<open>Context\<close>, and the entry points of \<open>zipline/native/quickjs-jni.cpp\<close>, through which Java
  reaches all operations.
\<close>

subsection \<open>The context\<close>

text \<open>The classes and the string that the context keeps global references to.\<close>

definition booleanClass :: jobj where "booleanClass = JvObject 2"
definition integerClass :: jobj where "integerClass = JvObject 3"
definition doubleClass :: jobj where "doubleClass = JvObject 4"
definition objectClass :: jobj where "objectClass = JvObject 5"
definition stringClass :: jobj where "stringClass = JvObject 6"
definition stringUtf8 :: jobj where "stringUtf8 = JvString (map of_char ''UTF-8'')"
definition quickJsExceptionClass :: jobj where "quickJsExceptionClass = JvObject 7"
definition interruptHandlerClass :: jobj where "interruptHandlerClass = JvObject 8"

definition context_atoms :: "string list" where
  "context_atoms = [''length'', ''call'', ''takeResultBuffers'', ''disconnect'']"

fun new_atoms :: "string list \<Rightarrow> 'h world \<Rightarrow> 'h world option" where
  "new_atoms [] w = Some w"
| "new_atoms (s # names) w = do { (_, w) \<leftarrow> JS_NewAtom s w; new_atoms names w }"

fun new_global_refs :: "jobj list \<Rightarrow> 'h world \<Rightarrow> 'h world option" where
  "new_global_refs [] w = Some w"
| "new_global_refs (p # ps) w = do { (_, w) \<leftarrow> NewGlobalRef (Some p) w; new_global_refs ps w }"

text \<open>
  The constructor, on a fresh runtime whose two contexts could be made. \<open>install\<close> is the
  installation of the finalization registry; \<open>JS_AddGlobalThisGc\<close> and the intrinsics belong to it.
\<close>

definition new_Context :: "(int, 'h) action \<Rightarrow> 'h world \<Rightarrow> 'h world option" where
  "new_Context install w =
     do {
       w \<leftarrow> new_atoms context_atoms w;
       w \<leftarrow> new_global_refs [booleanClass, integerClass, doubleClass, objectClass, stringClass, stringUtf8,
                             quickJsExceptionClass, interruptHandlerClass] w;
       let w = JS_SetInterruptHandler True (w\<lparr>interrupt_handler := None, runtime_opaque := True, channel_class := False, call_channels := []\<rparr>);
       (installed, w) \<leftarrow> install w;
       if installed < 0
       then throwJavaException ''java/lang/IllegalStateException'' ''Failed to install FinalizationRegistry'' w
       else Some w
     }"

text \<open>The finalizer of outbound channel objects, and its run over the objects that the runtime frees.\<close>

definition jsFinalizeOutboundCallChannel :: "nat \<Rightarrow> 'h world \<Rightarrow> 'h world option" where
  "jsFinalizeOutboundCallChannel n w =
     (if runtime_opaque w then
        (case JS_GetOpaque (JObject (RChannel n)) w of
           None \<Rightarrow> Some w
         | Some channel \<Rightarrow> delete_OutboundCallChannel channel (w\<lparr>channels := (channels w)[n := None]\<rparr>))
      else Some w)"

fun finalize_channels :: "nat \<Rightarrow> 'h world \<Rightarrow> 'h world option" where
  "finalize_channels 0 w = Some w"
| "finalize_channels (Suc n) w = do { w \<leftarrow> jsFinalizeOutboundCallChannel n w; finalize_channels n w }"

text \<open>
  \<open>globalReferences\<close> is always empty. Freeing the contexts and the runtime frees every object that
  no reference is leaked to.
\<close>

definition delete_Context :: "'h world \<Rightarrow> 'h world option" where
  "delete_Context w =
     do {
       w \<leftarrow> release_list JS_FreeAtom (map JS_NewAtomStr (call_channels w)) w;
       w \<leftarrow> (case interrupt_handler w of None \<Rightarrow> Some w | Some h \<Rightarrow> DeleteGlobalRef h w);
       w \<leftarrow> release_list DeleteGlobalRef [interruptHandlerClass, quickJsExceptionClass, stringUtf8, stringClass,
                             objectClass, doubleClass, integerClass, booleanClass] w;
       w \<leftarrow> release_list JS_FreeAtom (map JS_NewAtomStr context_atoms) w;
       finalize_channels (length (channels w)) w
     }"

subsection \<open>Entry points\<close>

text \<open>
  A null context throws and does nothing else, a null channel likewise. \<open>context\<close> tells whether the
  pointer is not null; the result of a failure is null, 0 or false.
\<close>

definition closed :: "'a \<Rightarrow> bool \<Rightarrow> ('a, 'h) action \<Rightarrow> ('a, 'h) action" where
  "closed failure context act w =
     (if \<not> context then do {
        w \<leftarrow> throwJavaException ''java/lang/IllegalStateException'' ''QuickJs instance was closed'' w;
        Some (failure, w)
      }
      else act w)"

definition valid_channel :: "'a \<Rightarrow> atom option \<Rightarrow> (atom \<Rightarrow> ('a, 'h) action) \<Rightarrow> ('a, 'h) action" where
  "valid_channel failure inst act w =
     (case inst of
        None \<Rightarrow> do {
          w \<leftarrow> throwJavaException ''java/lang/IllegalStateException'' ''Invalid JavaScript object'' w;
          Some (failure, w)
        }
      | Some channel \<Rightarrow> act channel w)"

definition no_result :: "('h world \<Rightarrow> 'h world option) \<Rightarrow> (unit, 'h) action" where
  "no_result act w = map_option (\<lambda>w. ((), w)) (act w)"

definition QuickJs_destroyContext :: "bool \<Rightarrow> 'h world \<Rightarrow> 'h world option" where
  "QuickJs_destroyContext context w = (if context then delete_Context w else Some w)"

definition QuickJs_getInboundCallChannel :: "'h vm \<Rightarrow> bool \<Rightarrow> u16 list \<Rightarrow> (atom option, 'h) action" where
  "QuickJs_getInboundCallChannel vm context name = closed None context (getInboundCallChannel vm name)"

definition QuickJs_setOutboundCallChannel :: "'h vm \<Rightarrow> bool \<Rightarrow> u16 list \<Rightarrow> jobj \<Rightarrow> (unit, 'h) action" where
  "QuickJs_setOutboundCallChannel vm context name callChannel =
     closed () context (no_result (setOutboundCallChannel vm name callChannel))"

definition QuickJs_execute :: "nat \<Rightarrow> 'h vm \<Rightarrow> bool \<Rightarrow> u8 list \<Rightarrow> (jobj option, 'h) action" where
  "QuickJs_execute depth vm context bytecode = closed None context (execute depth vm bytecode)"

definition QuickJs_compile :: "'h vm \<Rightarrow> bool \<Rightarrow> u16 list \<Rightarrow> u16 list \<Rightarrow> (u8 list option, 'h) action" where
  "QuickJs_compile vm context sourceCode fileName = closed None context (compile vm sourceCode fileName)"

definition QuickJs_setInterruptHandler :: "bool \<Rightarrow> jobj option \<Rightarrow> (unit, 'h) action" where
  "QuickJs_setInterruptHandler context handler = closed () context (no_result (setInterruptHandler handler))"

definition QuickJs_executePendingJobs :: "nat \<Rightarrow> 'h vm \<Rightarrow> bool \<Rightarrow> (int, 'h) action" where
  "QuickJs_executePendingJobs fuel vm context = closed 0 context (executePendingJobs fuel vm)"

text \<open>
  The operations that only pass a value on to the engine or report what it counts. The limits of the
  allocator and of the stack, the cycle collection and the constructor of \<open>MemoryUsage\<close> are parameters; the constructor takes
  the fields of \<open>JSMemoryUsage\<close> in their order.
\<close>

record 'h engine_control =
  JS_ComputeMemoryUsage :: "'h world \<Rightarrow> u64 list"
  new_MemoryUsage :: "u64 list \<Rightarrow> (jobj option, 'h) action"
  JS_SetMemoryLimit :: "u64 \<Rightarrow> 'h world \<Rightarrow> 'h world option"
  JS_SetGCThreshold :: "u64 \<Rightarrow> 'h world \<Rightarrow> 'h world option"
  JS_SetMaxStackSize :: "u64 \<Rightarrow> 'h world \<Rightarrow> 'h world option"
  JS_RunGC :: "'h world \<Rightarrow> 'h world option"

definition memoryUsage :: "'h engine_control \<Rightarrow> (jobj option, 'h) action" where
  "memoryUsage control w = do { jni w; new_MemoryUsage control (JS_ComputeMemoryUsage control w) w }"

definition QuickJs_memoryUsage :: "'h engine_control \<Rightarrow> bool \<Rightarrow> (jobj option, 'h) action" where
  "QuickJs_memoryUsage control context = closed None context (memoryUsage control)"

definition QuickJs_setMemoryLimit :: "'h engine_control \<Rightarrow> bool \<Rightarrow> u64 \<Rightarrow> (unit, 'h) action" where
  "QuickJs_setMemoryLimit control context limit = closed () context (no_result (JS_SetMemoryLimit control limit))"

definition QuickJs_setGcThreshold :: "'h engine_control \<Rightarrow> bool \<Rightarrow> u64 \<Rightarrow> (unit, 'h) action" where
  "QuickJs_setGcThreshold control context gcThreshold =
     closed () context (no_result (JS_SetGCThreshold control gcThreshold))"

definition QuickJs_gc :: "'h engine_control \<Rightarrow> bool \<Rightarrow> (unit, 'h) action" where
  "QuickJs_gc control context = closed () context (no_result (JS_RunGC control))"

definition QuickJs_setMaxStackSize :: "'h engine_control \<Rightarrow> bool \<Rightarrow> u64 \<Rightarrow> (unit, 'h) action" where
  "QuickJs_setMaxStackSize control context stackSize =
     closed () context (no_result (JS_SetMaxStackSize control stackSize))"

definition JniCallChannel_call :: "'h vm \<Rightarrow> bool \<Rightarrow> atom option \<Rightarrow> jobj option \<Rightarrow> jobj option \<Rightarrow> (jobj option, 'h) action" where
  "JniCallChannel_call vm context inst callJson jbuffers =
     closed None context (valid_channel None inst (\<lambda>channel. Inbound_call vm channel callJson jbuffers))"

definition JniCallChannel_takeResultBuffers :: "'h vm \<Rightarrow> bool \<Rightarrow> atom option \<Rightarrow> (jobj option, 'h) action" where
  "JniCallChannel_takeResultBuffers vm context inst =
     closed None context (valid_channel None inst (\<lambda>channel. Inbound_takeResultBuffers vm channel))"

definition JniCallChannel_disconnect :: "'h vm \<Rightarrow> bool \<Rightarrow> atom option \<Rightarrow> jobj option \<Rightarrow> (bool, 'h) action" where
  "JniCallChannel_disconnect vm context inst instanceName =
     closed False context (valid_channel False inst (\<lambda>channel. Inbound_disconnect vm channel instanceName))"

end
