(* ===== verification/ConvertSpec.thy ===== *)
theory ConvertSpec
  imports Lifecycle BufferSafety
begin

text \<open>
  What the conversions of \<open>Convert\<close> give when no allocation fails: the strings and byte arrays that
  arrive on the other side, and the world they leave.
\<close>

subsection \<open>UTF-8 without zero bytes\<close>

lemma byte_nonzero: "bit k 7 \<Longrightarrow> (ucast (x OR k :: u32) :: u8) \<noteq> 0"
proof
  assume k: "bit k 7" and z: "(ucast (x OR k :: u32) :: u8) = 0"
  have "bit (ucast (x OR k :: u32) :: u8) 7" using k by (simp add: bit_simps)
  then show False using z by simp
qed

lemma code_nonzero:
  assumes "0x80 \<le> u" "u < 0x80000000"
  shows "0 \<notin> set (unicode_to_utf8 u)"
proof -
  have "\<not> u < 0x80" using assms(1) by simp
  then show ?thesis
    using byte_nonzero[of "0x80"] byte_nonzero[of "0xc0"] byte_nonzero[of "0xe0"] byte_nonzero[of "0xf0"]
      byte_nonzero[of "0xf8"] byte_nonzero[of "0xfc"]
    by (auto simp: unicode_to_utf8_def utf8_cont_byte_def)
qed

lemma ucast_8_16: "c < 0x80 \<Longrightarrow> (ucast (c :: u16) :: u8) = 0 \<longleftrightarrow> c = 0"
  by (simp add: word_unat_eq_iff unat_ucast_mod word_less_nat_alt)

lemma wide_nonzero: "0 \<notin> set us \<Longrightarrow> 0 \<notin> set (to_cstr_wide cesu8 us)"
proof (induction cesu8 us rule: to_cstr_wide.induct)
  case (2 cesu8 c)
  have "\<not> c < 0x80 \<Longrightarrow> 0 \<notin> set (unicode_to_utf8 (ucast c))"
    using ucast16_code[of c] by (intro code_nonzero) (auto simp: word_le_nat_alt word_less_nat_alt)
  then show ?case using 2 ucast_8_16[of c] by auto
next
  case (3 cesu8 c c1 src)
  show ?case
  proof (cases "c < 0x80")
    case True
    then show ?thesis using 3 ucast_8_16[of c] by auto
  next
    case F: False
    have c: "0 \<notin> set (unicode_to_utf8 (ucast c))"
      using ucast16_code[of c] F by (intro code_nonzero) (auto simp: word_le_nat_alt word_less_nat_alt)
    show ?thesis
    proof (cases "is_hi_surrogate (ucast c) \<and> \<not> cesu8 \<and> is_lo_surrogate (ucast c1)")
      case True
      note fs = from_surrogate_spec(2-5)[of "ucast c" "ucast c1"]
      have "0 \<notin> set (unicode_to_utf8 (from_surrogate (ucast c) (ucast c1)))"
        using fs(1,2) True by (intro code_nonzero) (auto simp: word_le_nat_alt word_less_nat_alt)
      then show ?thesis using 3(2)[OF F True] 3(4) unfolding to_cstr_wide.simps if_not_P[OF F] if_P[OF True] by simp
    next
      case False
      show ?thesis using 3(3)[OF F False] 3(4) c unfolding to_cstr_wide.simps if_not_P[OF F] if_not_P[OF False] by simp
    qed
  qed
qed simp

text \<open>Narrow strings are encoded like wide ones.\<close>

lemma narrow_no_surrogate: "\<not> is_hi_surrogate (ucast (ucast (c :: u8) :: u16))"
  using unat_lt_pow[of c] by (simp add: is_hi_iff unat_ucast_mod)

lemma to_cstr_narrow_wide: "to_cstr_narrow src = to_cstr_wide False (map ucast src)"
proof (induction src)
  case (Cons c src)
  have lt: "(ucast c :: u16) < 0x80 \<longleftrightarrow> c < 0x80"
    using unat_lt_pow[of c] by (simp add: word_less_nat_alt unat_ucast_mod)
  have id: "(ucast (ucast c :: u16) :: u8) = c"
    using unat_lt_pow[of c] by (simp add: word_unat_eq_iff unat_ucast_mod)
  have "to_cstr_wide False (ucast c # map ucast src) =
      (if c < 0x80 then [c] else unicode_to_utf8 (ucast (ucast c :: u16))) @ to_cstr_wide False (map ucast src)"
    using narrow_no_surrogate[of c] by (cases src) (simp_all add: lt id)
  then show ?case using Cons narrow_code[of c] by auto
qed simp

lemma sint_small: "n \<le> INT32_MAX \<Longrightarrow> sint (word_of_nat n :: u32) = int n"
  by (simp add: INT32_MAX_def signed_of_nat signed_take_bit_int_eq_self)

lemma unat_small: "n \<le> INT32_MAX \<Longrightarrow> unat (word_of_nat n :: u32) = n"
  by (simp add: INT32_MAX_def unsigned_of_nat take_bit_nat_eq_self)

lemma JS_ToCStringLen2_ok:
  assumes "mem_ok m" "3 * str_length s \<le> INT32_MAX"
  obtains m' where "JS_ToCStringLen2 s False m = (Inr (to_cstr_wide False (str_units s)), m')" "mem_ok m'"
proof (cases s)
  case (Str8 src)
  obtain ok m1 where r: "js_malloc m = (ok, m1)" by fastforce
  note js_malloc_spec(2)[OF r assms(1)]
  moreover have "filter (\<lambda>c. drop_bit 7 c = 1) src = [] \<Longrightarrow> to_cstr_narrow src = src" by (rule to_cstr_ascii)
  ultimately show thesis using that assms(1) r Str8
    by (cases "filter (\<lambda>c. drop_bit 7 c = 1) src = []")
      (auto simp: JS_ToCStringLen2_def js_alloc_string_def to_cstr_narrow_wide Let_def)
next
  case (Str16 src)
  obtain ok m1 where r: "js_malloc m = (ok, m1)" by fastforce
  have l: "length src * 3 \<le> 2147483647" using assms(2) Str16 by (simp add: str_length_def INT32_MAX_def)
  then have "sint (word_of_nat (length src * 3) :: u32) = int (length src * 3)"
    using sint_small[of "length src * 3"] by (simp add: INT32_MAX_def)
  then show thesis using that js_malloc_spec(2)[OF r assms(1)] r Str16
    by (auto simp: JS_ToCStringLen2_def js_alloc_string_def)
qed

subsection \<open>Strings across the bridge\<close>

lemma cstr_append_zero [simp]: "cstr (bs @ [0]) = cstr bs"
  by (simp add: cstr_def takeWhile_tail)

lemma take_cstr: "take (length (cstr bs)) bs = cstr bs"
  by (simp add: cstr_def takeWhile_eq_take[symmetric])

lemma cstr_no_zero: "0 \<notin> set bs \<Longrightarrow> cstr bs = bs"
  unfolding cstr_def by (induction bs) auto

lemma length_cstr: "length (cstr bs) \<le> length bs"
  by (simp add: cstr_def length_takeWhile_le)

text \<open>The C string becomes the text of a new Java string; its elements are never released.\<close>

lemma toJavaString_eq:
  assumes "JS_ToCString vm v w = Some (Some bytes, w1)" "java_exception w1 = None" "c_strings w1 = Suc n"
    "length bytes \<le> INT32_MAX"
  shows "toJavaString vm v w = Some (Some (JvString (jvm_new_string vm (cstr bytes))), w1\<lparr>elements := Suc (elements w1), c_strings := n\<rparr>)"
proof -
  let ?n = "length (cstr bytes)"
  have l: "strlen (bytes @ [0]) = Some ?n" by (simp add: strlen_takeWhile)
  have n: "\<not> INT32_MAX < ?n" using length_cstr[of bytes] assms(4) by simp
  have c: "copy_to (replicate ?n 0) 0 (take ?n bytes) = Some (cstr bytes)" by (simp add: copy_to_def take_cstr)
  show ?thesis
    unfolding toJavaString_def assms(1)
    using assms(2,3) by (simp add: l n c NewByteArray_def jni_def GetByteArrayElements_def
        ReleaseByteArrayElements_def JS_FreeCString_def new_java_string_def)
qed

lemma JS_ToCString_string:
  assumes "mem_ok (mem w)" "3 * str_length s \<le> INT32_MAX"
  obtains m' where "mem_ok m'"
    "JS_ToCString vm (JString s) w = Some (Some (to_cstr_wide False (str_units s)), w\<lparr>mem := m', c_strings := Suc (c_strings w)\<rparr>)"
proof -
  obtain m' where m: "JS_ToCStringLen2 s False (mem w) = (Inr (to_cstr_wide False (str_units s)), m')" "mem_ok m'"
    by (rule JS_ToCStringLen2_ok[OF assms])
  have "JS_FreeValue (JString s) (own (JString s) w\<lparr>mem := m'\<rparr>) = Some (w\<lparr>mem := m'\<rparr>)"
    by (simp add: JS_FreeValue_def own_def)
  then show thesis using that m
    by (simp add: JS_ToCString_def JS_ToStringInternal_def JS_IsObject_def js_primitive_to_string_def JS_DupValue_def own_def)
qed

lemma toJavaString_string:
  assumes "mem_ok (mem w)" "3 * str_length s \<le> INT32_MAX" "java_exception w = None"
  obtains m' where "mem_ok m'"
    "toJavaString vm (JString s) w =
      Some (Some (JvString (jvm_new_string vm (cstr (to_cstr_wide False (str_units s))))), w\<lparr>mem := m', elements := Suc (elements w)\<rparr>)"
proof -
  let ?b = "to_cstr_wide False (str_units s)"
  obtain m' where m: "mem_ok m'"
    "JS_ToCString vm (JString s) w = Some (Some ?b, w\<lparr>mem := m', c_strings := Suc (c_strings w)\<rparr>)"
    by (rule JS_ToCString_string[OF assms(1,2)])
  have "length ?b \<le> INT32_MAX" using length_to_cstr_wide[of False "str_units s"] assms(2)
    by (cases s) (simp_all add: str_length_def)
  then have "toJavaString vm (JString s) w = Some (Some (JvString (jvm_new_string vm (cstr ?b))),
      w\<lparr>mem := m', c_strings := Suc (c_strings w)\<rparr>\<lparr>elements := Suc (elements (w\<lparr>mem := m', c_strings := Suc (c_strings w)\<rparr>)), c_strings := c_strings w\<rparr>)"
    using m(2) assms(3) by (intro toJavaString_eq) simp_all
  then show thesis using that[OF m(1)] by simp
qed

lemma toJsString_ok:
  assumes "mem_ok (mem w)" "java_exception w = None" "length (jvm_get_bytes vm u) \<le> JS_STRING_LEN_MAX"
  obtains s m' where "mem_ok m'" "str_units s = utf8_units (cstr (jvm_get_bytes vm u))"
    "toJsString vm (Some (JvString u)) w = Some (JString s, own (JString s) (w\<lparr>mem := m'\<rparr>))"
proof -
  let ?b = "cstr (jvm_get_bytes vm u)"
  have b: "length ?b \<le> JS_STRING_LEN_MAX" using assms(3) length_cstr[of "jvm_get_bytes vm u"] by simp
  have b': "length ?b < 2 ^ 31" using b by (simp add: JS_STRING_LEN_MAX_def)
  obtain r m' where r: "JS_NewStringLen (vm_slack vm) ?b (mem w) = Some (r, m')"
    using JS_NewStringLen_made[of ?b "vm_slack vm" "mem w"] b'
    by (cases "JS_NewStringLen (vm_slack vm) ?b (mem w)") (auto simp: string_made_def)
  note made = JS_NewStringLen_made[OF disjI1[OF b'], of "mem w" "vm_slack vm", unfolded r string_made_def, simplified]
  obtain s where s: "r = Inr s" "str_units s = utf8_units ?b" "mem_ok m'"
    using made assms(1) b by (cases r) auto
  have cpp: "toCppString vm (Some (JvString u)) w = Some (jvm_get_bytes vm u, w)"
    using assms(2) by (simp add: toCppString_def call_get_bytes_def jni_def GetByteArrayElements_def ReleaseByteArrayElements_def)
  have "toJsString vm (Some (JvString u)) w = Some (JString s, own (JString s) (w\<lparr>mem := m'\<rparr>))"
    by (simp add: toJsString_def cpp ctx_new_string_def JsString.JS_NewString_def r js_string_value_def s(1))
  then show thesis using that s by blast
qed

subsection \<open>Byte arrays into the engine\<close>

fun element_bytes :: "jobj option \<Rightarrow> u8 list option" where
  "element_bytes None = Some []"
| "element_bytes (Some (JvBytes bs)) = Some bs"
| "element_bytes _ = None"

definition copied_buffer :: "u8 list \<Rightarrow> nat list \<Rightarrow> array_buffer" where
  "copied_buffer bs vs = \<lparr>byte_length = length bs, max_byte_length = None, detached = False, shared = False,
     ab_data = Some (if bs = [] then [0] else bs), js_free_func = True, array_list = vs\<rparr>"

definition int8_view :: "nat \<Rightarrow> nat \<Rightarrow> typed_array" where
  "int8_view b n = \<lparr>ta_class = INT8_ARRAY, ta_buffer = b, ta_offset = 0, ta_length = n, track_rab = False,
     ta_count = n, ta_ptr = Some 0\<rparr>"

text \<open>The heap with the copy of a byte array and an \<open>Int8Array\<close> over it.\<close>

definition add_int8_array :: "u8 list \<Rightarrow> js_heap \<Rightarrow> js_heap" where
  "add_int8_array bs h =
     h\<lparr>buffers := buffers h @ [copied_buffer bs [length (views h)]],
       views := views h @ [int8_view (length (buffers h)) (length bs)]\<rparr>"

lemma JS_NewArrayBufferCopy_ok:
  assumes "allocs h = []" "length bs \<le> INT32_MAX"
  shows "JS_NewArrayBufferCopy (if bs = [] then None else Some bs) (length bs) h
    = Some (Inr (length (buffers h)), h\<lparr>buffers := buffers h @ [copied_buffer bs []]\<rparr>)"
  using assms
  by (cases bs) (simp_all add: JS_NewArrayBufferCopy_def js_array_buffer_constructor3_def js_create_from_ctor_def no_ctor_def
      and_then_def return_def halloc_def copied_buffer_def copy_to_def)

lemma js_buffer_copy_ok:
  assumes "element_bytes e = Some bs" "allocs (heap w) = []" "length bs \<le> INT32_MAX" "java_exception w = None"
  shows "js_buffer_copy vm e w =
    Some (JObject (RBuffer (length (buffers (heap w)))),
      own (JObject (RBuffer (length (buffers (heap w)))))
        (w\<lparr>heap := (heap w)\<lparr>buffers := buffers (heap w) @ [copied_buffer bs []]\<rparr>\<rparr>))"
  using assms JS_NewArrayBufferCopy_ok[OF assms(2,3)]
  by (cases e rule: element_bytes.cases; cases bs)
    (simp_all add: js_buffer_copy_def new_ref_def on_heap_def GetByteArrayElements_def jni_def
      ReleaseByteArrayElements_def own_def)

lemma new_int8_array_ok:
  assumes "b < length (buffers (heap w))" "buffers (heap w) ! b = copied_buffer bs []" "allocs (heap w) = []"
  shows "new_int8_array vm (JObject (RBuffer b)) w =
    Some (JObject (RTyped (length (views (heap w)))),
      own (JObject (RTyped (length (views (heap w)))))
        (w\<lparr>heap := (heap w)\<lparr>buffers := (buffers (heap w))[b := copied_buffer bs [length (views (heap w))]],
                           views := views (heap w) @ [int8_view b (length bs)]\<rparr>\<rparr>))"
  using assms
  by (simp add: new_int8_array_def new_ref_def on_heap_def JS_NewTypedArray_def js_typed_array_constructor_def
      js_create_from_ctor_def no_ctor_def and_then_def return_def halloc_def JS_ToIndex_def MAX_SAFE_INTEGER_def
      elem_size_def array_buffer_is_resizable_def typed_array_init_def copied_buffer_def int8_view_def Let_def)

text \<open>One turn of the loop of \<open>toJsInt8ArrayArray\<close>, at the end of the new array.\<close>

lemma JS_SetPropertyUint32_push:
  assumes "a < length (arrays w)" "arrays w ! a = \<lparr>fast_values = vs, array_length = length vs\<rparr>"
    "vm_extensible vm a (host w)" "mem_ok (mem w)" "v \<in># owned w" "JS_VALUE_HAS_REF_COUNT v"
  obtains m' where "mem_ok m'"
    "JS_SetPropertyUint32 vm (JObject (RArray a)) (length vs) v w =
      Some (1, w\<lparr>owned := owned w - {#v#}, arrays := (arrays w)[a := \<lparr>fast_values = vs @ [v], array_length = Suc (length vs)\<rparr>], mem := m'\<rparr>)"
proof -
  obtain ok m' where r: "js_realloc (mem w) = (ok, m')" by fastforce
  then have "ok" "mem_ok m'" using js_realloc_spec(2)[OF r assms(4)] by simp_all
  then show thesis using that[of m'] assms r by (simp add: JS_SetPropertyUint32_def JS_FreeValue_def)
qed

definition int8_refs :: "nat \<Rightarrow> nat \<Rightarrow> jsval list" where
  "int8_refs v n = map (\<lambda>i. JObject (RTyped i)) [v..<v + n]"

lemma int8_refs_Suc: "JObject (RTyped v) # int8_refs (Suc v) n = int8_refs v (Suc n)"
  by (simp add: int8_refs_def upt_rec[of v])

lemma length_int8_refs [simp]: "length (int8_refs v n) = n"
  by (simp add: int8_refs_def)

lemma js_int8_arrays_ok:
  assumes "map element_bytes es = map Some bss" "allocs (heap w) = []" "\<forall>bs\<in>set bss. length bs \<le> INT32_MAX"
    "java_exception w = None" "mem_ok (mem w)" "a < length (arrays w)"
    "arrays w ! a = \<lparr>fast_values = vs, array_length = length vs\<rparr>" "vm_extensible vm a (host w)"
  shows "\<exists>m'. mem_ok m' \<and> js_int8_arrays vm (JObject (RArray a)) (length vs) es w =
    Some (w\<lparr>heap := fold add_int8_array bss (heap w), mem := m',
            arrays := (arrays w)[a := \<lparr>fast_values = vs @ int8_refs (length (views (heap w))) (length bss),
                                       array_length = length vs + length bss\<rparr>]\<rparr>)"
  using assms
proof (induction es arbitrary: w vs bss)
  case Nil
  have "(arrays w)[a := \<lparr>fast_values = vs, array_length = length vs\<rparr>] = arrays w"
    using list_update_id[of "arrays w" a] by (simp only: Nil.prems(7))
  moreover have "bss = []" using Nil.prems(1) by simp
  ultimately show ?case using Nil.prems(5) by (intro exI[of _ "mem w"]) (simp add: int8_refs_def)
next
  case (Cons e es)
  obtain bs bss' where bss: "bss = bs # bss'" "element_bytes e = Some bs" "map element_bytes es = map Some bss'"
    using Cons.prems(1) by (cases bss) auto
  define h1 where "h1 = (heap w)\<lparr>buffers := buffers (heap w) @ [copied_buffer bs []]\<rparr>"
  define b where "b = length (buffers (heap w))"
  define v where "v = length (views (heap w))"
  define h2 where "h2 = add_int8_array bs (heap w)"
  define w1 where "w1 = own (JObject (RBuffer b)) (w\<lparr>heap := h1\<rparr>)"
  have 1: "js_buffer_copy vm e w = Some (JObject (RBuffer b), w1)"
    using js_buffer_copy_ok[OF bss(2) Cons.prems(2) _ Cons.prems(4)] Cons.prems(3) bss(1)
    by (simp add: w1_def h1_def b_def)
  have h1: "b < length (buffers h1)" "buffers h1 ! b = copied_buffer bs []" "allocs h1 = []" "length (views h1) = v"
    using Cons.prems(2) by (simp_all add: h1_def b_def v_def)
  have h2: "h1\<lparr>buffers := (buffers h1)[b := copied_buffer bs [v]], views := views h1 @ [int8_view b (length bs)]\<rparr> = h2"
    by (simp add: h1_def h2_def add_int8_array_def b_def v_def)
  define w2 where "w2 = own (JObject (RTyped v)) (w1\<lparr>heap := h2\<rparr>)"
  have "heap w1 = h1" by (simp add: w1_def own_def)
  then have 2: "new_int8_array vm (JObject (RBuffer b)) w1 = Some (JObject (RTyped v), w2)"
    using new_int8_array_ok[of b w1 bs vm] h1 h2 by (simp add: w2_def)
  define w3 where "w3 = w\<lparr>heap := h2, owned := owned w + {#JObject (RTyped v)#}\<rparr>"
  have 3: "JS_FreeValue (JObject (RBuffer b)) w2 = Some w3"
    by (simp add: w2_def w1_def w3_def own_def JS_FreeValue_def)
  obtain m' where m: "mem_ok m'" and 4: "JS_SetPropertyUint32 vm (JObject (RArray a)) (length vs) (JObject (RTyped v)) w3 =
      Some (1, w3\<lparr>owned := owned w3 - {#JObject (RTyped v)#},
                  arrays := (arrays w3)[a := \<lparr>fast_values = vs @ [JObject (RTyped v)], array_length = Suc (length vs)\<rparr>], mem := m'\<rparr>)"
  proof (rule JS_SetPropertyUint32_push[of a w3 vs vm "JObject (RTyped v)"])
    show "a < length (arrays w3)" using Cons.prems(6) by (simp add: w3_def)
    show "arrays w3 ! a = \<lparr>fast_values = vs, array_length = length vs\<rparr>" using Cons.prems(7) by (simp add: w3_def)
    show "vm_extensible vm a (host w3)" using Cons.prems(8) by (simp add: w3_def)
    show "mem_ok (mem w3)" using Cons.prems(5) by (simp add: w3_def)
  qed (simp_all add: w3_def)
  define w4 where "w4 = w\<lparr>heap := h2, mem := m',
      arrays := (arrays w)[a := \<lparr>fast_values = vs @ [JObject (RTyped v)], array_length = Suc (length vs)\<rparr>]\<rparr>"
  have w4: "w3\<lparr>owned := owned w3 - {#JObject (RTyped v)#},
      arrays := (arrays w3)[a := \<lparr>fast_values = vs @ [JObject (RTyped v)], array_length = Suc (length vs)\<rparr>], mem := m'\<rparr> = w4"
    by (simp add: w3_def w4_def)
  have 5: "js_int8_arrays vm (JObject (RArray a)) (length vs) (e # es) w = js_int8_arrays vm (JObject (RArray a)) (Suc (length vs)) es w4"
    using Cons.prems(4) by (simp add: jni_def 1 2 3 4[unfolded w4])
  have l: "length (vs @ [JObject (RTyped v)]) = Suc (length vs)" by simp
  have "\<exists>m'. mem_ok m' \<and> js_int8_arrays vm (JObject (RArray a)) (length (vs @ [JObject (RTyped v)])) es w4 =
    Some (w4\<lparr>heap := fold add_int8_array bss' (heap w4), mem := m',
            arrays := (arrays w4)[a := \<lparr>fast_values = (vs @ [JObject (RTyped v)]) @ int8_refs (length (views (heap w4))) (length bss'),
                                       array_length = length (vs @ [JObject (RTyped v)]) + length bss'\<rparr>]\<rparr>)"
  proof (rule Cons.IH[OF bss(3)])
    show "allocs (heap w4) = []" using Cons.prems(2) by (simp add: w4_def h2_def add_int8_array_def)
    show "\<forall>bs\<in>set bss'. length bs \<le> INT32_MAX" using Cons.prems(3) bss(1) by simp
    show "java_exception w4 = None" using Cons.prems(4) by (simp add: w4_def)
    show "mem_ok (mem w4)" using m by (simp add: w4_def)
    show "a < length (arrays w4)" using Cons.prems(6) by (simp add: w4_def)
    show "arrays w4 ! a = \<lparr>fast_values = vs @ [JObject (RTyped v)], array_length = length (vs @ [JObject (RTyped v)])\<rparr>"
      using Cons.prems(6) by (simp add: w4_def)
    show "vm_extensible vm a (host w4)" using Cons.prems(8) by (simp add: w4_def)
  qed
  moreover have "length (views (heap w4)) = Suc v" by (simp add: w4_def h2_def add_int8_array_def v_def)
  ultimately show ?case
    using int8_refs_Suc[of v "length bss'"] unfolding 5 bss(1) l by (simp add: w4_def h2_def v_def)
qed

lemma toJsInt8ArrayArray_ok:
  assumes "map element_bytes es = map Some bss" "allocs (heap w) = []" "\<forall>bs\<in>set bss. length bs \<le> INT32_MAX"
    "java_exception w = None" "mem_ok (mem w)" "\<And>a h. vm_extensible vm a h"
  obtains m' where "mem_ok m'"
    "toJsInt8ArrayArray vm (Some (JvArray es)) w =
      Some (JObject (RArray (length (arrays w))),
        own (JObject (RArray (length (arrays w))))
          (w\<lparr>heap := fold add_int8_array bss (heap w), mem := m',
             arrays := arrays w @ [\<lparr>fast_values = int8_refs (length (views (heap w))) (length bss), array_length = length bss\<rparr>]\<rparr>))"
proof -
  let ?a = "length (arrays w)" and ?v = "JObject (RArray (length (arrays w)))"
  obtain ok m1 where r: "js_malloc (mem w) = (ok, m1)" by fastforce
  have m1: "ok" "mem_ok m1" using js_malloc_spec(2)[OF r assms(5)] by simp_all
  define w1 where "w1 = own ?v (w\<lparr>mem := m1, arrays := arrays w @ [\<lparr>fast_values = [], array_length = 0\<rparr>]\<rparr>)"
  have 1: "JS_NewArray vm w = Some (?v, w1)" by (simp add: JS_NewArray_def r m1 w1_def Let_def)
  have w1: "heap w1 = heap w" "java_exception w1 = None" "mem w1 = m1" "?a < length (arrays w1)"
    "arrays w1 ! ?a = \<lparr>fast_values = [], array_length = length ([] :: jsval list)\<rparr>"
    using assms(4) by (simp_all add: w1_def own_def nth_append)
  obtain m' where m': "mem_ok m'" "js_int8_arrays vm ?v (length ([] :: jsval list)) es w1 =
    Some (w1\<lparr>heap := fold add_int8_array bss (heap w1), mem := m',
            arrays := (arrays w1)[?a := \<lparr>fast_values = [] @ int8_refs (length (views (heap w1))) (length bss),
                                       array_length = length ([] :: jsval list) + length bss\<rparr>]\<rparr>)"
    using js_int8_arrays_ok[OF assms(1) _ assms(3) w1(2) _ w1(4,5) assms(6)] assms(2) m1(2) w1(1,3) by metis
  then have "toJsInt8ArrayArray vm (Some (JvArray es)) w =
      Some (?v, w1\<lparr>heap := fold add_int8_array bss (heap w1), mem := m',
            arrays := (arrays w1)[?a := \<lparr>fast_values = int8_refs (length (views (heap w1))) (length bss), array_length = length bss\<rparr>]\<rparr>)"
    using w1(2) by (simp add: toJsInt8ArrayArray_def 1 jni_def)
  then show thesis using that[OF m'(1)] by (simp add: w1_def own_def)
qed

subsection \<open>Byte arrays out of the engine\<close>

text \<open>The typed array \<open>v\<close> shows the bytes \<open>bs\<close>, and the engine tells the embedder so.\<close>

definition view_shows :: "js_heap \<Rightarrow> nat \<Rightarrow> u8 list \<Rightarrow> bool" where
  "view_shows h v bs \<longleftrightarrow>
     (\<exists>b off len bpe d size. JS_GetTypedArrayBuffer v h = Some (Inr (b, off, len, bpe), h)
        \<and> JS_GetArrayBuffer b h = Some (Inr (Some d, size), h)
        \<and> off + len \<le> length d \<and> len \<le> INT32_MAX \<and> bs = take len (drop off d))"

lemma view_shows_length: "view_shows h v bs \<Longrightarrow> length bs \<le> INT32_MAX"
  by (auto simp: view_shows_def)

lemma add_int8_array_shows:
  assumes "length bs \<le> INT32_MAX"
  shows "view_shows (add_int8_array bs h) (length (views h)) bs"
  using assms
  by (simp add: view_shows_def add_int8_array_def JS_GetTypedArrayBuffer_def get_typed_array_def int8_view_def and_then_def
      return_def typed_array_is_oob_def copied_buffer_def JS_GetArrayBuffer_def js_get_array_buffer_def elem_size_def Let_def)

lemma add_int8_array_keeps:
  assumes "view_shows h v bs"
  shows "view_shows (add_int8_array x h) v bs"
proof -
  obtain b off len bpe d size where s: "JS_GetTypedArrayBuffer v h = Some (Inr (b, off, len, bpe), h)"
    "JS_GetArrayBuffer b h = Some (Inr (Some d, size), h)" "off + len \<le> length d" "len \<le> INT32_MAX" "bs = take len (drop off d)"
    using assms unfolding view_shows_def by blast
  have v: "v < length (views h)" "b = ta_buffer (views h ! v)"
    using s(1) by (auto simp: JS_GetTypedArrayBuffer_def get_typed_array_def and_then_def return_def throw_def split: if_splits)
  have b: "b < length (buffers h)"
    using s(2) by (auto simp: JS_GetArrayBuffer_def js_get_array_buffer_def and_then_def return_def throw_def split: if_splits)
  let ?h = "add_int8_array x h"
  have n: "views ?h ! v = views h ! v" "buffers ?h ! b = buffers h ! b" "v < length (views ?h)" "b < length (buffers ?h)"
    using v(1) b by (simp_all add: add_int8_array_def nth_append)
  have o: "typed_array_is_oob v ?h = typed_array_is_oob v h"
    using n v(2) by (simp add: typed_array_is_oob_def)
  have "JS_GetTypedArrayBuffer v ?h = Some (Inr (b, off, len, bpe), ?h)"
    using s(1) v(1) n o by (auto simp: JS_GetTypedArrayBuffer_def get_typed_array_def and_then_def return_def throw_def split: if_splits)
  moreover have "JS_GetArrayBuffer b ?h = Some (Inr (Some d, size), ?h)"
    using s(2) b n by (auto simp: JS_GetArrayBuffer_def js_get_array_buffer_def and_then_def return_def throw_def split: if_splits)
  ultimately show ?thesis using s(3-5) unfolding view_shows_def by blast
qed

lemma fold_add_keeps: "view_shows h v bs \<Longrightarrow> view_shows (fold add_int8_array bss h) v bs"
  by (induction bss arbitrary: h) (simp_all add: add_int8_array_keeps)

lemma fold_add_shows:
  assumes "\<forall>bs\<in>set bss. length bs \<le> INT32_MAX"
  shows "list_all2 (view_shows (fold add_int8_array bss h)) [length (views h)..<length (views h) + length bss] bss"
  using assms
proof (induction bss arbitrary: h)
  case (Cons bs bss)
  have "length (views (add_int8_array bs h)) = Suc (length (views h))" by (simp add: add_int8_array_def)
  then have "list_all2 (view_shows (fold add_int8_array bss (add_int8_array bs h)))
      [Suc (length (views h))..<Suc (length (views h)) + length bss] bss"
    using Cons.IH[of "add_int8_array bs h"] Cons.prems by simp
  moreover have "view_shows (fold add_int8_array bss (add_int8_array bs h)) (length (views h)) bs"
    using Cons.prems by (intro fold_add_keeps add_int8_array_shows) simp
  moreover have "[length (views h)..<length (views h) + length (bs # bss)]
      = length (views h) # [Suc (length (views h))..<Suc (length (views h)) + length bss]"
    by (simp add: upt_conv_Cons del: upt_Suc)
  ultimately show ?case by (simp del: upt_Suc)
qed simp

lemma allocs_fold_add [simp]: "allocs (fold add_int8_array bss h) = allocs h"
  by (induction bss arbitrary: h) (simp_all add: add_int8_array_def)

lemma java_byte_array_ok:
  assumes "a < length (arrays w)" "i < length (fast_values (arrays w ! a))" "fast_values (arrays w ! a) ! i = JObject (RTyped v)"
    "i \<le> INT32_MAX" "view_shows (heap w) v bs" "java_exception w = None"
  shows "java_byte_array vm (JObject (RArray a)) i w = Some (Some bs, w)"
proof -
  obtain b off len bpe d size where s: "JS_GetTypedArrayBuffer v (heap w) = Some (Inr (b, off, len, bpe), heap w)"
    "JS_GetArrayBuffer b (heap w) = Some (Inr (Some d, size), heap w)" "off + len \<le> length d" "len \<le> INT32_MAX" "bs = take len (drop off d)"
    using assms(5) unfolding view_shows_def by blast
  let ?e = "JObject (RTyped v)" and ?b = "JObject (RBuffer b)"
  have 1: "JS_GetPropertyUint32 vm (JObject (RArray a)) i w = Some (?e, own ?e w)"
    using assms(1-4) by (simp add: JS_GetPropertyUint32_def JS_GetProperty_def JS_GetPropertyInternal_def find_own_property_def
        JS_DupValue_def JS_ATOM_MAX_INT_def INT32_MAX_def)
  have 2: "get_typed_array_buffer vm ?e (own ?e w) = Some (Some (b, off, len), own ?b (own ?e w))"
    using s(1) by (simp add: get_typed_array_buffer_def on_heap_def own_def)
  have 3: "on_heap vm x (JS_GetArrayBuffer b) (own ?b (own ?e w)) = Some (Some (Some d, size), own ?b (own ?e w))" for x
    using s(2) by (simp add: on_heap_def own_def)
  have 4: "read_bytes (Some d) off len = Some bs" using s(3,5) by (simp add: read_bytes_def)
  have j: "java_exception (own v w') = java_exception w'" for v and w' :: "'a world" by (simp add: own_def)
  have l: "length bs = len" using s(3,5) by simp
  have 5: "copy_to (replicate len 0) 0 bs = Some bs" using l by (simp add: copy_to_def)
  show ?thesis
    unfolding java_byte_array_def
    using assms(6) s(4) l by (auto simp: 1 2 3 4 5 j NewByteArray_def jni_def SetByteArrayRegion_def js_refs.release_acquire)
qed

lemma java_byte_arrays_ok:
  assumes "a < length (arrays w)" "drop i (fast_values (arrays w ! a)) = map (\<lambda>v. JObject (RTyped v)) vs"
    "list_all2 (view_shows (heap w)) vs bss" "java_exception w = None" "length result = i + length vs" "i + length vs \<le> INT32_MAX"
  shows "java_byte_arrays vm (JObject (RArray a)) i (length vs) result w
    = Some (Some (JvArray (take i result @ map (\<lambda>bs. Some (JvBytes bs)) bss)), w)"
  using assms
proof (induction vs arbitrary: i bss result)
  case Nil
  then show ?case by simp
next
  case (Cons v vs)
  obtain bs bss' where bss: "bss = bs # bss'" "view_shows (heap w) v bs" "list_all2 (view_shows (heap w)) vs bss'"
    using Cons.prems(3) by (cases bss) auto
  let ?fv = "fast_values (arrays w ! a)"
  have i: "i < length ?fv" using Cons.prems(2) by (metis drop_eq_Nil list.distinct(1) list.simps(9) not_le)
  then have e: "?fv ! i = JObject (RTyped v)" "drop (Suc i) ?fv = map (\<lambda>v. JObject (RTyped v)) vs"
    using Cons.prems(2) by (simp_all add: Cons_nth_drop_Suc[symmetric])
  have 1: "java_byte_array vm (JObject (RArray a)) i w = Some (Some bs, w)"
    by (rule java_byte_array_ok) (use Cons.prems i e bss in simp_all)
  have 2: "wr result i (Some (JvBytes bs)) = Some (result[i := Some (JvBytes bs)])"
    using Cons.prems(5) by (simp add: wr_def)
  have "java_byte_arrays vm (JObject (RArray a)) (Suc i) (length vs) (result[i := Some (JvBytes bs)]) w =
      Some (Some (JvArray (take (Suc i) (result[i := Some (JvBytes bs)]) @ map (\<lambda>bs. Some (JvBytes bs)) bss')), w)"
    by (rule Cons.IH) (use Cons.prems e bss in simp_all)
  moreover have "take (Suc i) (result[i := Some (JvBytes bs)]) = take i result @ [Some (JvBytes bs)]"
    using Cons.prems(5) by (simp add: take_Suc_conv_app_nth)
  ultimately show ?case by (simp add: 1 2 bss(1))
qed

lemma atom_names [simp]: "JS_NewAtomStr ''length'' = AName ''length''" "JS_NewAtomStr ''message'' = AName ''message''"
  "JS_NewAtomStr ''stack'' = AName ''stack''"
  by (simp_all add: JS_NewAtomStr_def is_digit_def)

lemma find_own_atoms [simp]: "find_own_property vm r p (hold_atom a w) = find_own_property vm r p w"
  by (simp add: find_own_property_def hold_atom_def split: jsref.splits atom.splits)

lemma JS_GetPropertyStr_own:
  assumes "JS_NewAtomStr name = AName name"
    "find_own_property vm r (AName name) w = Some v"
  shows "JS_GetPropertyStr vm (JObject r) name w = Some (v, own v w)"
proof -
  have "own v (hold_atom (AName name) w) = hold_atom (AName name) (own v w)"
    by (simp add: own_def hold_atom_def)
  then show ?thesis
    by (simp add: JS_GetPropertyStr_def JS_NewAtom_hold assms JS_GetProperty_def JS_GetPropertyInternal_def JS_DupValue_def
        js_atoms.release_acquire)
qed

lemma toJavaByteArrayArray_ok:
  assumes "a < length (arrays w)" "arrays w ! a = \<lparr>fast_values = map (\<lambda>v. JObject (RTyped v)) vs, array_length = length vs\<rparr>"
    "list_all2 (view_shows (heap w)) vs bss" "java_exception w = None" "length vs \<le> INT32_MAX"
  shows "toJavaByteArrayArray vm (JObject (RArray a)) w = Some (Some (JvArray (map (\<lambda>bs. Some (JvBytes bs)) bss)), w)"
proof -
  have 1: "JS_GetPropertyStr vm (JObject (RArray a)) ''length'' w = Some (JInt (word_of_nat (length vs)), w)"
    using JS_GetPropertyStr_own[of "''length''" vm "RArray a" w "JInt (word_of_nat (length vs))"] assms(1,2,5)
    by (simp add: find_own_property_def JS_NewUint32_def own_def)
  have 2: "java_byte_arrays vm (JObject (RArray a)) 0 (length vs) (replicate (length vs) None) w =
      Some (Some (JvArray (map (\<lambda>bs. Some (JvBytes bs)) bss)), w)"
    using java_byte_arrays_ok[of a w 0 vs bss "replicate (length vs) None" vm] assms by simp
  show ?thesis
    using assms(4,5) by (simp add: toJavaByteArrayArray_def 1 JS_ToUint32_def JS_FreeValue_def jni_def NewObjectArray_def
        sint_small unat_small 2)
qed

end
