(* ===== verification/CallSpec.thy ===== *)
theory CallSpec
  imports ConvertSpec
begin

text \<open>
  Exceptions across the bridge and the two directions of a call, when no allocation fails.
\<close>

subsection \<open>Error objects\<close>

lemma error_string_made:
  assumes "length bs \<le> JS_STRING_LEN_MAX"
  obtains s where "error_string vm bs = JString s" "str_units s = utf8_units (cstr bs)"
proof -
  let ?m = "\<lparr>outcomes = [], junk = 0, live = 0\<rparr> :: memstate"
  have l: "length (cstr bs) \<le> JS_STRING_LEN_MAX" using assms length_cstr[of bs] by simp
  have m: "mem_ok ?m" by (simp add: mem_ok_def)
  have "\<exists>s m'. JS_NewStringLen (vm_slack vm) (cstr bs) ?m = Some (Inr s, m') \<and> str_units s = utf8_units (cstr bs)"
  proof (cases "JS_NewStringLen (vm_slack vm) (cstr bs) ?m")
    case None
    then show ?thesis using JS_NewStringLen_made[of "cstr bs" "vm_slack vm" ?m] l by (simp add: string_made_def JS_STRING_LEN_MAX_def)
  next
    case (Some r)
    then show ?thesis using JS_NewStringLen_made[of "cstr bs" "vm_slack vm" ?m] l m
      by (cases r; cases "fst r") (auto simp: string_made_def)
  qed
  then show thesis using that by (auto simp: error_string_def JsString.JS_NewString_def)
qed

text \<open>The next error object, with its message and the backtrace.\<close>

definition thrown_error :: "'h vm \<Rightarrow> native_error \<Rightarrow> string \<Rightarrow> 'h world \<Rightarrow> js_error" where
  "thrown_error vm num text w =
     \<lparr>error_num = num, error_message = Some (error_string vm (cstr (bytes_of (take 255 text)))),
      error_stack = (if in_out_of_memory w then None else Some (error_string vm (cstr (vm_backtrace vm (host w)))))\<rparr>"

lemma JS_ThrowError_ok:
  assumes "mem_ok (mem w)"
  obtains m' where "mem_ok m'"
    "JS_ThrowError vm num text w = Some (JException,
       w\<lparr>mem := m', errors := errors w @ [thrown_error vm num text w],
         current_exception := JObject (RError (length (errors w))), uncatchable := False\<rparr>)"
proof -
  obtain ok m' where r: "js_malloc (mem w) = (ok, m')" by fastforce
  then have m: "ok" "mem_ok m'" using js_malloc_spec(2)[OF r assms] by simp_all
  have "JS_ThrowError vm num text w = Some (JException,
       w\<lparr>mem := m', errors := errors w @ [thrown_error vm num text w],
         current_exception := JObject (RError (length (errors w))), uncatchable := False\<rparr>)"
    by (simp add: JS_ThrowError_def JS_ThrowError2_def r m JS_Throw_def JS_FreeValue_def own_def thrown_error_def Let_def)
  then show thesis using that m by blast
qed

text \<open>The strings of an error as Java gets them.\<close>

definition java_text :: "'h vm \<Rightarrow> jsstr \<Rightarrow> jobj option" where
  "java_text vm s = Some (JvString (jvm_new_string vm (cstr (to_cstr_wide False (str_units s)))))"

lemma java_text_units: "str_units s = str_units s' \<Longrightarrow> java_text vm s = java_text vm s'"
  by (simp add: java_text_def)

text \<open>What \<open>throwJsException\<close> throws for an error with the message and the stack.\<close>

definition java_exception_of :: "'h vm \<Rightarrow> jobj option \<Rightarrow> jsstr \<Rightarrow> jsstr \<Rightarrow> jobj" where
  "java_exception_of vm cause message stack =
     (case cause of Some e \<Rightarrow> e | None \<Rightarrow> JvQuickJsException (java_text vm message) (java_text vm stack))"

lemma throwJsException_error:
  assumes "current_exception w = JObject (RError e)" "e < length (errors w)"
    "error_message (errors w ! e) = Some (JString ms)" "error_stack (errors w ! e) = Some (JString ss)"
    "3 * str_length ms \<le> INT32_MAX" "3 * str_length ss \<le> INT32_MAX" "mem_ok (mem w)" "java_exception w = None"
    "\<And>p. user_opaque w = Some p \<Longrightarrow> p \<in># global_refs w"
  obtains m' where "mem_ok m'"
    "throwJsException vm w = Some (w\<lparr>current_exception := JUninitialized, mem := m', elements := Suc (Suc (elements w)), user_opaque := None,
       global_refs := global_refs w - (case user_opaque w of None \<Rightarrow> {#} | Some p \<Rightarrow> {#p#}),
       js_stacks := js_stacks w @ (case user_opaque w of None \<Rightarrow> [] | Some p \<Rightarrow> [(p, java_text vm ss)]),
       java_exception := Some (java_exception_of vm (user_opaque w) ms ss)\<rparr>)"
proof -
  let ?x = "JObject (RError e)" and ?m = "JString ms" and ?s = "JString ss"
  define w0 where "w0 = own ?x (w\<lparr>current_exception := JUninitialized\<rparr>)"
  define w1 where "w1 = own ?s (own ?m w0)"
  have 1: "JS_GetException w = Some (?x, w0)" by (simp add: JS_GetException_def assms(1) w0_def Let_def)
  have 2: "JS_GetPropertyStr vm ?x ''message'' w0 = Some (?m, own ?m w0)"
    by (rule JS_GetPropertyStr_own) (use assms(2,3) in \<open>simp_all add: find_own_property_def w0_def own_def\<close>)
  have 3: "JS_GetPropertyStr vm ?x ''stack'' (own ?m w0) = Some (?s, w1)"
    unfolding w1_def
    by (rule JS_GetPropertyStr_own) (use assms(2,4) in \<open>simp_all add: find_own_property_def w0_def own_def\<close>)
  have w1: "mem w1 = mem w" "java_exception w1 = None" "elements w1 = elements w"
    using assms(8) by (simp_all add: w1_def w0_def own_def)
  obtain m1 where m1: "mem_ok m1" "toJavaString vm ?m w1 = Some (java_text vm ms, w1\<lparr>mem := m1, elements := Suc (elements w1)\<rparr>)"
    using toJavaString_string[of w1 ms vm] assms(5,7) w1 unfolding java_text_def by metis
  define w2 where "w2 = own ?s w0\<lparr>mem := m1, elements := Suc (elements w)\<rparr>"
  have 4: "JS_FreeValue ?m (w1\<lparr>mem := m1, elements := Suc (elements w1)\<rparr>) = Some w2"
    by (simp add: w1_def w2_def w0_def own_def JS_FreeValue_def)
  have w2: "mem w2 = m1" "java_exception w2 = None" using assms(8) by (simp_all add: w2_def w0_def own_def)
  obtain m2 where m2: "mem_ok m2" "toJavaString vm ?s w2 = Some (java_text vm ss, w2\<lparr>mem := m2, elements := Suc (elements w2)\<rparr>)"
    using toJavaString_string[of w2 ss vm] assms(6) m1(1) w2 unfolding java_text_def by metis
  define w3 where "w3 = w0\<lparr>mem := m2, elements := Suc (Suc (elements w))\<rparr>"
  have 5: "JS_FreeValue ?s (w2\<lparr>mem := m2, elements := Suc (elements w2)\<rparr>) = Some w3"
    by (simp add: w2_def w3_def w0_def own_def JS_FreeValue_def)
  define w4 where "w4 = w\<lparr>current_exception := JUninitialized, mem := m2, elements := Suc (Suc (elements w))\<rparr>"
  have 6: "JS_FreeValue ?x w3 = Some w4" by (simp add: w4_def w3_def w0_def own_def JS_FreeValue_def)
  have w4: "user_opaque w4 = user_opaque w" "java_exception w4 = None" using assms(8) by (simp_all add: w4_def)
  show thesis
  proof (rule that[OF m2(1)])
    show "throwJsException vm w = Some (w\<lparr>current_exception := JUninitialized, mem := m2, elements := Suc (Suc (elements w)), user_opaque := None,
       global_refs := global_refs w - (case user_opaque w of None \<Rightarrow> {#} | Some p \<Rightarrow> {#p#}),
       js_stacks := js_stacks w @ (case user_opaque w of None \<Rightarrow> [] | Some p \<Rightarrow> [(p, java_text vm ss)]),
       java_exception := Some (java_exception_of vm (user_opaque w) ms ss)\<rparr>)"
      using assms(8,9) w4
      by (cases "user_opaque w") (simp_all add: throwJsException_def 1 2 3 m1(2) 4 m2(2) 5 6 JS_GetContextOpaque_def
          JS_SetContextOpaque_def jni_def DeleteGlobalRef_def Throw_def java_exception_of_def, simp_all add: w4_def)
  qed
qed


subsection \<open>Calls out of the guest\<close>

text \<open>The arguments of a call: a short string and an array of typed arrays that show the bytes.\<close>

definition call_arguments :: "'h world \<Rightarrow> jsstr \<Rightarrow> nat \<Rightarrow> u8 list list \<Rightarrow> bool" where
  "call_arguments w s a bss \<longleftrightarrow>
     3 * str_length s \<le> INT32_MAX \<and> a < length (arrays w) \<and>
     (\<exists>vs. arrays w ! a = \<lparr>fast_values = map (\<lambda>v. JObject (RTyped v)) vs, array_length = length vs\<rparr>
         \<and> length vs \<le> INT32_MAX \<and> list_all2 (view_shows (heap w)) vs bss)"

definition java_buffers :: "u8 list list \<Rightarrow> jobj option" where
  "java_buffers bss = Some (JvArray (map (\<lambda>bs. Some (JvBytes bs)) bss))"

lemma Outbound_call_prefix:
  assumes "runtime_opaque w" "JS_GetOpaque this w = Some channel" "call_arguments w s a bss" "mem_ok (mem w)" "java_exception w = None"
  obtains m1 where "mem_ok m1"
    "Outbound_call vm this [JString s, JObject (RArray a)] w =
       do {
         (javaResult, w) \<leftarrow> jvm_call vm (fst channel) ''call'' [java_text vm s, java_buffers bss]
                            (w\<lparr>mem := m1, local_frames := Suc (local_frames w), elements := Suc (elements w)\<rparr>);
         outbound_result (if \<not> ExceptionCheck w then toJsString vm javaResult w else throwJavaExceptionFromJs vm w)
       }"
proof -
  obtain vs where vs: "3 * str_length s \<le> INT32_MAX" "a < length (arrays w)"
    "arrays w ! a = \<lparr>fast_values = map (\<lambda>v. JObject (RTyped v)) vs, array_length = length vs\<rparr>"
    "length vs \<le> INT32_MAX" "list_all2 (view_shows (heap w)) vs bss"
    using assms(3) unfolding call_arguments_def by blast
  define w0 where "w0 = w\<lparr>local_frames := Suc (local_frames w)\<rparr>"
  have w0: "mem w0 = mem w" "java_exception w0 = None" using assms(5) by (simp_all add: w0_def)
  obtain m1 where m1: "mem_ok m1" "toJavaString vm (JString s) w0 = Some (java_text vm s, w0\<lparr>mem := m1, elements := Suc (elements w0)\<rparr>)"
    using toJavaString_string[of w0 s vm] vs(1) assms(4) w0 unfolding java_text_def by metis
  define w1 where "w1 = w\<lparr>mem := m1, local_frames := Suc (local_frames w), elements := Suc (elements w)\<rparr>"
  have e: "w0\<lparr>mem := m1, elements := Suc (elements w0)\<rparr> = w1" by (simp add: w0_def w1_def)
  have 2: "toJavaByteArrayArray vm (JObject (RArray a)) w1 = Some (java_buffers bss, w1)"
    unfolding java_buffers_def
    by (rule toJavaByteArrayArray_ok) (use vs assms(5) in \<open>simp_all add: w1_def\<close>)
  have j: "java_exception w1 = None" using assms(5) by (simp add: w1_def)
  have "Outbound_call vm this [JString s, JObject (RArray a)] w =
       do {
         (javaResult, w) \<leftarrow> jvm_call vm (fst channel) ''call'' [java_text vm s, java_buffers bss] w1;
         outbound_result (if \<not> ExceptionCheck w then toJsString vm javaResult w else throwJavaExceptionFromJs vm w)
       }"
    using assms(1,2,5) j
    by (simp add: Outbound_call_def pad_arguments_def PushLocalFrame_def jni_def w0_def[symmetric] m1(2) e 2 ExceptionCheck_def
        CallObjectMethod_def) (simp add: java_buffers_def)
  then show thesis using that[OF m1(1)] unfolding w1_def by blast
qed

lemma throwJavaExceptionFromJs_ok:
  assumes "java_exception w = Some p" "mem_ok (mem w)"
  obtains m' where "mem_ok m'"
    "throwJavaExceptionFromJs vm w = Some (JException,
       w\<lparr>mem := m', java_exception := None, global_refs := global_refs w + {#p#}, user_opaque := Some p,
         errors := errors w @ [thrown_error vm JS_INTERNAL_ERROR ''Java Exception'' w],
         current_exception := JObject (RError (length (errors w))), uncatchable := False\<rparr>)"
proof -
  define w1 where "w1 = w\<lparr>java_exception := None, global_refs := global_refs w + {#p#}, user_opaque := Some p\<rparr>"
  have "mem_ok (mem w1)" using assms(2) by (simp add: w1_def)
  then obtain m' where m: "mem_ok m'"
    "JS_ThrowError vm JS_INTERNAL_ERROR ''Java Exception'' w1 = Some (JException,
       w1\<lparr>mem := m', errors := errors w1 @ [thrown_error vm JS_INTERNAL_ERROR ''Java Exception'' w1],
         current_exception := JObject (RError (length (errors w1))), uncatchable := False\<rparr>)"
    by (rule JS_ThrowError_ok)
  have "throwJavaExceptionFromJs vm w = JS_ThrowError vm JS_INTERNAL_ERROR ''Java Exception'' w1"
    by (simp add: throwJavaExceptionFromJs_def assms(1) ExceptionClear_def NewGlobalRef_def jni_def JS_SetContextOpaque_def
        JS_ThrowInternalError_def w1_def Let_def)
  then show thesis using that m by (simp add: w1_def thrown_error_def)
qed

text \<open>The Java method returns a string, or throws.\<close>

lemma Outbound_call_returns:
  assumes "runtime_opaque w" "JS_GetOpaque this w = Some channel" "call_arguments w s a bss" "mem_ok (mem w)" "java_exception w = None"
    "\<And>w. jvm_call vm (fst channel) ''call'' [java_text vm s, java_buffers bss] w = Some (Some (JvString r), w)"
    "length (jvm_get_bytes vm r) \<le> JS_STRING_LEN_MAX"
  obtains s' m' where "mem_ok m'" "str_units s' = utf8_units (cstr (jvm_get_bytes vm r))"
    "Outbound_call vm this [JString s, JObject (RArray a)] w = Some (JString s', own (JString s') (w\<lparr>mem := m', elements := Suc (elements w)\<rparr>))"
proof -
  obtain m1 where m1: "mem_ok m1" and eq: "Outbound_call vm this [JString s, JObject (RArray a)] w =
       do {
         (javaResult, w) \<leftarrow> jvm_call vm (fst channel) ''call'' [java_text vm s, java_buffers bss]
                            (w\<lparr>mem := m1, local_frames := Suc (local_frames w), elements := Suc (elements w)\<rparr>);
         outbound_result (if \<not> ExceptionCheck w then toJsString vm javaResult w else throwJavaExceptionFromJs vm w)
       }"
    by (rule Outbound_call_prefix[OF assms(1-5)])
  define w1 where "w1 = w\<lparr>mem := m1, local_frames := Suc (local_frames w), elements := Suc (elements w)\<rparr>"
  have w1: "mem_ok (mem w1)" "java_exception w1 = None" using m1 assms(5) by (simp_all add: w1_def)
  obtain s' m' where s': "mem_ok m'" "str_units s' = utf8_units (cstr (jvm_get_bytes vm r))"
    "toJsString vm (Some (JvString r)) w1 = Some (JString s', own (JString s') (w1\<lparr>mem := m'\<rparr>))"
    by (rule toJsString_ok[OF w1 assms(7)])
  have "Outbound_call vm this [JString s, JObject (RArray a)] w = Some (JString s', own (JString s') (w\<lparr>mem := m', elements := Suc (elements w)\<rparr>))"
    unfolding eq w1_def[symmetric] using w1(2) s'(3)
    by (simp add: assms(6) ExceptionCheck_def outbound_result_def PopLocalFrame_def own_def) (simp add: w1_def)
  then show thesis using that s' by blast
qed

lemma Outbound_call_throws:
  assumes "runtime_opaque w" "JS_GetOpaque this w = Some channel" "call_arguments w s a bss" "mem_ok (mem w)" "java_exception w = None"
    "\<And>w. jvm_call vm (fst channel) ''call'' [java_text vm s, java_buffers bss] w = Some (x, w\<lparr>java_exception := Some p\<rparr>)"
  obtains m' where "mem_ok m'"
    "Outbound_call vm this [JString s, JObject (RArray a)] w = Some (JException,
       w\<lparr>mem := m', elements := Suc (elements w), global_refs := global_refs w + {#p#}, user_opaque := Some p,
         errors := errors w @ [thrown_error vm JS_INTERNAL_ERROR ''Java Exception'' w],
         current_exception := JObject (RError (length (errors w))), uncatchable := False\<rparr>)"
proof -
  obtain m1 where m1: "mem_ok m1" and eq: "Outbound_call vm this [JString s, JObject (RArray a)] w =
       do {
         (javaResult, w) \<leftarrow> jvm_call vm (fst channel) ''call'' [java_text vm s, java_buffers bss]
                            (w\<lparr>mem := m1, local_frames := Suc (local_frames w), elements := Suc (elements w)\<rparr>);
         outbound_result (if \<not> ExceptionCheck w then toJsString vm javaResult w else throwJavaExceptionFromJs vm w)
       }"
    by (rule Outbound_call_prefix[OF assms(1-5)])
  define w1 where "w1 = w\<lparr>mem := m1, local_frames := Suc (local_frames w), elements := Suc (elements w), java_exception := Some p\<rparr>"
  have w1: "java_exception w1 = Some p" "mem_ok (mem w1)" using m1 by (simp_all add: w1_def)
  obtain m' where m': "mem_ok m'"
    "throwJavaExceptionFromJs vm w1 = Some (JException,
       w1\<lparr>mem := m', java_exception := None, global_refs := global_refs w1 + {#p#}, user_opaque := Some p,
         errors := errors w1 @ [thrown_error vm JS_INTERNAL_ERROR ''Java Exception'' w1],
         current_exception := JObject (RError (length (errors w1))), uncatchable := False\<rparr>)"
    by (rule throwJavaExceptionFromJs_ok[OF w1])
  have "Outbound_call vm this [JString s, JObject (RArray a)] w = outbound_result (throwJavaExceptionFromJs vm w1)"
    unfolding eq by (simp add: assms(6) ExceptionCheck_def w1_def)
  also have "... = Some (JException,
       w\<lparr>mem := m', elements := Suc (elements w), global_refs := global_refs w + {#p#}, user_opaque := Some p,
         errors := errors w @ [thrown_error vm JS_INTERNAL_ERROR ''Java Exception'' w],
         current_exception := JObject (RError (length (errors w))), uncatchable := False\<rparr>)"
    unfolding m'(2) using assms(5) by (simp add: outbound_result_def PopLocalFrame_def w1_def thrown_error_def)
  finally show thesis using that m'(1) by blast
qed


subsection \<open>Calls into the guest\<close>

text \<open>The global object has an object with a method \<open>call\<close> under the name, both data properties.\<close>

definition guest_object :: "'h vm \<Rightarrow> atom \<Rightarrow> nat \<Rightarrow> nat \<Rightarrow> bool" where
  "guest_object vm nameAtom g f \<longleftrightarrow>
     (\<forall>w. vm_get vm (JObject (ROther 0)) nameAtom w = Some (JObject (ROther g), own (JObject (ROther g)) w))
     \<and> (\<forall>w. vm_get vm (JObject (ROther g)) (AName ''call'') w = Some (JObject (ROther f), own (JObject (ROther f)) w))"

text \<open>The references that \<open>InboundCallChannel::call\<close> holds while the guest runs.\<close>

definition call_refs :: "nat \<Rightarrow> nat \<Rightarrow> jsstr \<Rightarrow> nat \<Rightarrow> jsval multiset" where
  "call_refs g f s a = {#JObject (ROther 0), JObject (ROther g), JString s, JObject (RArray a), JObject (ROther f)#}"

lemma Inbound_call_prefix:
  assumes "guest_object vm nameAtom g f" "mem_ok (mem w)" "java_exception w = None" "allocs (heap w) = []"
    "length (jvm_get_bytes vm u) \<le> JS_STRING_LEN_MAX"
    "map element_bytes es = map Some bss" "\<forall>bs\<in>set bss. length bs \<le> INT32_MAX" "\<forall>a h. vm_extensible vm a h"
  obtains a s m1 w1 where "a = length (arrays w)" "mem_ok m1" "str_units s = utf8_units (cstr (jvm_get_bytes vm u))"
    "w1 = w\<lparr>mem := m1, owned := owned w + call_refs g f s a, heap := fold add_int8_array bss (heap w),
       arrays := arrays w @ [\<lparr>fast_values = int8_refs (length (views (heap w))) (length bss), array_length = length bss\<rparr>]\<rparr>"
    "Inbound_call vm nameAtom (Some (JvString u)) (Some (JvArray es)) w =
       do {
         (jsResult, w) \<leftarrow> vm_call vm (JObject (ROther f)) (JObject (ROther g)) [JString s, JObject (RArray a)] w1;
         w \<leftarrow> JS_FreeValue (JObject (ROther f)) w;
         (javaResult, w) \<leftarrow>
           (case jsResult of
              JException \<Rightarrow> do { w \<leftarrow> throwJsException vm w; Some (None, w) }
            | JString _ \<Rightarrow> toJavaString vm jsResult w
            | _ \<Rightarrow> None);
         w \<leftarrow> release_list JS_FreeValue [JObject (RArray a), JString s, jsResult, JObject (ROther g), JObject (ROther 0)] w;
         Some (javaResult, w)
       }"
proof -
  let ?gl = "JObject (ROther 0)" and ?g = "JObject (ROther g)" and ?f = "JObject (ROther f)" and ?a = "JObject (RArray (length (arrays w)))"
  define w0 where "w0 = own ?g (own ?gl w)"
  have w0: "mem w0 = mem w" "java_exception w0 = None" "heap w0 = heap w" "arrays w0 = arrays w" using assms(3)
    by (simp_all add: w0_def own_def)
  obtain s m1 where s: "mem_ok m1" "str_units s = utf8_units (cstr (jvm_get_bytes vm u))"
    "toJsString vm (Some (JvString u)) w0 = Some (JString s, own (JString s) (w0\<lparr>mem := m1\<rparr>))"
    using toJsString_ok[of w0 vm u] assms(2,5) w0 by metis
  define w2 where "w2 = own (JString s) (w0\<lparr>mem := m1\<rparr>)"
  have w2: "mem w2 = m1" "java_exception w2 = None" "heap w2 = heap w" "arrays w2 = arrays w" using w0 by (simp_all add: w2_def own_def)
  obtain m2 where m2: "mem_ok m2" "toJsInt8ArrayArray vm (Some (JvArray es)) w2 =
      Some (JObject (RArray (length (arrays w2))),
        own (JObject (RArray (length (arrays w2))))
          (w2\<lparr>heap := fold add_int8_array bss (heap w2), mem := m2,
             arrays := arrays w2 @ [\<lparr>fast_values = int8_refs (length (views (heap w2))) (length bss), array_length = length bss\<rparr>]\<rparr>))"
    using toJsInt8ArrayArray_ok[OF assms(6) _ assms(7), of w2 vm] assms(4,8) w2 s(1) by metis
  define w3 where "w3 = own ?a (w2\<lparr>heap := fold add_int8_array bss (heap w), mem := m2,
             arrays := arrays w @ [\<lparr>fast_values = int8_refs (length (views (heap w))) (length bss), array_length = length bss\<rparr>]\<rparr>)"
  have m2': "toJsInt8ArrayArray vm (Some (JvArray es)) w2 = Some (?a, w3)" using m2(2) by (simp add: w2 w3_def)
  define w1 where "w1 = w\<lparr>mem := m2, owned := owned w + call_refs g f s (length (arrays w)), heap := fold add_int8_array bss (heap w),
       arrays := arrays w @ [\<lparr>fast_values = int8_refs (length (views (heap w))) (length bss), array_length = length bss\<rparr>]\<rparr>"
  have e: "own ?f w3 = w1" by (simp add: w3_def w2_def w0_def w1_def own_def call_refs_def ac_simps)
  have g: "find_own_property vm (ROther n) p v = None" for n p and v :: "'a world" by (simp add: find_own_property_def)
  have 1: "JS_GetProperty vm ?gl nameAtom (own ?gl w) = Some (?g, w0)"
    using assms(1) by (simp add: JS_GetProperty_def JS_GetPropertyInternal_def g guest_object_def w0_def)
  have 2: "JS_GetProperty vm ?g (AName ''call'') w3 = Some (?f, w1)"
    using assms(1) by (simp add: JS_GetProperty_def JS_GetPropertyInternal_def g guest_object_def e)
  define a where "a = length (arrays w)"
  show thesis
  proof (rule that[OF a_def m2(1) s(2)])
    show "w1 = w\<lparr>mem := m2, owned := owned w + call_refs g f s a, heap := fold add_int8_array bss (heap w),
       arrays := arrays w @ [\<lparr>fast_values = int8_refs (length (views (heap w))) (length bss), array_length = length bss\<rparr>]\<rparr>"
      by (simp add: w1_def a_def)
    show "Inbound_call vm nameAtom (Some (JvString u)) (Some (JvArray es)) w =
       do {
         (jsResult, w) \<leftarrow> vm_call vm ?f ?g [JString s, JObject (RArray a)] w1;
         w \<leftarrow> JS_FreeValue ?f w;
         (javaResult, w) \<leftarrow>
           (case jsResult of
              JException \<Rightarrow> do { w \<leftarrow> throwJsException vm w; Some (None, w) }
            | JString _ \<Rightarrow> toJavaString vm jsResult w
            | _ \<Rightarrow> None);
         w \<leftarrow> release_list JS_FreeValue [JObject (RArray a), JString s, jsResult, ?g, ?gl] w;
         Some (javaResult, w)
       }"
    proof (cases "vm_call vm ?f ?g [JString s, ?a] w1")
      case None
      then show ?thesis by (simp add: Inbound_call_def JS_GetGlobalObject_def JS_DupValue_def a_def 1 s(3) w2_def[symmetric] m2' JS_Invoke_def 2)
    next
      case (Some rw)
      then show ?thesis
        by (cases rw; cases "JS_FreeValue ?f (snd rw)") (simp_all add: Inbound_call_def JS_GetGlobalObject_def JS_DupValue_def a_def 1 s(3) w2_def[symmetric] m2' JS_Invoke_def 2)
    qed
  qed
qed

text \<open>The end of a call: the references are given back.\<close>

lemma free_call_refs:
  assumes "owned w = R + (call_refs g f s a - {#JObject (ROther f)#}) + filter_mset JS_VALUE_HAS_REF_COUNT {#r#}"
  shows "release_list JS_FreeValue [JObject (RArray a), JString s, r, JObject (ROther g), JObject (ROther 0)] w = Some (w\<lparr>owned := R\<rparr>)"
proof -
  let ?rs = "[JObject (RArray a), JString s, r, JObject (ROther g), JObject (ROther 0)]"
  have f: "filter_mset JS_VALUE_HAS_REF_COUNT (mset ?rs) = (call_refs g f s a - {#JObject (ROther f)#}) + filter_mset JS_VALUE_HAS_REF_COUNT {#r#}"
    by (simp add: call_refs_def ac_simps)
  show ?thesis using js_refs.release_list_held[of ?rs w] unfolding f assms by (simp add: add.assoc)
qed

lemma free_function:
  assumes "owned w = R + call_refs g f s a + filter_mset JS_VALUE_HAS_REF_COUNT {#r#}"
  shows "JS_FreeValue (JObject (ROther f)) w
    = Some (w\<lparr>owned := R + (call_refs g f s a - {#JObject (ROther f)#}) + filter_mset JS_VALUE_HAS_REF_COUNT {#r#}\<rparr>)"
  unfolding JS_FreeValue_def assms by (simp add: call_refs_def ac_simps)

text \<open>The world after the exception of the engine was thrown to Java, with the references \<open>R\<close>.\<close>

definition after_exception :: "'h vm \<Rightarrow> jsval multiset \<Rightarrow> memstate \<Rightarrow> jsstr \<Rightarrow> jsstr \<Rightarrow> 'h world \<Rightarrow> 'h world" where
  "after_exception vm R m ms ss w =
     w\<lparr>owned := R, current_exception := JUninitialized, mem := m, elements := Suc (Suc (elements w)), user_opaque := None,
       global_refs := global_refs w - (case user_opaque w of None \<Rightarrow> {#} | Some p \<Rightarrow> {#p#}),
       js_stacks := js_stacks w @ (case user_opaque w of None \<Rightarrow> [] | Some p \<Rightarrow> [(p, java_text vm ss)]),
       java_exception := Some (java_exception_of vm (user_opaque w) ms ss)\<rparr>"

lemma call_ends_with_string:
  assumes "owned w = R + call_refs g f s a + {#JString s'#}" "mem_ok (mem w)" "java_exception w = None" "3 * str_length s' \<le> INT32_MAX"
  obtains m' where
    "do {
       w \<leftarrow> JS_FreeValue (JObject (ROther f)) w;
       (javaResult, w) \<leftarrow> toJavaString vm (JString s') w;
       w \<leftarrow> release_list JS_FreeValue [JObject (RArray a), JString s, JString s', JObject (ROther g), JObject (ROther 0)] w;
       Some (javaResult, w)
     } = Some (java_text vm s', w\<lparr>owned := R, mem := m', elements := Suc (elements w)\<rparr>)"
proof -
  define w1 where "w1 = w\<lparr>owned := R + (call_refs g f s a - {#JObject (ROther f)#}) + {#JString s'#}\<rparr>"
  have 1: "JS_FreeValue (JObject (ROther f)) w = Some w1"
    using free_function[of w R g f s a "JString s'"] assms(1) by (simp add: w1_def)
  have w1: "mem w1 = mem w" "java_exception w1 = None" using assms(3) by (simp_all add: w1_def)
  obtain m' where 2: "toJavaString vm (JString s') w1 = Some (java_text vm s', w1\<lparr>mem := m', elements := Suc (elements w1)\<rparr>)"
    using toJavaString_string[of w1 s' vm] assms(2,4) w1 unfolding java_text_def by metis
  define w2 where "w2 = w1\<lparr>mem := m', elements := Suc (elements w1)\<rparr>"
  have 3: "release_list JS_FreeValue [JObject (RArray a), JString s, JString s', JObject (ROther g), JObject (ROther 0)] w2 = Some (w2\<lparr>owned := R\<rparr>)"
    by (rule free_call_refs) (simp add: w2_def w1_def)
  show thesis
    by (rule that[of m'], simp only: 1 2 bind.bind_lunit prod.case w2_def[symmetric] 3) (simp add: w2_def w1_def)
qed

lemma call_ends_with_error:
  assumes "owned w = R + call_refs g f s a" "mem_ok (mem w)" "java_exception w = None"
    "current_exception w = JObject (RError e)" "e < length (errors w)"
    "error_message (errors w ! e) = Some (JString ms)" "error_stack (errors w ! e) = Some (JString ss)"
    "3 * str_length ms \<le> INT32_MAX" "3 * str_length ss \<le> INT32_MAX" "\<And>p. user_opaque w = Some p \<Longrightarrow> p \<in># global_refs w"
  obtains m' where
    "do {
       w \<leftarrow> JS_FreeValue (JObject (ROther f)) w;
       (javaResult, w) \<leftarrow> do { w \<leftarrow> throwJsException vm w; Some (None :: jobj option, w) };
       w \<leftarrow> release_list JS_FreeValue [JObject (RArray a), JString s, JException, JObject (ROther g), JObject (ROther 0)] w;
       Some (javaResult, w)
     } = Some (None, after_exception vm R m' ms ss w)"
proof -
  define w1 where "w1 = w\<lparr>owned := R + (call_refs g f s a - {#JObject (ROther f)#})\<rparr>"
  have 1: "JS_FreeValue (JObject (ROther f)) w = Some w1"
    using free_function[of w R g f s a JException] assms(1) by (simp add: w1_def)
  obtain m' where 2: "throwJsException vm w1 = Some (w1\<lparr>current_exception := JUninitialized, mem := m', elements := Suc (Suc (elements w1)), user_opaque := None,
       global_refs := global_refs w1 - (case user_opaque w1 of None \<Rightarrow> {#} | Some p \<Rightarrow> {#p#}),
       js_stacks := js_stacks w1 @ (case user_opaque w1 of None \<Rightarrow> [] | Some p \<Rightarrow> [(p, java_text vm ss)]),
       java_exception := Some (java_exception_of vm (user_opaque w1) ms ss)\<rparr>)"
    by (rule throwJsException_error[of w1 e ms ss vm]) (use assms in \<open>simp_all add: w1_def\<close>)
  define w2 where "w2 = w1\<lparr>current_exception := JUninitialized, mem := m', elements := Suc (Suc (elements w1)), user_opaque := None,
       global_refs := global_refs w1 - (case user_opaque w1 of None \<Rightarrow> {#} | Some p \<Rightarrow> {#p#}),
       js_stacks := js_stacks w1 @ (case user_opaque w1 of None \<Rightarrow> [] | Some p \<Rightarrow> [(p, java_text vm ss)]),
       java_exception := Some (java_exception_of vm (user_opaque w1) ms ss)\<rparr>"
  have 3: "release_list JS_FreeValue [JObject (RArray a), JString s, JException, JObject (ROther g), JObject (ROther 0)] w2 = Some (w2\<lparr>owned := R\<rparr>)"
    by (rule free_call_refs[where f = f]) (simp add: w2_def w1_def)
  show thesis
    by (rule that[of m'], simp only: 1 2 bind.bind_lunit prod.case w2_def[symmetric] 3) (simp add: w2_def w1_def after_exception_def)
qed

lemma JS_GetOpaque_cong: "channels w' = channels w \<Longrightarrow> JS_GetOpaque v w' = JS_GetOpaque v w"
  by (simp add: JS_GetOpaque_def split: jsval.splits jsref.splits)


text \<open>
  A call into the guest: the world \<open>w1\<close> that its function starts in, with the arguments, and what
  the caller gets when the function returns a string or throws an error.
\<close>

lemma Inbound_call_guest:
  assumes "guest_object vm nameAtom g f" "mem_ok (mem w)" "java_exception w = None" "allocs (heap w) = []"
    "length (jvm_get_bytes vm u) \<le> JS_STRING_LEN_MAX"
    "map element_bytes es = map Some bss" "\<forall>bs\<in>set bss. length bs \<le> INT32_MAX" "length bss \<le> INT32_MAX"
    "\<forall>a h. vm_extensible vm a h"
  obtains a s m1 w1 where "mem_ok m1" "str_units s = utf8_units (cstr (jvm_get_bytes vm u))"
    "w1 = w\<lparr>mem := m1, owned := owned w + call_refs g f s a, heap := fold add_int8_array bss (heap w),
       arrays := arrays w @ [\<lparr>fast_values = int8_refs (length (views (heap w))) (length bss), array_length = length bss\<rparr>]\<rparr>"
    "3 * str_length s \<le> INT32_MAX \<Longrightarrow> call_arguments w1 s a bss"
    "\<And>s' w2. \<lbrakk>vm_call vm (JObject (ROther f)) (JObject (ROther g)) [JString s, JObject (RArray a)] w1 = Some (JString s', w2);
        owned w2 = owned w1 + {#JString s'#}; mem_ok (mem w2); java_exception w2 = None; 3 * str_length s' \<le> INT32_MAX\<rbrakk>
      \<Longrightarrow> \<exists>m'. Inbound_call vm nameAtom (Some (JvString u)) (Some (JvArray es)) w
             = Some (java_text vm s', w2\<lparr>owned := owned w, mem := m', elements := Suc (elements w2)\<rparr>)"
    "\<And>e ms ss w2. \<lbrakk>vm_call vm (JObject (ROther f)) (JObject (ROther g)) [JString s, JObject (RArray a)] w1 = Some (JException, w2);
        owned w2 = owned w1; mem_ok (mem w2); java_exception w2 = None; current_exception w2 = JObject (RError e); e < length (errors w2);
        error_message (errors w2 ! e) = Some (JString ms); error_stack (errors w2 ! e) = Some (JString ss);
        3 * str_length ms \<le> INT32_MAX; 3 * str_length ss \<le> INT32_MAX; \<And>p. user_opaque w2 = Some p \<Longrightarrow> p \<in># global_refs w2\<rbrakk>
      \<Longrightarrow> \<exists>m'. Inbound_call vm nameAtom (Some (JvString u)) (Some (JvArray es)) w = Some (None, after_exception vm (owned w) m' ms ss w2)"
proof -
  obtain a s m1 w1 where pre: "a = length (arrays w)" "mem_ok m1" "str_units s = utf8_units (cstr (jvm_get_bytes vm u))"
    and w1: "w1 = w\<lparr>mem := m1, owned := owned w + call_refs g f s a, heap := fold add_int8_array bss (heap w),
       arrays := arrays w @ [\<lparr>fast_values = int8_refs (length (views (heap w))) (length bss), array_length = length bss\<rparr>]\<rparr>"
    and eq: "Inbound_call vm nameAtom (Some (JvString u)) (Some (JvArray es)) w =
       do {
         (jsResult, w) \<leftarrow> vm_call vm (JObject (ROther f)) (JObject (ROther g)) [JString s, JObject (RArray a)] w1;
         w \<leftarrow> JS_FreeValue (JObject (ROther f)) w;
         (javaResult, w) \<leftarrow>
           (case jsResult of
              JException \<Rightarrow> do { w \<leftarrow> throwJsException vm w; Some (None, w) }
            | JString _ \<Rightarrow> toJavaString vm jsResult w
            | _ \<Rightarrow> None);
         w \<leftarrow> release_list JS_FreeValue [JObject (RArray a), JString s, jsResult, JObject (ROther g), JObject (ROther 0)] w;
         Some (javaResult, w)
       }"
    by (rule Inbound_call_prefix[OF assms(1-7,9)])
  have o: "owned w1 = owned w + call_refs g f s a" by (simp add: w1)
  show thesis
  proof (rule that[OF pre(2,3) w1])
    assume "3 * str_length s \<le> INT32_MAX"
    then show "call_arguments w1 s a bss"
      unfolding call_arguments_def
      by (intro conjI exI[of _ "[length (views (heap w))..<length (views (heap w)) + length bss]"])
        (use assms(8) fold_add_shows[OF assms(7), of "heap w"] in \<open>simp_all add: w1 pre(1) int8_refs_def nth_append\<close>)
  next
    fix s' w2
    assume c: "vm_call vm (JObject (ROther f)) (JObject (ROther g)) [JString s, JObject (RArray a)] w1 = Some (JString s', w2)"
      and h: "owned w2 = owned w1 + {#JString s'#}" "mem_ok (mem w2)" "java_exception w2 = None" "3 * str_length s' \<le> INT32_MAX"
    show "\<exists>m'. Inbound_call vm nameAtom (Some (JvString u)) (Some (JvArray es)) w
             = Some (java_text vm s', w2\<lparr>owned := owned w, mem := m', elements := Suc (elements w2)\<rparr>)"
      unfolding eq c by (rule call_ends_with_string[OF h(1)[unfolded o] h(2-4), of vm]) auto
  next
    fix e ms ss w2
    assume c: "vm_call vm (JObject (ROther f)) (JObject (ROther g)) [JString s, JObject (RArray a)] w1 = Some (JException, w2)"
      and h: "owned w2 = owned w1" "mem_ok (mem w2)" "java_exception w2 = None" "current_exception w2 = JObject (RError e)" "e < length (errors w2)"
        "error_message (errors w2 ! e) = Some (JString ms)" "error_stack (errors w2 ! e) = Some (JString ss)"
        "3 * str_length ms \<le> INT32_MAX" "3 * str_length ss \<le> INT32_MAX" "\<And>p. user_opaque w2 = Some p \<Longrightarrow> p \<in># global_refs w2"
    show "\<exists>m'. Inbound_call vm nameAtom (Some (JvString u)) (Some (JvArray es)) w = Some (None, after_exception vm (owned w) m' ms ss w2)"
      unfolding eq c by (rule call_ends_with_error[OF h(1)[unfolded o] h(2-10), of vm]) auto
  qed
qed

end
