(* ===== verification/GuestCalls.thy ===== *)
theory GuestCalls
  imports CallSpec
begin

text \<open>
  What a call across the bridge needs: text that both sides encode alike, a guest object that forwards to a
  Java object, the texts of errors.
\<close>

subsection \<open>Text\<close>

text \<open>No unpaired surrogate.\<close>

fun wf_utf16 :: "u16 list \<Rightarrow> bool" where
  "wf_utf16 [] = True"
| "wf_utf16 [c] = (\<not> is_hi_surrogate (ucast c) \<and> \<not> is_lo_surrogate (ucast c))"
| "wf_utf16 (c # d # cs) =
     (if is_hi_surrogate (ucast c) then is_lo_surrogate (ucast d) \<and> wf_utf16 cs
      else \<not> is_lo_surrogate (ucast c) \<and> wf_utf16 (d # cs))"

text \<open>
  What \<open>String\<close> of the Java library documents: \<open>getBytes\<close> encodes well-formed text as UTF-8, and the
  constructor decodes it.
\<close>

definition java_utf8 :: "'h vm \<Rightarrow> bool" where
  "java_utf8 vm \<longleftrightarrow>
     (\<forall>u. wf_utf16 u \<longrightarrow> jvm_get_bytes vm u = to_cstr_wide False u \<and> jvm_new_string vm (to_cstr_wide False u) = u)"

text \<open>Text without U+0000 whose encoding is no longer than a string of the engine.\<close>

definition plain_text :: "u16 list \<Rightarrow> bool" where
  "plain_text u \<longleftrightarrow> wf_utf16 u \<and> 0 \<notin> set u \<and> 3 * length u \<le> JS_STRING_LEN_MAX"

lemma text_fits:
  assumes "java_utf8 vm" "plain_text u"
  shows "length (jvm_get_bytes vm u) \<le> JS_STRING_LEN_MAX"
  using assms length_to_cstr_wide[of False u] by (auto simp: java_utf8_def plain_text_def)

lemma str_length_units: "str_length s = length (str_units s)"
  by (cases s) (simp_all add: str_length_def)

lemma java_text_plain:
  assumes "java_utf8 vm" "wf_utf16 (str_units s)" "0 \<notin> set (str_units s)"
  shows "java_text vm s = Some (JvString (str_units s))"
  using assms wide_nonzero[of "str_units s" False] by (simp add: java_text_def java_utf8_def cstr_no_zero)

lemma text_arrives:
  assumes "java_utf8 vm" "plain_text u" "str_units s = utf8_units (cstr (jvm_get_bytes vm u))"
  shows "java_text vm s = Some (JvString u)" "3 * str_length s \<le> INT32_MAX"
proof -
  have u: "jvm_get_bytes vm u = to_cstr_wide False u" "jvm_new_string vm (to_cstr_wide False u) = u"
    "cstr (to_cstr_wide False u) = to_cstr_wide False u"
    using assms(1,2) wide_nonzero[of u False] by (simp_all add: java_utf8_def plain_text_def cstr_no_zero)
  have s: "str_units s = u" using assms(3) u by (simp add: utf8_units_wide)
  show "java_text vm s = Some (JvString u)" using u s by (simp add: java_text_def)
  show "3 * str_length s \<le> INT32_MAX" using assms(2) s by (simp add: str_length_units plain_text_def JS_STRING_LEN_MAX_def INT32_MAX_def)
qed

subsection \<open>A call through the guest\<close>

text \<open>
  The guest object forwards its calls to an outbound channel, the channel's Java object is
  \<open>target\<close>, and no allocation fails.
\<close>

definition forwarding :: "'h vm \<Rightarrow> atom \<Rightarrow> nat \<Rightarrow> nat \<Rightarrow> nat \<Rightarrow> bool" where
  "forwarding vm nameAtom g f c \<longleftrightarrow>
     guest_object vm nameAtom g f \<and> (\<forall>a h. vm_extensible vm a h) \<and>
     (\<forall>this args w. vm_call vm (JObject (ROther f)) this args w = Outbound_call vm (JObject (RChannel c)) args w)"

definition ready :: "'h world \<Rightarrow> nat \<Rightarrow> jobj \<Rightarrow> bool" where
  "ready w c target \<longleftrightarrow>
     runtime_opaque w \<and> map_option fst (JS_GetOpaque (JObject (RChannel c)) w) = Some target \<and>
     mem_ok (mem w) \<and> allocs (heap w) = [] \<and> java_exception w = None"

subsection \<open>Texts of errors\<close>

definition short_backtraces :: "'h vm \<Rightarrow> bool" where
  "short_backtraces vm \<longleftrightarrow> (\<forall>h. 3 * length (vm_backtrace vm h) \<le> INT32_MAX)"

lemma thrown_error_strings:
  assumes "short_backtraces vm" "\<not> in_out_of_memory w"
  obtains ms ss where "error_message (thrown_error vm num text w) = Some (JString ms)"
    "error_stack (thrown_error vm num text w) = Some (JString ss)"
    "str_units ms = utf8_units (cstr (bytes_of (take 255 text)))" "3 * str_length ms \<le> INT32_MAX" "3 * str_length ss \<le> INT32_MAX"
proof -
  let ?m = "cstr (bytes_of (take 255 text))" and ?s = "cstr (vm_backtrace vm (host w))"
  have m: "length ?m \<le> 255" using length_cstr[of "bytes_of (take 255 text)"] by (simp add: bytes_of_def)
  have s: "3 * length ?s \<le> INT32_MAX"
    using assms(1) length_cstr[of "vm_backtrace vm (host w)"] unfolding short_backtraces_def by (meson le_trans mult_le_mono2)
  have cc: "cstr (cstr bs) = cstr bs" for bs :: "u8 list"
    by (rule cstr_no_zero) (auto simp: cstr_def dest: set_takeWhileD)
  obtain ms where ms: "error_string vm ?m = JString ms" "str_units ms = utf8_units ?m"
    using error_string_made[of ?m vm] m cc by (auto simp: JS_STRING_LEN_MAX_def)
  obtain ss where ss: "error_string vm ?s = JString ss" "str_units ss = utf8_units ?s"
    using error_string_made[of ?s vm] s cc by (auto simp: JS_STRING_LEN_MAX_def INT32_MAX_def)
  have "3 * str_length ms \<le> INT32_MAX" "3 * str_length ss \<le> INT32_MAX"
    using m s length_utf8_units[of ?m] length_utf8_units[of ?s] by (simp_all add: str_length_units ms(2) ss(2) INT32_MAX_def)
  then show thesis using that ms ss assms(2) by (simp add: thrown_error_def)
qed

text \<open>Printable text, which is the same in every encoding.\<close>

definition ascii_text :: "string \<Rightarrow> bool" where
  "ascii_text t \<longleftrightarrow> (\<forall>c\<in>set t. 0 < (of_char c :: nat) \<and> (of_char c :: nat) < 128) \<and> length t \<le> 255"

lemma ascii_byte:
  assumes "0 < (of_char c :: nat)" "(of_char c :: nat) < 128"
  shows "(of_char c :: u8) \<noteq> 0" "(of_char c :: u8) < 128" "ucast (of_char c :: u8) = (of_char c :: u16)"
    "\<not> is_hi_surrogate (ucast (of_char c :: u16))" "\<not> is_lo_surrogate (ucast (of_char c :: u16))" "(of_char c :: u16) \<noteq> 0"
proof -
  have w: "(of_char c :: u8) = word_of_nat (of_char c)" "(of_char c :: u16) = word_of_nat (of_char c)"
    by (rule of_nat_of_char[symmetric])+
  have n: "unat (of_char c :: u8) = of_char c" "unat (of_char c :: u16) = of_char c"
    unfolding w using assms(2) by (simp_all add: unsigned_of_nat take_bit_nat_eq_self del: of_nat_of_char)
  have u: "unat (ucast (of_char c :: u16) :: u32) = of_char c" using n(2) assms(2) by (simp add: unat_ucast_mod)
  show "(of_char c :: u8) \<noteq> 0" "(of_char c :: u8) < 128" "(of_char c :: u16) \<noteq> 0"
    using n assms by (auto simp: word_less_nat_alt)
  show "ucast (of_char c :: u8) = (of_char c :: u16)" using n by (simp add: word_unat_eq_iff unat_ucast_mod) (use assms(2) in simp)
  show "\<not> is_hi_surrogate (ucast (of_char c :: u16))" "\<not> is_lo_surrogate (ucast (of_char c :: u16))"
    using u assms(2) by (simp_all add: is_hi_iff is_lo_iff)
qed

lemma ascii_wf: "\<forall>c\<in>set t. 0 < (of_char c :: nat) \<and> (of_char c :: nat) < 128 \<Longrightarrow> wf_utf16 (map of_char t) \<and> (0 :: u16) \<notin> set (map of_char t)"
proof (induction t)
  case (Cons c t)
  then show ?case using ascii_byte[of c] by (cases t) auto
qed simp

lemma ascii_message:
  assumes "java_utf8 vm" "ascii_text t" "str_units ms = utf8_units (cstr (bytes_of (take 255 t)))"
  shows "java_text vm ms = Some (JvString (map of_char t))"
proof -
  have t: "take 255 t = t" "\<forall>c\<in>set t. 0 < (of_char c :: nat) \<and> (of_char c :: nat) < 128" using assms(2) by (simp_all add: ascii_text_def)
  have "0 \<notin> set (bytes_of t)" "\<forall>b\<in>set (bytes_of t). b < 128" using t(2) ascii_byte(1,2) by (auto simp: bytes_of_def)
  then have "str_units ms = map ucast (bytes_of t)" using assms(3) t(1) by (simp add: cstr_no_zero utf8_units_all_ascii)
  also have "... = map of_char t" using t(2) ascii_byte(3) by (simp add: bytes_of_def)
  finally show ?thesis using ascii_wf[OF t(2)] assms(1) wide_nonzero[of "map of_char t" False]
    by (simp add: java_text_def java_utf8_def cstr_no_zero)
qed

end
