(* ===== verification/SampleEngine.thy ===== *)
theory SampleEngine
  imports GuestCalls
begin

text \<open>
  A concrete engine with a JVM, and guests that forward, throw and catch, at which the properties of the
  bridge are applied.
\<close>

text \<open>
  The outbound operations do not depend on how functions of the guest are called, so that a guest
  function can be defined by them.
\<close>

lemma vm_call_selectors:
  "vm_get (vm\<lparr>vm_call := x\<rparr>) = vm_get vm"
  "vm_put (vm\<lparr>vm_call := x\<rparr>) = vm_put vm"
  "vm_has (vm\<lparr>vm_call := x\<rparr>) = vm_has vm"
  "vm_set_functions (vm\<lparr>vm_call := x\<rparr>) = vm_set_functions vm"
  "vm_job (vm\<lparr>vm_call := x\<rparr>) = vm_job vm"
  "vm_to_primitive (vm\<lparr>vm_call := x\<rparr>) = vm_to_primitive vm"
  "vm_to_number (vm\<lparr>vm_call := x\<rparr>) = vm_to_number vm"
  "vm_is_array (vm\<lparr>vm_call := x\<rparr>) = vm_is_array vm"
  "vm_number_text (vm\<lparr>vm_call := x\<rparr>) = vm_number_text vm"
  "vm_double_of (vm\<lparr>vm_call := x\<rparr>) = vm_double_of vm"
  "vm_int_of_double (vm\<lparr>vm_call := x\<rparr>) = vm_int_of_double vm"
  "vm_backtrace (vm\<lparr>vm_call := x\<rparr>) = vm_backtrace vm"
  "vm_slack (vm\<lparr>vm_call := x\<rparr>) = vm_slack vm"
  "vm_extensible (vm\<lparr>vm_call := x\<rparr>) = vm_extensible vm"
  "vm_eval (vm\<lparr>vm_call := x\<rparr>) = vm_eval vm"
  "vm_write_object (vm\<lparr>vm_call := x\<rparr>) = vm_write_object vm"
  "vm_read_object (vm\<lparr>vm_call := x\<rparr>) = vm_read_object vm"
  "vm_resolve_module (vm\<lparr>vm_call := x\<rparr>) = vm_resolve_module vm"
  "vm_eval_function (vm\<lparr>vm_call := x\<rparr>) = vm_eval_function vm"
  "jvm_get_bytes (vm\<lparr>vm_call := x\<rparr>) = jvm_get_bytes vm"
  "jvm_new_string (vm\<lparr>vm_call := x\<rparr>) = jvm_new_string vm"
  "jvm_utf_chars (vm\<lparr>vm_call := x\<rparr>) = jvm_utf_chars vm"
  "jvm_call (vm\<lparr>vm_call := x\<rparr>) = jvm_call vm"
  "jvm_call_boolean (vm\<lparr>vm_call := x\<rparr>) = jvm_call_boolean vm"
  by simp_all

lemma throw_error_irrelevant:
  "JS_ThrowError2 (vm\<lparr>vm_call := x\<rparr>) = JS_ThrowError2 vm"
  "JS_ThrowError (vm\<lparr>vm_call := x\<rparr>) = JS_ThrowError vm"
  "JS_ThrowTypeError (vm\<lparr>vm_call := x\<rparr>) = JS_ThrowTypeError vm"
  "JS_ThrowReferenceError (vm\<lparr>vm_call := x\<rparr>) = JS_ThrowReferenceError vm"
  "JS_ThrowInternalError (vm\<lparr>vm_call := x\<rparr>) = JS_ThrowInternalError vm"
  "JS_ThrowTypeErrorAtom (vm\<lparr>vm_call := x\<rparr>) = JS_ThrowTypeErrorAtom vm"
  "JS_ThrowOutOfMemory (vm\<lparr>vm_call := x\<rparr>) = JS_ThrowOutOfMemory vm"
  by (intro ext; unfold vm_call_selectors JS_ThrowError2_def error_string_def JS_ThrowError_def JS_ThrowTypeError_def JS_ThrowReferenceError_def JS_ThrowInternalError_def JS_ThrowTypeErrorAtom_def JS_ThrowOutOfMemory_def; rule refl)+

lemma throw_buf_irrelevant: "throw_buf_error (vm\<lparr>vm_call := x\<rparr>) = throw_buf_error vm"
  by (intro ext; unfold vm_call_selectors throw_buf_error_def throw_error_irrelevant; rule refl)

lemma property_irrelevant:
  "js_string_value (vm\<lparr>vm_call := x\<rparr>) = js_string_value vm"
  "find_own_property (vm\<lparr>vm_call := x\<rparr>) = find_own_property vm"
  by (intro ext; unfold vm_call_selectors js_string_value_def throw_error_irrelevant find_own_property_def JS_NewUint32_def; rule refl)+

lemma get_property_irrelevant:
  "JS_GetPropertyInternal (vm\<lparr>vm_call := x\<rparr>) = JS_GetPropertyInternal vm"
  by (intro ext; unfold vm_call_selectors JS_GetPropertyInternal_def throw_error_irrelevant property_irrelevant; rule refl)

lemma get_irrelevant:
  "JS_GetProperty (vm\<lparr>vm_call := x\<rparr>) = JS_GetProperty vm"
  "JS_GetPropertyStr (vm\<lparr>vm_call := x\<rparr>) = JS_GetPropertyStr vm"
  "JS_GetPropertyUint32 (vm\<lparr>vm_call := x\<rparr>) = JS_GetPropertyUint32 vm"
  by (intro ext; unfold vm_call_selectors JS_GetProperty_def JS_GetPropertyStr_def JS_GetPropertyUint32_def get_property_irrelevant throw_error_irrelevant; rule refl)+

lemma text_irrelevant:
  "js_primitive_to_string (vm\<lparr>vm_call := x\<rparr>) = js_primitive_to_string vm"
  "ctx_new_string (vm\<lparr>vm_call := x\<rparr>) = ctx_new_string vm"
  "JS_ToUint32 (vm\<lparr>vm_call := x\<rparr>) = JS_ToUint32 vm"
  by (intro ext; unfold vm_call_selectors js_primitive_to_string_def throw_error_irrelevant property_irrelevant ctx_new_string_def JS_ToUint32_def; rule refl)+

lemma cstring_irrelevant:
  "JS_ToStringInternal (vm\<lparr>vm_call := x\<rparr>) = JS_ToStringInternal vm"
  "JS_ToCString (vm\<lparr>vm_call := x\<rparr>) = JS_ToCString vm"
  by (intro ext; unfold vm_call_selectors JS_ToStringInternal_def text_irrelevant JS_ToCString_def throw_error_irrelevant; rule refl)+

lemma java_string_irrelevant:
  "toJavaString (vm\<lparr>vm_call := x\<rparr>) = toJavaString vm"
  "toJsString (vm\<lparr>vm_call := x\<rparr>) = toJsString vm"
  "throwJavaExceptionFromJs (vm\<lparr>vm_call := x\<rparr>) = throwJavaExceptionFromJs vm"
  by (intro ext; unfold vm_call_selectors toJavaString_def cstring_irrelevant new_java_string_def toJsString_def toCppString_def call_get_bytes_def text_irrelevant throwJavaExceptionFromJs_def throw_error_irrelevant; rule refl)+

lemma buffer_irrelevant:
  "on_heap (vm\<lparr>vm_call := x\<rparr>) = (on_heap vm :: string \<Rightarrow> 'a guest \<Rightarrow> ('a option, 'h) action)"
  "get_typed_array_buffer (vm\<lparr>vm_call := x\<rparr>) = get_typed_array_buffer vm"
  by (intro ext; unfold vm_call_selectors on_heap_def get_typed_array_buffer_def throw_buf_irrelevant throw_error_irrelevant; rule refl)+

lemma byte_array_irrelevant: "java_byte_array (vm\<lparr>vm_call := x\<rparr>) = java_byte_array vm"
  by (intro ext; unfold vm_call_selectors java_byte_array_def get_irrelevant buffer_irrelevant; rule refl)

lemma byte_arrays_irrelevant: "java_byte_arrays (vm\<lparr>vm_call := x\<rparr>) v i n r w = java_byte_arrays vm v i n r w"
  by (induction n arbitrary: i r w) (simp_all add: byte_array_irrelevant cong: option.case_cong)

lemma Outbound_call_irrelevant: "Outbound_call (vm\<lparr>vm_call := x\<rparr>) = Outbound_call vm"
  by (intro ext; unfold vm_call_selectors Outbound_call_def throw_error_irrelevant java_string_irrelevant toJavaByteArrayArray_def get_irrelevant text_irrelevant byte_arrays_irrelevant CallObjectMethod_def; rule refl)


text \<open>
  An engine whose global object \<open>channel\<close> has a method \<open>call\<close>, a Java object that answers every call,
  and a world with one outbound channel.
\<close>

definition base_vm :: "'h vm" where
  "base_vm = \<lparr>
     vm_get = \<lambda>obj a w.
       (if obj = JObject (ROther 0) \<and> a = AName ''channel'' then Some (JObject (ROther 1), own (JObject (ROther 1)) w)
        else if obj = JObject (ROther 1) \<and> a = AName ''call'' then Some (JObject (ROther 2), own (JObject (ROther 2)) w)
        else Some (JUndefined, w)),
     vm_put = \<lambda>obj a v w. map_option (\<lambda>w. (1, w)) (JS_FreeValue v w),
     vm_has = \<lambda>obj a w. Some (0, w), vm_set_functions = \<lambda>obj fs w. Some (0, w),
     vm_call = \<lambda>f this args w. Some (JUndefined, w), vm_job = \<lambda>j args w. Some (JUndefined, w),
     vm_to_primitive = \<lambda>v w. Some (JUndefined, w), vm_to_number = \<lambda>v w. Some (JInt 0, w),
     vm_is_array = \<lambda>n w. Some (0, w), vm_number_text = \<lambda>v. [], vm_double_of = \<lambda>n. 0, vm_int_of_double = \<lambda>d. 0,
     vm_backtrace = \<lambda>h. [], vm_slack = \<lambda>n. n, vm_extensible = \<lambda>a h. True,
     vm_eval = \<lambda>s f w. Some (JUndefined, w), vm_write_object = \<lambda>v w. Some (Some [0], w),
     vm_read_object = \<lambda>bs w. Some (JUndefined, w), vm_resolve_module = \<lambda>v w. Some (0, w),
     vm_eval_function = \<lambda>v w. Some (JUndefined, w),
     jvm_get_bytes = to_cstr_wide False, jvm_new_string = utf8_units, jvm_utf_chars = to_cstr_wide False,
     jvm_call = \<lambda>obj m args w. Some (Some (JvString [0x6F, 0x6B]), w),
     jvm_call_boolean = \<lambda>obj m args w. Some (True, w)\<rparr>"

definition base_world :: "unit world" where
  "base_world = \<lparr>current_exception = JUninitialized, uncatchable = False, in_out_of_memory = False, user_opaque = None,
     owned = {#}, heap = \<lparr>buffers = [], views = [], sab_alloc = False, allocs = []\<rparr>, arrays = [], errors = [],
     channels = [Some (JvObject 100, ''out'')], job_list = [], atoms = {#}, c_strings = 0, elements = 0, local_frames = 0,
     java_exception = None, global_refs = {#}, js_stacks = [], runtime_opaque = True, channel_class = True,
     poll_installed = True, interrupt_handler = None, call_channels = [],
     mem = \<lparr>outcomes = [], junk = 0, live = 0\<rparr>, host = ()\<rparr>"

text \<open>The guest function forwards; the Java method throws.\<close>

definition forwarding_vm :: "'h vm \<Rightarrow> 'h vm" where
  "forwarding_vm vm = vm\<lparr>vm_call := \<lambda>f this args w. Outbound_call vm (JObject (RChannel 0)) args w\<rparr>"

definition java_throws :: "jobj \<Rightarrow> 'h vm" where
  "java_throws p = base_vm\<lparr>jvm_call := \<lambda>obj m args w. Some (None, w\<lparr>java_exception := Some p\<rparr>)\<rparr>"

lemma base_ready: "ready base_world 0 (JvObject 100)"
  by (simp add: ready_def base_world_def JS_GetOpaque_def mem_ok_def)

lemma base_utf8: "java_utf8 base_vm" "java_utf8 (forwarding_vm base_vm)" "java_utf8 (forwarding_vm (java_throws p))"
  by (simp_all add: java_utf8_def base_vm_def forwarding_vm_def java_throws_def utf8_units_wide)

lemma base_backtraces: "short_backtraces base_vm" "short_backtraces (forwarding_vm (java_throws p))"
  by (simp_all add: short_backtraces_def base_vm_def forwarding_vm_def java_throws_def)

lemma forwarding_vm_forwards:
  assumes "guest_object vm n g f" "\<forall>a h. vm_extensible vm a h"
  shows "forwarding (forwarding_vm vm) n g f 0"
  using assms by (simp add: forwarding_def forwarding_vm_def Outbound_call_irrelevant guest_object_def)

lemma base_forwards: "forwarding (forwarding_vm base_vm) (AName ''channel'') 1 2 0"
  "forwarding (forwarding_vm (java_throws p)) (AName ''channel'') 1 2 0"
  by (rule forwarding_vm_forwards; simp add: guest_object_def base_vm_def java_throws_def)+

lemma hi_text: "plain_text [0x68, 0x69]" "plain_text [0x6F, 0x6B]"
  by (simp_all add: plain_text_def is_hi_surrogate_def is_lo_surrogate_def JS_STRING_LEN_MAX_def)

text \<open>A guest function that throws, and one that catches the error of a failed call before it throws.\<close>

definition throwing_vm :: "string \<Rightarrow> 'h vm \<Rightarrow> 'h vm" where
  "throwing_vm msg vm = vm\<lparr>vm_call := \<lambda>f this args w. JS_ThrowTypeError vm msg w\<rparr>"

definition catching_vm :: "string \<Rightarrow> 'h vm \<Rightarrow> 'h vm" where
  "catching_vm msg vm = vm\<lparr>vm_call := \<lambda>f this args w.
     do {
       (_, w) \<leftarrow> Outbound_call vm (JObject (RChannel 0)) args w;
       (caught, w) \<leftarrow> JS_GetException w;
       w \<leftarrow> JS_FreeValue caught w;
       JS_ThrowTypeError vm msg w
     }\<rparr>"

lemma throwing_vm_eq: "vm_call (throwing_vm msg vm) f this args w = JS_ThrowTypeError (throwing_vm msg vm) msg w"
  by (simp add: throwing_vm_def throw_error_irrelevant)

lemma catching_vm_eq: "vm_call (catching_vm msg vm) f this args w =
     do {
       (_, w) \<leftarrow> Outbound_call (catching_vm msg vm) (JObject (RChannel 0)) args w;
       (caught, w) \<leftarrow> JS_GetException w;
       w \<leftarrow> JS_FreeValue caught w;
       JS_ThrowTypeError (catching_vm msg vm) msg w
     }"
  by (simp add: catching_vm_def throw_error_irrelevant Outbound_call_irrelevant)

lemma other_guests:
  "guest_object (throwing_vm msg base_vm) (AName ''channel'') 1 2" "guest_object (catching_vm msg (java_throws p)) (AName ''channel'') 1 2"
  "java_utf8 (throwing_vm msg base_vm)" "java_utf8 (catching_vm msg (java_throws p))"
  "short_backtraces (throwing_vm msg base_vm)" "short_backtraces (catching_vm msg (java_throws p))"
  by (simp_all add: guest_object_def throwing_vm_def catching_vm_def java_throws_def base_vm_def java_utf8_def utf8_units_wide short_backtraces_def)

text \<open>A guest that throws the error object \<open>e\<close>.\<close>

definition erring_vm :: "js_error \<Rightarrow> unit vm" where
  "erring_vm e = base_vm\<lparr>vm_call := \<lambda>f this args w. Some (JException, w\<lparr>errors := errors w @ [e],
     current_exception := JObject (RError (length (errors w))), uncatchable := False\<rparr>)\<rparr>"

lemma erring_vm_throws:
  assumes "mem_ok (mem w)"
  shows "\<exists>m. mem_ok m \<and> vm_call (erring_vm e) f this args w = Some (JException, w\<lparr>mem := m, errors := errors w @ [e],
     current_exception := JObject (RError (length (errors w))), uncatchable := False\<rparr>)"
  using assms by (intro exI[of _ "mem w"]) (simp add: erring_vm_def)

definition boom_error :: js_error where
  "boom_error = \<lparr>error_num = JS_RANGE_ERROR, error_message = Some (JString (Str8 [0x62, 0x6F, 0xF6, 0x6D])),
     error_stack = Some (JString (Str8 [0x61, 0x74]))\<rparr>"

lemma erring_guest: "guest_object (erring_vm e) (AName ''channel'') 1 2" "java_utf8 (erring_vm e)"
  "vm_extensible (erring_vm e) a h"
  by (simp_all add: guest_object_def erring_vm_def base_vm_def java_utf8_def utf8_units_wide)

lemma base_state: "mem_ok (mem base_world)" "allocs (heap base_world) = []" "java_exception base_world = None"
  "user_opaque base_world = None"
  by (simp_all add: base_world_def mem_ok_def)

end
