(* ===== verification/BridgeProps.thy ===== *)
theory BridgeProps
  imports SampleEngine
begin

text \<open>
  The properties of the bridge: what crosses it unchanged in both directions, how exceptions
  cross it, what its resources are, and where it goes wrong.
\<close>

subsection \<open>Byte buffers\<close>

text \<open>C12: A list of Java byte arrays, with null for an empty one, becomes a JavaScript array of \<open>Int8Array\<close>s
  that converts back to the same bytes; the only reference the C++ code keeps is the array.\<close>

theorem byte_buffers_roundtrip:
  assumes "map element_bytes es = map Some bss" "\<forall>bs\<in>set bss. length bs \<le> INT32_MAX" "length bss \<le> INT32_MAX"
    "java_exception w = None" "mem_ok (mem w)" "allocs (heap w) = []" "\<forall>a h. vm_extensible vm a h"
  shows "\<exists>v w'. toJsInt8ArrayArray vm (Some (JvArray es)) w = Some (v, w')
    \<and> toJavaByteArrayArray vm v w' = Some (Some (JvArray (map (\<lambda>bs. Some (JvBytes bs)) bss)), w')
    \<and> owned w' = owned w + {#v#} \<and> elements w' = elements w"
proof -
  let ?a = "length (arrays w)" and ?vs = "[length (views (heap w))..<length (views (heap w)) + length bss]"
  obtain m' where m: "toJsInt8ArrayArray vm (Some (JvArray es)) w =
      Some (JObject (RArray ?a), own (JObject (RArray ?a)) (w\<lparr>heap := fold add_int8_array bss (heap w), mem := m',
             arrays := arrays w @ [\<lparr>fast_values = int8_refs (length (views (heap w))) (length bss), array_length = length bss\<rparr>]\<rparr>))"
    using toJsInt8ArrayArray_ok[OF assms(1,6,2,4,5)] assms(7) by metis
  define w' where "w' = own (JObject (RArray ?a)) (w\<lparr>heap := fold add_int8_array bss (heap w), mem := m',
             arrays := arrays w @ [\<lparr>fast_values = int8_refs (length (views (heap w))) (length bss), array_length = length bss\<rparr>]\<rparr>)"
  have "toJavaByteArrayArray vm (JObject (RArray ?a)) w' = Some (Some (JvArray (map (\<lambda>bs. Some (JvBytes bs)) bss)), w')"
    by (rule toJavaByteArrayArray_ok[where vs = ?vs])
      (use assms(3,4) fold_add_shows[OF assms(2), of "heap w"] in \<open>simp_all add: w'_def own_def nth_append int8_refs_def\<close>)
  then show ?thesis using m by (auto simp: w'_def own_def)
qed

theorem byte_buffers_roundtrip_witness:
  "\<exists>v w'. toJsInt8ArrayArray base_vm (Some (JvArray [Some (JvBytes [1, 2]), None])) base_world = Some (v, w')
    \<and> toJavaByteArrayArray base_vm v w' = Some (Some (JvArray (map (\<lambda>bs. Some (JvBytes bs)) [[1, 2], []])), w')
    \<and> owned w' = owned base_world + {#v#} \<and> elements w' = elements base_world"
  by (rule byte_buffers_roundtrip) (simp_all add: INT32_MAX_def base_world_def base_vm_def mem_ok_def)

subsection \<open>Calls through the guest\<close>

text \<open>C1: A call from Java to a guest object that forwards it to a Java object is transparent: the Java
  method gets the text and the byte arrays that were sent, and its text is what the caller gets.
  Every reference of the engine, C string and local frame is given back; the two texts that the
  engine turned into Java strings leave their byte buffers behind.\<close>

theorem forwarded_call_transparent:
  assumes "forwarding vm nameAtom g f c" "ready w c target" "java_utf8 vm" "plain_text u" "plain_text r"
    "map element_bytes es = map Some bss" "\<forall>bs\<in>set bss. length bs \<le> INT32_MAX" "length bss \<le> INT32_MAX"
    "\<forall>w. jvm_call vm target ''call'' [Some (JvString u), java_buffers bss] w = Some (Some (JvString r), w)"
  shows "\<exists>w'. Inbound_call vm nameAtom (Some (JvString u)) (Some (JvArray es)) w = Some (Some (JvString r), w')
    \<and> owned w' = owned w \<and> c_strings w' = c_strings w \<and> local_frames w' = local_frames w \<and> atoms w' = atoms w
    \<and> global_refs w' = global_refs w \<and> java_exception w' = None \<and> user_opaque w' = user_opaque w
    \<and> elements w' = elements w + 2"
proof -
  have fwd: "guest_object vm nameAtom g f" "\<forall>a h. vm_extensible vm a h"
    "\<And>this args w. vm_call vm (JObject (ROther f)) this args w = Outbound_call vm (JObject (RChannel c)) args w"
    using assms(1) by (auto simp: forwarding_def)
  obtain channel where rdy: "runtime_opaque w" "JS_GetOpaque (JObject (RChannel c)) w = Some channel" "fst channel = target"
    "mem_ok (mem w)" "allocs (heap w) = []" "java_exception w = None"
    using assms(2) by (auto simp: ready_def)
  note guest = Inbound_call_guest[OF fwd(1) rdy(4,6,5) text_fits[OF assms(3,4)] assms(6-8) fwd(2)]
  show ?thesis
  proof (rule guest)
    fix a s m1 w1
    assume m1: "mem_ok m1" "str_units s = utf8_units (cstr (jvm_get_bytes vm u))"
      and w1: "w1 = w\<lparr>mem := m1, owned := owned w + call_refs g f s a, heap := fold add_int8_array bss (heap w),
         arrays := arrays w @ [\<lparr>fast_values = int8_refs (length (views (heap w))) (length bss), array_length = length bss\<rparr>]\<rparr>"
      and args: "3 * str_length s \<le> INT32_MAX \<Longrightarrow> call_arguments w1 s a bss"
      and string: "\<And>s' w2. \<lbrakk>vm_call vm (JObject (ROther f)) (JObject (ROther g)) [JString s, JObject (RArray a)] w1 = Some (JString s', w2);
          owned w2 = owned w1 + {#JString s'#}; mem_ok (mem w2); java_exception w2 = None; 3 * str_length s' \<le> INT32_MAX\<rbrakk>
        \<Longrightarrow> \<exists>m'. Inbound_call vm nameAtom (Some (JvString u)) (Some (JvArray es)) w
               = Some (java_text vm s', w2\<lparr>owned := owned w, mem := m', elements := Suc (elements w2)\<rparr>)"
    note s = text_arrives[OF assms(3,4) m1(2)]
    obtain s' m2 where s': "mem_ok m2" "str_units s' = utf8_units (cstr (jvm_get_bytes vm r))"
      "Outbound_call vm (JObject (RChannel c)) [JString s, JObject (RArray a)] w1 =
         Some (JString s', own (JString s') (w1\<lparr>mem := m2, elements := Suc (elements w1)\<rparr>))"
      by (rule Outbound_call_returns[of w1 "JObject (RChannel c)" channel s a bss vm r])
        (use rdy m1(1) w1 args[OF s(2)] JS_GetOpaque_cong[of w1 w] assms(9) s(1) text_fits[OF assms(3,5)] in simp_all)
    note s2 = text_arrives[OF assms(3,5) s'(2)]
    show ?thesis
      using string[of s' "own (JString s') (w1\<lparr>mem := m2, elements := Suc (elements w1)\<rparr>)"] s' s2 rdy(6) w1
      by (auto simp: fwd(3) own_def)
  qed
qed

theorem forwarded_call_transparent_witness:
  "\<exists>w'. Inbound_call (forwarding_vm base_vm) (AName ''channel'') (Some (JvString [0x68, 0x69]))
       (Some (JvArray [Some (JvBytes [1, 2]), None])) base_world = Some (Some (JvString [0x6F, 0x6B]), w')
    \<and> owned w' = owned base_world \<and> c_strings w' = c_strings base_world \<and> local_frames w' = local_frames base_world \<and> atoms w' = atoms base_world
    \<and> global_refs w' = global_refs base_world \<and> java_exception w' = None \<and> user_opaque w' = user_opaque base_world
    \<and> elements w' = elements base_world + 2"
  by (rule forwarded_call_transparent[OF base_forwards(1) base_ready base_utf8(2) hi_text, where bss = "[[1, 2], []]"])
    (simp_all add: INT32_MAX_def forwarding_vm_def base_vm_def)

subsection \<open>Exceptions\<close>

text \<open>C2: A Java exception thrown by the method that a guest calls, and that the guest lets pass, reaches
  the Java caller as the same object, with the JavaScript stack added; the global reference that kept it
  alive on its way, and every reference of the engine, are given back.\<close>

theorem java_exception_roundtrip:
  assumes "forwarding vm nameAtom g f c" "ready w c target" "java_utf8 vm" "plain_text u"
    "map element_bytes es = map Some bss" "\<forall>bs\<in>set bss. length bs \<le> INT32_MAX" "length bss \<le> INT32_MAX"
    "\<forall>w. jvm_call vm target ''call'' [Some (JvString u), java_buffers bss] w = Some (x, w\<lparr>java_exception := Some p\<rparr>)"
    "short_backtraces vm" "\<not> in_out_of_memory w"
  shows "\<exists>w' stack. Inbound_call vm nameAtom (Some (JvString u)) (Some (JvArray es)) w = Some (None, w')
    \<and> java_exception w' = Some p \<and> js_stacks w' = js_stacks w @ [(p, Some (JvString stack))]
    \<and> user_opaque w' = None \<and> current_exception w' = JUninitialized
    \<and> global_refs w' = global_refs w \<and> owned w' = owned w \<and> c_strings w' = c_strings w \<and> local_frames w' = local_frames w"
proof -
  have fwd: "guest_object vm nameAtom g f" "\<forall>a h. vm_extensible vm a h"
    "\<And>this args w. vm_call vm (JObject (ROther f)) this args w = Outbound_call vm (JObject (RChannel c)) args w"
    using assms(1) by (auto simp: forwarding_def)
  obtain channel where rdy: "runtime_opaque w" "JS_GetOpaque (JObject (RChannel c)) w = Some channel" "fst channel = target"
    "mem_ok (mem w)" "allocs (heap w) = []" "java_exception w = None"
    using assms(2) by (auto simp: ready_def)
  note guest = Inbound_call_guest[OF fwd(1) rdy(4,6,5) text_fits[OF assms(3,4)] assms(5-7) fwd(2)]
  show ?thesis
  proof (rule guest)
    fix a s m1 w1
    assume m1: "mem_ok m1" "str_units s = utf8_units (cstr (jvm_get_bytes vm u))"
      and w1: "w1 = w\<lparr>mem := m1, owned := owned w + call_refs g f s a, heap := fold add_int8_array bss (heap w),
         arrays := arrays w @ [\<lparr>fast_values = int8_refs (length (views (heap w))) (length bss), array_length = length bss\<rparr>]\<rparr>"
      and args: "3 * str_length s \<le> INT32_MAX \<Longrightarrow> call_arguments w1 s a bss"
      and throws: "\<And>e ms ss w2. \<lbrakk>vm_call vm (JObject (ROther f)) (JObject (ROther g)) [JString s, JObject (RArray a)] w1 = Some (JException, w2);
          owned w2 = owned w1; mem_ok (mem w2); java_exception w2 = None; current_exception w2 = JObject (RError e); e < length (errors w2);
          error_message (errors w2 ! e) = Some (JString ms); error_stack (errors w2 ! e) = Some (JString ss);
          3 * str_length ms \<le> INT32_MAX; 3 * str_length ss \<le> INT32_MAX; \<And>p. user_opaque w2 = Some p \<Longrightarrow> p \<in># global_refs w2\<rbrakk>
        \<Longrightarrow> \<exists>m'. Inbound_call vm nameAtom (Some (JvString u)) (Some (JvArray es)) w = Some (None, after_exception vm (owned w) m' ms ss w2)"
    note s = text_arrives[OF assms(3,4) m1(2)]
    define w2 where "w2 = (\<lambda>m. w1\<lparr>mem := m, elements := Suc (elements w1), global_refs := global_refs w1 + {#p#}, user_opaque := Some p,
         errors := errors w1 @ [thrown_error vm JS_INTERNAL_ERROR ''Java Exception'' w1],
         current_exception := JObject (RError (length (errors w1))), uncatchable := False\<rparr>)"
    obtain m2 where m2: "mem_ok m2" "Outbound_call vm (JObject (RChannel c)) [JString s, JObject (RArray a)] w1 = Some (JException, w2 m2)"
      unfolding w2_def
      by (rule Outbound_call_throws[of w1 "JObject (RChannel c)" channel s a bss vm x p])
        (use rdy m1(1) w1 args[OF s(2)] JS_GetOpaque_cong[of w1 w] assms(8) s(1) in simp_all)
    have "\<not> in_out_of_memory w1" using assms(10) by (simp add: w1)
    then obtain ms ss where es: "error_message (thrown_error vm JS_INTERNAL_ERROR ''Java Exception'' w1) = Some (JString ms)"
      "error_stack (thrown_error vm JS_INTERNAL_ERROR ''Java Exception'' w1) = Some (JString ss)"
      "3 * str_length ms \<le> INT32_MAX" "3 * str_length ss \<le> INT32_MAX"
      using thrown_error_strings[OF assms(9)] by metis
    have "\<exists>m'. Inbound_call vm nameAtom (Some (JvString u)) (Some (JvArray es)) w = Some (None, after_exception vm (owned w) m' ms ss (w2 m2))"
      by (rule throws[of "w2 m2" "length (errors w1)"]) (use m2 rdy(6) es fwd(3) w1 in \<open>simp_all add: w2_def\<close>)
    then show ?thesis by (auto simp: w2_def w1 after_exception_def java_exception_of_def java_text_def)
  qed
qed

theorem java_exception_roundtrip_witness:
  "\<exists>w' stack. Inbound_call (forwarding_vm (java_throws (JvException ''E'' ''m''))) (AName ''channel'') (Some (JvString [0x68, 0x69]))
       (Some (JvArray [Some (JvBytes [1, 2]), None])) base_world = Some (None, w')
    \<and> java_exception w' = Some (JvException ''E'' ''m'') \<and> js_stacks w' = js_stacks base_world @ [(JvException ''E'' ''m'', Some (JvString stack))]
    \<and> user_opaque w' = None \<and> current_exception w' = JUninitialized
    \<and> global_refs w' = global_refs base_world \<and> owned w' = owned base_world \<and> c_strings w' = c_strings base_world
    \<and> local_frames w' = local_frames base_world"
  by (rule java_exception_roundtrip[OF base_forwards(2) base_ready base_utf8(3) hi_text(1), where bss = "[[1, 2], []]" and x = None])
    (simp_all add: INT32_MAX_def base_backtraces, simp_all add: java_throws_def forwarding_vm_def base_world_def)



text \<open>C24: A guest that catches the error of a failed Java call and later throws an error of its own: the Java caller gets
  the Java exception that was caught, and neither the guest's message nor its stack, because catching
  does not clear the exception that the context remembers.\<close>

theorem caught_java_exception_returns:
  assumes "guest_object vm nameAtom g f" "\<forall>a h. vm_extensible vm a h" "ready w c target"
    "\<forall>this args w. vm_call vm (JObject (ROther f)) this args w =
       do {
         (_, w) \<leftarrow> Outbound_call vm (JObject (RChannel c)) args w;
         (caught, w) \<leftarrow> JS_GetException w;
         w \<leftarrow> JS_FreeValue caught w;
         JS_ThrowTypeError vm msg w
       }"
    "\<forall>w. jvm_call vm target ''call'' [Some (JvString u), java_buffers bss] w = Some (x, w\<lparr>java_exception := Some p\<rparr>)"
    "java_utf8 vm" "plain_text u" "map element_bytes es = map Some bss" "\<forall>bs\<in>set bss. length bs \<le> INT32_MAX"
    "length bss \<le> INT32_MAX" "short_backtraces vm" "\<not> in_out_of_memory w"
  shows "\<exists>w'. Inbound_call vm nameAtom (Some (JvString u)) (Some (JvArray es)) w = Some (None, w') \<and> java_exception w' = Some p"
proof -
  obtain channel where rdy: "runtime_opaque w" "JS_GetOpaque (JObject (RChannel c)) w = Some channel" "fst channel = target"
    "mem_ok (mem w)" "allocs (heap w) = []" "java_exception w = None"
    using assms(3) by (auto simp: ready_def)
  show ?thesis
  proof (rule Inbound_call_guest[OF assms(1) rdy(4,6,5) text_fits[OF assms(6,7)] assms(8-10,2)])
    fix a s m1 w1
    assume m1: "mem_ok m1" "str_units s = utf8_units (cstr (jvm_get_bytes vm u))"
      and w1: "w1 = w\<lparr>mem := m1, owned := owned w + call_refs g f s a, heap := fold add_int8_array bss (heap w),
         arrays := arrays w @ [\<lparr>fast_values = int8_refs (length (views (heap w))) (length bss), array_length = length bss\<rparr>]\<rparr>"
      and args: "3 * str_length s \<le> INT32_MAX \<Longrightarrow> call_arguments w1 s a bss"
      and throws: "\<And>e ms ss w2. \<lbrakk>vm_call vm (JObject (ROther f)) (JObject (ROther g)) [JString s, JObject (RArray a)] w1 = Some (JException, w2);
          owned w2 = owned w1; mem_ok (mem w2); java_exception w2 = None; current_exception w2 = JObject (RError e); e < length (errors w2);
          error_message (errors w2 ! e) = Some (JString ms); error_stack (errors w2 ! e) = Some (JString ss);
          3 * str_length ms \<le> INT32_MAX; 3 * str_length ss \<le> INT32_MAX; \<And>p. user_opaque w2 = Some p \<Longrightarrow> p \<in># global_refs w2\<rbrakk>
        \<Longrightarrow> \<exists>m'. Inbound_call vm nameAtom (Some (JvString u)) (Some (JvArray es)) w = Some (None, after_exception vm (owned w) m' ms ss w2)"
    note s = text_arrives[OF assms(6,7) m1(2)]
    define w2 where "w2 = (\<lambda>m. w1\<lparr>mem := m, elements := Suc (elements w1), global_refs := global_refs w1 + {#p#}, user_opaque := Some p,
         errors := errors w1 @ [thrown_error vm JS_INTERNAL_ERROR ''Java Exception'' w1],
         current_exception := JObject (RError (length (errors w1))), uncatchable := False\<rparr>)"
    obtain m2 where m2: "mem_ok m2" "Outbound_call vm (JObject (RChannel c)) [JString s, JObject (RArray a)] w1 = Some (JException, w2 m2)"
      unfolding w2_def
      by (rule Outbound_call_throws[of w1 "JObject (RChannel c)" channel s a bss vm x p])
        (use rdy m1(1) w1 args[OF s(2)] JS_GetOpaque_cong[of w1 w] assms(5) s(1) in simp_all)
    define w3 where "w3 = (w2 m2)\<lparr>current_exception := JUninitialized\<rparr>"
    define w4 where "w4 = (\<lambda>m. w3\<lparr>mem := m, errors := errors w3 @ [thrown_error vm JS_TYPE_ERROR msg w3],
         current_exception := JObject (RError (length (errors w3))), uncatchable := False\<rparr>)"
    have "mem_ok (mem w3)" using m2(1) by (simp add: w3_def w2_def)
    then obtain m4 where m4: "mem_ok m4" "JS_ThrowError vm JS_TYPE_ERROR msg w3 = Some (JException, w4 m4)"
      using JS_ThrowError_ok[of w3 vm JS_TYPE_ERROR msg] unfolding w4_def by blast
    have caught: "JS_GetException (w2 m2) = Some (JObject (RError (length (errors w1))), own (JObject (RError (length (errors w1)))) w3)"
      by (simp add: JS_GetException_def w3_def Let_def) (simp add: w2_def)
    have "\<not> in_out_of_memory w3" using assms(12) by (simp add: w3_def w2_def w1)
    then obtain ms ss where es: "error_message (thrown_error vm JS_TYPE_ERROR msg w3) = Some (JString ms)"
      "error_stack (thrown_error vm JS_TYPE_ERROR msg w3) = Some (JString ss)" "3 * str_length ms \<le> INT32_MAX" "3 * str_length ss \<le> INT32_MAX"
      using thrown_error_strings[OF assms(11)] by metis
    have e4: "errors (w4 m4) = errors w3 @ [thrown_error vm JS_TYPE_ERROR msg w3]"
      "current_exception (w4 m4) = JObject (RError (length (errors w3)))"
      by (simp_all add: w4_def)
    have k4: "owned (w4 m4) = owned w1" "mem (w4 m4) = m4" "java_exception (w4 m4) = java_exception w" "user_opaque (w4 m4) = Some p"
      "p \<in># global_refs (w4 m4)"
      by (simp_all add: w4_def w3_def w2_def w1)
    have "vm_call vm (JObject (ROther f)) (JObject (ROther g)) [JString s, JObject (RArray a)] w1 = Some (JException, w4 m4)"
      using assms(4) m4(2) by (simp add: m2(2) caught js_refs.release_acquire JS_ThrowTypeError_def)
    then have "\<exists>m'. Inbound_call vm nameAtom (Some (JvString u)) (Some (JvArray es)) w = Some (None, after_exception vm (owned w) m' ms ss (w4 m4))"
      by (rule throws[of "w4 m4" "length (errors w3)"]) (use m4(1) es rdy(6) in \<open>simp_all add: e4 k4\<close>)
    then show ?thesis by (auto simp: w4_def w3_def w2_def after_exception_def java_exception_of_def)
  qed
qed

theorem caught_java_exception_returns_witness:
  "\<exists>w'. Inbound_call (catching_vm ''boom'' (java_throws (JvException ''E'' ''m''))) (AName ''channel'') (Some (JvString [0x68, 0x69]))
       (Some (JvArray [])) base_world = Some (None, w') \<and> java_exception w' = Some (JvException ''E'' ''m'')"
  by (rule caught_java_exception_returns[OF other_guests(2) _ base_ready, where bss = "[]" and x = None and msg = "''boom''"])
    (simp_all only: catching_vm_eq other_guests hi_text, simp_all add: catching_vm_def java_throws_def base_vm_def base_world_def)

end
