(* ===== verification/Frames.thy ===== *)
theory Frames
  imports Lifecycle
begin

text \<open>
  What all operations leave alone: properties of the world that depend on the resources of the bridge only.
  The interface \<open>frame\<close> states which changes of the world such a property survives and that guest code
  keeps it; inside it every conversion and every call of a channel is shown to keep it.
\<close>

subsection \<open>Results that keep a property\<close>

definition kept :: "('h world \<Rightarrow> bool) \<Rightarrow> ('a \<times> 'h world) option \<Rightarrow> bool" where
  "kept P r \<longleftrightarrow> (\<forall>a w. r = Some (a, w) \<longrightarrow> P w)"

definition kept_world :: "('h world \<Rightarrow> bool) \<Rightarrow> 'h world option \<Rightarrow> bool" where
  "kept_world P r \<longleftrightarrow> (\<forall>w. r = Some w \<longrightarrow> P w)"

named_theorems kept_rules "how a result keeps a property"

lemma kept_None [simp]: "kept P None" "kept_world P None"
  by (simp_all add: kept_def kept_world_def)

lemma kept_Some [simp]: "kept P (Some (a, w)) = P w" "kept_world P (Some w) = P w"
  by (auto simp: kept_def kept_world_def)

lemma kept_bind_via:
  assumes "kept Q r" "\<And>a w. Q w \<Longrightarrow> kept P (f (a, w))"
  shows "kept P (Option.bind r f)"
  using assms by (cases r) (auto simp: kept_def)

lemmas kept_bind [kept_rules] = kept_bind_via[where Q = P and P = P for P]

lemma kept_bind_world [kept_rules]:
  assumes "kept_world P r" "\<And>w. P w \<Longrightarrow> kept P (f w)"
  shows "kept P (Option.bind r f)"
  using assms by (cases r) (auto simp: kept_def kept_world_def)

lemma kept_world_bind_via:
  assumes "kept Q r" "\<And>a w. Q w \<Longrightarrow> kept_world P (f (a, w))"
  shows "kept_world P (Option.bind r f)"
  using assms by (cases r) (auto simp: kept_def kept_world_def)

lemmas kept_world_bind [kept_rules] = kept_world_bind_via[where Q = P and P = P for P]

lemma kept_world_bind_world_via:
  assumes "kept_world Q r" "\<And>w. Q w \<Longrightarrow> kept_world P (f w)"
  shows "kept_world P (Option.bind r f)"
  using assms by (cases r) (auto simp: kept_def kept_world_def)

lemmas kept_world_bind_world [kept_rules] = kept_world_bind_world_via[where Q = P and P = P for P]

lemma kept_unit [kept_rules]:
  "(\<And>x. kept P (f x)) \<Longrightarrow> kept P (Option.bind (r :: (unit) option) f)"
  "(\<And>x. kept_world P (g x)) \<Longrightarrow> kept_world P (Option.bind (r :: (unit) option) g)"
  by (cases r; simp)+

lemma kept_nat [kept_rules]:
  "(\<And>x. kept P (f x)) \<Longrightarrow> kept P (Option.bind (r :: (nat) option) f)"
  "(\<And>x. kept_world P (g x)) \<Longrightarrow> kept_world P (Option.bind (r :: (nat) option) g)"
  by (cases r; simp)+

lemma kept_list [kept_rules]:
  "(\<And>x. kept P (f x)) \<Longrightarrow> kept P (Option.bind (r :: ('c list) option) f)"
  "(\<And>x. kept_world P (g x)) \<Longrightarrow> kept_world P (Option.bind (r :: ('c list) option) g)"
  by (cases r; simp)+

lemma kept_word [kept_rules]:
  "(\<And>x. kept P (f x)) \<Longrightarrow> kept P (Option.bind (r :: ('c::len word) option) f)"
  "(\<And>x. kept_world P (g x)) \<Longrightarrow> kept_world P (Option.bind (r :: ('c::len word) option) g)"
  by (cases r; simp)+

lemma kept_mem [kept_rules]:
  "(\<And>x. kept P (f x)) \<Longrightarrow> kept P (Option.bind (r :: ('c \<times> memstate) option) f)"
  "(\<And>x. kept_world P (g x)) \<Longrightarrow> kept_world P (Option.bind (r :: ('c \<times> memstate) option) g)"
  by (cases r; simp)+

lemma kept_heap [kept_rules]:
  "(\<And>x. kept P (f x)) \<Longrightarrow> kept P (Option.bind (r :: ('c \<times> js_heap) option) f)"
  "(\<And>x. kept_world P (g x)) \<Longrightarrow> kept_world P (Option.bind (r :: ('c \<times> js_heap) option) g)"
  by (cases r; simp)+

text \<open>Guest code and Java methods that keep a property.\<close>

definition guest_keeps :: "('h world \<Rightarrow> bool) \<Rightarrow> 'h vm \<Rightarrow> bool" where
  "guest_keeps P vm \<longleftrightarrow> (\<forall>w. P w \<longrightarrow>
     (\<forall>v a. kept P (vm_get vm v a w)) \<and> (\<forall>v a x. kept P (vm_put vm v a x w)) \<and> (\<forall>v a. kept P (vm_has vm v a w))
     \<and> (\<forall>v fs. kept P (vm_set_functions vm v fs w)) \<and> (\<forall>f t as. kept P (vm_call vm f t as w)) \<and> (\<forall>f as. kept P (vm_job vm f as w))
     \<and> (\<forall>v. kept P (vm_to_primitive vm v w)) \<and> (\<forall>v. kept P (vm_to_number vm v w)) \<and> (\<forall>n. kept P (vm_is_array vm n w))
     \<and> (\<forall>s t. kept P (vm_eval vm s t w)) \<and> (\<forall>v. kept P (vm_write_object vm v w)) \<and> (\<forall>b. kept P (vm_read_object vm b w))
     \<and> (\<forall>v. kept P (vm_resolve_module vm v w)) \<and> (\<forall>v. kept P (vm_eval_function vm v w))
     \<and> (\<forall>x m as. kept P (jvm_call vm x m as w)) \<and> (\<forall>x m as. kept P (jvm_call_boolean vm x m as w)))"

locale frame =
  fixes vm :: "'h vm" and P :: "atom multiset \<Rightarrow> 'h world \<Rightarrow> bool"
  assumes guest: "guest_keeps (P A) vm"
    and engine: "P A (w\<lparr>current_exception := v\<rparr>) = P A w" "P A (w\<lparr>uncatchable := b\<rparr>) = P A w"
      "P A (w\<lparr>in_out_of_memory := b\<rparr>) = P A w" "P A (w\<lparr>owned := r\<rparr>) = P A w" "P A (w\<lparr>heap := h\<rparr>) = P A w"
      "P A (w\<lparr>arrays := as\<rparr>) = P A w" "P A (w\<lparr>errors := es\<rparr>) = P A w" "P A (w\<lparr>job_list := js\<rparr>) = P A w"
      "P A (w\<lparr>c_strings := n\<rparr>) = P A w" "P A (w\<lparr>mem := m\<rparr>) = P A w" "P A (w\<lparr>poll_installed := b\<rparr>) = P A w"
    and java: "P A (w\<lparr>elements := n\<rparr>) = P A w" "P A (w\<lparr>local_frames := n\<rparr>) = P A w"
      "P A (w\<lparr>java_exception := e\<rparr>) = P A w" "P A (w\<lparr>js_stacks := ss\<rparr>) = P A w"
    and atoms_held: "P A w \<Longrightarrow> P (A + {#a#}) (hold_atom a w)"
    and atoms_freed: "P (A + {#a#}) w \<Longrightarrow> kept_world (P A) (JS_FreeAtom a w)"
    and opaque_set: "P A w \<Longrightarrow> P A ((case p of None \<Rightarrow> w | Some x \<Rightarrow> hold_global x w)\<lparr>user_opaque := p\<rparr>)"
    and opaque_freed: "P A w \<Longrightarrow> user_opaque w = Some x \<Longrightarrow> kept_world (P A) (DeleteGlobalRef x (w\<lparr>user_opaque := None\<rparr>))"
begin

lemmas neutral [simp] = engine java

lemma guests [kept_rules]:
  assumes "P A w"
  shows "kept (P A) (vm_get vm v a w)" "kept (P A) (vm_put vm v a x w)" "kept (P A) (vm_has vm v a w)"
    "kept (P A) (vm_set_functions vm v fs w)" "kept (P A) (vm_call vm f v vs w)" "kept (P A) (vm_job vm n vs w)"
    "kept (P A) (vm_to_primitive vm v w)" "kept (P A) (vm_to_number vm v w)" "kept (P A) (vm_is_array vm n w)"
    "kept (P A) (vm_eval vm bs cs w)" "kept (P A) (vm_write_object vm v w)" "kept (P A) (vm_read_object vm bs w)"
    "kept (P A) (vm_resolve_module vm v w)" "kept (P A) (vm_eval_function vm v w)"
    "kept (P A) (jvm_call vm j s js w)" "kept (P A) (jvm_call_boolean vm j s js w)"
  using guest[of A] assms by (simp_all add: guest_keeps_def)

lemma references [kept_rules]:
  assumes "P A w"
  shows "P A (own v w)" "kept (P A) (JS_DupValue v w)" "kept_world (P A) (JS_FreeValue v w)" "kept (P A) (JS_GetGlobalObject w)"
  using assms by (simp_all add: own_def JS_DupValue_def JS_FreeValue_def JS_GetGlobalObject_def)

lemma JS_Throw_kept [kept_rules]: "P A w \<Longrightarrow> kept (P A) (JS_Throw v w)"
  by (auto simp: JS_Throw_def intro!: kept_rules)

lemma JS_GetException_kept [kept_rules]: "P A w \<Longrightarrow> kept (P A) (JS_GetException w)"
  by (auto simp: JS_GetException_def Let_def intro!: kept_rules)

lemma JS_ThrowError_kept [kept_rules]: "P A w \<Longrightarrow> kept (P A) (JS_ThrowError vm k s w)"
  by (auto simp: JS_ThrowError_def JS_ThrowError2_def Let_def split: prod.split intro!: kept_rules)

lemma throws [kept_rules]:
  assumes "P A w"
  shows "kept (P A) (JS_ThrowTypeError vm s w)" "kept (P A) (JS_ThrowReferenceError vm s w)"
    "kept (P A) (JS_ThrowInternalError vm s w)" "kept (P A) (JS_ThrowTypeErrorAtom vm s a s' w)"
  using assms by (auto simp: JS_ThrowTypeError_def JS_ThrowReferenceError_def JS_ThrowInternalError_def JS_ThrowTypeErrorAtom_def
      intro!: kept_rules)

lemma JS_ThrowOutOfMemory_kept [kept_rules]: "P A w \<Longrightarrow> kept (P A) (JS_ThrowOutOfMemory vm w)"
  by (auto simp: JS_ThrowOutOfMemory_def intro!: kept_rules)

lemma js_string_value_kept [kept_rules]: "P A w \<Longrightarrow> kept (P A) (js_string_value vm r w)"
  by (auto simp: js_string_value_def Let_def split: prod.split sum.split str_error.split intro!: kept_rules)

lemma throw_buf_error_kept [kept_rules]: "P A w \<Longrightarrow> kept (P A) (throw_buf_error vm s e w)"
  by (auto simp: throw_buf_error_def JS_ThrowTypeError_def JS_ThrowInternalError_def split: buf_error.split intro!: kept_rules)

subsubsection \<open>Properties and conversions of the engine\<close>

lemma JS_GetProperty_kept [kept_rules]: "P A w \<Longrightarrow> kept (P A) (JS_GetProperty vm v a w)"
  by (auto simp: JS_GetProperty_def JS_GetPropertyInternal_def split: jsval.split atom.split option.split intro!: kept_rules)

lemma JS_NewAtom_kept:
  assumes "P A w" "\<And>w. P (A + {#JS_NewAtomStr s#}) w \<Longrightarrow> kept (P B) (f (JS_NewAtomStr s, w))"
  shows "kept (P B) (Option.bind (JS_NewAtom s w) f)"
  using assms atoms_held by (simp add: JS_NewAtom_hold)

lemma JS_GetPropertyStr_kept [kept_rules]: "P A w \<Longrightarrow> kept (P A) (JS_GetPropertyStr vm v s w)"
  unfolding JS_GetPropertyStr_def
  by (erule JS_NewAtom_kept, simp only: prod.case, rule kept_bind_via, erule JS_GetProperty_kept,
      simp only: prod.case, rule kept_bind_world, erule atoms_freed, simp)

lemma JS_GetPropertyUint32_kept [kept_rules]: "P A w \<Longrightarrow> kept (P A) (JS_GetPropertyUint32 vm v i w)"
  by (auto simp: JS_GetPropertyUint32_def split: jsval.split intro!: kept_rules)

lemma JS_Invoke_kept [kept_rules]: "P A w \<Longrightarrow> kept (P A) (JS_Invoke vm v a vs w)"
  by (auto simp: JS_Invoke_def intro!: kept_rules)

lemma js_primitive_to_string_kept [kept_rules]: "P A w \<Longrightarrow> kept (P A) (js_primitive_to_string vm v w)"
  by (auto simp: js_primitive_to_string_def split: jsval.split prod.split intro!: kept_rules)

lemma JS_ToStringInternal_kept [kept_rules]: "P A w \<Longrightarrow> kept (P A) (JS_ToStringInternal vm v w)"
  by (auto simp: JS_ToStringInternal_def intro!: kept_rules)

lemma JS_ToCString_kept [kept_rules]: "P A w \<Longrightarrow> kept (P A) (JS_ToCString vm v w)"
  by (auto simp: JS_ToCString_def split: jsval.split prod.split sum.split intro!: kept_rules)

lemma JS_FreeCString_kept [kept_rules]: "P A w \<Longrightarrow> kept_world (P A) (JS_FreeCString s w)"
  by (auto simp: JS_FreeCString_def split: option.split)

lemma JS_ToUint32_kept [kept_rules]: "P A w \<Longrightarrow> kept (P A) (JS_ToUint32 vm v w)"
  by (auto simp: JS_ToUint32_def Let_def split: option.split intro!: kept_rules)

lemma ctx_new_string_kept [kept_rules]: "P A w \<Longrightarrow> kept (P A) (ctx_new_string vm s w)"
  by (auto simp: ctx_new_string_def intro!: kept_rules)

lemma JS_NewArray_kept [kept_rules]: "P A w \<Longrightarrow> kept (P A) (JS_NewArray vm w)"
  by (auto simp: JS_NewArray_def Let_def split: prod.split intro!: kept_rules)

lemma JS_SetPropertyUint32_kept [kept_rules]: "P A w \<Longrightarrow> kept (P A) (JS_SetPropertyUint32 vm v i x w)"
  by (auto simp: JS_SetPropertyUint32_def Let_def split: jsval.split jsref.split prod.split intro!: kept_rules)

lemma JS_IsArray_kept [kept_rules]: "P A w \<Longrightarrow> kept (P A) (JS_IsArray vm v w)"
  by (auto simp: JS_IsArray_def split: jsval.split jsref.split intro!: kept_rules)

lemma JS_ExecutePendingJob_kept [kept_rules]: "P A w \<Longrightarrow> kept (P A) (JS_ExecutePendingJob vm w)"
  by (auto simp: JS_ExecutePendingJob_def split: list.split intro!: kept_rules)

subsubsection \<open>The JNI\<close>

lemma java_calls [kept_rules]:
  assumes "P A w"
  shows "kept_world (P A) (Throw e w)" "kept_world (P A) (PushLocalFrame w)" "kept_world (P A) (PopLocalFrame w)"
    "kept (P A) (NewByteArray n w)" "kept (P A) (GetByteArrayElements bs w)" "kept (P A) (ReleaseByteArrayElements bs bs' mode w)"
    "kept (P A) (SetByteArrayRegion bs n bs' w)" "kept (P A) (NewObjectArray i w)" "kept (P A) (SetObjectArrayElement arr n x w)"
    "kept (P A) (new_java_string vm bs w)" "kept (P A) (call_get_bytes vm x w)" "kept (P A) (CallObjectMethod vm j s js w)"
    "kept (P A) (CallBooleanMethod vm j s js w)" "kept_world (P A) (throwJavaException s s' w)"
    "kept_world (P A) (throwJsExceptionFmt s w)" "P A (ExceptionClear w)"
  using assms
  by (auto simp: Throw_def PushLocalFrame_def PopLocalFrame_def NewByteArray_def GetByteArrayElements_def ReleaseByteArrayElements_def
      SetByteArrayRegion_def NewObjectArray_def SetObjectArrayElement_def new_java_string_def call_get_bytes_def CallObjectMethod_def
      CallBooleanMethod_def throwJavaException_def throwJsExceptionFmt_def ExceptionClear_def
      split: release_mode.split option.split jobj.split intro!: kept_rules)

subsubsection \<open>Conversions\<close>

lemma toCppString_kept [kept_rules]: "P A w \<Longrightarrow> kept (P A) (toCppString vm s w)"
  by (auto simp: toCppString_def intro!: kept_rules)

lemma toJsString_kept [kept_rules]: "P A w \<Longrightarrow> kept (P A) (toJsString vm s w)"
  by (auto simp: toJsString_def intro!: kept_rules)

lemma toJavaString_kept [kept_rules]: "P A w \<Longrightarrow> kept (P A) (toJavaString vm v w)"
  by (auto simp: toJavaString_def intro!: kept_rules)

lemma DeleteGlobalRef_opaque:
  assumes "P A w" "user_opaque w = Some x"
  shows "kept_world (P A) (Option.bind (DeleteGlobalRef x (w\<lparr>user_opaque := None\<rparr>)) (\<lambda>w. Throw x (w\<lparr>js_stacks := js_stacks w @ s\<rparr>)))"
  by (rule kept_world_bind_world, rule opaque_freed[OF assms]) (auto intro!: kept_rules)

lemma throwJsException_kept [kept_rules]:
  assumes "P A w"
  shows "kept_world (P A) (throwJsException vm w)"
proof -
  have none: "P A (w\<lparr>user_opaque := None\<rparr>)" if "P A w" for w using opaque_set[OF that, of None] by simp
  show ?thesis using assms
    by (auto simp: throwJsException_def Let_def JS_GetContextOpaque_def JS_SetContextOpaque_def split: option.split
        intro!: kept_rules none DeleteGlobalRef_opaque)
qed

lemma throwJavaExceptionFromJs_kept [kept_rules]:
  assumes "P A w"
  shows "kept (P A) (throwJavaExceptionFromJs vm w)"
proof -
  have 1: "P A (ExceptionClear w)" using assms by (simp add: ExceptionClear_def)
  have 2: "P A ((case p of None \<Rightarrow> ExceptionClear w | Some x \<Rightarrow> hold_global x (ExceptionClear w))\<lparr>user_opaque := p\<rparr>)" for p
    by (rule opaque_set[OF 1])
  have 3: "NewGlobalRef p w = (if java_exception w = None then Some (p, case p of None \<Rightarrow> w | Some x \<Rightarrow> hold_global x w) else None)" for p w
    by (cases p) (simp_all add: NewGlobalRef_def jni_def hold_global_def)
  show ?thesis using 2 by (auto simp: throwJavaExceptionFromJs_def Let_def 3 JS_SetContextOpaque_def intro!: kept_rules)
qed

lemma on_heap_kept [kept_rules]: "P A w \<Longrightarrow> kept (P A) (on_heap vm s f w)"
  by (auto simp: on_heap_def Let_def split: sum.split intro!: kept_rules)

lemma new_ref_kept [kept_rules]: "kept (P A) r \<Longrightarrow> kept (P A) (new_ref f r)"
  by (auto simp: new_ref_def split: option.split intro!: kept_rules)

lemma new_int8_array_kept [kept_rules]: "P A w \<Longrightarrow> kept (P A) (new_int8_array vm v w)"
  by (auto simp: new_int8_array_def split: jsval.split jsref.split intro!: kept_rules)

lemma js_buffer_copy_kept [kept_rules]: "P A w \<Longrightarrow> kept (P A) (js_buffer_copy vm x w)"
  by (auto simp: js_buffer_copy_def split: option.split jobj.split list.split intro!: kept_rules)

lemma js_int8_arrays_kept [kept_rules]: "P A w \<Longrightarrow> kept_world (P A) (js_int8_arrays vm v i xs w)"
  by (induction xs arbitrary: i w) (auto intro!: kept_rules)

lemma toJsInt8ArrayArray_kept [kept_rules]: "P A w \<Longrightarrow> kept (P A) (toJsInt8ArrayArray vm x w)"
  by (auto simp: toJsInt8ArrayArray_def split: option.split jobj.split intro!: kept_rules)

lemma get_typed_array_buffer_kept [kept_rules]: "P A w \<Longrightarrow> kept (P A) (get_typed_array_buffer vm v w)"
  by (auto simp: get_typed_array_buffer_def split: option.split jsval.split jsref.split intro!: kept_rules)

lemma java_byte_array_kept [kept_rules]: "P A w \<Longrightarrow> kept (P A) (java_byte_array vm v i w)"
  by (auto simp: java_byte_array_def Let_def split: option.split intro!: kept_rules)

lemma java_byte_arrays_kept [kept_rules]: "P A w \<Longrightarrow> kept (P A) (java_byte_arrays vm v i n xs w)"
  by (induction n arbitrary: i xs w) (auto split: option.split intro!: kept_rules)

lemma toJavaByteArrayArray_kept [kept_rules]: "P A w \<Longrightarrow> kept (P A) (toJavaByteArrayArray vm v w)"
  by (auto simp: toJavaByteArrayArray_def split: option.split intro!: kept_rules)

lemma value_of_kept [kept_rules]: "P A w \<Longrightarrow> kept (P A) (value_of x w)"
  by (auto simp: value_of_def intro!: kept_rules)

lemma unsupported_value_kept [kept_rules]: "P A w \<Longrightarrow> kept (P A) (unsupported_value vm v b w)"
  by (auto simp: unsupported_value_def intro!: kept_rules)

lemma to_java_elements_kept:
  "(\<And>v w. P A w \<Longrightarrow> kept (P A) (conv v w)) \<Longrightarrow> P A w \<Longrightarrow> kept (P A) (to_java_elements vm conv v i n r w)"
  by (induction n arbitrary: i r w) (auto intro!: kept_rules)

lemma toJavaObject_kept [kept_rules]: "P A w \<Longrightarrow> kept (P A) (toJavaObject depth vm v b w)"
  by (induction depth arbitrary: v b w) (auto split: jsval.split intro!: kept_rules to_java_elements_kept)

subsubsection \<open>Channels and the operations of a context\<close>

lemma Inbound_kept [kept_rules]:
  assumes "P A w"
  shows "kept (P A) (Inbound_call vm n x y w)" "kept (P A) (Inbound_takeResultBuffers vm n w)" "kept (P A) (Inbound_disconnect vm n x w)"
  using assms
  by (auto simp: Inbound_call_def Inbound_takeResultBuffers_def Inbound_disconnect_def split: jsval.split intro!: kept_rules)

lemma outbound_result_kept [kept_rules]: "kept (P A) r \<Longrightarrow> kept (P A) (outbound_result r)"
  by (auto simp: outbound_result_def intro!: kept_rules)

lemma Outbound_kept [kept_rules]:
  assumes "P A w"
  shows "kept (P A) (Outbound_call vm v vs w)" "kept (P A) (Outbound_takeResultBuffers vm v vs w)" "kept (P A) (Outbound_disconnect vm v vs w)"
  using assms
  by (auto simp: Outbound_call_def Outbound_takeResultBuffers_def Outbound_disconnect_def Let_def split: option.split intro!: kept_rules)

lemma poll_kept [kept_rules]:
  assumes "P A w"
  shows "kept (P A) (jsInterruptHandlerPoll vm w)" "kept (P A) (js_poll_interrupts_slow vm w)"
proof -
  have 1: "kept (P A) (jsInterruptHandlerPoll vm w)" if "P A w" for w
    using that by (auto simp: jsInterruptHandlerPoll_def JS_SetInterruptHandler_def split: option.split intro!: kept_rules)
  show "kept (P A) (jsInterruptHandlerPoll vm w)" "kept (P A) (js_poll_interrupts_slow vm w)"
    using assms 1 by (auto simp: js_poll_interrupts_slow_def JS_ThrowInterrupted_def intro!: kept_rules)
qed

lemma execute_kept [kept_rules]: "P A w \<Longrightarrow> kept (P A) (execute depth vm bs w)"
  by (auto simp: execute_def intro!: kept_rules)

lemma compile_kept [kept_rules]: "P A w \<Longrightarrow> kept (P A) (compile vm s f w)"
  by (auto simp: compile_def Let_def split: option.split list.split intro!: kept_rules)

lemma executePendingJobs_loop_kept: "P A w \<Longrightarrow> kept (P A) (executePendingJobs_loop n vm k w)"
  by (induction n arbitrary: k w) (auto intro!: kept_rules)

lemma executePendingJobs_kept [kept_rules]: "P A w \<Longrightarrow> kept (P A) (executePendingJobs n vm w)"
  by (simp add: executePendingJobs_def executePendingJobs_loop_kept)

lemma declare_newFinalizer_kept:
  assumes "P A w" "\<And>B w. P B w \<Longrightarrow> kept (P B) (new_function w)"
  shows "kept (P A) (declare_newFinalizer vm new_function v w)"
  unfolding declare_newFinalizer_def using assms(1)
  by (rule JS_NewAtom_kept, simp only: prod.case)
    (rule kept_bind_via, erule assms(2), simp only: prod.case, rule kept_bind_via, erule guests(3), simp only: prod.case,
     rule kept_bind_via[where Q = "P (A + {#JS_NewAtomStr ''app_cash_zipline_newFinalizer''#})"],
     fastforce intro!: kept_rules, simp only: prod.case, rule kept_bind_world, erule atoms_freed, simp)

lemma installFinalizationRegistry_kept [kept_rules]:
  assumes "P A w" "\<And>B w. P B w \<Longrightarrow> kept (P B) (new_function w)"
  shows "kept (P A) (installFinalizationRegistry vm js new_function w)"
proof -
  have c: "kept (P A) (compileAndExecuteJs vm js w)" if "P A w" for w
    using that by (auto simp: compileAndExecuteJs_def split: option.split intro!: kept_rules)
  show ?thesis using assms(1) c declare_newFinalizer_kept[OF _ assms(2)]
    by (auto simp: installFinalizationRegistry_def Let_def split: prod.split intro!: kept_rules)
qed

end

end
