(* ===== verification/Accounting.thy ===== *)
theory Accounting
  imports Frames
begin

text \<open>
  The native resources of a \<open>Context\<close>: which global references of the JNI and which atoms it holds between
  two calls, that every operation keeps the account, and that the destructor finds what it releases.
\<close>

subsection \<open>The account\<close>

definition optional_ref :: "jobj option \<Rightarrow> jobj multiset" where
  "optional_ref p = (case p of None \<Rightarrow> {#} | Some x \<Rightarrow> {#x#})"

definition channel_refs :: "(jobj \<times> string) option list \<Rightarrow> jobj multiset" where
  "channel_refs cs = sum_list (map (\<lambda>c. case c of None \<Rightarrow> {#} | Some (obj, _) \<Rightarrow> {#obj, callChannelClass#}) cs)"

definition class_refs :: "jobj list" where
  "class_refs = [booleanClass, integerClass, doubleClass, objectClass, stringClass, stringUtf8, quickJsExceptionClass, interruptHandlerClass]"

definition used_refs :: "'h world \<Rightarrow> jobj multiset" where
  "used_refs w = mset class_refs + optional_ref (interrupt_handler w) + optional_ref (user_opaque w) + channel_refs (channels w)"

definition used_atoms :: "'h world \<Rightarrow> atom multiset" where
  "used_atoms w = mset (map JS_NewAtomStr context_atoms) + mset (map JS_NewAtomStr (call_channels w))"

text \<open>
  The references \<open>G\<close> of others and those that the context uses are held; the atoms are exactly the
  atoms \<open>A\<close> of others and those of the context.
\<close>

definition accounted :: "jobj multiset \<Rightarrow> atom multiset \<Rightarrow> 'h world \<Rightarrow> bool" where
  "accounted G A w \<longleftrightarrow> G + used_refs w \<subseteq># global_refs w \<and> atoms w = A + used_atoms w"

definition guest_accounted :: "'h vm \<Rightarrow> bool" where
  "guest_accounted vm \<longleftrightarrow> (\<forall>G A. guest_keeps (accounted G A) vm)"

lemma optional_ref [simp]: "optional_ref None = {#}" "optional_ref (Some x) = {#x#}"
  by (simp_all add: optional_ref_def)

lemma kept_imp: "kept (\<lambda>w. b \<longrightarrow> P w) r = (b \<longrightarrow> kept P r)" "kept_world (\<lambda>w. b \<longrightarrow> P w) r' = (b \<longrightarrow> kept_world P r')"
  by (auto simp: kept_def kept_world_def)

lemma guest_keeps_imp: "(b \<Longrightarrow> guest_keeps P vm) \<Longrightarrow> guest_keeps (\<lambda>w. b \<longrightarrow> P w) vm"
  by (cases b, simp, simp add: guest_keeps_def kept_def)

lemma accounted_atoms:
  "accounted G A w \<Longrightarrow> accounted G (A + {#a#}) (hold_atom a w)"
  "accounted G (A + {#a#}) w \<Longrightarrow> kept_world (accounted G A) (JS_FreeAtom a w)"
  by (auto simp: accounted_def used_refs_def used_atoms_def hold_atom_def JS_FreeAtom_def)

lemma accounted_opaque_set:
  assumes "accounted G A w"
  shows "accounted G A ((case p of None \<Rightarrow> w | Some x \<Rightarrow> hold_global x w)\<lparr>user_opaque := p\<rparr>)"
proof -
  define M where "M = G + (mset class_refs + optional_ref (interrupt_handler w) + channel_refs (channels w))"
  have e: "G + (mset class_refs + optional_ref (interrupt_handler w) + o' + channel_refs (channels w)) = M + o'" for o'
    unfolding M_def by (simp only: add.assoc add.commute add.left_commute)
  have "M + optional_ref (user_opaque w) \<subseteq># global_refs w"
    using assms e[of "optional_ref (user_opaque w)"] unfolding accounted_def used_refs_def by metis
  then have 1: "M \<subseteq># global_refs w" using subset_mset.order_trans[of M "M + optional_ref (user_opaque w)" "global_refs w"] by simp
  have 2: "atoms w = A + used_atoms w" using assms unfolding accounted_def by (rule conjunct2)
  show ?thesis
  proof (cases p)
    case None
    have "G + used_refs (w\<lparr>user_opaque := None\<rparr>) = M" by (simp add: used_refs_def M_def)
    then show ?thesis using 1 2 None by (simp add: accounted_def used_atoms_def)
  next
    case (Some x)
    have "G + used_refs ((hold_global x w)\<lparr>user_opaque := Some x\<rparr>) = add_mset x M" by (simp add: used_refs_def M_def hold_global_def)
    then show ?thesis using 1 2 Some by (simp add: accounted_def used_atoms_def hold_global_def)
  qed
qed

lemma accounted_opaque_freed:
  "accounted G A w \<Longrightarrow> user_opaque w = Some x \<Longrightarrow> kept_world (accounted G A) (DeleteGlobalRef x (w\<lparr>user_opaque := None\<rparr>))"
  by (auto simp: accounted_def used_refs_def used_atoms_def DeleteGlobalRef_def insert_subset_eq_iff)

lemma accounted_neutral [simp]:
  "accounted G A (w\<lparr>current_exception := v\<rparr>) = accounted G A w"
  "accounted G A (w\<lparr>uncatchable := b\<rparr>) = accounted G A w"
  "accounted G A (w\<lparr>in_out_of_memory := b\<rparr>) = accounted G A w"
  "accounted G A (w\<lparr>owned := r\<rparr>) = accounted G A w"
  "accounted G A (w\<lparr>heap := h\<rparr>) = accounted G A w"
  "accounted G A (w\<lparr>arrays := as\<rparr>) = accounted G A w"
  "accounted G A (w\<lparr>errors := es\<rparr>) = accounted G A w"
  "accounted G A (w\<lparr>job_list := js\<rparr>) = accounted G A w"
  "accounted G A (w\<lparr>c_strings := n\<rparr>) = accounted G A w"
  "accounted G A (w\<lparr>mem := m\<rparr>) = accounted G A w"
  "accounted G A (w\<lparr>poll_installed := b\<rparr>) = accounted G A w"
  "accounted G A (w\<lparr>elements := n\<rparr>) = accounted G A w"
  "accounted G A (w\<lparr>local_frames := n\<rparr>) = accounted G A w"
  "accounted G A (w\<lparr>java_exception := e\<rparr>) = accounted G A w"
  "accounted G A (w\<lparr>js_stacks := ss\<rparr>) = accounted G A w"
  "accounted G A (w\<lparr>channel_class := b\<rparr>) = accounted G A w"
  "accounted G A (w\<lparr>runtime_opaque := b\<rparr>) = accounted G A w"
  by (simp_all add: accounted_def used_refs_def used_atoms_def)

text \<open>The account is kept as long as guest code keeps it.\<close>

definition balanced :: "'h vm \<Rightarrow> jobj multiset \<Rightarrow> atom multiset \<Rightarrow> 'h world \<Rightarrow> bool" where
  "balanced vm G A w \<longleftrightarrow> (guest_accounted vm \<longrightarrow> accounted G A w)"

lemma balanced_kept:
  "kept (balanced vm G A) r = (guest_accounted vm \<longrightarrow> kept (accounted G A) r)"
  "kept_world (balanced vm G A) r' = (guest_accounted vm \<longrightarrow> kept_world (accounted G A) r')"
  by (auto simp: kept_def kept_world_def balanced_def)

interpretation accounts: frame vm "balanced vm G" for vm G
proof
  show "guest_keeps (balanced vm G A) vm" for A
    using guest_keeps_imp[of "guest_accounted vm" "accounted G A" vm]
    by (simp add: guest_accounted_def balanced_def[abs_def])
  show "balanced vm G (A + {#a#}) (hold_atom a w)" if "balanced vm G A w" for A a w
    using that accounted_atoms(1) unfolding balanced_def by blast
  show "kept_world (balanced vm G A) (JS_FreeAtom a w)" if "balanced vm G (A + {#a#}) w" for A a w
    using that accounted_atoms(2) unfolding balanced_kept balanced_def by blast
  show "balanced vm G A ((case p of None \<Rightarrow> w | Some x \<Rightarrow> hold_global x w)\<lparr>user_opaque := p\<rparr>)" if "balanced vm G A w" for A p w
    using that accounted_opaque_set unfolding balanced_def by blast
  show "kept_world (balanced vm G A) (DeleteGlobalRef x (w\<lparr>user_opaque := None\<rparr>))"
    if "balanced vm G A w" "user_opaque w = Some x" for A x w
    using that accounted_opaque_freed unfolding balanced_kept balanced_def by blast
qed (simp_all add: balanced_def)

subsection \<open>The operations that change the account\<close>

lemma setInterruptHandler_accounted:
  assumes "accounted G A w" "setInterruptHandler h w = Some w'"
  shows "accounted G A w'"
  using assms
  by (cases "interrupt_handler w"; cases h)
    (auto simp: setInterruptHandler_def NewGlobalRef_def DeleteGlobalRef_def accounted_def used_refs_def used_atoms_def jni_def
      bind_eq_Some_conv insert_subset_eq_iff split: if_splits)

lemma setInterruptHandler_balanced: "balanced vm G A w \<Longrightarrow> kept_world (balanced vm G A) (setInterruptHandler h w)"
  using setInterruptHandler_accounted unfolding balanced_kept by (auto simp: balanced_def kept_world_def)

lemma balanced_add_channel: "balanced vm G (A + {#JS_NewAtomStr s#}) w \<Longrightarrow> balanced vm G A (w\<lparr>call_channels := call_channels w @ [s]\<rparr>)"
  by (simp add: balanced_def accounted_def used_refs_def used_atoms_def)

lemma balanced_plus: "balanced vm G (add_mset a A) w \<Longrightarrow> balanced vm G (A + {#a#}) w" by simp

lemma getInboundCallChannel_balanced:
  assumes "balanced vm G A w"
  shows "kept (balanced vm G A) (getInboundCallChannel vm name w)"
proof -
  have n: "kept (balanced vm G A) (Option.bind (new_InboundCallChannel s w)
      (\<lambda>(nameAtom, w). if \<not> ExceptionCheck w then Some (Some nameAtom, w\<lparr>call_channels := call_channels w @ [s]\<rparr>)
            else do { w \<leftarrow> delete_InboundCallChannel nameAtom w; Some (None, w) }))" if "balanced vm G A w" for s w
    unfolding new_InboundCallChannel_def using that
  proof (rule accounts.JS_NewAtom_kept)
    fix w
    assume b: "balanced vm G (A + {#JS_NewAtomStr s#}) w"
    have "kept_world (balanced vm G A) (JS_FreeAtom (JS_NewAtomStr s) w)" using b by (rule accounts.atoms_freed)
    then show "kept (balanced vm G A) (case (JS_NewAtomStr s, w) of (nameAtom, w) \<Rightarrow>
        if \<not> ExceptionCheck w then Some (Some nameAtom, w\<lparr>call_channels := call_channels w @ [s]\<rparr>)
        else do { w \<leftarrow> delete_InboundCallChannel nameAtom w; Some (None, w) })"
      using balanced_add_channel[OF b] by (auto simp: delete_InboundCallChannel_def intro: kept_bind_world)
  qed
  show ?thesis
    unfolding getInboundCallChannel_def Let_def
    by (rule kept_bind, rule accounts.references(4), rule assms, simp only: prod.case, rule kept_unit,
        rule kept_bind, erule accounts.JS_GetPropertyStr_kept, simp only: prod.case, rule kept_bind)
      (auto intro!: kept_rules n)
qed

lemma channel_refs_append: "channel_refs (cs @ ds) = channel_refs cs + channel_refs ds"
  by (simp add: channel_refs_def)

lemma channel_refs_update:
  assumes "n < length cs"
  shows "channel_refs (cs[n := c]) + channel_refs [cs ! n] = channel_refs cs + channel_refs [c]"
proof -
  have "cs = take n cs @ [cs ! n] @ drop (Suc n) cs" "cs[n := c] = take n cs @ [c] @ drop (Suc n) cs"
    using assms by (simp_all add: id_take_nth_drop[symmetric] upd_conv_take_nth_drop)
  then have "channel_refs cs = channel_refs (take n cs) + (channel_refs [cs ! n] + channel_refs (drop (Suc n) cs))"
    "channel_refs (cs[n := c]) = channel_refs (take n cs) + (channel_refs [c] + channel_refs (drop (Suc n) cs))"
    by (metis channel_refs_append)+
  then show ?thesis by simp
qed

lemma accounted_new_channel: "accounted G A (w\<lparr>mem := m, channels := channels w @ [None]\<rparr>) = accounted G A w"
  by (simp add: accounted_def used_refs_def used_atoms_def channel_refs_append) (simp add: channel_refs_def)

lemma channel_refs_set: "channel_refs (cs[n := Some c]) \<subseteq># channel_refs cs + channel_refs [Some c]"
proof (cases "n < length cs")
  case True
  then show ?thesis using channel_refs_update[OF True, of "Some c"] by (metis mset_subset_eq_add_left)
qed (simp add: list_update_beyond)

lemma accounted_set_opaque:
  assumes "accounted (G + {#obj, callChannelClass#}) A w"
  shows "accounted G A (JS_SetOpaque v (Some (obj, s)) w)"
proof -
  define M where "M = G + (mset class_refs + optional_ref (interrupt_handler w) + optional_ref (user_opaque w))"
  have 1: "M + (channel_refs (channels w) + {#obj, callChannelClass#}) \<subseteq># global_refs w" "atoms w = A + used_atoms w"
    using assms by (simp_all add: accounted_def used_refs_def M_def add.assoc)
  have "M + channel_refs (channels w) \<subseteq># M + (channel_refs (channels w) + {#obj, callChannelClass#})" by simp
  then have 2: "M + channel_refs (channels w) \<subseteq># global_refs w" using 1(1) by (rule subset_mset.order_trans)
  have c: "channel_refs [Some (obj, s)] = {#obj, callChannelClass#}" by (simp add: channel_refs_def)
  have "M + channel_refs ((channels w)[n := Some (obj, s)]) \<subseteq># M + (channel_refs (channels w) + {#obj, callChannelClass#})" for n
    using channel_refs_set[of "channels w" n "(obj, s)"] unfolding c by (simp add: add_mset_commute)
  then have 3: "M + channel_refs ((channels w)[n := Some (obj, s)]) \<subseteq># global_refs w" for n
    using 1(1) by (rule subset_mset.order_trans)
  have "G + used_refs w = M + channel_refs (channels w)"
    "G + used_refs (w\<lparr>channels := (channels w)[n := Some (obj, s)]\<rparr>) = M + channel_refs ((channels w)[n := Some (obj, s)])" for n
    by (simp_all add: used_refs_def M_def add.assoc)
  then show ?thesis
    using 1(2) 2 3 by (auto simp: accounted_def JS_SetOpaque_def used_atoms_def split: jsval.split jsref.split)
qed

lemma accounted_hold: "accounted G A w \<Longrightarrow> accounted (G + {#p#}) A (hold_global p w)"
  by (simp add: accounted_def used_refs_def used_atoms_def hold_global_def add.assoc)

lemma accounted_release: "accounted (G + {#p#}) A w \<Longrightarrow> kept_world (accounted G A) (DeleteGlobalRef p w)"
  by (auto simp: accounted_def used_refs_def used_atoms_def DeleteGlobalRef_def insert_subset_eq_iff)

lemma balanced_hold:
  assumes "balanced vm G A w"
  shows "kept (balanced vm (G + {#p#}) A) (NewGlobalRef (Some p) w)"
  using assms accounted_hold[of G A w p]
  by (auto simp: NewGlobalRef_def jni_def balanced_def kept_def bind_eq_Some_conv hold_global_def split: if_splits)

lemma new_OutboundCallChannel_balanced:
  assumes "balanced vm G A w"
  shows "kept (balanced vm (G + {#obj, callChannelClass#}) A) (new_OutboundCallChannel vm name obj v w)"
proof -
  have e: "G + {#obj, callChannelClass#} = G + {#obj#} + {#callChannelClass#}" by simp
  show ?thesis
    unfolding new_OutboundCallChannel_def
    by (rule kept_bind_via, rule balanced_hold[OF assms, of obj], simp only: prod.case, rule kept_bind_via, erule balanced_hold,
        simp only: prod.case e, rule kept_bind) (auto intro!: kept_rules)
qed

lemma new_OutboundCallChannel_result:
  "new_OutboundCallChannel vm name obj v w = Some (c, w') \<Longrightarrow> c = (obj, name)"
  by (auto simp: new_OutboundCallChannel_def bind_eq_Some_conv)

lemma delete_OutboundCallChannel_balanced:
  assumes "balanced vm (G + {#obj, callChannelClass#}) A w"
  shows "kept_world (balanced vm G A) (delete_OutboundCallChannel (obj, name) w)"
proof -
  have e: "G + {#obj, callChannelClass#} = G + {#callChannelClass#} + {#obj#}" by simp
  have r: "kept_world (balanced vm H A) (DeleteGlobalRef p w)" if "balanced vm (H + {#p#}) A w" for H p w
    using that accounted_release unfolding balanced_kept balanced_def by blast
  show ?thesis
    using assms unfolding delete_OutboundCallChannel_def fst_conv e
    by (intro kept_world_bind_world_via[OF r r])
qed

lemma set_channel_object_balanced:
  assumes "balanced vm G A w"
  shows "kept_world (balanced vm G A) (set_channel_object vm global a name obj w)"
proof -
  have n: "kept (balanced vm G A) (JS_NewObjectClass vm w)" if "balanced vm G A w" for w
    using that by (auto simp: JS_NewObjectClass_def Let_def balanced_def accounted_new_channel own_def split: prod.split intro!: kept_rules)
  have o: "kept_world (balanced vm G A) (Option.bind (new_OutboundCallChannel vm name obj v w)
      (\<lambda>(javaObject, w). if \<not> ExceptionCheck w then Some (JS_SetOpaque v (Some javaObject) w) else delete_OutboundCallChannel javaObject w))"
    if "balanced vm G A w" for v w
  proof (cases "new_OutboundCallChannel vm name obj v w")
    case (Some r)
    obtain c w' where r: "r = (c, w')" by fastforce
    have c: "c = (obj, name)" using new_OutboundCallChannel_result Some r by blast
    have b: "balanced vm (G + {#obj, callChannelClass#}) A w'"
      using new_OutboundCallChannel_balanced[OF that, of obj name v] Some r by (simp add: kept_def)
    have "balanced vm G A (JS_SetOpaque v (Some (obj, name)) w')"
      using b accounted_set_opaque unfolding balanced_def by blast
    then show ?thesis using delete_OutboundCallChannel_balanced[OF b, of name] by (simp add: Some r c)
  qed simp
  show ?thesis unfolding set_channel_object_def
    using assms by (auto intro!: kept_rules n o)
qed

lemma setOutboundCallChannel_balanced:
  assumes "balanced vm G A w"
  shows "kept_world (balanced vm G A) (setOutboundCallChannel vm name obj w)"
proof -
  have s: "kept_world (balanced vm G B) (set_channel_object vm global a s obj w)" if "balanced vm G B w" for B global a s w
    by (rule set_channel_object_balanced[OF that])
  have cc: "balanced vm G B (w\<lparr>channel_class := True\<rparr>) = balanced vm G B w" for B and w :: "'a world" by (simp add: balanced_def)
  have n: "kept_world (balanced vm G A) (Option.bind (JS_NewAtom s w) (\<lambda>(objName, w). do {
       (has, w) \<leftarrow> vm_has vm global objName w;
       w \<leftarrow> (if has = 0 then do {
               w \<leftarrow> (if channel_class w then Some w
                     else let (ok, m) = js_malloc (mem w); w = w\<lparr>mem := m\<rparr> in
                          if ok then Some (w\<lparr>channel_class := True\<rparr>)
                          else throwJavaException ''java/lang/NullPointerException''
                                 ''Failed to allocate JavaScript OutboundCallChannel class'' w);
               if channel_class w then set_channel_object vm global objName s obj w else Some w
             }
             else throwJavaException ''java/lang/IllegalArgumentException''
                    (''A global object called '' @ s @ '' already exists'') w);
       w \<leftarrow> JS_FreeAtom objName w;
       JS_FreeValue global w
     }))" if "balanced vm G A w" for s global w
  proof -
    have b: "balanced vm G (A + {#JS_NewAtomStr s#}) (hold_atom (JS_NewAtomStr s) w)" using that by (rule accounts.atoms_held)
    show ?thesis
      by (simp only: JS_NewAtom_hold bind.bind_lunit prod.case, rule kept_world_bind_via, rule accounts.guests(3), rule b,
          simp only: prod.case, rule kept_world_bind_world_via[where Q = "balanced vm G (A + {#JS_NewAtomStr s#})"])
        (auto simp: Let_def cc accounts.neutral split: prod.split simp del: union_mset_add_mset_right intro!: kept_rules s accounts.atoms_freed)
  qed
  show ?thesis unfolding setOutboundCallChannel_def Let_def
    by (rule kept_world_bind, rule accounts.references(4), rule assms, simp only: prod.case, rule kept_unit, erule n[unfolded Let_def])
qed

lemma jsFinalizeOutboundCallChannel_balanced:
  assumes "balanced vm G A w"
  shows "kept_world (balanced vm G A) (jsFinalizeOutboundCallChannel n w)"
proof (cases "JS_GetOpaque (JObject (RChannel n)) w")
  case None
  then show ?thesis using assms by (simp add: jsFinalizeOutboundCallChannel_def)
next
  case (Some c)
  obtain obj s where c: "c = (obj, s)" by fastforce
  have n: "n < length (channels w)" "channels w ! n = Some (obj, s)" using Some c by (auto simp: JS_GetOpaque_def split: if_splits)
  have e: "channel_refs ((channels w)[n := None]) + {#obj, callChannelClass#} = channel_refs (channels w)"
    using channel_refs_update[OF n(1), of None] n(2) by (simp add: channel_refs_def)
  have "accounted (G + {#obj, callChannelClass#}) A (w\<lparr>channels := (channels w)[n := None]\<rparr>) = accounted G A w"
    by (simp add: accounted_def used_refs_def used_atoms_def add.assoc add_mset_commute e[symmetric])
  then have "balanced vm (G + {#obj, callChannelClass#}) A (w\<lparr>channels := (channels w)[n := None]\<rparr>)"
    using assms by (simp add: balanced_def)
  then have "kept_world (balanced vm G A) (delete_OutboundCallChannel (obj, s) (w\<lparr>channels := (channels w)[n := None]\<rparr>))"
    by (rule delete_OutboundCallChannel_balanced)
  then show ?thesis using assms by (simp add: jsFinalizeOutboundCallChannel_def Some c)
qed

lemma finalize_channels_balanced: "balanced vm G A w \<Longrightarrow> kept_world (balanced vm G A) (finalize_channels n w)"
  by (induction n arbitrary: w) (auto intro!: kept_rules jsFinalizeOutboundCallChannel_balanced)

end
