(* ===== verification/ContextLife.thy ===== *)
theory ContextLife
  imports Accounting
begin

text \<open>
  The life of a \<open>Context\<close> as a step relation: created on a fresh runtime, used through the entry points in any
  order, destroyed.
\<close>

subsection \<open>Steps\<close>

text \<open>A runtime without objects of the bridge.\<close>

definition fresh_runtime :: "'h world \<Rightarrow> bool" where
  "fresh_runtime w \<longleftrightarrow> user_opaque w = None \<and> channels w = []"

inductive context_step :: "'h vm \<Rightarrow> 'h world \<Rightarrow> 'h world \<Rightarrow> bool" for vm where
  getInbound: "QuickJs_getInboundCallChannel vm True name w = Some (c, w') \<Longrightarrow> context_step vm w w'"
| setOutbound: "QuickJs_setOutboundCallChannel vm True name obj w = Some (u, w') \<Longrightarrow> context_step vm w w'"
| execute: "QuickJs_execute depth vm True code w = Some (r, w') \<Longrightarrow> context_step vm w w'"
| compile: "QuickJs_compile vm True source file w = Some (bs, w') \<Longrightarrow> context_step vm w w'"
| setHandler: "QuickJs_setInterruptHandler True h w = Some (u, w') \<Longrightarrow> context_step vm w w'"
| jobs: "QuickJs_executePendingJobs n vm True w = Some (k, w') \<Longrightarrow> context_step vm w w'"
| call: "JniCallChannel_call vm True inst json bufs w = Some (r, w') \<Longrightarrow> context_step vm w w'"
| takeResultBuffers: "JniCallChannel_takeResultBuffers vm True inst w = Some (r, w') \<Longrightarrow> context_step vm w w'"
| disconnect: "JniCallChannel_disconnect vm True inst json w = Some (b, w') \<Longrightarrow> context_step vm w w'"
| collected: "jsFinalizeOutboundCallChannel k w = Some w' \<Longrightarrow> context_step vm w w'"
| caught: "context_step vm w (ExceptionClear w)"

text \<open>\<open>newf\<close> makes the native function of the finalization registry.\<close>

inductive context_reachable :: "'h vm \<Rightarrow> u8 list \<Rightarrow> (jsval, 'h) action \<Rightarrow> 'h world \<Rightarrow> 'h world \<Rightarrow> bool" for vm js newf w0 where
  created: "new_Context (installFinalizationRegistry vm js newf) w0 = Some w \<Longrightarrow> context_reachable vm js newf w0 w"
| stepped: "context_reachable vm js newf w0 w \<Longrightarrow> context_step vm w w' \<Longrightarrow> context_reachable vm js newf w0 w'"

definition native_function_accounted :: "(jsval, 'h) action \<Rightarrow> bool" where
  "native_function_accounted newf \<longleftrightarrow> (\<forall>G A w. accounted G A w \<longrightarrow> kept (accounted G A) (newf w))"

subsection \<open>Creation\<close>

lemma new_atoms_eq: "new_atoms ss w = Some (w\<lparr>atoms := atoms w + mset (map JS_NewAtomStr ss)\<rparr>)"
  by (induction ss arbitrary: w) (auto simp: JS_NewAtom_def Let_def)

lemma new_global_refs_some:
  "new_global_refs ps w = Some w' \<Longrightarrow> w' = w\<lparr>global_refs := global_refs w + mset ps\<rparr>"
proof (induction ps arbitrary: w)
  case (Cons p ps)
  then have "new_global_refs ps (w\<lparr>global_refs := add_mset p (global_refs w)\<rparr>) = Some w'"
    by (simp add: NewGlobalRef_def jni_def bind_eq_Some_conv split: if_splits)
  from Cons.IH[OF this] show ?case by simp
qed simp

lemma new_Context_accounted:
  assumes "fresh_runtime w0" "new_Context install w0 = Some w" "guest_accounted vm"
    "\<And>w. balanced vm (global_refs w0) (atoms w0) w \<Longrightarrow> kept (balanced vm (global_refs w0) (atoms w0)) (install w)"
  shows "accounted (global_refs w0) (atoms w0) w"
proof -
  let ?B = "balanced vm (global_refs w0) (atoms w0)"
  define w1 where "w1 = w0\<lparr>atoms := atoms w0 + mset (map JS_NewAtomStr context_atoms)\<rparr>"
  obtain w2 i w4 where w2: "new_global_refs class_refs w1 = Some w2"
    and i: "install (JS_SetInterruptHandler True (w2\<lparr>interrupt_handler := None, runtime_opaque := True, channel_class := False, call_channels := []\<rparr>)) = Some (i, w4)"
    and w: "w = w4 \<or> throwJavaException ''java/lang/IllegalStateException'' ''Failed to install FinalizationRegistry'' w4 = Some w"
    using assms(2) by (auto simp: new_Context_def new_atoms_eq w1_def class_refs_def bind_eq_Some_conv Let_def split: if_splits)
  define w3 where "w3 = JS_SetInterruptHandler True (w2\<lparr>interrupt_handler := None, runtime_opaque := True, channel_class := False, call_channels := []\<rparr>)"
  have w2': "w2 = w1\<lparr>global_refs := global_refs w1 + mset class_refs\<rparr>" using w2 by (rule new_global_refs_some)
  have "accounted (global_refs w0) (atoms w0) w3"
    using assms(1) by (simp add: w3_def w2' w1_def accounted_def used_refs_def used_atoms_def JS_SetInterruptHandler_def fresh_runtime_def channel_refs_def)
  then have b: "?B w3" by (simp add: balanced_def)
  have "?B w4" using assms(4)[OF b] i by (simp add: kept_def w3_def)
  then have "?B w"
    using w accounts.java_calls(14)[of vm "global_refs w0" "atoms w0" w4] by (auto simp: kept_world_def)
  then show ?thesis using assms(3) by (simp add: balanced_def)
qed

subsection \<open>The invariant\<close>

lemma closed_kept: "\<lbrakk>P w; kept P (act w)\<rbrakk> \<Longrightarrow> kept P (closed failure True act w)"
  by (simp add: closed_def)

lemma valid_channel_balanced:
  "balanced vm G A w \<Longrightarrow> (\<And>c. kept (balanced vm G A) (act c w)) \<Longrightarrow> kept (balanced vm G A) (valid_channel failure inst act w)"
  by (auto simp: valid_channel_def split: option.split intro!: kept_rules)

lemma no_result_kept: "kept_world P (act w) \<Longrightarrow> kept P (no_result act w)"
  by (auto simp: no_result_def kept_def kept_world_def)

lemma context_step_balanced:
  assumes "context_step vm w w'" "balanced vm G A w"
  shows "balanced vm G A w'"
proof -
  show ?thesis using assms(1)
  proof cases
    case (getInbound name c)
    then show ?thesis using getInboundCallChannel_balanced[OF assms(2), of name]
      by (simp add: QuickJs_getInboundCallChannel_def closed_def kept_def)
  next
    case (setOutbound name obj u)
    then show ?thesis using no_result_kept[of "balanced vm G A" "setOutboundCallChannel vm name obj" w] setOutboundCallChannel_balanced[OF assms(2)]
      by (simp add: QuickJs_setOutboundCallChannel_def closed_def kept_def)
  next
    case (execute depth code r)
    then show ?thesis using accounts.execute_kept[OF assms(2), of depth code]
      by (simp add: QuickJs_execute_def closed_def kept_def)
  next
    case (compile source fname bs)
    then show ?thesis using accounts.compile_kept[OF assms(2), of source fname]
      by (simp add: QuickJs_compile_def closed_def kept_def)
  next
    case (setHandler h u)
    then show ?thesis using no_result_kept[of "balanced vm G A" "setInterruptHandler h" w] setInterruptHandler_balanced[OF assms(2)]
      by (simp add: QuickJs_setInterruptHandler_def closed_def kept_def)
  next
    case (jobs n k)
    then show ?thesis using accounts.executePendingJobs_kept[OF assms(2), of n]
      by (simp add: QuickJs_executePendingJobs_def closed_def kept_def)
  next
    case (call inst json bufs r)
    then show ?thesis using valid_channel_balanced[OF assms(2), of "\<lambda>c. Inbound_call vm c json bufs" None inst] accounts.Inbound_kept(1)[OF assms(2)]
      by (simp add: JniCallChannel_call_def closed_def kept_def)
  next
    case (takeResultBuffers inst r)
    then show ?thesis using valid_channel_balanced[OF assms(2), of "Inbound_takeResultBuffers vm" None inst] accounts.Inbound_kept(2)[OF assms(2)]
      by (simp add: JniCallChannel_takeResultBuffers_def closed_def kept_def)
  next
    case (disconnect inst json b)
    then show ?thesis using valid_channel_balanced[OF assms(2), of "\<lambda>c. Inbound_disconnect vm c json" False inst] accounts.Inbound_kept(3)[OF assms(2)]
      by (simp add: JniCallChannel_disconnect_def closed_def kept_def)
  next
    case (collected k)
    then show ?thesis using jsFinalizeOutboundCallChannel_balanced[OF assms(2), of k] by (simp add: kept_world_def)
  next
    case caught
    then show ?thesis using accounts.java_calls(16)[OF assms(2)] by simp
  qed
qed

lemma reachable_accounted:
  assumes "context_reachable vm js newf w0 w" "fresh_runtime w0" "guest_accounted vm" "native_function_accounted newf"
  shows "accounted (global_refs w0) (atoms w0) w"
  using assms(1)
proof (induction rule: context_reachable.induct)
  case (created w)
  show ?case
  proof (rule new_Context_accounted[OF assms(2) created assms(3)])
    fix w :: "'a world"
    assume b: "balanced vm (global_refs w0) (atoms w0) w"
    show "kept (balanced vm (global_refs w0) (atoms w0)) (installFinalizationRegistry vm js newf w)"
    proof (rule accounts.installFinalizationRegistry_kept[OF b])
      show "kept (balanced vm (global_refs w0) B) (newf w)" if "balanced vm (global_refs w0) B w" for B w
        using that assms(4) unfolding balanced_kept native_function_accounted_def balanced_def by blast
    qed
  qed
next
  case (stepped w w')
  then have "balanced vm (global_refs w0) (atoms w0) w" by (simp add: balanced_def)
  then show ?case using context_step_balanced[OF stepped(2)] assms(3) by (simp add: balanced_def)
qed

subsection \<open>Destruction\<close>

lemma finalize_channels_held:
  assumes "H + channel_refs (take n (channels w)) \<subseteq># global_refs w" "n \<le> length (channels w)"
  shows "\<exists>w'. finalize_channels n w = Some w' \<and> H \<subseteq># global_refs w' \<and> atoms w' = atoms w"
  using assms
proof (induction n arbitrary: w)
  case (Suc n)
  have n: "n < length (channels w)" using Suc.prems(2) by simp
  have t: "channel_refs (take (Suc n) (channels w)) = channel_refs (take n (channels w)) + channel_refs [channels w ! n]"
    using n by (simp add: take_Suc_conv_app_nth channel_refs_append)
  have less: "H + channel_refs (take n (channels w)) \<subseteq># global_refs w"
    using Suc.prems(1) unfolding t by (meson mset_subset_eq_add_left subset_mset.add_left_mono subset_mset.order_trans)
  show ?case
  proof (cases "runtime_opaque w \<and> channels w ! n \<noteq> None")
    case False
    then have "jsFinalizeOutboundCallChannel n w = Some w"
      using n by (cases "channels w ! n") (auto simp: jsFinalizeOutboundCallChannel_def JS_GetOpaque_def)
    then show ?thesis using Suc.IH[OF less] n by simp
  next
    case True
    then obtain obj s where c: "channels w ! n = Some (obj, s)" by auto
    let ?w = "w\<lparr>channels := (channels w)[n := None], global_refs := global_refs w - {#obj#} - {#callChannelClass#}\<rparr>"
    have h: "H + channel_refs (take n (channels w)) + {#callChannelClass#} + {#obj#} \<subseteq># global_refs w"
      using Suc.prems(1) unfolding t by (simp add: c channel_refs_def add_mset_commute)
    then have "obj \<in># global_refs w" "callChannelClass \<in># global_refs w - {#obj#}"
      and h': "H + channel_refs (take n (channels w)) \<subseteq># global_refs w - {#obj#} - {#callChannelClass#}"
      by (auto simp: insert_subset_eq_iff)
    then have "jsFinalizeOutboundCallChannel n w = Some ?w"
      using True n by (simp add: jsFinalizeOutboundCallChannel_def JS_GetOpaque_def c delete_OutboundCallChannel_def DeleteGlobalRef_def)
    moreover have "\<exists>w'. finalize_channels n ?w = Some w' \<and> H \<subseteq># global_refs w' \<and> atoms w' = atoms ?w"
      by (rule Suc.IH) (use h' n in simp_all)
    ultimately show ?thesis by auto
  qed
qed (simp add: channel_refs_def)

lemma add_subset_diff: "X + Y \<subseteq># Z \<Longrightarrow> X \<subseteq># Z - Y" for X Y Z :: "'a multiset"
  by (metis add_diff_cancel_right' subset_mset.diff_add subset_eq_diff_conv subset_mset.add_diff_inverse mset_subset_eq_add_right
      subset_mset.order_trans subset_mset.add_le_cancel_right)

lemma delete_Context_held:
  assumes "accounted G A w"
  shows "\<exists>w'. delete_Context w = Some w' \<and> G + optional_ref (user_opaque w) \<subseteq># global_refs w' \<and> atoms w' = A"
proof -
  define H where "H = G + optional_ref (user_opaque w)"
  let ?C = "mset (map JS_NewAtomStr (call_channels w))"
  let ?I = "optional_ref (interrupt_handler w)"
  define K where "K = mset (rev class_refs)"
  have r: "H + channel_refs (channels w) + K + ?I \<subseteq># global_refs w" and a: "atoms w = A + mset (map JS_NewAtomStr context_atoms) + ?C"
    using assms by (simp_all add: accounted_def used_refs_def used_atoms_def H_def K_def ac_simps)
  define w1 where "w1 = w\<lparr>atoms := A + mset (map JS_NewAtomStr context_atoms)\<rparr>"
  have 1: "release_list JS_FreeAtom (map JS_NewAtomStr (call_channels w)) w = Some w1"
    using js_atoms.release_list_held[of "map JS_NewAtomStr (call_channels w)" w] a by (simp add: w1_def)
  define w2 where "w2 = w1\<lparr>global_refs := global_refs w - ?I\<rparr>"
  have "?I \<subseteq># global_refs w" using r by (meson mset_subset_eq_add_right subset_mset.order_trans)
  then have 2: "(case interrupt_handler w1 of None \<Rightarrow> Some w1 | Some h \<Rightarrow> DeleteGlobalRef h w1) = Some w2"
    by (cases "interrupt_handler w") (simp_all add: w1_def w2_def DeleteGlobalRef_def)
  define w3 where "w3 = w2\<lparr>global_refs := global_refs w - ?I - K\<rparr>"
  have r2: "H + channel_refs (channels w) + K \<subseteq># global_refs w - ?I"
    using r by (rule add_subset_diff)
  then have "K \<subseteq># global_refs w2" unfolding w2_def by (simp) (meson mset_subset_eq_add_right subset_mset.order_trans)
  then have 3: "release_list DeleteGlobalRef (rev class_refs) w2 = Some w3"
    using jni_refs.release_list_held[of "rev class_refs" w2] by (simp add: w3_def w2_def K_def)
  define w4 where "w4 = w3\<lparr>atoms := A\<rparr>"
  have 4: "release_list JS_FreeAtom (map JS_NewAtomStr context_atoms) w3 = Some w4"
    using js_atoms.release_list_held[of "map JS_NewAtomStr context_atoms" w3] by (simp add: w3_def w2_def w1_def w4_def)
  have "H + channel_refs (channels w) \<subseteq># global_refs w - ?I - K" using r2 by (rule add_subset_diff)
  then have "H + channel_refs (take (length (channels w4)) (channels w4)) \<subseteq># global_refs w4"
    by (simp add: w4_def w3_def w2_def w1_def)
  then obtain w' where "finalize_channels (length (channels w4)) w4 = Some w'" "H \<subseteq># global_refs w'" "atoms w' = atoms w4"
    using finalize_channels_held by blast
  then show ?thesis
    using 1 2 3 4 unfolding delete_Context_def class_refs_def H_def
    by (simp del: release_list.simps add: w4_def)
qed

end
