(* ===== verification/ContextProps.thy ===== *)
theory ContextProps
  imports SampleEngine ContextLife
begin

text \<open>
  The properties of the other operations of a \<open>Context\<close>: entry points without a context, the interrupt
  handler, pending jobs, values that become Java objects.
\<close>

subsection \<open>Entry points without a context\<close>

definition illegal_state :: "string \<Rightarrow> 'h world \<Rightarrow> 'h world" where
  "illegal_state text w = w\<lparr>java_exception := Some (JvException ''java/lang/IllegalStateException'' text)\<rparr>"

lemma throwJavaException_state:
  "java_exception w = None \<Longrightarrow> length text \<le> 511 \<Longrightarrow>
    throwJavaException ''java/lang/IllegalStateException'' text w = Some (illegal_state text w)"
  by (simp add: throwJavaException_def jni_def Throw_def illegal_state_def)

text \<open>C23: Every entry point except \<open>destroyContext\<close> that is called on a closed instance throws an \<open>IllegalStateException\<close>,
  gives null, zero or false, and changes nothing else; a call through a channel that is gone does the same. Destroying a
  closed instance does nothing.\<close>

theorem closed_context_inert:
  assumes "java_exception w = None"
  shows "QuickJs_getInboundCallChannel vm False name w = Some (None, illegal_state ''QuickJs instance was closed'' w)
    \<and> QuickJs_setOutboundCallChannel vm False name obj w = Some ((), illegal_state ''QuickJs instance was closed'' w)
    \<and> QuickJs_execute depth vm False code w = Some (None, illegal_state ''QuickJs instance was closed'' w)
    \<and> QuickJs_compile vm False source file w = Some (None, illegal_state ''QuickJs instance was closed'' w)
    \<and> QuickJs_setInterruptHandler False handler w = Some ((), illegal_state ''QuickJs instance was closed'' w)
    \<and> QuickJs_memoryUsage control False w = Some (None, illegal_state ''QuickJs instance was closed'' w)
    \<and> QuickJs_setMemoryLimit control False limit w = Some ((), illegal_state ''QuickJs instance was closed'' w)
    \<and> QuickJs_setGcThreshold control False limit w = Some ((), illegal_state ''QuickJs instance was closed'' w)
    \<and> QuickJs_gc control False w = Some ((), illegal_state ''QuickJs instance was closed'' w)
    \<and> QuickJs_executePendingJobs fuel vm False w = Some (0, illegal_state ''QuickJs instance was closed'' w)
    \<and> QuickJs_setMaxStackSize control False limit w = Some ((), illegal_state ''QuickJs instance was closed'' w)
    \<and> JniCallChannel_call vm False inst json bufs w = Some (None, illegal_state ''QuickJs instance was closed'' w)
    \<and> JniCallChannel_takeResultBuffers vm False inst w = Some (None, illegal_state ''QuickJs instance was closed'' w)
    \<and> JniCallChannel_disconnect vm False inst json w = Some (False, illegal_state ''QuickJs instance was closed'' w)
    \<and> JniCallChannel_call vm True None json bufs w = Some (None, illegal_state ''Invalid JavaScript object'' w)
    \<and> JniCallChannel_takeResultBuffers vm True None w = Some (None, illegal_state ''Invalid JavaScript object'' w)
    \<and> JniCallChannel_disconnect vm True None json w = Some (False, illegal_state ''Invalid JavaScript object'' w)
    \<and> QuickJs_destroyContext False w = Some w"
  using throwJavaException_state[OF assms, of "''QuickJs instance was closed''"]
    throwJavaException_state[OF assms, of "''Invalid JavaScript object''"]
  by (simp add: closed_def valid_channel_def QuickJs_getInboundCallChannel_def QuickJs_setOutboundCallChannel_def QuickJs_execute_def
      QuickJs_compile_def QuickJs_setInterruptHandler_def QuickJs_executePendingJobs_def JniCallChannel_call_def
      JniCallChannel_takeResultBuffers_def JniCallChannel_disconnect_def QuickJs_destroyContext_def QuickJs_memoryUsage_def
      QuickJs_setMemoryLimit_def QuickJs_setGcThreshold_def QuickJs_gc_def QuickJs_setMaxStackSize_def)

text \<open>An engine whose limits have no effect and that counts the live blocks.\<close>

definition base_control :: "unit engine_control" where
  "base_control = \<lparr>JS_ComputeMemoryUsage = (\<lambda>w. [word_of_int (live (mem w))]), new_MemoryUsage = (\<lambda>ns w. Some (Some (JvObject 11), w)),
     JS_SetMemoryLimit = (\<lambda>n. Some), JS_SetGCThreshold = (\<lambda>n. Some), JS_SetMaxStackSize = (\<lambda>n. Some), JS_RunGC = Some\<rparr>"

theorem closed_context_inert_witness:
  "JniCallChannel_call base_vm True None None None base_world
     = Some (None, base_world\<lparr>java_exception := Some (JvException ''java/lang/IllegalStateException'' ''Invalid JavaScript object'')\<rparr>)
   \<and> QuickJs_memoryUsage base_control False base_world
     = Some (None, base_world\<lparr>java_exception := Some (JvException ''java/lang/IllegalStateException'' ''QuickJs instance was closed'')\<rparr>)
   \<and> QuickJs_executePendingJobs 1 base_vm False base_world
     = Some (0, base_world\<lparr>java_exception := Some (JvException ''java/lang/IllegalStateException'' ''QuickJs instance was closed'')\<rparr>)"
  using closed_context_inert[where w = base_world and vm = base_vm and control = base_control and fuel = 1
      and inst = None and json = None and bufs = None]
  by (simp add: illegal_state_def base_world_def)

subsection \<open>The interrupt handler\<close>

text \<open>C22: When the interpreter polls, the Java handler runs with no handler installed, so that a poll inside it
  goes on at once; afterwards the handler is installed again, and execution stops with an exception that
  the guest cannot catch exactly when the handler says so.\<close>

theorem interrupt_poll_not_reentered:
  assumes "poll_installed w" "interrupt_handler w = Some h" "java_exception w = None"
    "jvm_call_boolean vm h ''poll'' [] (w\<lparr>poll_installed := False\<rparr>) = Some (halt, w1)" "mem_ok (mem w1)"
  shows "\<exists>w'. js_poll_interrupts_slow vm w = Some (\<not> halt, w') \<and> poll_installed w'
    \<and> (if halt then uncatchable w' \<and> current_exception w' = JObject (RError (length (errors w1))) else w' = w1\<lparr>poll_installed := True\<rparr>)
    \<and> js_poll_interrupts_slow vm (w\<lparr>poll_installed := False\<rparr>) = Some (True, w\<lparr>poll_installed := False\<rparr>)"
proof -
  have p: "jsInterruptHandlerPoll vm w = Some (halt, w1\<lparr>poll_installed := True\<rparr>)"
    using assms by (simp add: jsInterruptHandlerPoll_def JS_SetInterruptHandler_def CallBooleanMethod_def jni_def)
  obtain m' where t: "JS_ThrowError vm JS_INTERNAL_ERROR ''interrupted'' (w1\<lparr>poll_installed := True\<rparr>) = Some (JException,
       w1\<lparr>poll_installed := True, mem := m', errors := errors w1 @ [thrown_error vm JS_INTERNAL_ERROR ''interrupted'' (w1\<lparr>poll_installed := True\<rparr>)],
         current_exception := JObject (RError (length (errors w1))), uncatchable := False\<rparr>)"
    using JS_ThrowError_ok[of "w1\<lparr>poll_installed := True\<rparr>" vm JS_INTERNAL_ERROR "''interrupted''"] assms(5) by auto
  show ?thesis
    using assms(1) by (cases halt) (simp_all add: js_poll_interrupts_slow_def p JS_ThrowInterrupted_def JS_ThrowInternalError_def t)
qed

definition polling_world :: "unit world" where
  "polling_world = base_world\<lparr>interrupt_handler := Some (JvObject 9)\<rparr>"

theorem interrupt_poll_not_reentered_witness:
  "\<exists>w'. js_poll_interrupts_slow base_vm polling_world = Some (\<not> True, w') \<and> poll_installed w'
    \<and> (if True then uncatchable w' \<and> current_exception w' = JObject (RError (length (errors (polling_world\<lparr>poll_installed := False\<rparr>))))
       else w' = polling_world\<lparr>poll_installed := False\<rparr>\<lparr>poll_installed := True\<rparr>)
    \<and> js_poll_interrupts_slow base_vm (polling_world\<lparr>poll_installed := False\<rparr>) = Some (True, polling_world\<lparr>poll_installed := False\<rparr>)"
  by (rule interrupt_poll_not_reentered[where h = "JvObject 9"])
    (simp_all add: polling_world_def base_world_def base_vm_def mem_ok_def)

subsection \<open>Pending jobs\<close>





text \<open>A job that throws: its exception is fetched before \<open>throwJsException\<close> fetches it again.\<close>

lemma toJavaString_ascii:
  assumes "js_primitive_to_string vm v w = Some (JString (Str8 bs), own (JString (Str8 bs)) (w\<lparr>mem := m\<rparr>))" "\<not> JS_IsObject v"
    "\<forall>b\<in>set bs. b < 128" "3 * length bs \<le> INT32_MAX" "mem_ok m" "java_exception w = None"
  obtains m' where "mem_ok m'" "toJavaString vm v w = Some (java_text vm (Str8 bs), w\<lparr>mem := m', elements := Suc (elements w)\<rparr>)"
proof -
  obtain m' where m': "JS_ToCStringLen2 (Str8 bs) False m = (Inr (to_cstr_wide False (str_units (Str8 bs))), m')" "mem_ok m'"
    by (rule JS_ToCStringLen2_ok[of m "Str8 bs"]) (use assms(4,5) in \<open>simp_all add: str_length_def\<close>)
  let ?c = "to_cstr_wide False (str_units (Str8 bs))"
  have c: "JS_ToCString vm v w = Some (Some ?c, w\<lparr>mem := m', c_strings := Suc (c_strings w)\<rparr>)"
    using assms(1,2) m'(1) by (simp add: JS_ToCString_def JS_ToStringInternal_def own_def JS_FreeValue_def)
  have l: "length ?c \<le> INT32_MAX" using length_to_cstr_wide[of False "str_units (Str8 bs)"] assms(4) by simp
  have "toJavaString vm v w = Some (java_text vm (Str8 bs), w\<lparr>mem := m', elements := Suc (elements w)\<rparr>)"
    using toJavaString_eq[OF c _ _ l, of "c_strings w"] assms(6) by (simp add: java_text_def)
  then show thesis using that m'(2) by blast
qed

lemma new_string8_ok:
  assumes "mem_ok m" "length bs \<le> INT32_MAX"
  obtains m' where "js_new_string8_len bs m = (Inr (Str8 bs), m')" "mem_ok m'"
proof -
  obtain ok m' where r: "js_malloc m = (ok, m')" by fastforce
  then show thesis using that js_malloc_spec(2)[OF r assms(1)] assms(1)
    by (cases "bs = []") (auto simp: js_new_string8_len_def js_alloc_string_def)
qed

lemma java_text_ascii8:
  assumes "java_utf8 vm" "ascii_text s"
  shows "java_text vm (Str8 (bytes_of s)) = Some (JvString (map of_char s))"
proof -
  have "0 \<notin> set (bytes_of s)" "\<forall>b\<in>set (bytes_of s). b < 128" "take 255 s = s"
    using assms(2) ascii_byte(1,2) by (auto simp: bytes_of_def ascii_text_def)
  then have "str_units (Str8 (bytes_of s)) = utf8_units (cstr (bytes_of (take 255 s)))"
    by (simp add: cstr_no_zero utf8_units_all_ascii)
  then show ?thesis by (rule ascii_message[OF assms])
qed

lemma toJavaString_constant:
  assumes "js_primitive_to_string vm v w = Some (JString (Str8 (bytes_of s)), own (JString (Str8 (bytes_of s))) (w\<lparr>mem := m\<rparr>))"
    "\<not> JS_IsObject v" "ascii_text s" "mem_ok m" "java_exception w = None" "java_utf8 vm"
  obtains m' where "mem_ok m'" "toJavaString vm v w = Some (Some (JvString (map of_char s)), w\<lparr>mem := m', elements := Suc (elements w)\<rparr>)"
proof -
  have b: "\<forall>b\<in>set (bytes_of s). b < 128" "3 * length (bytes_of s) \<le> INT32_MAX"
    using assms(3) ascii_byte(2) by (auto simp: bytes_of_def ascii_text_def INT32_MAX_def)
  show thesis
    by (rule toJavaString_ascii[OF assms(1,2) b assms(4,5)]) (use java_text_ascii8[OF assms(6,3)] that in simp)
qed

definition no_message :: string where "no_message = ''[unsupported type]''"
definition no_stack :: string where "no_stack = ''undefined''"

lemma ascii_constants: "ascii_text no_message" "ascii_text no_stack"
  by (simp_all add: ascii_text_def no_message_def no_stack_def)

lemma throwJsException_uninitialized:
  assumes "current_exception w = JUninitialized" "java_exception w = None" "user_opaque w = None" "mem_ok (mem w)" "java_utf8 vm"
  obtains m e where "throwJsException vm w = Some (w\<lparr>mem := m, elements := e,
     java_exception := Some (JvQuickJsException (Some (JvString (map of_char no_message))) (Some (JvString (map of_char no_stack))))\<rparr>)"
proof -
  have 2: "JS_GetException w = Some (JUninitialized, w)" using assms(1) by (simp add: JS_GetException_def own_def)
  have 3: "JS_GetPropertyStr vm JUninitialized p w = Some (JUndefined, w)" for p w
    by (simp add: JS_GetPropertyStr_def JS_NewAtom_hold JS_GetProperty_def JS_GetPropertyInternal_def js_atoms.release_acquire)
  have "length (bytes_of no_message) \<le> INT32_MAX" by (simp add: bytes_of_def INT32_MAX_def no_message_def)
  then obtain m3 where m3: "js_new_string8_len (bytes_of no_message) (mem w) = (Inr (Str8 (bytes_of no_message)), m3)" "mem_ok m3"
    by (rule new_string8_ok[OF assms(4)])
  have p: "js_primitive_to_string vm JUninitialized w
      = Some (JString (Str8 (bytes_of no_message)), own (JString (Str8 (bytes_of no_message))) (w\<lparr>mem := m3\<rparr>))"
    using m3(1) by (simp add: js_primitive_to_string_def js_string_value_def no_message_def)
  obtain m4 where m4: "mem_ok m4" "toJavaString vm JUninitialized w
      = Some (Some (JvString (map of_char no_message)), w\<lparr>mem := m4, elements := Suc (elements w)\<rparr>)"
    by (rule toJavaString_constant[OF p _ ascii_constants(1) m3(2) assms(2,5)]) (simp_all add: JS_IsObject_def)
  define w3 where "w3 = w\<lparr>mem := m4, elements := Suc (elements w)\<rparr>"
  have w3: "java_exception w3 = None" "user_opaque w3 = None" "w3 = w3\<lparr>mem := m4\<rparr>" using assms(2,3) by (simp_all add: w3_def)
  have q: "js_primitive_to_string vm JUndefined w3
      = Some (JString (Str8 (bytes_of no_stack)), own (JString (Str8 (bytes_of no_stack))) (w3\<lparr>mem := m4\<rparr>))"
    using w3(3) by (simp add: js_primitive_to_string_def no_stack_def)
  obtain m5 where m5: "mem_ok m5" "toJavaString vm JUndefined w3
      = Some (Some (JvString (map of_char no_stack)), w3\<lparr>mem := m5, elements := Suc (elements w3)\<rparr>)"
    by (rule toJavaString_constant[OF q _ ascii_constants(2) m4(1) w3(1) assms(5)]) (simp_all add: JS_IsObject_def)
  have "throwJsException vm w = Some (w3\<lparr>mem := m5, elements := Suc (elements w3), user_opaque := None,
     java_exception := Some (JvQuickJsException (Some (JvString (map of_char no_message))) (Some (JvString (map of_char no_stack))))\<rparr>)"
    using m4(2) w3 m5(2) by (simp add: throwJsException_def 2 3 w3_def[symmetric] JS_FreeValue_def JS_GetContextOpaque_def
        JS_SetContextOpaque_def jni_def Throw_def)
  moreover have "w3\<lparr>mem := m5, elements := x, user_opaque := None, java_exception := y\<rparr>
      = w\<lparr>mem := m5, elements := x, java_exception := y\<rparr>" for x y
    using assms(3) by (simp add: w3_def)
  ultimately show thesis using that by simp
qed

lemma job_throws:
  assumes "job_list w = (f, args) # rest" "vm_job vm f args (w\<lparr>job_list := rest\<rparr>) = Some (JException, w1)"
    "mem_ok (mem w1)" "java_exception w1 = None" "user_opaque w1 = None" "java_utf8 vm"
  shows "\<exists>w'. executePendingJobs_loop (Suc n) vm k w = Some (- 1, w') \<and> job_list w' = job_list w1 \<and> owned w' = owned w1
     \<and> java_exception w' = Some (JvQuickJsException (Some (JvString (map of_char no_message))) (Some (JvString (map of_char no_stack))))"
proof -
  let ?e = "current_exception w1"
  define w2 where "w2 = own ?e (w1\<lparr>current_exception := JUninitialized\<rparr>)"
  have 1: "JS_GetException w1 = Some (?e, w2)" by (simp add: JS_GetException_def w2_def Let_def)
  have w2: "current_exception w2 = JUninitialized" "java_exception w2 = None" "user_opaque w2 = None" "mem_ok (mem w2)"
    using assms(3-5) by (simp_all add: w2_def own_def)
  obtain m e where t: "throwJsException vm w2 = Some (w2\<lparr>mem := m, elements := e,
     java_exception := Some (JvQuickJsException (Some (JvString (map of_char no_message))) (Some (JvString (map of_char no_stack))))\<rparr>)"
    by (rule throwJsException_uninitialized[OF w2 assms(6)])
  define w4 where "w4 = w2\<lparr>mem := m, elements := e,
     java_exception := Some (JvQuickJsException (Some (JvString (map of_char no_message))) (Some (JvString (map of_char no_stack))))\<rparr>"
  have fr: "JS_FreeValue ?e w4 = Some (w4\<lparr>owned := owned w1\<rparr>)"
    by (simp add: w4_def w2_def own_def JS_FreeValue_def)
  have "executePendingJobs_loop (Suc n) vm k w = Some (- 1, w4\<lparr>owned := owned w1\<rparr>)"
    using assms(1,2) by (simp add: JS_ExecutePendingJob_def JS_FreeValue_def[of JException] 1 t fr w4_def[symmetric])
  moreover have "job_list (w4\<lparr>owned := owned w1\<rparr>) = job_list w1" by (simp add: w4_def w2_def own_def)
  moreover have "java_exception (w4\<lparr>owned := owned w1\<rparr>)
      = Some (JvQuickJsException (Some (JvString (map of_char no_message))) (Some (JvString (map of_char no_stack))))"
    by (simp add: w4_def)
  moreover have "owned (w4\<lparr>owned := owned w1\<rparr>) = owned w1" by simp
  ultimately show ?thesis by blast
qed










text \<open>C25: When a job throws, \<open>executePendingJobs\<close> stops with -1 and leaves the jobs after it in the queue, but the Java
  exception has neither the message nor the stack of the error, whatever the error was: its message is the
  text for a value of an unsupported type.\<close>

theorem job_error_message_lost:
  assumes "job_list w = (f, args) # rest" "vm_job vm f args (w\<lparr>job_list := rest\<rparr>) = Some (JException, w1)"
    "mem_ok (mem w1)" "java_exception w1 = None" "user_opaque w1 = None" "java_utf8 vm"
  shows "\<exists>w'. executePendingJobs (Suc n) vm w = Some (- 1, w') \<and> job_list w' = job_list w1 \<and> owned w' = owned w1
     \<and> java_exception w' = Some (JvQuickJsException (Some (JvString (map of_char ''[unsupported type]'')))
                                                  (Some (JvString (map of_char ''undefined''))))"
  using job_throws[OF assms, of n 0] by (simp add: executePendingJobs_def no_message_def no_stack_def)

definition failing_vm :: "unit vm" where
  "failing_vm = base_vm\<lparr>vm_job := \<lambda>f args w. JS_ThrowTypeError base_vm ''boom'' w\<rparr>"

theorem job_error_message_lost_witness:
  "\<exists>w'. executePendingJobs (Suc 0) failing_vm (base_world\<lparr>job_list := [(0, []), (1, [])]\<rparr>) = Some (- 1, w') \<and> job_list w' = [(1, [])]
     \<and> java_exception w' = Some (JvQuickJsException (Some (JvString (map of_char ''[unsupported type]'')))
                                                  (Some (JvString (map of_char ''undefined''))))"
proof -
  let ?w = "base_world\<lparr>job_list := [(1, [])]\<rparr>"
  obtain m' where m': "mem_ok m'" "JS_ThrowError base_vm JS_TYPE_ERROR ''boom'' ?w = Some (JException,
      ?w\<lparr>mem := m', errors := errors ?w @ [thrown_error base_vm JS_TYPE_ERROR ''boom'' ?w],
         current_exception := JObject (RError (length (errors ?w))), uncatchable := False\<rparr>)"
    by (rule JS_ThrowError_ok[of ?w base_vm JS_TYPE_ERROR "''boom''"]) (simp_all add: base_world_def mem_ok_def)
  have "vm_job failing_vm 0 [] (base_world\<lparr>job_list := [(0, []), (1, [])], job_list := [(1, [])]\<rparr>)
      = JS_ThrowError base_vm JS_TYPE_ERROR ''boom'' ?w"
    by (simp add: failing_vm_def JS_ThrowTypeError_def)
  note job = this[unfolded m'(2)]
  have "job_list (base_world\<lparr>job_list := [(0, []), (1, [])]\<rparr>) = (0, []) # [(1, [])]" "java_utf8 failing_vm"
    using base_utf8(1) by (simp_all add: failing_vm_def java_utf8_def)
  from job_error_message_lost[OF this(1) job _ _ _ this(2), of 0] m'(1)
  show ?thesis by (auto simp: base_world_def)
qed

subsection \<open>Values\<close>

text \<open>A JavaScript value without cycles, and the Java object that it stands for.\<close>

datatype js_tree = TNull | TBool bool | TInt u32 | TDouble u64 | TText jsstr | TArray "js_tree list"

fun represents :: "js_array list \<Rightarrow> js_tree \<Rightarrow> jsval \<Rightarrow> bool" where
  "represents A TNull v = (v = JNull \<or> v = JUndefined)"
| "represents A (TBool b) v = (v = JBool b)"
| "represents A (TInt i) v = (v = JInt i)"
| "represents A (TDouble d) v = (v = JFloat64 d)"
| "represents A (TText s) v = (v = JString s \<and> 3 * str_length s \<le> INT32_MAX)"
| "represents A (TArray ts) v =
     (case v of
        JObject (RArray a) \<Rightarrow>
          a < length A \<and> array_length (A ! a) = length ts \<and> length ts \<le> INT32_MAX
          \<and> list_all2 (represents A) ts (fast_values (A ! a))
      | _ \<Rightarrow> False)"

fun tree_depth :: "js_tree \<Rightarrow> nat" where
  "tree_depth (TArray ts) = Suc (Max (insert 0 (set (map tree_depth ts))))"
| "tree_depth _ = 0"

fun java_of :: "'h vm \<Rightarrow> js_tree \<Rightarrow> jobj option" where
  "java_of vm TNull = None"
| "java_of vm (TBool b) = Some (JvBoolean b)"
| "java_of vm (TInt i) = Some (JvInteger i)"
| "java_of vm (TDouble d) = Some (JvDouble d)"
| "java_of vm (TText s) = java_text vm s"
| "java_of vm (TArray ts) = Some (JvArray (map (java_of vm) ts))"

text \<open>The world up to the allocator and the element buffers of strings that became Java strings.\<close>

definition string_residue :: "'h world \<Rightarrow> 'h world \<Rightarrow> bool" where
  "string_residue w w' \<longleftrightarrow> (\<exists>m e. mem_ok m \<and> w' = w\<lparr>mem := m, elements := e\<rparr>)"

lemma string_residue_trans [trans]: "string_residue w1 w2 \<Longrightarrow> string_residue w2 w3 \<Longrightarrow> string_residue w1 w3"
proof -
  assume a: "string_residue w1 w2" "string_residue w2 w3"
  obtain m e where 1: "w2 = w1\<lparr>mem := m, elements := e\<rparr>" using a(1) unfolding string_residue_def by blast
  obtain m' e' where 2: "mem_ok m'" "w3 = w2\<lparr>mem := m', elements := e'\<rparr>" using a(2) unfolding string_residue_def by blast
  have "w3 = w1\<lparr>mem := m', elements := e'\<rparr>" using 1 2(2) by simp
  then show ?thesis using 2(1) unfolding string_residue_def by blast
qed

lemma tree_depth_elem: "t \<in> set ts \<Longrightarrow> tree_depth t < tree_depth (TArray ts)"
  by (simp add: le_imp_less_Suc)


lemma string_residue_facts:
  assumes "string_residue w w'"
  shows "arrays w' = arrays w" "java_exception w' = java_exception w" "mem_ok (mem w')" "owned w' = owned w" "c_strings w' = c_strings w"
  using assms by (auto simp: string_residue_def)

lemma string_residue_own:
  assumes "string_residue (own v w) w'"
  obtains w'' where "JS_FreeValue v w' = Some w''" "string_residue w w''"
proof -
  obtain m e where w': "mem_ok m" "w' = (own v w)\<lparr>mem := m, elements := e\<rparr>" using assms unfolding string_residue_def by blast
  have "w' = own v (w\<lparr>mem := m, elements := e\<rparr>)" using w'(2) by (simp add: own_def)
  then have "JS_FreeValue v w' = Some (w\<lparr>mem := m, elements := e\<rparr>)" by (simp add: js_refs.release_acquire)
  moreover have "string_residue w (w\<lparr>mem := m, elements := e\<rparr>)" using w'(1) unfolding string_residue_def by blast
  ultimately show thesis using that by blast
qed

lemma to_java_elements_tree:
  assumes "\<And>t v w. t \<in> set ts \<Longrightarrow> represents A t v \<Longrightarrow> arrays w = A \<Longrightarrow> java_exception w = None \<Longrightarrow> mem_ok (mem w)
      \<Longrightarrow> \<exists>w'. conv v w = Some (java_of vm t, w') \<and> string_residue w w'"
    "a < length A" "i + length ts = length (fast_values (A ! a))" "length (fast_values (A ! a)) \<le> INT32_MAX"
    "list_all2 (represents A) ts (drop i (fast_values (A ! a)))" "length xs = i + length ts"
    "arrays w = A" "java_exception w = None" "mem_ok (mem w)"
  shows "\<exists>w'. to_java_elements vm conv (JObject (RArray a)) i (length ts) (Some xs) w = Some (Some (take i xs @ map (java_of vm) ts), w')
     \<and> string_residue w w'"
  using assms
proof (induction ts arbitrary: i xs w)
  case Nil
  have "w = w\<lparr>mem := mem w, elements := elements w\<rparr>" by simp
  then have "string_residue w w" using Nil.prems(9) unfolding string_residue_def by blast
  then show ?case using Nil by simp
next
  case (Cons t ts)
  let ?v = "fast_values (A ! a) ! i"
  have i: "i < length (fast_values (A ! a))" using Cons.prems(3) by simp
  have d: "drop i (fast_values (A ! a)) = ?v # drop (Suc i) (fast_values (A ! a))" using i by (rule Cons_nth_drop_Suc[symmetric])
  have tv: "represents A t ?v" "list_all2 (represents A) ts (drop (Suc i) (fast_values (A ! a)))" using Cons.prems(5) unfolding d by simp_all
  have 1: "JS_GetPropertyUint32 vm (JObject (RArray a)) i w = Some (?v, own ?v w)"
    using i Cons.prems(2,4,7) by (simp add: JS_GetPropertyUint32_def JS_GetProperty_def JS_GetPropertyInternal_def find_own_property_def
        JS_DupValue_def JS_ATOM_MAX_INT_def INT32_MAX_def)
  have ow: "arrays (own ?v w) = A" "java_exception (own ?v w) = None" "mem_ok (mem (own ?v w))" using Cons.prems(7-9) by (simp_all add: own_def)
  obtain w1 where w1: "conv ?v (own ?v w) = Some (java_of vm t, w1)" "string_residue (own ?v w) w1"
    using Cons.prems(1)[OF _ tv(1) ow] by auto
  have j1: "java_exception w1 = None" using string_residue_facts(2)[OF w1(2)] ow(2) by simp
  obtain w2 where w2: "JS_FreeValue ?v w1 = Some w2" "string_residue w w2" by (rule string_residue_own[OF w1(2)])
  note f2 = string_residue_facts[OF w2(2)]
  have s: "SetObjectArrayElement (Some xs) i (java_of vm t) w1 = Some (Some (xs[i := java_of vm t]), w1)"
    using Cons.prems(6) j1 by (simp add: SetObjectArrayElement_def jni_def wr_def)
  have "\<exists>w'. to_java_elements vm conv (JObject (RArray a)) (Suc i) (length ts) (Some (xs[i := java_of vm t])) w2
      = Some (Some (take (Suc i) (xs[i := java_of vm t]) @ map (java_of vm) ts), w') \<and> string_residue w2 w'"
    by (rule Cons.IH) (use Cons.prems tv f2 in simp_all)
  moreover have "take (Suc i) (xs[i := java_of vm t]) = take i xs @ [java_of vm t]"
    using Cons.prems(6) by (simp add: take_Suc_conv_app_nth)
  ultimately obtain w' where "to_java_elements vm conv (JObject (RArray a)) (Suc i) (length ts) (Some (xs[i := java_of vm t])) w2
      = Some (Some (take i xs @ map (java_of vm) (t # ts)), w')" "string_residue w2 w'" by auto
  then show ?case using Cons.prems(8) j1 by (auto simp: ExceptionCheck_def 1 w1(1) s w2(1) intro: string_residue_trans[OF w2(2)])
qed

text \<open>C10: A JavaScript value made of null, booleans, integers, doubles, strings and arrays of such values becomes the
  Java object of the same shape, elements in order; the C++ code keeps no reference to any part of it.\<close>

theorem values_to_java:
  assumes "represents (arrays w) t v" "tree_depth t < depth" "java_exception w = None" "mem_ok (mem w)"
  shows "\<exists>w'. toJavaObject depth vm v b w = Some (java_of vm t, w') \<and> java_exception w' = None
     \<and> owned w' = owned w \<and> c_strings w' = c_strings w"
proof -
  have "\<exists>w'. toJavaObject depth vm v b w = Some (java_of vm t, w') \<and> string_residue w w'"
    if "represents A t v" "tree_depth t < depth" "arrays w = A" "java_exception w = None" "mem_ok (mem w)" for A t v b and w :: "'a world"
    using that
  proof (induction depth arbitrary: t v b w)
    case (Suc depth)
    have "w = w\<lparr>mem := mem w, elements := elements w\<rparr>" by simp
    then have self: "string_residue w w" using Suc.prems(5) unfolding string_residue_def by blast
    show ?case
    proof (cases t)
      case (TText s)
      have v: "v = JString s" "3 * str_length s \<le> INT32_MAX" using Suc.prems(1) TText by simp_all
      obtain m' where m': "mem_ok m'" "toJavaString vm (JString s) w = Some (java_text vm s, w\<lparr>mem := m', elements := Suc (elements w)\<rparr>)"
        by (rule toJavaString_string[OF Suc.prems(5) v(2) Suc.prems(4)]) (simp add: java_text_def)
      then have "string_residue w (w\<lparr>mem := m', elements := Suc (elements w)\<rparr>)" unfolding string_residue_def by blast
      then show ?thesis using m'(2) v(1) TText by simp
    next
      case (TArray ts)
      obtain a where a: "v = JObject (RArray a)" "a < length A" "array_length (A ! a) = length ts" "length ts \<le> INT32_MAX"
        "list_all2 (represents A) ts (fast_values (A ! a))"
        using Suc.prems(1) TArray by (auto split: jsval.splits jsref.splits)
      have l: "length ts = length (fast_values (A ! a))" using a(5) by (rule list_all2_lengthD)
      have e: "\<exists>w'. to_java_elements vm (\<lambda>element. toJavaObject depth vm element True) v 0 (length ts) (Some (replicate (length ts) None)) w
          = Some (Some (take 0 (replicate (length ts) None) @ map (java_of vm) ts), w') \<and> string_residue w w'"
        unfolding a(1)
      proof (rule to_java_elements_tree)
        fix t' v' and w' :: "'a world"
        assume t': "t' \<in> set ts" "represents A t' v'" "arrays w' = A" "java_exception w' = None" "mem_ok (mem w')"
        have "tree_depth t' < depth" using tree_depth_elem[OF t'(1)] Suc.prems(2) unfolding TArray by linarith
        then show "\<exists>w''. toJavaObject depth vm v' True w' = Some (java_of vm t', w'') \<and> string_residue w' w''"
          using Suc.IH t' by blast
      qed (use a l Suc.prems in simp_all)
      have n: "JS_GetPropertyStr vm v ''length'' w = Some (JInt (of_nat (length ts)), w)"
        using JS_GetPropertyStr_own[of "''length''" vm "RArray a" w "JInt (word_of_nat (length ts))"] Suc.prems(3) a(1,2,3,4)
        by (simp add: find_own_property_def JS_NewUint32_def own_def)
      have s: "sint (of_nat (length ts) :: u32) = int (length ts)" using a(4) by (rule sint_small)
      obtain w' where w': "to_java_elements vm (\<lambda>element. toJavaObject depth vm element True) v 0 (length ts) (Some (replicate (length ts) None)) w
          = Some (Some (map (java_of vm) ts), w')" "string_residue w w'" using e by auto
      have "toJavaObject (Suc depth) vm v b w = Some (java_of vm t, w')"
        using w'(1) n s Suc.prems(4) unfolding TArray a(1)
        by (simp del: of_nat_Suc add: JS_IsArray_def JS_VALUE_GET_INT_def JS_FreeValue_def NewObjectArray_def jni_def)
      then show ?thesis using w'(2) by blast
    next
      case TNull
      then show ?thesis using Suc.prems(1) self by auto
    next
      case (TBool c)
      then show ?thesis using Suc.prems(1,4) self by (simp add: value_of_def jni_def)
    next
      case (TInt i)
      then show ?thesis using Suc.prems(1,4) self by (simp add: value_of_def jni_def)
    next
      case (TDouble d)
      then show ?thesis using Suc.prems(1,4) self by (simp add: value_of_def jni_def)
    qed
  qed simp
  then obtain w' where w': "toJavaObject depth vm v b w = Some (java_of vm t, w')" "string_residue w w'"
    using assms by blast
  then show ?thesis using string_residue_facts(2,4,5)[OF w'(2)] assms(3) by simp
qed

definition tree_world :: "unit world" where
  "tree_world = base_world\<lparr>arrays := [\<lparr>fast_values = [JInt 7, JObject (RArray 1), JUndefined], array_length = 3\<rparr>,
     \<lparr>fast_values = [JBool True, JString (Str8 [0x68, 0x69])], array_length = 2\<rparr>]\<rparr>"

theorem values_to_java_witness:
  "\<exists>w'. toJavaObject 3 base_vm (JObject (RArray 0)) False tree_world
      = Some (java_of (base_vm :: unit vm) (TArray [TInt 7, TArray [TBool True, TText (Str8 [0x68, 0x69])], TNull]), w')
     \<and> java_exception w' = None \<and> owned w' = owned tree_world \<and> c_strings w' = c_strings tree_world"
proof -
  have "represents (arrays tree_world) (TArray [TInt 7, TArray [TBool True, TText (Str8 [0x68, 0x69])], TNull]) (JObject (RArray 0))"
    "tree_depth (TArray [TInt 7, TArray [TBool True, TText (Str8 [0x68, 0x69])], TNull]) < 3"
    "java_exception tree_world = None" "mem_ok (mem tree_world)"
    by (simp_all add: tree_world_def base_world_def mem_ok_def INT32_MAX_def str_length_def)
  from values_to_java[OF this, of base_vm False] show ?thesis .
qed

text \<open>
  An array whose first element is the array itself: the conversion follows the element into the same array, for
  every bound on the depth of the recursion, so that the stack of the process is exhausted.
\<close>

lemma cyclic_array_never_returns:
  assumes "a < length (arrays w)" "fast_values (arrays w ! a) = JObject (RArray a) # vs"
    "array_length (arrays w ! a) = Suc (length vs)" "Suc (length vs) \<le> INT32_MAX" "java_exception w = None"
  shows "toJavaObject depth vm (JObject (RArray a)) b w = None"
  using assms
proof (induction depth arbitrary: b w)
  case (Suc depth)
  have n: "JS_GetPropertyStr vm (JObject (RArray a)) ''length'' w = Some (JInt (word_of_nat (Suc (length vs))), w)"
    using JS_GetPropertyStr_own[of "''length''" vm "RArray a" w "JInt (word_of_nat (Suc (length vs)))"] Suc.prems
    by (simp add: find_own_property_def JS_NewUint32_def own_def)
  have s: "sint (word_of_nat (Suc (length vs)) :: u32) = int (Suc (length vs))" using Suc.prems(4) by (rule sint_small)
  have e: "JS_GetPropertyUint32 vm (JObject (RArray a)) 0 w = Some (JObject (RArray a), own (JObject (RArray a)) w)"
    using Suc.prems by (simp add: JS_GetPropertyUint32_def JS_GetProperty_def JS_GetPropertyInternal_def find_own_property_def
        JS_DupValue_def JS_ATOM_MAX_INT_def)
  have "toJavaObject depth vm (JObject (RArray a)) True (own (JObject (RArray a)) w) = None"
    by (rule Suc.IH) (use Suc.prems in \<open>simp_all add: own_def\<close>)
  then have "to_java_elements vm (\<lambda>element. toJavaObject depth vm element True) (JObject (RArray a)) 0 (Suc (length vs)) r w = None" for r
    using Suc.prems(5) by (simp add: ExceptionCheck_def e)
  then show ?case using s Suc.prems(5)
    by (simp del: to_java_elements.simps of_nat_Suc add: JS_IsArray_def n JS_VALUE_GET_INT_def JS_FreeValue_def NewObjectArray_def jni_def nat_int)
qed simp

subsection \<open>The life of a context\<close>

text \<open>The sample engine, with a guest that forwards, and a runtime on which one reference is held by others.\<close>

lemma base_vm_accounted: "guest_accounted base_vm"
  by (auto simp: guest_accounted_def guest_keeps_def base_vm_def own_def JS_FreeValue_def kept_def)

lemma forwarding_vm_accounted: "guest_accounted (forwarding_vm base_vm :: unit vm)"
proof -
  have "kept (accounted G A) (Outbound_call base_vm v vs w)" if "accounted G A w" for G A v vs and w :: "unit world"
    using accounts.Outbound_kept(1)[of base_vm G A w v vs] that 
    by (simp add: balanced_kept balanced_def base_vm_accounted)
  then show ?thesis using base_vm_accounted[where ?'a = unit] by (simp add: guest_accounted_def guest_keeps_def forwarding_vm_def)
qed

definition base_newf :: "(jsval, unit) action" where
  "base_newf w = Some (JObject (ROther 3), own (JObject (ROther 3)) w)"

definition base_runtime :: "unit world" where
  "base_runtime = base_world\<lparr>channels := [], global_refs := {#JvObject 100#}\<rparr>"

lemma base_newf_accounted: "native_function_accounted base_newf"
  by (simp add: native_function_accounted_def base_newf_def own_def)

lemma base_context: "\<exists>w. new_Context (installFinalizationRegistry (forwarding_vm base_vm) [] base_newf) base_runtime = Some w"
  by (simp add: new_Context_def new_atoms_eq installFinalizationRegistry_def compileAndExecuteJs_def declare_newFinalizer_def
      forwarding_vm_def base_vm_def base_newf_def base_runtime_def base_world_def JS_SetInterruptHandler_def js_malloc_def
      NewGlobalRef_def jni_def JS_GetGlobalObject_def JS_DupValue_def JS_FreeValue_def own_def JS_NewAtom_def JS_FreeAtom_def Let_def)

lemma base_reachable:
  obtains w where "context_reachable (forwarding_vm base_vm) [] base_newf base_runtime w"
  using base_context context_reachable.created by blast

lemma base_runtime: "fresh_runtime base_runtime" "global_refs base_runtime = {#JvObject 100#}" "atoms base_runtime = {#}"
  by (simp_all add: fresh_runtime_def base_runtime_def base_world_def)

text \<open>C6: In every state that a context reaches, whatever entry points are called in whatever order, the global
  references of the JNI that it uses are held besides those of others, and the atoms are exactly those of others
  and its own, as long as guest code keeps the account.\<close>

theorem context_resources_accounted:
  assumes "context_reachable vm js newf w0 w" "fresh_runtime w0" "guest_accounted vm" "native_function_accounted newf"
  shows "accounted (global_refs w0) (atoms w0) w"
  using reachable_accounted[OF assms] .

theorem context_resources_accounted_witness:
  "\<exists>w. context_reachable (forwarding_vm base_vm) [] base_newf base_runtime w \<and> accounted {#JvObject 100#} {#} w"
proof -
  obtain w where w: "context_reachable (forwarding_vm base_vm) [] base_newf base_runtime w" by (rule base_reachable)
  then show ?thesis
    using context_resources_accounted[OF w base_runtime(1) forwarding_vm_accounted base_newf_accounted] by (auto simp: base_runtime)
qed

text \<open>C7: Destroying a context releases nothing that is not held, in any reachable state: the destructor
  returns, all atoms of the context are freed, and of the global references those that others hold are left. A
  Java exception that the guest caught is not released.\<close>

theorem destroyed_context_releases_once:
  assumes "context_reachable vm js newf w0 w" "fresh_runtime w0" "guest_accounted vm" "native_function_accounted newf"
  shows "\<exists>w'. QuickJs_destroyContext True w = Some w' \<and> atoms w' = atoms w0
    \<and> global_refs w0 + optional_ref (user_opaque w) \<subseteq># global_refs w'"
  using delete_Context_held[OF reachable_accounted[OF assms]] by (auto simp: QuickJs_destroyContext_def)

theorem destroyed_context_releases_once_witness:
  "\<exists>w w'. context_reachable (forwarding_vm base_vm) [] base_newf base_runtime w \<and> QuickJs_destroyContext True w = Some w'
     \<and> atoms w' = {#} \<and> JvObject 100 \<in># global_refs w'"
proof -
  obtain w where w: "context_reachable (forwarding_vm base_vm) [] base_newf base_runtime w" by (rule base_reachable)
  then show ?thesis
    using destroyed_context_releases_once[OF w base_runtime(1) forwarding_vm_accounted base_newf_accounted]
    by (auto simp: base_runtime insert_subset_eq_iff)
qed

end
