(* ===== verification/FinalizerProps.thy ===== *)
theory FinalizerProps
  imports Finalizer
begin

text \<open>
  What the finalization registry promises, as a map from targets to their last callback, and the refinement
  proof for the registry with its numbered finalizers.
\<close>

subsection \<open>The specification\<close>

text \<open>
  A target has at most one callback. It runs when the target is collected, and also when another callback is
  registered for the target, because the property with the first finalizer is overwritten.
\<close>

fun finalized :: "(nat \<Rightarrow> ('f \<times> 'v) option) \<Rightarrow> ('f, 'v) registry_event list \<Rightarrow> ('f \<times> 'v) list" where
  "finalized m [] = []"
| "finalized m (Register f t v # es) = (case m t of None \<Rightarrow> [] | Some c \<Rightarrow> [c]) @ finalized (m(t \<mapsto> (f, v))) es"
| "finalized m (Collect t # es) = (case m t of None \<Rightarrow> [] | Some c \<Rightarrow> [c]) @ finalized (m(t := None)) es"

text \<open>The callbacks that the finalizers of the targets stand for.\<close>

definition callbacks :: "('f, 'v) registry \<Rightarrow> nat \<Rightarrow> ('f \<times> 'v) option" where
  "callbacks r t = (case finalizer_of r t of None \<Rightarrow> None | Some i \<Rightarrow> id_to_function r i)"

text \<open>Ids that fit 32 bits, with a function for each finalizer.\<close>

definition registry_ok :: "('f, 'v) registry \<Rightarrow> bool" where
  "registry_ok r \<longleftrightarrow> global_live r \<and> \<not> pending_error r \<and> 1 \<le> next_id r
     \<and> (\<forall>t i. finalizer_of r t = Some i \<longrightarrow> i < next_id r \<and> id_to_function r i \<noteq> None)"

lemma int32_id_small: "0 \<le> i \<Longrightarrow> i < 2147483648 \<Longrightarrow> int32_id i = i"
  by (simp add: int32_id_def sint_uint uint_word_of_int signed_take_bit_int_eq_self take_bit_int_eq_self)

lemma collected_ok:
  assumes "registry_ok r" "finalizer_of r t = Some i" "id_to_function r i = Some c"
  shows "jsFinalizerCollected i r = r\<lparr>ran := ran r @ [c]\<rparr>"
  using assms by (simp add: jsFinalizerCollected_def enqueueFinalizer_def registry_ok_def)

lemma with_ran: "registry_ok (r\<lparr>ran := l\<rparr>) = registry_ok r" "callbacks (r\<lparr>ran := l\<rparr>) = callbacks r"
  by (auto simp: registry_ok_def callbacks_def fun_eq_iff split: option.split)

lemma registry_step_ok:
  assumes "registry_ok r" "next_id r < 2147483648"
  shows "registry_ok (registry_step e r)" "next_id (registry_step e r) \<le> next_id r + 1"
    "ran (registry_step e r) @ finalized (callbacks (registry_step e r)) es = ran r @ finalized (callbacks r) (e # es)"
proof -
  have "registry_ok (registry_step e r) \<and> next_id (registry_step e r) \<le> next_id r + 1
    \<and> ran (registry_step e r) @ finalized (callbacks (registry_step e r)) es = ran r @ finalized (callbacks r) (e # es)"
  proof (cases e)
    case (Register f t v)
    have i: "int32_id (next_id r) = next_id r" using int32_id_small[of "next_id r"] assms by (simp add: registry_ok_def)
    let ?r = "r\<lparr>next_id := next_id r + 1, id_to_function := (id_to_function r)(next_id r := Some (f, v)),
       finalizer_of := (finalizer_of r)(t := Some (next_id r))\<rparr>"
    have ok: "registry_ok ?r" using assms(1) by (fastforce simp: registry_ok_def)
    have c: "callbacks ?r = (callbacks r)(t \<mapsto> (f, v))"
      using assms(1) by (fastforce simp: callbacks_def registry_ok_def fun_eq_iff split: option.split)
    show ?thesis
    proof (cases "finalizer_of r t")
      case None
      then have "registry_step e r = ?r" by (simp add: Register register_def Let_def i)
      then show ?thesis using ok c None Register by (simp add: callbacks_def)
    next
      case (Some k)
      then obtain x where x: "id_to_function r k = Some x" "k \<noteq> next_id r" using assms(1) by (fastforce simp: registry_ok_def)
      have "registry_step e r = ?r\<lparr>ran := ran r @ [x]\<rparr>"
        using ok x Some by (simp add: Register register_def Let_def i jsFinalizerCollected_def enqueueFinalizer_def registry_ok_def)
      moreover have "registry_ok (?r\<lparr>ran := ran r @ [x]\<rparr>)" "callbacks (?r\<lparr>ran := ran r @ [x]\<rparr>) = callbacks ?r"
        using ok by (simp_all only: with_ran)
      ultimately show ?thesis using c Some x(1) Register by (simp add: callbacks_def)
    qed
  next
    case (Collect t)
    let ?r = "r\<lparr>finalizer_of := (finalizer_of r)(t := None)\<rparr>"
    have ok: "registry_ok ?r" using assms(1) by (simp add: registry_ok_def)
    have c: "callbacks ?r = (callbacks r)(t := None)" by (simp add: callbacks_def fun_eq_iff split: option.split)
    show ?thesis
    proof (cases "finalizer_of r t")
      case None
      moreover have "(callbacks r)(t := None) = callbacks r" using None by (simp add: callbacks_def fun_eq_iff)
      ultimately show ?thesis using assms by (simp add: Collect collect_target_def callbacks_def)
    next
      case (Some k)
      then obtain x where x: "id_to_function r k = Some x" using assms(1) by (fastforce simp: registry_ok_def)
      have "registry_step e r = ?r\<lparr>ran := ran r @ [x]\<rparr>"
        using ok x Some by (simp add: Collect collect_target_def jsFinalizerCollected_def enqueueFinalizer_def registry_ok_def)
      moreover have "registry_ok (?r\<lparr>ran := ran r @ [x]\<rparr>)" "callbacks (?r\<lparr>ran := ran r @ [x]\<rparr>) = callbacks ?r"
        using ok by (simp_all only: with_ran)
      ultimately show ?thesis using c Some x Collect by (simp add: callbacks_def)
    qed
  qed
  then show "registry_ok (registry_step e r)" "next_id (registry_step e r) \<le> next_id r + 1"
    "ran (registry_step e r) @ finalized (callbacks (registry_step e r)) es = ran r @ finalized (callbacks r) (e # es)"
    by blast+
qed

lemma run_registry_ok:
  assumes "registry_ok r" "next_id r + int (length es) \<le> 2147483648"
  shows "registry_ok (run_registry es r) \<and> ran (run_registry es r) = ran r @ finalized (callbacks r) es"
  using assms
proof (induction es arbitrary: r)
  case (Cons e es)
  have n: "next_id r < 2147483648" using Cons.prems(2) by simp
  note s = registry_step_ok[OF Cons.prems(1) n, of e]
  have "registry_ok (run_registry es (registry_step e r)) \<and> ran (run_registry es (registry_step e r))
      = ran (registry_step e r) @ finalized (callbacks (registry_step e r)) es"
    by (rule Cons.IH[OF s(1)]) (use s(2) Cons.prems(2) in simp)
  then show ?case using s(3)[of es] by (simp add: run_registry_def)
qed (simp add: run_registry_def)

text \<open>C11: From an empty registry, and for fewer events than the ids have positive numbers, the callbacks that run are
  those of the specification, in its order: each runs once, with the value it was registered with, when its target is
  collected or registered anew; no lookup of a callback fails.\<close>

theorem finalizers_refine_map:
  fixes es :: "('f, 'v) registry_event list"
  assumes "length es < 2147483647"
  shows "ran (run_registry es empty_registry) = finalized (\<lambda>_. None) es \<and> \<not> pending_error (run_registry es empty_registry)"
proof -
  let ?e = "empty_registry :: ('f, 'v) registry"
  have "registry_ok ?e" "callbacks ?e = (\<lambda>_. None)" "ran ?e = []" "next_id ?e = 1"
    by (simp_all add: registry_ok_def callbacks_def fun_eq_iff empty_registry_def)
  then have "registry_ok (run_registry es empty_registry) \<and> ran (run_registry es empty_registry) = finalized (\<lambda>_. None) es"
    using run_registry_ok[of empty_registry es] assms by simp
  then show ?thesis by (simp add: registry_ok_def)
qed

theorem finalizers_refine_map_witness:
  "ran (run_registry [Register CHR ''f'' 7 True, Register CHR ''g'' 8 False, Register CHR ''h'' 7 False, Collect 8, Collect 7] empty_registry)
     = finalized (\<lambda>_. None) [Register CHR ''f'' 7 True, Register CHR ''g'' 8 False, Register CHR ''h'' 7 False, Collect 8, Collect 7]
   \<and> \<not> pending_error (run_registry [Register CHR ''f'' 7 True, Register CHR ''g'' 8 False, Register CHR ''h'' 7 False, Collect 8, Collect 7] empty_registry)"
  by (rule finalizers_refine_map) simp

end
